(* ===== verification/Hq_Types.thy ===== *)
theory Hq_Types
  imports BH_Prelude
begin

text \<open>
  The HQ storage port: values, outcomes and errors
  (\<^verbatim>\<open>packages/beadhive-hq-storage/src/beadhive_hq_storage/_types.py\<close>, \<^verbatim>\<open>_errors.py\<close>) and the helpers
  the in-memory stores share (\<^verbatim>\<open>_fake.py\<close>, first part): argument checks, the canonical JSON
  body, revision minting, the fault plan, \<^verbatim>\<open>_settle\<close>, and the walk over the commit graph.

  \<^item> A revision and an operation id are strings, compared by equality only.
  \<^item> The digest behind a revision (\<^verbatim>\<open>hashlib.sha256(..).hexdigest()\<close>) and behind a minted
    operation id (\<^verbatim>\<open>uuid.uuid5\<close>) are functions kept in the mint: theorems about freshness name
    what they need of them.
  \<^item> An instant is its microseconds since the epoch in UTC; \<^verbatim>\<open>Naive\<close> is a reading of the injected
    clock that is not an aware \<^verbatim>\<open>datetime\<close>.
  \<^item> A JSON body holds no floats (no body of the program does); \<open>JUnsupported\<close> stands for any
    value \<^verbatim>\<open>json.dumps\<close> refuses.
  \<^item> \<open>KeyError\<close> is Python's own; \<open>Diverges\<close> is the history walk that never ends.
\<close>

type_synonym revision = string
type_synonym operation_id = string
type_synonym instant = int

section \<open>Errors, kinds and outcomes\<close>

datatype storage_error =
    StorageUnavailable
  | NotProvisioned
  | CapabilityUnsupported
  | InvalidRequest
  | IntegrityViolation
  | KeyError
  | Diverges

datatype record_kind = PLACEMENT | FAILOVER_POLICY | AUTHORITY

datatype stream_kind = INBOX | RECEIPT | REPORT

datatype liveness_kind = SESSION | EVIDENCE

definition update_only_kinds :: "record_kind set" where
  "update_only_kinds = {PLACEMENT}"

datatype json_value =
    JNull
  | JBool bool
  | JInt int
  | JStr string
  | JArr "json_value list"
  | JObj "(string \<times> json_value) list"
  | JUnsupported

record versioned =
  v_key :: string
  v_revision :: revision
  v_body :: json_value

datatype expectation = ABSENT | At revision

datatype unknown_reason = Deadline | Transport | Commit

datatype outcome =
    Applied revision operation_id
  | Conflict "versioned option"
  | Unknown operation_id expectation unknown_reason

datatype lookup_outcome =
    Confirmed operation_id revision instant
  | NotConfirmed operation_id

fun is_applied :: "outcome \<Rightarrow> bool" where
  "is_applied (Applied r oid) = True"
| "is_applied (Conflict v) = False"
| "is_applied (Unknown oid ex why) = False"

section \<open>Argument checks\<close>

datatype clock_reading = Aware instant | Naive

fun now_of :: "clock_reading \<Rightarrow> storage_error + instant" where
  "now_of (Aware t) = Inr t"
| "now_of Naive = Inl IntegrityViolation"

definition max_key_len :: nat where
  "max_key_len = 255"

definition check_key :: "string \<Rightarrow> storage_error + string" where
  "check_key key = (if key = [] \<or> length key > max_key_len then Inl InvalidRequest else Inr key)"

definition lower_hex :: "char \<Rightarrow> bool" where
  "lower_hex c \<longleftrightarrow> c \<in> set ''0123456789abcdef''"

definition canonical_uuid :: "string \<Rightarrow> bool" where
  "canonical_uuid s \<longleftrightarrow> length s = 36 \<and>
     (\<forall>i \<in> set [0..<36]. if i \<in> {8, 13, 18, 23} then s ! i = CHR ''-'' else lower_hex (s ! i))"

definition check_operation :: "operation_id \<Rightarrow> storage_error + operation_id" where
  "check_operation oid = (if canonical_uuid oid then Inr oid else Inl InvalidRequest)"

lemma check_key_Inr: "check_key key = Inr k \<longleftrightarrow> k = key \<and> key \<noteq> [] \<and> length key \<le> 255"
  by (auto simp: check_key_def max_key_len_def)

lemma check_operation_Inr: "check_operation oid = Inr o' \<longleftrightarrow> o' = oid \<and> canonical_uuid oid"
  by (auto simp: check_operation_def)

section \<open>Canonical JSON bodies\<close>

text \<open>
  \<^verbatim>\<open>json.dumps(body, sort_keys=True, separators=(",", ":"), allow_nan=False)\<close> with its default
  ASCII escaping, and the value \<^verbatim>\<open>json.loads\<close> reads back: the same value with the members of
  every object in key order.
\<close>

definition hex_digit :: "nat \<Rightarrow> char" where
  "hex_digit d = ''0123456789abcdef'' ! d"

definition escape_char :: "char \<Rightarrow> string" where
  "escape_char c =
     (let n = of_char c :: nat in
      if n = 34 then [CHR 0x5C, c]
      else if n = 92 then [c, c]
      else if n = 10 then [CHR 0x5C, CHR ''n'']
      else if n = 13 then [CHR 0x5C, CHR ''r'']
      else if n = 9 then [CHR 0x5C, CHR ''t'']
      else if n = 12 then [CHR 0x5C, CHR ''f'']
      else if n = 8 then [CHR 0x5C, CHR ''b'']
      else if n < 32 \<or> n > 126 then CHR 0x5C # ''u00'' @ [hex_digit (n div 16), hex_digit (n mod 16)]
      else [c])"

definition quote_string :: "string \<Rightarrow> string" where
  "quote_string s = CHR 0x22 # concat (map escape_char s) @ [CHR 0x22]"

fun join_comma :: "string list \<Rightarrow> string" where
  "join_comma [] = []"
| "join_comma [x] = x"
| "join_comma (x # xs) = x @ '','' @ join_comma xs"

primrec sort_members :: "json_value \<Rightarrow> json_value" where
  "sort_members JNull = JNull"
| "sort_members (JBool b) = JBool b"
| "sort_members (JInt i) = JInt i"
| "sort_members (JStr s) = JStr s"
| "sort_members (JArr vs) = JArr (map sort_members vs)"
| "sort_members (JObj ms) = JObj (sort_key fst (map (map_prod id sort_members) ms))"
| "sort_members JUnsupported = JUnsupported"

primrec dumps :: "json_value \<Rightarrow> string option" where
  "dumps JNull = Some ''null''"
| "dumps (JBool b) = Some (if b then ''true'' else ''false'')"
| "dumps (JInt i) = Some (int_str i)"
| "dumps (JStr s) = Some (quote_string s)"
| "dumps (JArr vs) = map_option (\<lambda>ts. ''['' @ join_comma ts @ '']'') (those (map dumps vs))"
| "dumps (JObj ms) =
     map_option (\<lambda>ts. ''{'' @ join_comma ts @ ''}'')
       (those (map (\<lambda>(k, r). map_option (\<lambda>t. quote_string k @ '':'' @ t) r)
          (map (map_prod id dumps) ms)))"
| "dumps JUnsupported = None"

definition canonical :: "json_value \<Rightarrow> int \<Rightarrow> storage_error + json_value" where
  "canonical body cap =
     (case body of
        JObj ms \<Rightarrow>
          (case dumps (sort_members body) of
             None \<Rightarrow> Inl InvalidRequest
           | Some text \<Rightarrow> if int (length text) > cap then Inl InvalidRequest
                          else Inr (sort_members body))
      | _ \<Rightarrow> Inl InvalidRequest)"

text \<open>
  Python's \<^verbatim>\<open>==\<close> on two canonical bodies: \<^verbatim>\<open>True == 1\<close>, and dictionaries compare member by member
  (both sides have their members in key order).
\<close>

fun number_of :: "json_value \<Rightarrow> int option" where
  "number_of (JBool b) = Some (if b then 1 else 0)"
| "number_of (JInt i) = Some i"
| "number_of _ = None"

primrec json_eq :: "json_value \<Rightarrow> json_value \<Rightarrow> bool" where
  "json_eq JNull w = (w = JNull)"
| "json_eq (JBool b) w = (number_of w = Some (if b then 1 else 0))"
| "json_eq (JInt i) w = (number_of w = Some i)"
| "json_eq (JStr s) w = (w = JStr s)"
| "json_eq (JArr vs) w =
     (case w of JArr ws \<Rightarrow> list_all2 (\<lambda>f x. f x) (map json_eq vs) ws | _ \<Rightarrow> False)"
| "json_eq (JObj ms) w =
     (case w of
        JObj ns \<Rightarrow> list_all2 (\<lambda>f x. fst f = fst x \<and> snd f (snd x)) (map (map_prod id json_eq) ms) ns
      | _ \<Rightarrow> False)"
| "json_eq JUnsupported w = False"

lemma sort_key_id: "sorted (map f xs) \<Longrightarrow> sort_key f xs = xs"
  by (induction xs) (auto simp: insort_is_Cons)

lemma sort_members_idem [simp]: "sort_members (sort_members v) = sort_members v"
proof (induction v)
  case (JArr vs)
  then show ?case by (simp cong: map_cong)
next
  case (JObj ms)
  let ?g = "map_prod id sort_members"
  let ?s = "sort_key fst (map ?g ms)"
  have "?g m = m" if "m \<in> set ?s" for m
  proof -
    from that obtain n where n: "n \<in> set ms" and m: "m = ?g n" by auto
    have "sort_members (sort_members (snd n)) = sort_members (snd n)"
      using JObj [of n "snd n"] n by (cases n) (auto simp: snds.simps)
    with m show ?thesis by (cases n) simp
  qed
  then have fixed: "map ?g ?s = ?s" by (rule map_idI)
  have "sort_members (sort_members (JObj ms)) = JObj (sort_key fst (map ?g ?s))" by simp
  also have "\<dots> = JObj (sort_key fst ?s)" by (simp only: fixed)
  also have "\<dots> = JObj ?s" using sort_key_id [OF sorted_sort_key [of fst "map ?g ms"]] by (rule arg_cong)
  also have "\<dots> = sort_members (JObj ms)" by simp
  finally show ?case .
qed simp_all

lemma canonical_Inr:
  "canonical body cap = Inr c \<longleftrightarrow>
     (\<exists>ms text. body = JObj ms \<and> dumps (sort_members body) = Some text \<and>
        int (length text) \<le> cap \<and> c = sort_members body)"
  by (auto simp: canonical_def split: json_value.splits option.splits)

lemma canonical_idem:
  assumes "canonical body cap = Inr c"
  shows "canonical c cap = Inr c"
proof -
  from assms obtain ms out where
    body: "body = JObj ms" "dumps (sort_members body) = Some out" "int (length out) \<le> cap"
    and c: "c = sort_members body"
    unfolding canonical_Inr by blast
  from body c have "\<exists>ns. c = JObj ns" by simp
  moreover from c have "sort_members c = c" by (simp only: sort_members_idem)
  ultimately show ?thesis using body c unfolding canonical_Inr by metis
qed

lemma those_None: "those xs = None \<longleftrightarrow> None \<in> set xs"
  by (induction xs) (auto split: option.splits)

lemma json_eq_refl: "dumps v \<noteq> None \<Longrightarrow> json_eq v v"
proof (induction v)
  case (JArr vs)
  have "json_eq v v" if "v \<in> set vs" for v
  proof -
    from JArr.prems have "None \<notin> dumps ` set vs" by (simp add: those_None)
    with that have "dumps v \<noteq> None" by (metis image_eqI)
    with that show ?thesis by (rule JArr.IH)
  qed
  then show ?case by (simp add: list.rel_map list.rel_refl_strong)
next
  case (JObj ms)
  have "json_eq (snd m) (snd m)" if m: "m \<in> set ms" for m
  proof -
    obtain k v where kv: "m = (k, v)" by (cases m)
    have "dumps v \<noteq> None"
    proof
      assume "dumps v = None"
      with m kv have "None \<in> set (map (\<lambda>(k, r). map_option (\<lambda>t. quote_string k @ '':'' @ t) r)
          (map (map_prod id dumps) ms))"
        by (auto simp: image_image intro!: image_eqI [of _ _ "(k, v)"])
      with JObj.prems show False by (simp add: those_None [THEN iffD2])
    qed
    with JObj.IH [of m v] m kv show ?thesis by (simp add: snds.simps)
  qed
  then show ?case by (simp add: list.rel_map list.rel_refl_strong)
qed simp_all

lemma canonical_eq_refl: "canonical body cap = Inr c \<Longrightarrow> json_eq c c"
  unfolding canonical_Inr by (elim exE conjE) (simp only: json_eq_refl option.distinct simp_thms)

section \<open>Minting\<close>

record mint =
  mint_namespace :: string
  mint_n :: nat
  mint_sha256 :: "string \<Rightarrow> string"
  mint_uuid5 :: "string \<Rightarrow> string"

definition mint_text :: "mint \<Rightarrow> nat \<Rightarrow> string" where
  "mint_text m n = mint_namespace m @ CHR 0x00 # nat_str n"

definition mint_revision :: "mint \<Rightarrow> revision \<times> mint" where
  "mint_revision m =
     (let n = Suc (mint_n m) in (mint_sha256 m (mint_text m n), m\<lparr>mint_n := n\<rparr>))"

definition mint_operation :: "mint \<Rightarrow> operation_id \<times> mint" where
  "mint_operation m =
     (let n = Suc (mint_n m) in
      (mint_uuid5 m (mint_namespace m @ ''/'' @ nat_str n), m\<lparr>mint_n := n\<rparr>))"

text \<open>The revisions a mint has issued so far, and what freshness needs of the digest.\<close>

definition issued :: "mint \<Rightarrow> revision set" where
  "issued m = (\<lambda>n. mint_sha256 m (mint_text m n)) ` {1..mint_n m}"

definition collision_free :: "mint \<Rightarrow> bool" where
  "collision_free m \<longleftrightarrow> inj (\<lambda>n. mint_sha256 m (mint_text m n))"

lemma mint_text_inject [simp]: "mint_text m a = mint_text m b \<longleftrightarrow> a = b"
  by (simp add: mint_text_def)

lemma collision_free_inj: "inj (mint_sha256 m) \<Longrightarrow> collision_free m"
  unfolding collision_free_def inj_def by (metis mint_text_inject)

lemma mint_revision_fresh:
  "collision_free m \<Longrightarrow> mint_revision m = (r, m') \<Longrightarrow> r \<notin> issued m"
  by (auto simp: mint_revision_def issued_def collision_free_def Let_def dest: injD)

lemma mint_revision_issued:
  "mint_revision m = (r, m') \<Longrightarrow> issued m' = insert r (issued m)"
  by (auto simp: mint_revision_def issued_def Let_def mint_text_def atLeastAtMostSuc_conv)

lemma mint_revision_collision_free:
  "mint_revision m = (r, m') \<Longrightarrow> collision_free m' = collision_free m"
  by (auto simp: mint_revision_def collision_free_def Let_def mint_text_def)

lemma mint_operation_issued:
  "mint_operation m = (oid, m') \<Longrightarrow> issued m \<subseteq> issued m'"
  by (auto simp: mint_operation_def issued_def Let_def mint_text_def image_iff)

lemma mint_operation_collision_free:
  "mint_operation m = (oid, m') \<Longrightarrow> collision_free m' = collision_free m"
  by (auto simp: mint_operation_def collision_free_def Let_def mint_text_def)

lemmas mint_facts =
  mint_revision_fresh mint_revision_issued mint_revision_collision_free
  mint_operation_issued mint_operation_collision_free

section \<open>Faults\<close>

datatype fault_kind = UnknownFault | UnavailableFault

record fault =
  f_kind :: fault_kind
  f_on :: "string option"
  f_reason :: unknown_reason
  f_applied :: bool

definition arm_unknown :: "unknown_reason \<Rightarrow> bool \<Rightarrow> string option \<Rightarrow> fault list \<Rightarrow> fault list" where
  "arm_unknown why applied on armed =
     armed @ [\<lparr>f_kind = UnknownFault, f_on = on, f_reason = why, f_applied = applied\<rparr>]"

definition arm_unavailable :: "string option \<Rightarrow> fault list \<Rightarrow> fault list" where
  "arm_unavailable on armed =
     armed @ [\<lparr>f_kind = UnavailableFault, f_on = on, f_reason = Commit, f_applied = False\<rparr>]"

definition clear_faults :: "fault list \<Rightarrow> fault list" where
  "clear_faults armed = []"

definition pending_faults :: "fault list \<Rightarrow> nat" where
  "pending_faults armed = length armed"

fun take_fault :: "string \<Rightarrow> bool \<Rightarrow> fault list \<Rightarrow> (storage_error + fault option) \<times> fault list" where
  "take_fault meth unknown_ok [] = (Inr None, [])"
| "take_fault meth unknown_ok (f # fs) =
     (if f_on f \<notin> {None, Some meth} \<or> (f_kind f = UnknownFault \<and> \<not> unknown_ok)
      then (case take_fault meth unknown_ok fs of (r, fs') \<Rightarrow> (r, f # fs'))
      else if f_kind f = UnavailableFault then (Inl StorageUnavailable, fs)
      else (Inr (Some f), fs))"

lemma take_fault_none: "take_fault meth ok fs = (Inr None, fs') \<Longrightarrow> fs' = fs"
  by (induction fs arbitrary: fs') (auto split: if_splits prod.splits)

lemma take_fault_error: "take_fault meth ok fs = (Inl e, fs') \<Longrightarrow> e = StorageUnavailable"
  by (induction fs arbitrary: fs') (auto split: if_splits prod.splits)

lemma take_fault_shrinks:
  "take_fault meth ok fs = (r, fs') \<Longrightarrow> r \<noteq> Inr None \<Longrightarrow> length fs = Suc (length fs')"
  by (induction fs arbitrary: fs') (auto split: if_splits prod.splits)

lemma take_fault_quiet: "take_fault meth False fs = (Inr x, fs') \<Longrightarrow> x = None"
  by (induction fs arbitrary: fs') (auto split: if_splits prod.splits intro: fault_kind.exhaust)

text \<open>
  \<^verbatim>\<open>_settle\<close>: the computed outcome, or the fault's \<^verbatim>\<open>Unknown\<close> with the write kept or rolled back.
\<close>

definition settle ::
  "fault option \<Rightarrow> outcome \<Rightarrow> operation_id \<Rightarrow> expectation \<Rightarrow> ('s \<Rightarrow> 's) \<Rightarrow> 's \<Rightarrow> outcome \<times> 's"
where
  "settle fault outcome oid expected rollback st =
     (case fault of
        None \<Rightarrow> (outcome, st)
      | Some f \<Rightarrow>
          (Unknown oid expected (f_reason f),
           if is_applied outcome \<and> \<not> f_applied f then rollback st else st))"

lemma settle_None [simp]: "settle None outc oid ex rb st = (outc, st)"
  by (simp add: settle_def)

lemma settle_outcome_cases:
  assumes "settle fault outc oid ex rb st = (outc', st')"
  obtains (kept) "fault = None" "outc' = outc" "st' = st"
    | (lost) f where "fault = Some f" "outc' = Unknown oid ex (f_reason f)"
        "st' = (if is_applied outc \<and> \<not> f_applied f then rb st else st)"
  using assms by (cases fault) (auto simp: settle_def)

lemma applied_run:
  assumes "case fst p of Inr (Applied r oid) \<Rightarrow> True | _ \<Rightarrow> False"
  obtains r oid where "p = (Inr (Applied r oid), snd p)"
  using assms by (cases p) (auto split: sum.splits outcome.splits)

end
