(* ===== verification/Commit_Graph.thy ===== *)
theory Commit_Graph
  imports Hq_Types
begin

text \<open>
  The commit graph both in-memory stores keep (\<^verbatim>\<open>_chain\<close> and \<^verbatim>\<open>_sync_counts\<close> of \<^verbatim>\<open>_fake.py\<close>):
  a dictionary from revisions to commits, each with an optional parent. The dictionary is only
  read and written by key, so a new commit is put in front of the association list and
  \<open>map_of\<close> sees it first.

  The walk \<open>chain\<close> follows parents until there is none. Its fuel is the number of commits:
  \<open>chain_complete\<close> shows that no walk that ends at all needs more, so \<open>Diverges\<close> is
  exactly the endless loop; \<open>lineage\<close> is the relational specification of the walk.
  \<open>graph_ok\<close> is the invariant the stores keep: every parent is an older commit.
\<close>

type_synonym 'c commits = "(revision \<times> 'c) list"

fun walk :: "('c \<Rightarrow> revision option) \<Rightarrow> nat \<Rightarrow> 'c commits \<Rightarrow> revision option
    \<Rightarrow> storage_error + revision list" where
  "walk par fuel cs None = Inr []"
| "walk par 0 cs (Some h) = Inl Diverges"
| "walk par (Suc fuel) cs (Some h) =
     (case map_of cs h of
        None \<Rightarrow> Inl KeyError
      | Some c \<Rightarrow> and_then (walk par fuel cs (par c)) (\<lambda>rs. Inr (h # rs)))"

definition chain :: "('c \<Rightarrow> revision option) \<Rightarrow> 'c commits \<Rightarrow> revision option
    \<Rightarrow> storage_error + revision list" where
  "chain par cs head = walk par (length cs) cs head"

definition sync_counts :: "('c \<Rightarrow> revision option) \<Rightarrow> 'c commits \<Rightarrow> revision \<Rightarrow> revision
    \<Rightarrow> storage_error + nat \<times> nat" where
  "sync_counts par cs local remote =
     and_then (chain par cs (Some local)) (\<lambda>local_chain.
     and_then (chain par cs (Some remote)) (\<lambda>remote_chain.
       let ahead = length (takeWhile (\<lambda>rev. rev \<notin> set remote_chain) local_chain);
           behind = (if ahead < length local_chain
                     then length (takeWhile (\<lambda>rev. rev \<noteq> local_chain ! ahead) remote_chain)
                     else length remote_chain)
       in Inr (ahead, behind)))"

section \<open>The walk and its specification\<close>

inductive lineage :: "('c \<Rightarrow> revision option) \<Rightarrow> 'c commits \<Rightarrow> revision \<Rightarrow> revision list \<Rightarrow> bool"
  for par :: "'c \<Rightarrow> revision option" and cs :: "'c commits" where
  root: "map_of cs h = Some c \<Longrightarrow> par c = None \<Longrightarrow> lineage par cs h [h]"
| child: "map_of cs h = Some c \<Longrightarrow> par c = Some p \<Longrightarrow> lineage par cs p rs
     \<Longrightarrow> lineage par cs h (h # rs)"

inductive_simps lineage_iff: "lineage par cs h rs"

lemma lineage_hd: "lineage par cs h rs \<Longrightarrow> \<exists>rest. rs = h # rest"
  by (cases rule: lineage.cases) auto

lemma lineage_keys: "lineage par cs h rs \<Longrightarrow> set rs \<subseteq> fst ` set cs"
  by (induction rule: lineage.induct) (auto dest: map_of_SomeD')

lemma lineage_fun: "lineage par cs h rs \<Longrightarrow> lineage par cs h rs' \<Longrightarrow> rs' = rs"
proof (induction arbitrary: rs' rule: lineage.induct)
  case (root h c)
  then show ?case by (auto elim: lineage.cases)
next
  case (child h c p rs)
  from child.prems child.hyps(1,2) obtain ps where "rs' = h # ps" "lineage par cs p ps"
    by (auto elim: lineage.cases)
  with child.IH show ?case by simp
qed

lemma lineage_suffix:
  "lineage par cs h rs \<Longrightarrow> rs = xs @ r # ys \<Longrightarrow> lineage par cs r (r # ys)"
proof (induction arbitrary: xs rule: lineage.induct)
  case (root h c)
  then show ?case by (cases xs) (auto intro: lineage.root)
next
  case (child h c p rs)
  show ?case
  proof (cases xs)
    case Nil
    with child show ?thesis by (auto intro: lineage.child)
  next
    case (Cons x xs')
    with child.prems have "rs = xs' @ r # ys" by simp
    then show ?thesis by (rule child.IH)
  qed
qed

lemma lineage_member:
  assumes "lineage par cs h rs" "r \<in> set rs"
  shows "\<exists>ys. lineage par cs r ys \<and> set ys \<subseteq> set rs"
proof -
  from split_list [OF assms(2)] obtain xs ys where rs: "rs = xs @ r # ys" by blast
  with lineage_suffix [OF assms(1)] have "lineage par cs r (r # ys)" .
  with rs show ?thesis by (intro exI [of _ "r # ys"]) auto
qed

lemma lineage_distinct:
  assumes "lineage par cs h rs"
  shows "distinct rs"
proof (rule ccontr)
  assume "\<not> distinct rs"
  then obtain xs ys zs r where rs: "rs = xs @ [r] @ ys @ [r] @ zs"
    using not_distinct_decomp by blast
  then have "lineage par cs r (r # ys @ r # zs)" "lineage par cs r (r # zs)"
    using lineage_suffix [OF assms, of xs r "ys @ r # zs"]
      lineage_suffix [OF assms, of "xs @ r # ys" r zs] by simp_all
  then have "r # ys @ r # zs = r # zs" using lineage_fun by blast
  then have "length (ys @ r # zs) = length zs" by simp
  then show False by simp
qed

lemma lineage_length: "lineage par cs h rs \<Longrightarrow> length rs \<le> length cs"
proof -
  assume l: "lineage par cs h rs"
  have "length rs = card (set rs)" using lineage_distinct [OF l] by (simp add: distinct_card)
  also have "\<dots> \<le> card (fst ` set cs)" using lineage_keys [OF l] by (intro card_mono) auto
  also have "\<dots> \<le> card (set cs)" by (rule card_image_le) simp
  also have "\<dots> \<le> length cs" by (rule card_length)
  finally show ?thesis .
qed

lemma walk_lineage: "walk par n cs (Some h) = Inr rs \<Longrightarrow> lineage par cs h rs"
proof (induction n arbitrary: h rs)
  case 0
  then show ?case by simp
next
  case (Suc n)
  then obtain c rest where c: "map_of cs h = Some c" and rest: "walk par n cs (par c) = Inr rest"
    and rs: "rs = h # rest"
    by (auto simp: and_then_eq_Inr split: option.splits)
  then show ?case
    by (cases "par c") (auto intro: lineage.intros Suc.IH)
qed

lemma lineage_walk: "lineage par cs h rs \<Longrightarrow> length rs \<le> n \<Longrightarrow> walk par n cs (Some h) = Inr rs"
proof (induction arbitrary: n rule: lineage.induct)
  case (root h c)
  then show ?case by (cases n) simp_all
next
  case (child h c p rs)
  then show ?case by (cases n) simp_all
qed

lemma chain_iff_lineage: "chain par cs (Some h) = Inr rs \<longleftrightarrow> lineage par cs h rs"
  unfolding chain_def using walk_lineage lineage_walk lineage_length by blast

lemma chain_complete:
  "walk par n cs (Some h) = Inr rs \<Longrightarrow> chain par cs (Some h) = Inr rs"
  by (simp add: chain_iff_lineage walk_lineage)

section \<open>Well-formed graphs\<close>

fun graph_ok :: "('c \<Rightarrow> revision option) \<Rightarrow> 'c commits \<Rightarrow> bool" where
  "graph_ok par [] = True"
| "graph_ok par ((r, c) # older) =
     (r \<notin> fst ` set older \<and>
      (case par c of None \<Rightarrow> True | Some p \<Rightarrow> p \<in> fst ` set older) \<and> graph_ok par older)"

lemma lineage_older:
  "lineage par cs h rs \<Longrightarrow> graph_ok par ((r, c) # cs) \<Longrightarrow> lineage par ((r, c) # cs) h rs"
proof (induction rule: lineage.induct)
  case (root h d)
  then have "h \<noteq> r" by (auto dest: map_of_SomeD')
  with root show ?case by (auto intro: lineage.root)
next
  case (child h d p rs)
  then have "h \<noteq> r" by (auto dest: map_of_SomeD')
  with child show ?case by (auto intro: lineage.child)
qed

lemma graph_ok_lineage: "graph_ok par cs \<Longrightarrow> h \<in> fst ` set cs \<Longrightarrow> \<exists>rs. lineage par cs h rs"
proof (induction par cs arbitrary: h rule: graph_ok.induct)
  case (1 par)
  then show ?case by simp
next
  case (2 par r c older)
  have older: "\<exists>rs. lineage par ((r, c) # older) k rs" if "k \<in> fst ` set older" for k
    using "2.IH" [of k] "2.prems"(1) that lineage_older [of par older k _ r c] by auto
  show ?case
  proof (cases "h = r")
    case False
    with "2.prems"(2) older show ?thesis by auto
  next
    case True
    then have m: "map_of ((r, c) # older) h = Some c" by simp
    show ?thesis
    proof (cases "par c")
      case None
      with m show ?thesis by (blast intro: lineage.root)
    next
      case (Some p)
      with "2.prems"(1) older [of p] obtain rs where "lineage par ((r, c) # older) p rs" by auto
      with m Some show ?thesis by (blast intro: lineage.child)
    qed
  qed
qed

lemma graph_ok_chain:
  "graph_ok par cs \<Longrightarrow> h \<in> fst ` set cs \<Longrightarrow> \<exists>rs. chain par cs (Some h) = Inr rs"
  by (simp add: chain_iff_lineage graph_ok_lineage)

lemma chain_older:
  assumes "graph_ok par ((r, c) # cs)" "h \<in> fst ` set cs"
  shows "chain par ((r, c) # cs) (Some h) = chain par cs (Some h)"
proof -
  from assms obtain rs where "lineage par cs h rs" using graph_ok_lineage by (metis graph_ok.simps(2))
  with assms(1) lineage_older show ?thesis by (metis chain_iff_lineage)
qed

lemma chain_new_child:
  assumes "graph_ok par ((r, c) # cs)" "par c = Some p" "chain par cs (Some p) = Inr ps"
  shows "chain par ((r, c) # cs) (Some r) = Inr (r # ps)"
proof -
  from assms have "lineage par ((r, c) # cs) p ps" by (simp add: chain_iff_lineage lineage_older)
  moreover have "map_of ((r, c) # cs) r = Some c" by simp
  ultimately show ?thesis using assms(2) unfolding chain_iff_lineage by (blast intro: lineage.child)
qed

lemma chain_hd: "chain par cs (Some h) = Inr rs \<Longrightarrow> \<exists>rest. rs = h # rest"
  by (simp add: chain_iff_lineage lineage_hd)

lemma chain_self: "chain par cs (Some h) = Inr rs \<Longrightarrow> h \<in> set rs"
  by (auto dest: chain_hd)

lemma chain_keys: "chain par cs (Some h) = Inr rs \<Longrightarrow> set rs \<subseteq> fst ` set cs"
  by (simp add: chain_iff_lineage lineage_keys)

section \<open>Ahead and behind\<close>

text \<open>
  Two heads on one line of history: the counts are \<open>0\<close> behind and the distance ahead (or the
  other way round), and equal heads count \<open>0\<close> and \<open>0\<close>.
\<close>

lemma takeWhile_notin_hd: "xs = h # rest \<Longrightarrow> h \<in> A \<Longrightarrow> takeWhile (\<lambda>x. x \<notin> A) xs = []"
  by simp

lemma sync_counts_ff:
  assumes "chain par cs (Some local) = Inr (new @ remote # old)"
    and "chain par cs (Some remote) = Inr (remote # old)"
  shows "sync_counts par cs local remote = Inr (length new, 0)"
proof -
  have dist: "distinct (new @ remote # old)"
    using assms(1) unfolding chain_iff_lineage by (rule lineage_distinct)
  then have "takeWhile (\<lambda>rev. rev \<notin> set (remote # old)) (new @ remote # old) = new"
    by (subst takeWhile_append2) auto
  with assms show ?thesis by (simp add: sync_counts_def Let_def nth_append)
qed

lemma sync_counts_same:
  assumes "chain par cs (Some h) = Inr rs"
  shows "sync_counts par cs h h = Inr (0, 0)"
proof -
  from chain_hd [OF assms] obtain old where "rs = [] @ h # old" by auto
  with assms sync_counts_ff [of par cs h "[]" h old] show ?thesis by simp
qed

lemma sync_counts_total:
  assumes "graph_ok par cs" "l \<in> fst ` set cs" "r \<in> fst ` set cs"
  shows "\<exists>ahead behind. sync_counts par cs l r = Inr (ahead, behind)"
  using graph_ok_chain [OF assms(1,2)] graph_ok_chain [OF assms(1,3)]
  by (auto simp: sync_counts_def Let_def)

section \<open>Growing graphs\<close>

lemma graph_ok_append: "graph_ok par (new @ cs) \<Longrightarrow> graph_ok par cs"
  by (induction new) (auto split: option.splits)

lemma lineage_grows: "graph_ok par (new @ cs) \<Longrightarrow> lineage par cs h rs \<Longrightarrow> lineage par (new @ cs) h rs"
proof (induction new)
  case (Cons rc new)
  obtain r c where rc: "rc = (r, c)" by (cases rc)
  with Cons.prems(1) have "graph_ok par (new @ cs)" by (simp split: option.splits)
  with Cons have "lineage par (new @ cs) h rs" by blast
  with Cons.prems(1) show ?case by (simp only: rc append_Cons) (rule lineage_older)
qed simp

lemma chain_grows:
  assumes "graph_ok par (new @ cs)" "chain par cs (Some h) = Inr rs"
  shows "chain par (new @ cs) (Some h) = Inr rs"
  using assms by (simp add: chain_iff_lineage lineage_grows)

lemma chain_suffix:
  assumes "chain par cs (Some h) = Inr rs" "r \<in> set rs"
  obtains new old where "rs = new @ r # old" "chain par cs (Some r) = Inr (r # old)"
proof -
  from split_list [OF assms(2)] obtain new old where rs: "rs = new @ r # old" by blast
  with assms(1) have "lineage par cs r (r # old)"
    unfolding chain_iff_lineage by (blast intro: lineage_suffix)
  with rs show thesis by (intro that) (simp_all add: chain_iff_lineage)
qed

end
