(* ===== verification/Hq_State.thy ===== *)
theory Hq_State
  imports Commit_Graph
begin

text \<open>
  The state of \<^verbatim>\<open>InMemoryHqStorage\<close> (\<^verbatim>\<open>_fake.py\<close>) and its construction, provisioning and test
  controls. Every method of the class is a function from the state to the returned value (or the
  raised error) and the state it leaves. The injected clock appears as the reading the method
  gets when it asks: no method asks twice.

  The operations of the port are in \<open>Hq_Records\<close> (versioned records), \<open>Hq_Log\<close> (append log and
  liveness) and \<open>Hq_History\<close> (committed history); \<open>Hq_System\<close> puts them together as a step
  relation with its invariant.
\<close>

record hq_record =
  r_versioned :: versioned
  r_operation :: operation_id
  r_at :: instant

record log_entry =
  e_seq :: nat
  e_versioned :: versioned
  e_operation :: operation_id
  e_at :: instant

record hq_commit =
  c_revision :: revision
  c_parent :: "revision option"
  c_snapshot :: "(string \<times> string) list"
  c_operation :: "operation_id option"
  c_at :: instant
  c_author :: string
  c_message :: string

type_synonym slot = "record_kind \<times> string"

record hq_storage =
  st_cap :: int
  st_consistent :: bool
  st_identity :: string
  st_mint :: mint
  st_faults :: "fault list"
  st_records :: "(slot \<times> hq_record) list"
  st_streams :: "stream_kind \<Rightarrow> (string \<times> log_entry) list"
  st_cursors :: "(revision \<times> stream_kind \<times> nat) list"
  st_seq :: nat
  st_live :: "((liveness_kind \<times> string) \<times> instant \<times> json_value option) list"
  st_capabilities :: "(string \<times> nat) list"
  st_commits :: "hq_commit commits"
  st_local :: revision
  st_remote :: revision
  st_reachable :: bool
  st_publications :: "operation_id set"

definition default_max_body_bytes :: int where
  "default_max_body_bytes = 64 * 1024"

definition init_storage ::
  "clock_reading \<Rightarrow> bool \<Rightarrow> int \<Rightarrow> string \<Rightarrow> (string \<Rightarrow> string) \<Rightarrow> (string \<Rightarrow> string)
     \<Rightarrow> storage_error + hq_storage"
where
  "init_storage clk consistent cap identity sha256 uuid5 =
     (case mint_revision \<lparr>mint_namespace = identity, mint_n = 0, mint_sha256 = sha256,
                          mint_uuid5 = uuid5\<rparr> of
        (rv, m) \<Rightarrow>
          and_then (now_of clk) (\<lambda>t.
            Inr \<lparr>st_cap = cap, st_consistent = consistent, st_identity = identity, st_mint = m,
                 st_faults = [], st_records = [], st_streams = (\<lambda>_. []), st_cursors = [],
                 st_seq = 0, st_live = [], st_capabilities = [],
                 st_commits =
                   [(rv, \<lparr>c_revision = rv, c_parent = None, c_snapshot = [],
                           c_operation = None, c_at = t, c_author = [],
                           c_message = ''provision''\<rparr>)],
                 st_local = rv, st_remote = rv, st_reachable = True,
                 st_publications = {}\<rparr>))"

definition provision ::
  "clock_reading \<Rightarrow> record_kind \<Rightarrow> string \<Rightarrow> json_value \<Rightarrow> hq_storage
     \<Rightarrow> (storage_error + revision) \<times> hq_storage"
where
  "provision clk kind key body st =
     (case mint_revision (st_mint st) of
        (rv, m1) \<Rightarrow>
          attempt (st\<lparr>st_mint := m1\<rparr>) (canonical body (st_cap st)) (\<lambda>c.
            (case mint_operation m1 of
               (oid, m2) \<Rightarrow>
                 attempt (st\<lparr>st_mint := m2\<rparr>) (now_of clk) (\<lambda>t.
                 attempt (st\<lparr>st_mint := m2\<rparr>) (check_key key) (\<lambda>_.
                   (Inr rv,
                    st\<lparr>st_mint := m2,
                       st_records :=
                         AList.update (kind, key)
                           \<lparr>r_versioned = \<lparr>v_key = key, v_revision = rv, v_body = c\<rparr>,
                            r_operation = oid, r_at = t\<rparr>
                           (st_records st)\<rparr>))))))"

definition set_reachable :: "bool \<Rightarrow> hq_storage \<Rightarrow> hq_storage" where
  "set_reachable reachable st = st\<lparr>st_reachable := reachable\<rparr>"

definition register_capability :: "string \<Rightarrow> nat \<Rightarrow> hq_storage \<Rightarrow> hq_storage" where
  "register_capability kind impl st =
     st\<lparr>st_capabilities := AList.update kind impl (st_capabilities st)\<rparr>"

definition capability :: "string \<Rightarrow> hq_storage \<Rightarrow> nat option" where
  "capability kind st = map_of (st_capabilities st) kind"

definition require_capability :: "string \<Rightarrow> hq_storage \<Rightarrow> storage_error + nat" where
  "require_capability kind st =
     (case capability kind st of None \<Rightarrow> Inl CapabilityUnsupported | Some c \<Rightarrow> Inr c)"

text \<open>The fault plan of one store, consumed by the method that names itself.\<close>

definition take_from :: "string \<Rightarrow> bool \<Rightarrow> hq_storage \<Rightarrow> (storage_error + fault option) \<times> hq_storage" where
  "take_from meth unknown_ok st =
     (case take_fault meth unknown_ok (st_faults st) of (r, fs) \<Rightarrow> (r, st\<lparr>st_faults := fs\<rparr>))"

text \<open>\<open>with_fault\<close> runs the rest of a method after \<^verbatim>\<open>self.faults.take(..)\<close>.\<close>

definition with_fault ::
  "string \<Rightarrow> bool \<Rightarrow> hq_storage
     \<Rightarrow> (fault option \<Rightarrow> hq_storage \<Rightarrow> (storage_error + 'a) \<times> hq_storage)
     \<Rightarrow> (storage_error + 'a) \<times> hq_storage"
where
  "with_fault meth unknown_ok st k =
     (case take_from meth unknown_ok st of (r, st1) \<Rightarrow> attempt st1 r (\<lambda>fault. k fault st1))"

lemma with_fault_cases:
  assumes "with_fault meth ok st k = (res, st')"
  obtains (unavailable) fs where "res = Inl StorageUnavailable" "st' = st\<lparr>st_faults := fs\<rparr>"
    | (runs) fault fs where "k fault (st\<lparr>st_faults := fs\<rparr>) = (res, st')"
        "take_fault meth ok (st_faults st) = (Inr fault, fs)"
proof -
  obtain r fs where t: "take_fault meth ok (st_faults st) = (r, fs)" by force
  show thesis
  proof (cases r)
    case (Inl e)
    with t assms take_fault_error [of meth ok "st_faults st" e fs] show thesis
      by (intro unavailable [of fs]) (simp_all add: with_fault_def take_from_def)
  next
    case (Inr fault)
    with t assms show thesis
      by (intro runs [of fault fs]) (simp_all add: with_fault_def take_from_def)
  qed
qed

lemma with_fault_quiet:
  "take_fault meth ok (st_faults st) = (Inr fault, fs) \<Longrightarrow>
   with_fault meth ok st k = k fault (st\<lparr>st_faults := fs\<rparr>)"
  by (simp add: with_fault_def take_from_def)

section \<open>The invariant\<close>

text \<open>
  What every method keeps, in parts that name only the fields they speak of: \<open>I\<close> is the set of
  revisions the mint has issued.
\<close>

definition records_ok :: "revision set \<Rightarrow> (slot \<times> hq_record) list \<Rightarrow> bool" where
  "records_ok I rs \<longleftrightarrow>
     distinct (map fst rs) \<and>
     (\<forall>(s, r) \<in> set rs. v_revision (r_versioned r) \<in> I \<and> v_key (r_versioned r) = snd s)"

definition entry_ok ::
  "revision set \<Rightarrow> nat \<Rightarrow> (revision \<times> stream_kind \<times> nat) list \<Rightarrow> stream_kind \<Rightarrow> string \<times> log_entry \<Rightarrow> bool"
where
  "entry_ok I n cur s ke \<longleftrightarrow>
     v_key (e_versioned (snd ke)) = fst ke \<and>
     v_revision (e_versioned (snd ke)) \<in> I \<and>
     0 < e_seq (snd ke) \<and> e_seq (snd ke) \<le> n \<and>
     map_of cur (v_revision (e_versioned (snd ke))) = Some (s, e_seq (snd ke))"

definition streams_ok ::
  "revision set \<Rightarrow> nat \<Rightarrow> (revision \<times> stream_kind \<times> nat) list
     \<Rightarrow> (stream_kind \<Rightarrow> (string \<times> log_entry) list) \<Rightarrow> bool"
where
  "streams_ok I n cur ss \<longleftrightarrow>
     fst ` set cur \<subseteq> I \<and>
     (\<forall>s. distinct (map fst (ss s)) \<and> sorted_wrt (<) (map (e_seq \<circ> snd) (ss s)) \<and>
          (\<forall>ke \<in> set (ss s). entry_ok I n cur s ke))"

definition history_ok :: "revision set \<Rightarrow> hq_commit commits \<Rightarrow> revision \<Rightarrow> revision \<Rightarrow> bool" where
  "history_ok I cs local remote \<longleftrightarrow>
     graph_ok c_parent cs \<and> fst ` set cs \<subseteq> I \<and>
     local \<in> fst ` set cs \<and> remote \<in> fst ` set cs \<and>
     (\<forall>(r, c) \<in> set cs. c_revision c = r \<and> distinct (map fst (c_snapshot c)) \<and>
        sorted (map fst (c_snapshot c)))"

text \<open>Every operation that witnesses a commit behind the local head is a recorded publication.\<close>

definition witnesses_ok :: "hq_commit commits \<Rightarrow> revision \<Rightarrow> operation_id set \<Rightarrow> bool" where
  "witnesses_ok cs local pubs \<longleftrightarrow>
     (\<forall>rs r c oid. chain c_parent cs (Some local) = Inr rs \<longrightarrow> r \<in> set rs \<longrightarrow>
        map_of cs r = Some c \<longrightarrow> c_operation c = Some oid \<longrightarrow> oid \<in> pubs)"

definition storage_ok :: "hq_storage \<Rightarrow> bool" where
  "storage_ok st \<longleftrightarrow>
     collision_free (st_mint st) \<and>
     records_ok (issued (st_mint st)) (st_records st) \<and>
     streams_ok (issued (st_mint st)) (st_seq st) (st_cursors st) (st_streams st) \<and>
     history_ok (issued (st_mint st)) (st_commits st) (st_local st) (st_remote st) \<and>
     witnesses_ok (st_commits st) (st_local st) (st_publications st)"

lemma records_ok_mono: "records_ok I rs \<Longrightarrow> I \<subseteq> J \<Longrightarrow> records_ok J rs"
  by (auto simp: records_ok_def)

lemma streams_ok_mono: "streams_ok I n cur ss \<Longrightarrow> I \<subseteq> J \<Longrightarrow> n \<le> m \<Longrightarrow> streams_ok J m cur ss"
  by (fastforce simp: streams_ok_def entry_ok_def)

lemma history_ok_mono: "history_ok I cs l r \<Longrightarrow> I \<subseteq> J \<Longrightarrow> history_ok J cs l r"
  by (auto simp: history_ok_def)

lemmas part_mono = records_ok_mono streams_ok_mono history_ok_mono

lemma storage_ok_mint_revision:
  assumes "storage_ok st" "mint_revision (st_mint st) = (r, m)"
  shows "storage_ok (st\<lparr>st_mint := m\<rparr>)" "r \<notin> issued (st_mint st)" "r \<in> issued m"
  using assms mint_facts [of "st_mint st" r m] part_mono
  by (auto simp: storage_ok_def intro: part_mono)

lemma storage_ok_mint_operation:
  assumes "storage_ok st" "mint_operation (st_mint st) = (oid, m)"
  shows "storage_ok (st\<lparr>st_mint := m\<rparr>)" "issued (st_mint st) \<subseteq> issued m"
  using assms mint_operation_issued [of "st_mint st" oid m]
    mint_operation_collision_free [of "st_mint st" oid m]
  by (auto simp: storage_ok_def intro: part_mono)

lemma storage_ok_faults [simp]: "storage_ok (st\<lparr>st_faults := fs\<rparr>) = storage_ok st"
  by (simp add: storage_ok_def)

lemma storage_ok_misc [simp]:
  "storage_ok (set_reachable b st) = storage_ok st"
  "storage_ok (register_capability kind impl st) = storage_ok st"
  by (simp_all add: storage_ok_def set_reachable_def register_capability_def)

lemma records_ok_update:
  assumes "records_ok I rs" "I \<subseteq> J" "v_revision (r_versioned r) \<in> J" "v_key (r_versioned r) = snd s"
  shows "records_ok J (AList.update s r rs)"
proof -
  have "distinct (map fst (AList.update s r rs))"
    using assms(1) by (simp add: records_ok_def distinct_update)
  moreover have "\<forall>(s', r') \<in> set (AList.update s r rs).
      v_revision (r_versioned r') \<in> J \<and> v_key (r_versioned r') = snd s'"
  proof safe
    fix k b r'
    assume "((k, b), r') \<in> set (AList.update s r rs)"
    then have "((k, b), r') = (s, r) \<or> ((k, b), r') \<in> set rs"
      by (induction rs) (auto split: if_splits)
    with assms show "v_revision (r_versioned r') \<in> J" "v_key (r_versioned r') = snd (k, b)"
      by (auto simp: records_ok_def)
  qed
  ultimately show ?thesis by (simp add: records_ok_def)
qed

lemma provision_ok: "storage_ok st \<Longrightarrow> storage_ok (snd (provision clk kind key body st))"
proof -
  assume ok: "storage_ok st"
  obtain rv m1 where m1: "mint_revision (st_mint st) = (rv, m1)" by force
  obtain oid m2 where m2: "mint_operation m1 = (oid, m2)" by force
  note step1 = storage_ok_mint_revision [OF ok m1]
  note step2 = storage_ok_mint_operation [OF step1(1), of oid m2]
  have ok2: "storage_ok (st\<lparr>st_mint := m2\<rparr>)" and sub: "issued m1 \<subseteq> issued m2"
    using step2 m2 by simp_all
  have rv: "rv \<in> issued m2" using step1(3) sub by blast
  show ?thesis
    unfolding provision_def m1 m2 prod.case
    using ok2 step1(1) rv
    by (cases "canonical body (st_cap st)"; cases "now_of clk"; cases "check_key key")
      (auto simp: storage_ok_def intro!: records_ok_update)
qed

lemma init_storage_ok:
  assumes "init_storage clk cons cap ident sha uuid = Inr st" "inj sha"
  shows "storage_ok st"
proof -
  define m0 where "m0 = \<lparr>mint_namespace = ident, mint_n = 0, mint_sha256 = sha, mint_uuid5 = uuid\<rparr>"
  obtain rv m where m: "mint_revision m0 = (rv, m)" by force
  have cf: "collision_free m0" by (rule collision_free_inj) (simp add: m0_def assms(2))
  from cf m have "collision_free m" "rv \<in> issued m"
    using mint_revision_collision_free [OF m] mint_revision_issued [OF m] by auto
  with assms(1) m show ?thesis
    by (cases "now_of clk")
      (auto simp: init_storage_def m0_def [symmetric] storage_ok_def records_ok_def streams_ok_def
        history_ok_def witnesses_ok_def chain_def split: if_splits)
qed

end
