(* ===== verification/Cas_Contract.thy ===== *)
theory Cas_Contract
  imports Hq_Types
begin

text \<open>
  The compare-and-set contract of the HQ storage port (\<^verbatim>\<open>_ports.py\<close>: \<^verbatim>\<open>VersionedRecords\<close>,
  \<^verbatim>\<open>PlacementStore\<close>, \<^verbatim>\<open>EpochRefStore\<close>) as a locale: a cell with a current token, a compare-and-set
  on it, and an environment that may run anything else in between. The laws are the documented
  ones: a successful write held its expectation and issued a fresh token; a conflict changed
  nothing; an unknown outcome left the old value or the new one.

  The client lemma is the reason placement can name one writer per epoch: in any run, however
  the attempts interleave with everything else, no expectation is satisfied twice
  (\<open>one_winner\<close>).
\<close>

fun matches :: "revision option \<Rightarrow> expectation \<Rightarrow> bool" where
  "matches current ABSENT \<longleftrightarrow> current = None"
| "matches current (At r) \<longleftrightarrow> current = Some r"

text \<open>A run: compare-and-sets in any order with anything else, the log oldest first.\<close>

inductive cas_run ::
  "('a \<Rightarrow> expectation \<Rightarrow> 's \<Rightarrow> (storage_error + outcome) \<times> 's) \<Rightarrow> ('s \<Rightarrow> 's \<Rightarrow> bool)
     \<Rightarrow> 's \<Rightarrow> (expectation \<times> (storage_error + outcome)) list \<Rightarrow> 's \<Rightarrow> bool"
  for cas env where
  idle: "cas_run cas env s [] s"
| attempted: "cas a ex s = (res, s1) \<Longrightarrow> cas_run cas env s1 log s'
     \<Longrightarrow> cas_run cas env s ((ex, res) # log) s'"
| other: "env s s1 \<Longrightarrow> cas_run cas env s1 log s' \<Longrightarrow> cas_run cas env s log s'"

definition winners :: "(expectation \<times> (storage_error + outcome)) list \<Rightarrow> expectation list" where
  "winners log = map fst (filter (\<lambda>(ex, res). case res of Inr (Applied r oid) \<Rightarrow> True | _ \<Rightarrow> False) log)"

locale cas_cell =
  fixes token :: "'s \<Rightarrow> revision option"
    and used :: "'s \<Rightarrow> revision set"
    and inv :: "'s \<Rightarrow> bool"
    and cas :: "'a \<Rightarrow> expectation \<Rightarrow> 's \<Rightarrow> (storage_error + outcome) \<times> 's"
    and env :: "'s \<Rightarrow> 's \<Rightarrow> bool"
  assumes token_used: "inv s \<Longrightarrow> token s = Some t \<Longrightarrow> t \<in> used s"
    and cas_inv: "inv s \<Longrightarrow> cas a ex s = (res, s') \<Longrightarrow> inv s' \<and> used s \<subseteq> used s'"
    and cas_applied: "inv s \<Longrightarrow> cas a ex s = (Inr (Applied r oid), s') \<Longrightarrow>
      matches (token s) ex \<and> token s' = Some r \<and> r \<notin> used s"
    and cas_conflict: "inv s \<Longrightarrow> cas a ex s = (Inr (Conflict v), s') \<Longrightarrow>
      \<not> matches (token s) ex \<and> token s' = token s"
    and cas_raised: "inv s \<Longrightarrow> cas a ex s = (Inl e, s') \<Longrightarrow> token s' = token s"
    and cas_unknown: "inv s \<Longrightarrow> cas a ex s = (Inr (Unknown oid ex' why), s') \<Longrightarrow>
      token s' = token s \<or> (\<exists>r. matches (token s) ex \<and> token s' = Some r \<and> r \<notin> used s)"
    and env_inv: "inv s \<Longrightarrow> env s s' \<Longrightarrow> inv s' \<and> used s \<subseteq> used s'"
    and env_token: "inv s \<Longrightarrow> env s s' \<Longrightarrow> token s' = token s \<or> (\<exists>r. token s' = Some r \<and> r \<notin> used s)"
begin

lemma cas_token:
  assumes "inv s" "cas a ex s = (res, s')"
  shows "token s' = token s \<or> (\<exists>r. token s' = Some r \<and> r \<notin> used s)"
proof (cases res)
  case (Inl e)
  with assms cas_raised show ?thesis by blast
next
  case (Inr outc)
  with assms show ?thesis
    by (cases outc) (blast dest: cas_applied cas_conflict cas_unknown)+
qed

text \<open>An expectation is spent once the cell has moved off it: nothing brings it back.\<close>

definition spent :: "expectation \<Rightarrow> 's \<Rightarrow> bool" where
  "spent ex s \<longleftrightarrow>
     (case ex of ABSENT \<Rightarrow> token s \<noteq> None | At t \<Rightarrow> t \<in> used s \<and> token s \<noteq> Some t)"

lemma spent_step:
  assumes "spent ex s" "used s \<subseteq> used s'"
    and "token s' = token s \<or> (\<exists>r. token s' = Some r \<and> r \<notin> used s)"
  shows "spent ex s'"
  using assms by (cases ex) (auto simp: spent_def)

lemma spent_no_match: "spent ex s \<Longrightarrow> \<not> matches (token s) ex"
  by (cases ex) (auto simp: spent_def)

lemma applied_spends:
  assumes "inv s" "cas a ex s = (Inr (Applied r oid), s')"
  shows "spent ex s'"
proof (cases ex)
  case ABSENT
  with assms cas_applied show ?thesis by (auto simp: spent_def)
next
  case (At t)
  from cas_applied [OF assms] At have t: "token s = Some t" and r: "token s' = Some r" "r \<notin> used s"
    by simp_all
  then have "t \<in> used s" using token_used assms(1) by blast
  with At r cas_inv [OF assms] show ?thesis by (auto simp: spent_def)
qed

lemma spent_never_wins: "cas_run cas env s log s' \<Longrightarrow> inv s \<Longrightarrow> spent ex s \<Longrightarrow> ex \<notin> set (winners log)"
proof (induction rule: cas_run.induct)
  case (idle s)
  then show ?case by (simp add: winners_def)
next
  case (attempted a ex' s res s1 log s')
  have "spent ex s1"
    using attempted.prems cas_inv [OF attempted.prems(1) attempted.hyps(1)]
      cas_token [OF attempted.prems(1) attempted.hyps(1)] by (blast intro: spent_step)
  moreover have "inv s1" using cas_inv [OF attempted.prems(1) attempted.hyps(1)] by simp
  ultimately have rest: "ex \<notin> set (winners log)" by (rule attempted.IH [rotated])
  show ?case
  proof (cases "\<exists>r oid. res = Inr (Applied r oid)")
    case True
    then have "matches (token s) ex'"
      using attempted.hyps(1) attempted.prems(1) cas_applied by blast
    with attempted.prems(2) have "ex' \<noteq> ex" using spent_no_match by blast
    with rest show ?thesis by (auto simp: winners_def)
  next
    case False
    with rest show ?thesis by (auto simp: winners_def split: sum.splits outcome.splits)
  qed
next
  case (other s s1 log s')
  then show ?case by (blast dest: env_inv env_token intro: spent_step)
qed

lemma one_winner: "cas_run cas env s log s' \<Longrightarrow> inv s \<Longrightarrow> distinct (winners log)"
proof (induction rule: cas_run.induct)
  case (idle s)
  then show ?case by (simp add: winners_def)
next
  case (attempted a ex s res s1 log s')
  have inv1: "inv s1" using cas_inv [OF attempted.prems attempted.hyps(1)] by simp
  then have rest: "distinct (winners log)" by (rule attempted.IH)
  show ?case
  proof (cases "\<exists>r oid. res = Inr (Applied r oid)")
    case True
    then have "spent ex s1" using applied_spends attempted.hyps(1) attempted.prems by blast
    with attempted.hyps(2) inv1 have "ex \<notin> set (winners log)" by (rule spent_never_wins)
    with rest True show ?thesis by (auto simp: winners_def)
  next
    case False
    with rest show ?thesis by (auto simp: winners_def split: sum.splits outcome.splits)
  qed
next
  case (other s s1 log s')
  then show ?case by (blast dest: env_inv)
qed

lemma run_inv: "cas_run cas env s log s' \<Longrightarrow> inv s \<Longrightarrow> inv s' \<and> used s \<subseteq> used s'"
proof (induction rule: cas_run.induct)
  case (idle s)
  then show ?case by simp
next
  case (attempted a ex s res s1 log s')
  from cas_inv [OF attempted.prems attempted.hyps(1)] attempted.IH show ?case by auto
next
  case (other s s1 log s')
  from env_inv [OF other.prems other.hyps(1)] other.IH show ?case by auto
qed

end

end
