(* ===== verification/Hq_Records.thy ===== *)
theory Hq_Records
  imports Hq_State Cas_Contract
begin

text \<open>
  \<^verbatim>\<open>VersionedRecords\<close> and \<^verbatim>\<open>AtomicRecords\<close> of \<^verbatim>\<open>InMemoryHqStorage\<close>, and the typed placement view
  over them (\<^verbatim>\<open>_fake.py\<close>): reads, the single and the multi-record compare-and-set with the
  fault plan, and the lookup that resolves an unknown outcome by its operation id.

  The lemmas give each operation's behaviour on every branch, that a failed or conflicting
  write leaves the records alone, that a multi-record write is all or nothing, and that an
  unknown outcome is resolved by looking the operation up.
\<close>

definition read :: "record_kind \<Rightarrow> string \<Rightarrow> hq_storage \<Rightarrow> storage_error + versioned option" where
  "read kind key st =
     and_then (check_key key) (\<lambda>_.
       Inr (map_option r_versioned (map_of (st_records st) (kind, key))))"

definition read_many ::
  "record_kind \<Rightarrow> string list option \<Rightarrow> hq_storage \<Rightarrow> storage_error + versioned list"
where
  "read_many kind keys st =
     (let picked = (\<lambda>wanted.
        map (r_versioned \<circ> snd)
          (filter (\<lambda>((k, key), r). k = kind \<and> wanted key)
             (sort_key (\<lambda>item. snd (fst item)) (st_records st))))
      in case keys of
           None \<Rightarrow> Inr (picked (\<lambda>_. True))
         | Some ks \<Rightarrow>
             if list_ex (\<lambda>k. \<not> is_ok (check_key k)) ks then Inl InvalidRequest
             else Inr (picked (\<lambda>key. key \<in> set ks)))"

text \<open>\<^verbatim>\<open>rollback\<close> of one slot: put the prior record back, or remove the new one.\<close>

definition restore_slot ::
  "slot \<Rightarrow> hq_record option \<Rightarrow> (slot \<times> hq_record) list \<Rightarrow> (slot \<times> hq_record) list"
where
  "restore_slot s prior rs =
     (case prior of None \<Rightarrow> AList.delete s rs | Some p \<Rightarrow> AList.update s p rs)"

definition record_token :: "slot \<Rightarrow> hq_storage \<Rightarrow> revision option" where
  "record_token s st = map_option (v_revision \<circ> r_versioned) (map_of (st_records st) s)"

text \<open>The part of \<^verbatim>\<open>compare_and_set\<close> after its checks, with the fault the plan handed out.\<close>

definition cas_write ::
  "clock_reading \<Rightarrow> record_kind \<Rightarrow> string \<Rightarrow> json_value \<Rightarrow> expectation \<Rightarrow> operation_id
     \<Rightarrow> fault option \<Rightarrow> hq_storage \<Rightarrow> (storage_error + outcome) \<times> hq_storage"
where
  "cas_write clk kind key c expected operation fault st =
     (let slot = (kind, key);
          prior = map_of (st_records st) slot;
          rollback = (\<lambda>s. s\<lparr>st_records := restore_slot slot prior (st_records s)\<rparr>)
      in if \<not> matches (map_option (v_revision \<circ> r_versioned) prior) expected
         then map_prod Inr id
           (settle fault (Conflict (map_option r_versioned prior)) operation expected rollback st)
         else (case mint_revision (st_mint st) of
                 (rv, m) \<Rightarrow>
                   attempt (st\<lparr>st_mint := m\<rparr>) (now_of clk) (\<lambda>t.
                     map_prod Inr id
                       (settle fault (Applied rv operation) operation expected rollback
                          (st\<lparr>st_mint := m,
                              st_records :=
                                AList.update slot
                                  \<lparr>r_versioned = \<lparr>v_key = key, v_revision = rv, v_body = c\<rparr>,
                                   r_operation = operation, r_at = t\<rparr>
                                  (st_records st)\<rparr>)))))"

definition compare_and_set ::
  "clock_reading \<Rightarrow> record_kind \<Rightarrow> string \<Rightarrow> json_value \<Rightarrow> expectation \<Rightarrow> operation_id
     \<Rightarrow> hq_storage \<Rightarrow> (storage_error + outcome) \<times> hq_storage"
where
  "compare_and_set clk kind key body expected operation st =
     attempt st (check_key key) (\<lambda>_.
     attempt st (check_operation operation) (\<lambda>_.
     attempt st (canonical body (st_cap st)) (\<lambda>c.
       if expected = ABSENT \<and> kind \<in> update_only_kinds then (Inl NotProvisioned, st)
       else with_fault ''compare_and_set'' True st
              (cas_write clk kind key c expected operation))))"

definition lookup_record ::
  "record_kind \<Rightarrow> string \<Rightarrow> operation_id \<Rightarrow> hq_storage \<Rightarrow> storage_error + lookup_outcome"
where
  "lookup_record kind key operation st =
     and_then (check_operation operation) (\<lambda>_.
     and_then (check_key key) (\<lambda>_.
       Inr (case map_of (st_records st) (kind, key) of
              None \<Rightarrow> NotConfirmed operation
            | Some r \<Rightarrow> if r_operation r = operation
                        then Confirmed operation (v_revision (r_versioned r)) (r_at r)
                        else NotConfirmed operation)))"

section \<open>Atomic multi-record compare-and-set\<close>

record record_write =
  w_kind :: record_kind
  w_key :: string
  w_body :: json_value
  w_expected :: expectation

type_synonym prepared = "slot \<times> json_value \<times> expectation"

fun check_writes_from ::
  "int \<Rightarrow> slot set \<Rightarrow> record_write list \<Rightarrow> storage_error + prepared list"
where
  "check_writes_from cap seen [] = Inr []"
| "check_writes_from cap seen (w # ws) =
     and_then (check_key (w_key w)) (\<lambda>_.
       if (w_kind w, w_key w) \<in> seen then Inl InvalidRequest
       else and_then (canonical (w_body w) cap) (\<lambda>body.
         if w_expected w = ABSENT \<and> w_kind w \<in> update_only_kinds then Inl NotProvisioned
         else and_then (check_writes_from cap (insert (w_kind w, w_key w) seen) ws) (\<lambda>rest.
           Inr (((w_kind w, w_key w), body, w_expected w) # rest))))"

definition check_writes :: "int \<Rightarrow> record_write list \<Rightarrow> storage_error + prepared list" where
  "check_writes cap ws = (if ws = [] then Inl InvalidRequest else check_writes_from cap {} ws)"

fun or_else :: "revision option \<Rightarrow> revision \<Rightarrow> revision" where
  "or_else None r = r"
| "or_else (Some f) r = (if f = [] then r else f)"

fun write_all ::
  "operation_id \<Rightarrow> instant \<Rightarrow> prepared list \<Rightarrow> revision option \<Rightarrow> mint
     \<Rightarrow> (slot \<times> hq_record) list \<Rightarrow> revision option \<times> mint \<times> (slot \<times> hq_record) list"
where
  "write_all oid stamp [] first m rs = (first, m, rs)"
| "write_all oid stamp ((slot, body, ex) # ps) first m rs =
     (case mint_revision m of
        (rv, m') \<Rightarrow>
          write_all oid stamp ps (Some (or_else first rv)) m'
            (AList.update slot
               \<lparr>r_versioned = \<lparr>v_key = snd slot, v_revision = rv, v_body = body\<rparr>,
                r_operation = oid, r_at = stamp\<rparr> rs))"

fun restore_all ::
  "(slot \<times> hq_record option) list \<Rightarrow> (slot \<times> hq_record) list \<Rightarrow> (slot \<times> hq_record) list"
where
  "restore_all [] rs = rs"
| "restore_all ((s, prior) # ps) rs = restore_all ps (restore_slot s prior rs)"

definition compare_and_set_all ::
  "clock_reading \<Rightarrow> record_write list \<Rightarrow> operation_id \<Rightarrow> hq_storage
     \<Rightarrow> (storage_error + outcome) \<times> hq_storage"
where
  "compare_and_set_all clk writes operation st =
     attempt st (check_operation operation) (\<lambda>_.
     attempt st (check_writes (st_cap st) writes) (\<lambda>ps.
       with_fault ''compare_and_set_all'' True st (\<lambda>fault st1.
         let priors = map (\<lambda>(slot, body, ex). (slot, map_of (st_records st1) slot)) ps;
             rollback = (\<lambda>s. s\<lparr>st_records := restore_all priors (st_records s)\<rparr>);
             expected0 = snd (snd (hd ps))
         in case find (\<lambda>(slot, body, ex). \<not> matches (record_token slot st1) ex) ps of
              Some (slot, body, ex) \<Rightarrow>
                map_prod Inr id
                  (settle fault (Conflict (map_option r_versioned (map_of (st_records st1) slot)))
                     operation expected0 rollback st1)
            | None \<Rightarrow>
                attempt st1 (now_of clk) (\<lambda>t.
                  case write_all operation t ps None (st_mint st1) (st_records st1) of
                    (first, m, rs) \<Rightarrow>
                      map_prod Inr id
                        (settle fault (Applied (the first) operation) operation expected0 rollback
                           (st1\<lparr>st_mint := m, st_records := rs\<rparr>))))))"

section \<open>The placement view\<close>

record placement_view =
  p_frame :: string
  p_epoch :: int
  p_token :: revision

definition placement_body :: "string \<Rightarrow> int \<Rightarrow> string \<Rightarrow> json_value" where
  "placement_body frame epoch cause =
     JObj [(''frame'', JStr frame), (''epoch'', JInt epoch), (''cause'', JStr cause)]"

fun member :: "json_value \<Rightarrow> string \<Rightarrow> json_value option" where
  "member (JObj ms) k = map_of ms k"
| "member v k = None"

definition placement_read :: "string \<Rightarrow> hq_storage \<Rightarrow> storage_error + placement_view option" where
  "placement_read prefix st =
     and_then (read PLACEMENT prefix st) (\<lambda>found.
       case found of
         None \<Rightarrow> Inr None
       | Some v \<Rightarrow>
           (case (member (v_body v) ''frame'', member (v_body v) ''epoch'') of
              (Some (JStr f), Some (JInt e)) \<Rightarrow>
                Inr (Some \<lparr>p_frame = f, p_epoch = e, p_token = v_revision v\<rparr>)
            | _ \<Rightarrow> Inl KeyError))"

fun placement_expectation :: "placement_view option \<Rightarrow> expectation" where
  "placement_expectation None = ABSENT"
| "placement_expectation (Some v) = At (p_token v)"

definition placement_cas ::
  "clock_reading \<Rightarrow> string \<Rightarrow> string \<Rightarrow> int \<Rightarrow> placement_view option \<Rightarrow> string \<Rightarrow> operation_id
     \<Rightarrow> hq_storage \<Rightarrow> (storage_error + outcome) \<times> hq_storage"
where
  "placement_cas clk prefix frame epoch expected cause operation st =
     compare_and_set clk PLACEMENT prefix (placement_body frame epoch cause)
       (placement_expectation expected) operation st"

definition placement_lookup ::
  "string \<Rightarrow> operation_id \<Rightarrow> hq_storage \<Rightarrow> storage_error + lookup_outcome"
where
  "placement_lookup prefix operation st = lookup_record PLACEMENT prefix operation st"

section \<open>Rollback is exact\<close>

lemma alist_update_absent: "map_of rs s = None \<Longrightarrow> AList.update s r rs = rs @ [(s, r)]"
  by (induction rs) (auto split: if_splits)

lemma alist_delete_absent: "map_of rs s = None \<Longrightarrow> AList.delete s rs = rs"
  by (induction rs) (auto simp: AList.delete_eq split: if_splits)

lemma alist_update_twice: "AList.update s p (AList.update s r rs) = AList.update s p rs"
  by (induction rs) auto

lemma alist_update_same: "map_of rs s = Some p \<Longrightarrow> AList.update s p rs = rs"
  by (induction rs) (auto split: if_splits)

lemma restore_update: "restore_slot s (map_of rs s) (AList.update s r rs) = rs"
proof (cases "map_of rs s")
  case None
  then show ?thesis
    by (simp add: restore_slot_def alist_update_absent AList.delete_eq alist_delete_absent [unfolded AList.delete_eq])
next
  case (Some p)
  then show ?thesis by (simp add: restore_slot_def alist_update_twice alist_update_same)
qed

section \<open>One compare-and-set, every branch\<close>

definition written_record :: "string \<Rightarrow> revision \<Rightarrow> json_value \<Rightarrow> operation_id \<Rightarrow> instant \<Rightarrow> hq_record" where
  "written_record key rv c oid t =
     \<lparr>r_versioned = \<lparr>v_key = key, v_revision = rv, v_body = c\<rparr>, r_operation = oid, r_at = t\<rparr>"

lemma cas_write_conflict:
  assumes "\<not> matches (record_token (kind, key) st) ex"
  shows "cas_write clk kind key c ex oid fault st =
     (Inr (case fault of
             None \<Rightarrow> Conflict (map_option r_versioned (map_of (st_records st) (kind, key)))
           | Some f \<Rightarrow> Unknown oid ex (f_reason f)), st)"
  using assms by (auto simp: cas_write_def record_token_def Let_def settle_def split: option.splits)

lemma cas_write_written:
  assumes "matches (record_token (kind, key) st) ex" "mint_revision (st_mint st) = (rv, m)"
    "now_of clk = Inr t"
  shows "cas_write clk kind key c ex oid fault st =
     (Inr (case fault of None \<Rightarrow> Applied rv oid | Some f \<Rightarrow> Unknown oid ex (f_reason f)),
      st\<lparr>st_mint := m, st_records :=
           (if \<exists>f. fault = Some f \<and> \<not> f_applied f then st_records st
            else AList.update (kind, key) (written_record key rv c oid t) (st_records st))\<rparr>)"
  using assms
  by (auto simp: cas_write_def record_token_def written_record_def Let_def settle_def restore_update
      split: option.splits)

lemma cas_write_raised:
  assumes "matches (record_token (kind, key) st) ex" "mint_revision (st_mint st) = (rv, m)"
    "now_of clk = Inl e"
  shows "cas_write clk kind key c ex oid fault st = (Inl e, st\<lparr>st_mint := m\<rparr>)"
  using assms by (auto simp: cas_write_def record_token_def Let_def)

lemma compare_and_set_checked:
  assumes "compare_and_set clk kind key body ex oid st = (res, st')"
  obtains (refused) e where "res = Inl e" "st' = st"
    | (checked) c where "check_key key = Inr key" "canonical_uuid oid"
        "canonical body (st_cap st) = Inr c" "\<not> (ex = ABSENT \<and> kind \<in> update_only_kinds)"
        "with_fault ''compare_and_set'' True st (cas_write clk kind key c ex oid) = (res, st')"
  using assms unfolding compare_and_set_def
  by (elim attempt_cases) (auto simp: check_key_Inr check_operation_Inr split: if_splits)

lemma compare_and_set_cases:
  assumes "compare_and_set clk kind key body ex oid st = (res, st')"
  obtains
    (raised) e fs m where "res = Inl e" "st' = st\<lparr>st_faults := fs, st_mint := m\<rparr>"
      "m = st_mint st \<or> (\<exists>rv. mint_revision (st_mint st) = (rv, m))"
  | (conflict) fault :: "fault option" and fs where "\<not> matches (record_token (kind, key) st) ex"
      "st' = st\<lparr>st_faults := fs\<rparr>"
      "res = Inr (case fault of
          None \<Rightarrow> Conflict (map_option r_versioned (map_of (st_records st) (kind, key)))
        | Some f \<Rightarrow> Unknown oid ex (f_reason f))"
  | (written) fault fs rv m c t where "matches (record_token (kind, key) st) ex"
      "\<not> (ex = ABSENT \<and> kind \<in> update_only_kinds)" "check_key key = Inr key" "canonical_uuid oid"
      "mint_revision (st_mint st) = (rv, m)" "canonical body (st_cap st) = Inr c" "now_of clk = Inr t"
      "take_fault ''compare_and_set'' True (st_faults st) = (Inr fault, fs)"
      "res = Inr (case fault of None \<Rightarrow> Applied rv oid | Some f \<Rightarrow> Unknown oid ex (f_reason f))"
      "st' = st\<lparr>st_faults := fs, st_mint := m, st_records :=
          (if \<exists>f. fault = Some f \<and> \<not> f_applied f then st_records st
           else AList.update (kind, key) (written_record key rv c oid t) (st_records st))\<rparr>"
  using assms
proof (cases rule: compare_and_set_checked)
  case (refused e)
  then show thesis by (intro raised [where fs = "st_faults st" and m = "st_mint st"]) auto
next
  case (checked c)
  from checked(5) show thesis
  proof (cases rule: with_fault_cases)
    case (unavailable fs)
    then show thesis by (intro raised [where fs = fs and m = "st_mint st"]) auto
  next
    case (runs fault fs)
    have tok: "record_token s (st\<lparr>st_faults := fs\<rparr>) = record_token s st" for s
      by (simp add: record_token_def)
    obtain rv m where m: "mint_revision (st_mint st) = (rv, m)" by force
    consider (lost) "\<not> matches (record_token (kind, key) st) ex"
      | (late) e where "matches (record_token (kind, key) st) ex" "now_of clk = Inl e"
      | (hit) t where "matches (record_token (kind, key) st) ex" "now_of clk = Inr t"
      by (cases "now_of clk") auto
    then show thesis
    proof cases
      case lost
      with runs(1) tok show thesis
        by (intro conflict [where fs = fs and fault = fault]) (auto simp: cas_write_conflict split: option.splits)
    next
      case late
      with runs(1) tok m show thesis
        by (intro raised [where fs = fs and m = m]) (auto simp: cas_write_raised)
    next
      case hit
      with runs checked tok m show thesis
        by (intro written [where rv = rv and m = m and c = c and t = t and fault = fault and fs = fs])
          (auto simp: cas_write_written)
    qed
  qed
qed

lemma records_ok_iff:
  "records_ok I rs \<longleftrightarrow> distinct (map fst rs) \<and>
     (\<forall>s r. map_of rs s = Some r \<longrightarrow> v_revision (r_versioned r) \<in> I \<and> v_key (r_versioned r) = snd s)"
  by (fastforce simp: records_ok_def)

lemma compare_and_set_ok:
  assumes "storage_ok st" "compare_and_set clk kind key body ex oid st = (res, st')"
  shows "storage_ok st' \<and> issued (st_mint st) \<subseteq> issued (st_mint st')"
  using assms(2)
proof (cases rule: compare_and_set_cases)
  case (raised e fs m)
  then show ?thesis
    using assms(1) storage_ok_mint_revision(1) [OF assms(1), of _ m] mint_revision_issued [of "st_mint st" _ m]
    by (auto simp: storage_ok_def)
next
  case (conflict fault fs)
  with assms(1) show ?thesis by simp
next
  case (written fault fs rv m c t)
  note mint = storage_ok_mint_revision [OF assms(1) written(5)]
  have "records_ok (issued m) (AList.update (kind, key) (written_record key rv c oid t) (st_records st))"
    using mint(1,3) by (intro records_ok_update [of "issued m"]) (auto simp: storage_ok_def written_record_def)
  with mint(1) written(10) mint_revision_issued [OF written(5)] show ?thesis
    by (auto simp: storage_ok_def)
qed

lemma compare_and_set_frame:
  assumes "compare_and_set clk kind key body ex oid st = (res, st')" "s \<noteq> (kind, key)"
  shows "map_of (st_records st') s = map_of (st_records st) s"
  using assms(1) by (cases rule: compare_and_set_cases) (use assms(2) in auto)

text \<open>The laws of \<open>cas_cell\<close> for one slot.\<close>

lemma record_token_issued:
  assumes "storage_ok st" "record_token s st = Some r"
  shows "r \<in> issued (st_mint st)"
proof -
  from assms(2) obtain z where z: "map_of (st_records st) s = Some z" "v_revision (r_versioned z) = r"
    by (auto simp: record_token_def)
  from assms(1) have "records_ok (issued (st_mint st)) (st_records st)" by (simp add: storage_ok_def)
  with z show ?thesis unfolding records_ok_iff by blast
qed

lemma compare_and_set_applied:
  assumes "storage_ok st" "compare_and_set clk kind key body ex oid st = (Inr (Applied r o'), st')"
  shows "matches (record_token (kind, key) st) ex \<and> record_token (kind, key) st' = Some r \<and>
    r \<notin> issued (st_mint st)"
  using assms(2)
proof (cases rule: compare_and_set_cases)
  case (written fault fs rv m c t)
  then have "fault = None" "r = rv" by (auto split: option.splits)
  with written storage_ok_mint_revision(2) [OF assms(1) written(5)] show ?thesis
    by (auto simp: record_token_def written_record_def)
qed (auto split: option.splits)

lemma compare_and_set_conflict:
  assumes "compare_and_set clk kind key body ex oid st = (Inr (Conflict v), st')"
  shows "\<not> matches (record_token (kind, key) st) ex \<and> record_token (kind, key) st' = record_token (kind, key) st"
  using assms by (cases rule: compare_and_set_cases) (auto simp: record_token_def split: option.splits)

lemma compare_and_set_raised:
  assumes "compare_and_set clk kind key body ex oid st = (Inl e, st')"
  shows "st_records st' = st_records st"
  using assms by (cases rule: compare_and_set_cases) (auto split: option.splits)

lemma compare_and_set_unknown:
  assumes "storage_ok st" "compare_and_set clk kind key body ex oid st = (Inr (Unknown o' ex' why), st')"
  shows "record_token (kind, key) st' = record_token (kind, key) st \<or>
    (\<exists>r. matches (record_token (kind, key) st) ex \<and> record_token (kind, key) st' = Some r \<and>
         r \<notin> issued (st_mint st))"
  using assms(2)
proof (cases rule: compare_and_set_cases)
  case (written fault fs rv m c t)
  with storage_ok_mint_revision(2) [OF assms(1) written(5)] show ?thesis
    by (auto simp: record_token_def written_record_def)
qed (auto simp: record_token_def split: option.splits)

lemma compare_and_set_token:
  assumes "storage_ok st" "compare_and_set clk kind key body ex oid st = (res, st')"
  shows "record_token s st' = record_token s st \<or>
    (\<exists>r. record_token s st' = Some r \<and> r \<notin> issued (st_mint st))"
proof (cases "s = (kind, key)")
  case False
  with compare_and_set_frame [OF assms(2)] show ?thesis by (auto simp: record_token_def)
next
  case True
  show ?thesis
  proof (cases res)
    case (Inl e)
    with assms(2) compare_and_set_raised show ?thesis by (simp add: record_token_def)
  next
    case (Inr outc)
    show ?thesis
    proof (cases outc)
      case (Applied r oid')
      with Inr True compare_and_set_applied [OF assms(1), of clk kind key body ex oid r oid' st'] assms(2)
      show ?thesis by simp
    next
      case (Conflict v)
      with Inr True compare_and_set_conflict [of clk kind key body ex oid st v st'] assms(2)
      show ?thesis by simp
    next
      case (Unknown oid' ex' why)
      with Inr True compare_and_set_unknown [OF assms(1), of clk kind key body ex oid oid' ex' why st']
        assms(2)
      show ?thesis by auto
    qed
  qed
qed

section \<open>Reading back, and resolving an unknown outcome\<close>

lemma compare_and_set_success:
  assumes "storage_ok st" "check_key key = Inr key" "canonical_uuid oid"
    "canonical body (st_cap st) = Inr c" "\<not> (ex = ABSENT \<and> kind \<in> update_only_kinds)"
    "st_faults st = []" "now_of clk = Inr t" "matches (record_token (kind, key) st) ex"
  obtains r st' where "compare_and_set clk kind key body ex oid st = (Inr (Applied r oid), st')"
    "r \<notin> issued (st_mint st)" "storage_ok st'"
    "read kind key st' = Inr (Some \<lparr>v_key = key, v_revision = r, v_body = c\<rparr>)"
    "lookup_record kind key oid st' = Inr (Confirmed oid r t)"
    "\<And>s. s \<noteq> (kind, key) \<Longrightarrow> map_of (st_records st') s = map_of (st_records st) s"
proof -
  obtain r m where m: "mint_revision (st_mint st) = (r, m)" by force
  let ?st' = "st\<lparr>st_mint := m,
    st_records := AList.update (kind, key) (written_record key r c oid t) (st_records st)\<rparr>"
  have run: "compare_and_set clk kind key body ex oid st = (Inr (Applied r oid), ?st')"
    using assms m by (auto simp: compare_and_set_def check_operation_def with_fault_def take_from_def
        cas_write_written record_token_def)
  show thesis
  proof (rule that [of r ?st'])
    show "r \<notin> issued (st_mint st)" using storage_ok_mint_revision(2) [OF assms(1) m] .
    show "storage_ok ?st'" using compare_and_set_ok [OF assms(1) run] by simp
  qed (use run assms(2,3) in \<open>auto simp: read_def lookup_record_def check_operation_def written_record_def\<close>)
qed

text \<open>
  An unknown outcome under a fresh operation id leaves exactly one of two states, and the lookup
  tells which.
\<close>

lemma unknown_resolved:
  assumes "compare_and_set clk kind key body ex oid st = (Inr (Unknown o' ex' why), st')"
    and "lookup_record kind key oid st = Inr (NotConfirmed oid)"
  shows "(lookup_record kind key oid st' = Inr (NotConfirmed oid) \<and> st_records st' = st_records st) \<or>
    (\<exists>r c t. canonical body (st_cap st) = Inr c \<and> matches (record_token (kind, key) st) ex \<and>
       lookup_record kind key oid st' = Inr (Confirmed oid r t) \<and>
       read kind key st' = Inr (Some \<lparr>v_key = key, v_revision = r, v_body = c\<rparr>))"
  using assms(1)
proof (cases rule: compare_and_set_cases)
  case (conflict fault fs)
  with assms(2) show ?thesis by (simp add: lookup_record_def)
next
  case (written fault fs rv m c t)
  show ?thesis
  proof (cases "\<exists>f. fault = Some f \<and> \<not> f_applied f")
    case True
    with written(10) assms(2) show ?thesis by (auto simp: lookup_record_def)
  next
    case False
    with written have "lookup_record kind key oid st' = Inr (Confirmed oid rv t)"
      "read kind key st' = Inr (Some \<lparr>v_key = key, v_revision = rv, v_body = c\<rparr>)"
      by (simp_all add: lookup_record_def read_def check_operation_def written_record_def)
    with written(1,6) show ?thesis by blast
  qed
qed simp

section \<open>The multi-record write is all or nothing\<close>

lemma check_writes_from_Inr:
  assumes "check_writes_from cap seen ws = Inr ps"
  shows "map fst ps = map (\<lambda>w. (w_kind w, w_key w)) ws \<and>
    map (snd \<circ> snd) ps = map w_expected ws \<and> distinct (map fst ps) \<and> fst ` set ps \<inter> seen = {}"
  using assms
proof (induction ws arbitrary: seen ps)
  case Nil
  then show ?case by simp
next
  case (Cons w ws)
  then obtain body rest where "(w_kind w, w_key w) \<notin> seen"
    "check_writes_from cap (insert (w_kind w, w_key w) seen) ws = Inr rest"
    "ps = ((w_kind w, w_key w), body, w_expected w) # rest"
    by (auto simp: and_then_eq_Inr split: if_splits)
  moreover from this have "fst ` set rest = set (map (\<lambda>w. (w_kind w, w_key w)) ws)"
    using Cons.IH [of "insert (w_kind w, w_key w) seen" rest] by (metis set_map)
  ultimately show ?case using Cons.IH [of "insert (w_kind w, w_key w) seen" rest] by auto
qed

lemma write_all_Cons:
  assumes "mint_revision m = (rv, m1)"
  shows "write_all oid t ((s, body, ex) # ps) first m rs =
    write_all oid t ps (Some (or_else first rv)) m1
      (AList.update s (written_record (snd s) rv body oid t) rs)"
  by (simp add: assms written_record_def)

lemma write_all_mint:
  "write_all oid t ps first m rs = (first', m', rs') \<Longrightarrow> collision_free m \<Longrightarrow>
   collision_free m' \<and> issued m \<subseteq> issued m'"
proof (induction ps arbitrary: first m rs)
  case (Cons p ps)
  obtain s body ex where p: "p = (s, body, ex)" by (cases p)
  obtain rv m1 where m1: "mint_revision m = (rv, m1)" by force
  from Cons.prems Cons.IH [of _ m1] mint_revision_collision_free [OF m1] mint_revision_issued [OF m1]
  show ?case unfolding p write_all_Cons [OF m1] by blast
qed simp

lemma write_all_distinct:
  "write_all oid t ps first m rs = (first', m', rs') \<Longrightarrow> distinct (map fst rs) \<Longrightarrow> distinct (map fst rs')"
proof (induction ps arbitrary: first m rs)
  case (Cons p ps)
  obtain s body ex where p: "p = (s, body, ex)" by (cases p)
  obtain rv m1 where m1: "mint_revision m = (rv, m1)" by force
  from Cons.prems Cons.IH show ?case unfolding p write_all_Cons [OF m1] by (blast intro: distinct_update)
qed simp

lemma write_all_frame:
  "write_all oid t ps first m rs = (first', m', rs') \<Longrightarrow> s \<notin> fst ` set ps \<Longrightarrow>
   map_of rs' s = map_of rs s"
proof (induction ps arbitrary: first m rs)
  case (Cons p ps)
  obtain s' body ex where p: "p = (s', body, ex)" by (cases p)
  obtain rv m1 where m1: "mint_revision m = (rv, m1)" by force
  from Cons.prems Cons.IH [OF Cons.prems(1) [unfolded p write_all_Cons [OF m1]]]
  show ?case by (simp add: p)
qed simp

lemma write_all_written:
  "write_all oid t ps first m rs = (first', m', rs') \<Longrightarrow> distinct (map fst ps) \<Longrightarrow> collision_free m \<Longrightarrow>
   (s, body, ex) \<in> set ps \<Longrightarrow>
   \<exists>rv. rv \<in> issued m' \<and> rv \<notin> issued m \<and> map_of rs' s = Some (written_record (snd s) rv body oid t)"
proof (induction ps arbitrary: first m rs)
  case (Cons p ps)
  obtain s' body' ex' where p: "p = (s', body', ex')" by (cases p)
  obtain rv m1 where m1: "mint_revision m = (rv, m1)" by force
  note run = Cons.prems(1) [unfolded p write_all_Cons [OF m1]]
  have cf: "collision_free m1" using mint_revision_collision_free [OF m1] Cons.prems(3) by simp
  have new: "rv \<notin> issued m" "issued m1 = insert rv (issued m)"
    using mint_revision_fresh [OF Cons.prems(3) m1] mint_revision_issued [OF m1] by simp_all
  show ?case
  proof (cases "(s, body, ex) = p")
    case True
    with Cons.prems(2) write_all_frame [OF run, of s] write_all_mint [OF run cf] new show ?thesis
      by (auto simp: p)
  next
    case False
    with Cons.prems have "(s, body, ex) \<in> set ps" "distinct (map fst ps)" by auto
    with Cons.IH [OF run _ cf] new show ?thesis by blast
  qed
qed simp

lemma restore_slot_map: "map_of (restore_slot s prior rs) = (map_of rs)(s := prior)"
  by (auto simp: restore_slot_def split: option.splits)

lemma restore_slot_distinct: "distinct (map fst rs) \<Longrightarrow> distinct (map fst (restore_slot s prior rs))"
  by (auto simp: restore_slot_def distinct_update distinct_delete split: option.splits)

lemma restore_all_map:
  "distinct (map fst ps) \<Longrightarrow>
   map_of (restore_all ps rs) s = (case map_of ps s of None \<Rightarrow> map_of rs s | Some prior \<Rightarrow> prior)"
proof (induction ps rs rule: restore_all.induct)
  case (1 rs)
  then show ?case by simp
next
  case (2 s' prior ps rs)
  then have "map_of ps s' = None" by (simp add: map_of_eq_None_iff)
  with 2 show ?case by (auto simp: restore_slot_map split: option.splits)
qed

lemma restore_all_distinct: "distinct (map fst rs) \<Longrightarrow> distinct (map fst (restore_all ps rs))"
  by (induction ps rs rule: restore_all.induct) (auto intro: restore_slot_distinct)

lemma map_of_priors:
  "map_of (map (\<lambda>(slot, body, ex). (slot, f slot)) ps) s = (if s \<in> fst ` set ps then Some (f s) else None)"
  by (induction ps) auto

lemma restore_written:
  assumes "write_all oid t ps first m rs = (first', m', rs')" "distinct (map fst ps)"
  shows "map_of (restore_all (map (\<lambda>(slot, body, ex). (slot, map_of rs slot)) ps) rs') = map_of rs"
proof
  fix s
  have "map fst (map (\<lambda>(slot, body, ex). (slot, map_of rs slot)) ps) = map fst ps" by auto
  with assms(2) have "map_of (restore_all (map (\<lambda>(slot, body, ex). (slot, map_of rs slot)) ps) rs') s =
      (if s \<in> fst ` set ps then map_of rs s else map_of rs' s)"
    by (simp only: restore_all_map map_of_priors) simp
  with write_all_frame [OF assms(1)] show "map_of (restore_all (map (\<lambda>(slot, body, ex). (slot, map_of rs slot)) ps) rs') s = map_of rs s"
    by simp
qed

text \<open>Every branch of \<open>compare_and_set_all\<close>.\<close>

definition all_hold :: "prepared list \<Rightarrow> hq_storage \<Rightarrow> bool" where
  "all_hold ps st \<longleftrightarrow> (\<forall>(slot, body, ex) \<in> set ps. matches (record_token slot st) ex)"

lemma compare_and_set_all_cases:
  assumes "compare_and_set_all clk ws oid st = (res, st')"
  obtains
    (raised) e fs where "res = Inl e" "st' = st\<lparr>st_faults := fs\<rparr>"
  | (conflict) fault :: "fault option" and fs ps slot body ex where
      "check_writes (st_cap st) ws = Inr ps" "(slot, body, ex) \<in> set ps"
      "\<not> matches (record_token slot st) ex" "st' = st\<lparr>st_faults := fs\<rparr>"
      "res = Inr (case fault of
          None \<Rightarrow> Conflict (map_option r_versioned (map_of (st_records st) slot))
        | Some f \<Rightarrow> Unknown oid (snd (snd (hd ps))) (f_reason f))"
  | (written) fault :: "fault option" and ps fs t first m rs where
      "check_writes (st_cap st) ws = Inr ps" "all_hold ps st" "now_of clk = Inr t" "canonical_uuid oid"
      "write_all oid t ps None (st_mint st) (st_records st) = (first, m, rs)"
      "res = Inr (case fault of None \<Rightarrow> Applied (the first) oid
          | Some f \<Rightarrow> Unknown oid (snd (snd (hd ps))) (f_reason f))"
      "st' = st\<lparr>st_faults := fs, st_mint := m, st_records :=
         (if \<exists>f. fault = Some f \<and> \<not> f_applied f
          then restore_all (map (\<lambda>(slot, body, ex). (slot, map_of (st_records st) slot)) ps) rs
          else rs)\<rparr>"
proof -
  consider (early) e where "res = Inl e" "st' = st"
    | (go) ps where "canonical_uuid oid" "check_writes (st_cap st) ws = Inr ps"
    using assms unfolding compare_and_set_all_def
    by (elim attempt_cases) (auto simp: check_operation_Inr)
  then show thesis
  proof cases
    case early
    then show thesis by (intro raised [where fs = "st_faults st"]) auto
  next
    case (go ps)
    note run = assms [unfolded compare_and_set_all_def check_operation_def, simplified go if_True attempt_simps]
    from run show thesis
    proof (cases rule: with_fault_cases)
      case (unavailable fs)
      then show thesis by (intro raised [where fs = fs]) auto
    next
      case (runs fault fs)
      have tok: "record_token s (st\<lparr>st_faults := fs\<rparr>) = record_token s st" for s
        by (simp add: record_token_def)
      let ?miss = "\<lambda>(slot, body, ex). \<not> matches (record_token slot st) ex"
      show thesis
      proof (cases "find ?miss ps")
        case (Some p)
        obtain slot body ex where p: "p = (slot, body, ex)" by (cases p)
        from Some have "(slot, body, ex) \<in> set ps" "\<not> matches (record_token slot st) ex"
          by (auto simp: find_Some_iff p) (metis nth_mem)
        with runs(1) go Some p show thesis
          by (intro conflict [where fs = fs and fault = fault and ps = ps])
            (auto simp: tok Let_def settle_def split: option.splits)
      next
        case None
        then have hold: "all_hold ps st" by (auto simp: find_None_iff all_hold_def)
        show thesis
        proof (cases "now_of clk")
          case (Inl e)
          with runs(1) None show thesis by (intro raised [where fs = fs]) (auto simp: tok Let_def)
        next
          case (Inr t)
          obtain first m rs where w: "write_all oid t ps None (st_mint st) (st_records st) = (first, m, rs)"
            by (metis prod_cases3)
          with runs(1) None Inr go hold show thesis
            by (intro written [where fs = fs and fault = fault and ps = ps and t = t and first = first
                  and m = m and rs = rs])
              (auto simp: tok Let_def settle_def split: option.splits)
        qed
      qed
    qed
  qed
qed

lemma check_writes_Inr:
  assumes "check_writes cap ws = Inr ps"
  shows "ps \<noteq> []" "distinct (map fst ps)" "map fst ps = map (\<lambda>w. (w_kind w, w_key w)) ws"
  using assms check_writes_from_Inr [of cap "{}" ws ps]
  by (auto simp: check_writes_def split: if_splits)

lemma records_ok_written:
  assumes "records_ok (issued m) rs" "collision_free m" "distinct (map fst ps)"
    "write_all oid t ps first m rs = (first', m', rs')"
  shows "records_ok (issued m') rs'"
  unfolding records_ok_iff
proof (intro conjI allI impI)
  show "distinct (map fst rs')"
    using assms(1) write_all_distinct [OF assms(4)] by (simp add: records_ok_def)
  fix s r
  assume r: "map_of rs' s = Some r"
  have "v_revision (r_versioned r) \<in> issued m' \<and> v_key (r_versioned r) = snd s"
  proof (cases "s \<in> fst ` set ps")
    case True
    then obtain body ex where "(s, body, ex) \<in> set ps" by force
    from write_all_written [OF assms(4,3,2) this] r show ?thesis by (auto simp: written_record_def)
  next
    case False
    with write_all_frame [OF assms(4)] r have "map_of rs s = Some r" by simp
    with assms(1) have "v_revision (r_versioned r) \<in> issued m \<and> v_key (r_versioned r) = snd s"
      unfolding records_ok_iff by blast
    with write_all_mint [OF assms(4,2)] show ?thesis by blast
  qed
  then show "v_revision (r_versioned r) \<in> issued m'" "v_key (r_versioned r) = snd s" by simp_all
qed

lemma records_ok_map_of:
  "records_ok I rs \<Longrightarrow> map_of rs' = map_of rs \<Longrightarrow> distinct (map fst rs') \<Longrightarrow> records_ok I rs'"
  by (simp add: records_ok_iff)

lemma compare_and_set_all_ok:
  assumes "storage_ok st" "compare_and_set_all clk ws oid st = (res, st')"
  shows "storage_ok st' \<and> issued (st_mint st) \<subseteq> issued (st_mint st')"
  using assms(2)
proof (cases rule: compare_and_set_all_cases)
  case (written fault ps fs t first m rs)
  have rec: "records_ok (issued (st_mint st)) (st_records st)" and cf: "collision_free (st_mint st)"
    using assms(1) by (simp_all add: storage_ok_def)
  note d = check_writes_Inr(2) [OF written(1)]
  note mint = write_all_mint [OF written(5) cf]
  let ?undone = "restore_all (map (\<lambda>(slot, body, ex). (slot, map_of (st_records st) slot)) ps) rs"
  have new: "records_ok (issued m) rs" using records_ok_written [OF rec cf d written(5)] .
  have "distinct (map fst ?undone)" using new by (intro restore_all_distinct) (simp add: records_ok_def)
  then have "records_ok (issued m) ?undone"
    using records_ok_mono [OF rec] mint restore_written [OF written(5) d] records_ok_map_of by blast
  with new mint written(7) assms(1) show ?thesis
    by (auto simp: storage_ok_def intro: part_mono)
qed (use assms(1) in simp_all)

text \<open>
  All or nothing: after any outcome, either no record changed, or every expectation held and every
  record of the request was written under the operation, and nothing else changed.
\<close>

lemma compare_and_set_all_atomic:
  assumes "storage_ok st" "compare_and_set_all clk ws oid st = (res, st')"
  shows "map_of (st_records st') = map_of (st_records st) \<and> (\<forall>r o'. res \<noteq> Inr (Applied r o')) \<or>
    (\<exists>ps t. check_writes (st_cap st) ws = Inr ps \<and> all_hold ps st \<and> now_of clk = Inr t \<and>
       (\<forall>(s, body, ex) \<in> set ps. \<exists>rv. rv \<notin> issued (st_mint st) \<and>
          map_of (st_records st') s = Some (written_record (snd s) rv body oid t)) \<and>
       (\<forall>s. s \<notin> fst ` set ps \<longrightarrow> map_of (st_records st') s = map_of (st_records st) s) \<and>
       (\<forall>v. res \<noteq> Inr (Conflict v)))"
  using assms(2)
proof (cases rule: compare_and_set_all_cases)
  case (raised e fs)
  then show ?thesis by simp
next
  case (conflict fault fs ps slot body ex)
  then show ?thesis by (simp split: option.splits)
next
  case (written fault ps fs t first m rs)
  note d = check_writes_Inr(2) [OF written(1)]
  have cf: "collision_free (st_mint st)" using assms(1) by (simp add: storage_ok_def)
  show ?thesis
  proof (cases "\<exists>f. fault = Some f \<and> \<not> f_applied f")
    case True
    with written(6,7) restore_written [OF written(5) d] show ?thesis by (auto split: option.splits)
  next
    case False
    then have rs: "st_records st' = rs" using written(7) by auto
    have nc: "\<forall>v. res \<noteq> Inr (Conflict v)" using written(6) by (simp split: option.splits)
    have all: "\<exists>rv. rv \<notin> issued (st_mint st) \<and> map_of rs s = Some (written_record (snd s) rv body oid t)"
      if "(s, body, ex) \<in> set ps" for s body ex
      using write_all_written [OF written(5) d cf that] by blast
    have frame: "map_of rs s = map_of (st_records st) s" if "s \<notin> fst ` set ps" for s
      using write_all_frame [OF written(5) that] .
    show ?thesis
      using written(1,2,3) nc all frame unfolding rs by (intro disjI2 exI [of _ ps] exI [of _ t]) auto
  qed
qed

lemma compare_and_set_all_token:
  assumes "storage_ok st" "compare_and_set_all clk ws oid st = (res, st')"
  shows "record_token s st' = record_token s st \<or>
    (\<exists>r. record_token s st' = Some r \<and> r \<notin> issued (st_mint st))"
  using compare_and_set_all_atomic [OF assms]
proof (elim disjE exE conjE)
  assume "map_of (st_records st') = map_of (st_records st)"
  then show ?thesis by (simp add: record_token_def)
next
  fix ps :: "prepared list" and t
  assume new: "\<forall>(s, body, ex) \<in> set ps. \<exists>rv. rv \<notin> issued (st_mint st) \<and>
      map_of (st_records st') s = Some (written_record (snd s) rv body oid t)"
    and old: "\<forall>s. s \<notin> fst ` set ps \<longrightarrow> map_of (st_records st') s = map_of (st_records st) s"
  show ?thesis
  proof (cases "s \<in> fst ` set ps")
    case False
    with old have "map_of (st_records st') s = map_of (st_records st) s" by blast
    then show ?thesis by (simp add: record_token_def)
  next
    case True
    then obtain body ex where "(s, body, ex) \<in> set ps" by force
    with new obtain rv where "rv \<notin> issued (st_mint st)"
      "map_of (st_records st') s = Some (written_record (snd s) rv body oid t)" by blast
    then show ?thesis by (simp add: record_token_def written_record_def)
  qed
qed

end
