(* ===== verification/Hq_Log.thy ===== *)
theory Hq_Log
  imports Hq_Records
begin

text \<open>
  \<^verbatim>\<open>AppendLog\<close> and \<^verbatim>\<open>Liveness\<close> of \<^verbatim>\<open>InMemoryHqStorage\<close> (\<^verbatim>\<open>_fake.py\<close>): append-once streams with
  cursors, retention, and the session stamps whose age is measured on the store's own clock.

  An instant and a \<^verbatim>\<open>timedelta\<close> are whole microseconds. The lemmas show that an append is
  idempotent under its operation id and refused under another, that paging with the last
  revision of a page neither repeats nor skips an entry, that \<open>prune\<close> keeps exactly the entries
  young enough, and that no age is negative.
\<close>

section \<open>Operations\<close>

definition append_new ::
  "clock_reading \<Rightarrow> stream_kind \<Rightarrow> string \<Rightarrow> json_value \<Rightarrow> operation_id \<Rightarrow> fault option
     \<Rightarrow> hq_storage \<Rightarrow> (storage_error + outcome) \<times> hq_storage"
where
  "append_new clk stream key c operation fault st =
     (let n = Suc (st_seq st) in
      case mint_revision (st_mint st) of
        (rv, m) \<Rightarrow>
          attempt (st\<lparr>st_seq := n, st_mint := m\<rparr>) (now_of clk) (\<lambda>t.
            let entry = \<lparr>e_seq = n, e_versioned = \<lparr>v_key = key, v_revision = rv, v_body = c\<rparr>,
                         e_operation = operation, e_at = t\<rparr>;
                rollback = (\<lambda>s. s\<lparr>st_streams := (st_streams s)(stream := AList.delete key (st_streams s stream)),
                                  st_cursors := AList.delete rv (st_cursors s)\<rparr>)
            in map_prod Inr id
                 (settle fault (Applied rv operation) operation ABSENT rollback
                    (st\<lparr>st_seq := n, st_mint := m,
                        st_streams := (st_streams st)(stream := AList.update key entry (st_streams st stream)),
                        st_cursors := AList.update rv (stream, n) (st_cursors st)\<rparr>))))"

definition append_once ::
  "clock_reading \<Rightarrow> stream_kind \<Rightarrow> string \<Rightarrow> json_value \<Rightarrow> operation_id
     \<Rightarrow> hq_storage \<Rightarrow> (storage_error + outcome) \<times> hq_storage"
where
  "append_once clk stream key body operation st =
     attempt st (check_key key) (\<lambda>_.
     attempt st (check_operation operation) (\<lambda>_.
     attempt st (canonical body (st_cap st)) (\<lambda>c.
       with_fault ''append'' True st (\<lambda>fault st1.
         case map_of (st_streams st1 stream) key of
           Some prior \<Rightarrow>
             let same = (e_operation prior = operation \<and> json_eq (v_body (e_versioned prior)) c);
                 outc = (if same then Applied (v_revision (e_versioned prior)) operation
                         else Conflict (Some (e_versioned prior)))
             in map_prod Inr id (settle fault outc operation ABSENT id st1)
         | None \<Rightarrow> append_new clk stream key c operation fault st1))))"

definition scan ::
  "stream_kind \<Rightarrow> string option \<Rightarrow> revision option \<Rightarrow> int \<Rightarrow> hq_storage
     \<Rightarrow> storage_error + versioned list"
where
  "scan stream key after limit st =
     (if limit < 1 then Inl InvalidRequest
      else and_then
        (case after of
           None \<Rightarrow> Inr 0
         | Some r \<Rightarrow> (case map_of (st_cursors st) r of
                        None \<Rightarrow> Inl InvalidRequest
                      | Some (s, n) \<Rightarrow> if s = stream then Inr n else Inl InvalidRequest))
        (\<lambda>floor.
          let rows = sort_key e_seq (map snd (st_streams st stream));
              picked = map e_versioned (filter (\<lambda>e. floor < e_seq e \<and>
                 (case key of None \<Rightarrow> True | Some k \<Rightarrow> v_key (e_versioned e) = k)) rows)
          in Inr (take (nat limit) picked)))"

record prune_report =
  pr_stream :: stream_kind
  pr_removed :: nat
  pr_retained :: nat
  pr_operation :: operation_id

definition prune ::
  "clock_reading \<Rightarrow> stream_kind \<Rightarrow> int \<Rightarrow> operation_id \<Rightarrow> hq_storage
     \<Rightarrow> (storage_error + prune_report) \<times> hq_storage"
where
  "prune clk stream older_than operation st =
     attempt st (check_operation operation) (\<lambda>_.
       if older_than < 0 then (Inl InvalidRequest, st)
       else with_fault ''prune'' False st (\<lambda>fault st1.
         attempt st1 (now_of clk) (\<lambda>t.
           let entries = st_streams st1 stream;
               doomed = map fst (filter (\<lambda>(key, e). t - e_at e > older_than) entries);
               kept = fold AList.delete doomed entries
           in (Inr \<lparr>pr_stream = stream, pr_removed = length doomed, pr_retained = length kept,
                    pr_operation = operation\<rparr>,
               st1\<lparr>st_streams := (st_streams st1)(stream := kept)\<rparr>))))"

definition lookup_append ::
  "stream_kind \<Rightarrow> string \<Rightarrow> operation_id \<Rightarrow> hq_storage \<Rightarrow> storage_error + lookup_outcome"
where
  "lookup_append stream key operation st =
     and_then (check_operation operation) (\<lambda>_.
     and_then (check_key key) (\<lambda>_.
       Inr (case map_of (st_streams st stream) key of
              None \<Rightarrow> NotConfirmed operation
            | Some e \<Rightarrow> if e_operation e = operation
                        then Confirmed operation (v_revision (e_versioned e)) (e_at e)
                        else NotConfirmed operation)))"

definition storage_now :: "clock_reading \<Rightarrow> hq_storage \<Rightarrow> storage_error + instant" where
  "storage_now clk st = now_of clk"

definition renew ::
  "clock_reading \<Rightarrow> liveness_kind \<Rightarrow> string \<Rightarrow> json_value option \<Rightarrow> hq_storage
     \<Rightarrow> (storage_error + instant) \<times> hq_storage"
where
  "renew clk kind key body st =
     attempt st (check_key key) (\<lambda>_.
     attempt st (case body of None \<Rightarrow> Inr None
                            | Some b \<Rightarrow> and_then (canonical b (st_cap st)) (\<lambda>c. Inr (Some c))) (\<lambda>c.
       with_fault ''renew'' False st (\<lambda>fault st1.
         attempt st1 (now_of clk) (\<lambda>t.
           (Inr t, st1\<lparr>st_live := AList.update (kind, key) (t, c) (st_live st1)\<rparr>)))))"

definition ages ::
  "clock_reading \<Rightarrow> liveness_kind \<Rightarrow> string list option \<Rightarrow> hq_storage
     \<Rightarrow> storage_error + (string \<times> int) list"
where
  "ages clk kind keys st =
     and_then (now_of clk) (\<lambda>t.
       Inr (map (\<lambda>((k, key), stamp, b). (key, max 0 (t - stamp)))
              (filter (\<lambda>((k, key), stamp, b). k = kind \<and>
                 (case keys of None \<Rightarrow> True | Some ks \<Rightarrow> key \<in> set ks))
                 (sort_key (\<lambda>item. snd (fst item)) (st_live st)))))"

definition stamped_at ::
  "liveness_kind \<Rightarrow> string \<Rightarrow> hq_storage \<Rightarrow> storage_error + instant option"
where
  "stamped_at kind key st =
     and_then (check_key key) (\<lambda>_. Inr (map_option fst (map_of (st_live st) (kind, key))))"

section \<open>Append, every branch\<close>

lemma alist_delete_update: "map_of xs k = None \<Longrightarrow> AList.delete k (AList.update k v xs) = xs"
  by (simp add: alist_update_absent AList.delete_eq alist_delete_absent [unfolded AList.delete_eq])

definition new_entry :: "nat \<Rightarrow> string \<Rightarrow> revision \<Rightarrow> json_value \<Rightarrow> operation_id \<Rightarrow> instant \<Rightarrow> log_entry" where
  "new_entry n key rv c oid t =
     \<lparr>e_seq = n, e_versioned = \<lparr>v_key = key, v_revision = rv, v_body = c\<rparr>, e_operation = oid, e_at = t\<rparr>"

definition with_entry :: "stream_kind \<Rightarrow> log_entry \<Rightarrow> hq_storage \<Rightarrow> hq_storage" where
  "with_entry stream e st =
     st\<lparr>st_streams := (st_streams st)(stream := st_streams st stream @ [(v_key (e_versioned e), e)]),
        st_cursors := AList.update (v_revision (e_versioned e)) (stream, e_seq e) (st_cursors st)\<rparr>"

lemma append_new_written:
  assumes "mint_revision (st_mint st) = (rv, m)" "now_of clk = Inr t"
    "map_of (st_streams st stream) key = None" "map_of (st_cursors st) rv = None"
  shows "append_new clk stream key c oid fault st =
    (Inr (case fault of None \<Rightarrow> Applied rv oid | Some f \<Rightarrow> Unknown oid ABSENT (f_reason f)),
     let base = st\<lparr>st_seq := Suc (st_seq st), st_mint := m\<rparr>
     in if \<exists>f. fault = Some f \<and> \<not> f_applied f then base
        else with_entry stream (new_entry (Suc (st_seq st)) key rv c oid t) base)"
  using assms
  by (auto simp: append_new_def settle_def Let_def with_entry_def new_entry_def alist_update_absent
      AList.delete_eq alist_delete_absent [unfolded AList.delete_eq] split: option.splits)

lemma append_once_cases:
  assumes "storage_ok st" "append_once clk stream key body oid st = (res, st')"
  obtains
    (raised) e fs n m where "res = Inl e" "st' = st\<lparr>st_faults := fs, st_seq := n, st_mint := m\<rparr>"
      "st_seq st \<le> n" "m = st_mint st \<or> (\<exists>rv. mint_revision (st_mint st) = (rv, m))"
  | (present) fault :: "fault option" and fs prior c where
      "map_of (st_streams st stream) key = Some prior" "canonical body (st_cap st) = Inr c"
      "st' = st\<lparr>st_faults := fs\<rparr>"
      "res = Inr (case fault of
          None \<Rightarrow> if e_operation prior = oid \<and> json_eq (v_body (e_versioned prior)) c
                   then Applied (v_revision (e_versioned prior)) oid else Conflict (Some (e_versioned prior))
        | Some f \<Rightarrow> Unknown oid ABSENT (f_reason f))"
  | (written) fault :: "fault option" and fs rv m c t where
      "map_of (st_streams st stream) key = None" "check_key key = Inr key" "canonical_uuid oid"
      "canonical body (st_cap st) = Inr c" "mint_revision (st_mint st) = (rv, m)" "now_of clk = Inr t"
      "res = Inr (case fault of None \<Rightarrow> Applied rv oid | Some f \<Rightarrow> Unknown oid ABSENT (f_reason f))"
      "st' = (let base = st\<lparr>st_faults := fs, st_seq := Suc (st_seq st), st_mint := m\<rparr>
              in if \<exists>f. fault = Some f \<and> \<not> f_applied f then base
                 else with_entry stream (new_entry (Suc (st_seq st)) key rv c oid t) base)"
proof -
  consider (early) e where "res = Inl e" "st' = st"
    | (go) c where "check_key key = Inr key" "canonical_uuid oid" "canonical body (st_cap st) = Inr c"
    using assms(2) unfolding append_once_def
    by (elim attempt_cases) (auto simp: check_key_Inr check_operation_Inr)
  then show thesis
  proof cases
    case early
    then show thesis
      by (intro raised [where fs = "st_faults st" and n = "st_seq st" and m = "st_mint st"]) auto
  next
    case (go c)
    note run = assms(2) [unfolded append_once_def check_operation_def, simplified go if_True attempt_simps]
    from run show thesis
    proof (cases rule: with_fault_cases)
      case (unavailable fs)
      then show thesis
        by (intro raised [where fs = fs and n = "st_seq st" and m = "st_mint st"]) auto
    next
      case (runs fault fs)
      show thesis
      proof (cases "map_of (st_streams st stream) key")
        case (Some prior)
        with runs(1) go show thesis
          by (intro present [where fs = fs and fault = fault and prior = prior and c = c])
            (auto simp: settle_def Let_def split: option.splits)
      next
        case None
        obtain rv m where m: "mint_revision (st_mint st) = (rv, m)" by force
        have "map_of (st_cursors st) rv = None"
          using storage_ok_mint_revision(2) [OF assms(1) m] assms(1)
          by (auto simp: storage_ok_def streams_ok_def map_of_eq_None_iff)
        note fresh = append_new_written [of "st\<lparr>st_faults := fs\<rparr>" rv m clk _ stream key c oid fault]
        show thesis
        proof (cases "now_of clk")
          case (Inl e)
          with runs(1) None m show thesis
            by (intro raised [where fs = fs and n = "Suc (st_seq st)" and m = m])
              (auto simp: append_new_def Let_def)
        next
          case (Inr t)
          with runs(1) None m fresh go \<open>map_of (st_cursors st) rv = None\<close> show thesis
            by (intro written [where fs = fs and fault = fault and rv = rv and m = m and c = c and t = t])
              (auto simp: Let_def)
        qed
      qed
    qed
  qed
qed

lemma streams_ok_new_entry:
  assumes "streams_ok I n cur ss" "map_of (ss stream) key = None" "map_of cur rv = None"
    "I \<subseteq> J" "rv \<in> J"
  shows "streams_ok J (Suc n) (AList.update rv (stream, Suc n) cur)
    (ss(stream := ss stream @ [(key, new_entry (Suc n) key rv c oid t)]))"
proof -
  have old: "entry_ok J (Suc n) (AList.update rv (stream, Suc n) cur) s ke \<and> e_seq (snd ke) < Suc n"
    if "ke \<in> set (ss s)" for s ke
  proof -
    from assms(1) that have ok: "entry_ok I n cur s ke" by (auto simp: streams_ok_def)
    then have "v_revision (e_versioned (snd ke)) \<noteq> rv" using assms(3) by (auto simp: entry_ok_def)
    with ok assms(4) show ?thesis by (auto simp: entry_ok_def)
  qed
  have "key \<notin> fst ` set (ss stream)" using assms(2) by (simp add: map_of_eq_None_iff)
  moreover have "fst ` set (AList.update rv (stream, Suc n) cur) \<subseteq> J"
    using assms(1,4,5) by (auto simp: streams_ok_def dom_update)
  ultimately show ?thesis
    using assms(1,5) old
    by (auto simp: streams_ok_def new_entry_def entry_ok_def sorted_wrt_append)
qed

lemma append_once_ok:
  assumes "storage_ok st" "append_once clk stream key body oid st = (res, st')"
  shows "storage_ok st' \<and> issued (st_mint st) \<subseteq> issued (st_mint st') \<and> st_records st' = st_records st"
  using assms
proof (cases rule: append_once_cases)
  case (raised e fs n m)
  then show ?thesis
    using assms(1) storage_ok_mint_revision(1) [OF assms(1), of _ m] mint_revision_issued [of "st_mint st" _ m]
    by (auto simp: storage_ok_def intro: part_mono)
next
  case (present fault fs prior c)
  with assms(1) show ?thesis by simp
next
  case (written fault fs rv m c t)
  note mint = storage_ok_mint_revision [OF assms(1) written(5)]
  have sub: "issued (st_mint st) \<subseteq> issued m" using mint_revision_issued [OF written(5)] by auto
  have cur: "map_of (st_cursors st) rv = None"
    using mint(2) assms(1) by (auto simp: storage_ok_def streams_ok_def map_of_eq_None_iff)
  have "streams_ok (issued (st_mint st)) (st_seq st) (st_cursors st) (st_streams st)"
    using assms(1) by (simp add: storage_ok_def)
  note new = streams_ok_new_entry [OF this written(1) cur sub mint(3), of c oid t]
  have "storage_ok (st\<lparr>st_faults := fs, st_seq := Suc (st_seq st), st_mint := m\<rparr>)"
    using mint(1) by (auto simp: storage_ok_def intro: part_mono)
  moreover have "storage_ok (with_entry stream (new_entry (Suc (st_seq st)) key rv c oid t)
      (st\<lparr>st_faults := fs, st_seq := Suc (st_seq st), st_mint := m\<rparr>))"
    using mint(1) new by (simp add: storage_ok_def with_entry_def) (simp add: new_entry_def)
  ultimately show ?thesis using written(8) sub by (auto simp: Let_def with_entry_def)
qed

text \<open>Appending again under the same operation changes nothing and answers with the same revision.\<close>

lemma append_again:
  assumes "storage_ok st" "append_once clk stream key body oid st = (Inr (Applied r oid), st1)"
    and "st_faults st1 = []"
  shows "append_once clk' stream key body oid st1 = (Inr (Applied r oid), st1)"
    and "map_of (st_streams st1 stream) key = Some e \<Longrightarrow> v_revision (e_versioned e) = r"
proof -
  from assms(2) have args: "check_key key = Inr key" "canonical_uuid oid"
    unfolding append_once_def by (auto simp: attempt_eq_Inr check_key_Inr check_operation_Inr)
  obtain e' c where e': "map_of (st_streams st1 stream) key = Some e'" "e_operation e' = oid"
    "v_revision (e_versioned e') = r" "canonical body (st_cap st1) = Inr c"
    "json_eq (v_body (e_versioned e')) c"
    using assms(1,2)
  proof (cases rule: append_once_cases)
    case (present fault fs prior c)
    then show thesis by (intro that [of prior c]) (auto split: option.splits if_splits)
  next
    case (written fault fs rv m c t)
    then have "fault = None" "rv = r" by (auto split: option.splits)
    with written show thesis
      by (intro that [of "new_entry (Suc (st_seq st)) key rv c oid t" c])
        (auto simp: Let_def with_entry_def new_entry_def map_add_def canonical_eq_refl)
  qed simp
  then show "map_of (st_streams st1 stream) key = Some e \<Longrightarrow> v_revision (e_versioned e) = r" by simp
  have "st1\<lparr>st_faults := []\<rparr> = st1" using assms(3) by simp
  with e' args assms(3) show "append_once clk' stream key body oid st1 = (Inr (Applied r oid), st1)"
    by (simp add: append_once_def check_operation_def with_fault_def take_from_def Let_def)
qed

section \<open>Paging\<close>

definition picks :: "string option \<Rightarrow> log_entry \<Rightarrow> bool" where
  "picks key e \<longleftrightarrow> (case key of None \<Rightarrow> True | Some k \<Rightarrow> v_key (e_versioned e) = k)"

definition page_source :: "stream_kind \<Rightarrow> string option \<Rightarrow> nat \<Rightarrow> hq_storage \<Rightarrow> log_entry list" where
  "page_source stream key floor st =
     filter (\<lambda>e. floor < e_seq e \<and> picks key e) (map snd (st_streams st stream))"

lemma stream_sorted:
  assumes "storage_ok st"
  shows "sorted_wrt (<) (map e_seq (map snd (st_streams st stream)))"
  using assms by (simp add: storage_ok_def streams_ok_def)

lemma scan_page:
  assumes "storage_ok st"
  shows "scan stream key after limit st = Inr page \<longleftrightarrow>
    1 \<le> limit \<and> (\<exists>floor. (case after of None \<Rightarrow> floor = 0
                          | Some r \<Rightarrow> map_of (st_cursors st) r = Some (stream, floor)) \<and>
      page = map e_versioned (take (nat limit) (page_source stream key floor st)))"
proof -
  have "sort_key e_seq (map snd (st_streams st stream)) = map snd (st_streams st stream)"
    using stream_sorted [OF assms, of stream] strict_sorted_imp_sorted by (intro sort_key_id) blast
  then show ?thesis
    by (auto simp: scan_def and_then_eq_Inr page_source_def picks_def take_map Let_def
        split: option.splits if_splits)
qed

lemma sorted_tail:
  fixes f :: "'a \<Rightarrow> nat"
  assumes "sorted_wrt (<) (map f xs)" "k < length xs"
  shows "filter (\<lambda>e. f (xs ! k) < f e) xs = drop (Suc k) xs"
proof -
  have nth: "f (xs ! i) < f (xs ! j)" if "i < j" "j < length xs" for i j
    using sorted_wrt_nth_less [OF assms(1) that(1)] that by simp
  have "filter (\<lambda>e. f (xs ! k) < f e) (take (Suc k) xs) = []"
  proof -
    have "\<not> f (xs ! k) < f e" if "e \<in> set (take (Suc k) xs)" for e
    proof -
      from that obtain i where "i \<le> k" "e = xs ! i" "i < length xs"
        by (auto simp: in_set_conv_nth less_Suc_eq_le)
      with nth [of i k] assms(2) show ?thesis by (cases "i = k") auto
    qed
    then show ?thesis by (simp add: filter_empty_conv)
  qed
  moreover have "filter (\<lambda>e. f (xs ! k) < f e) (drop (Suc k) xs) = drop (Suc k) xs"
  proof -
    have "f (xs ! k) < f e" if "e \<in> set (drop (Suc k) xs)" for e
      using that nth [of k] by (auto simp: in_set_conv_nth)
    then show ?thesis by (intro filter_True) simp
  qed
  ultimately show ?thesis by (metis append_take_drop_id filter_append self_append_conv2)
qed

lemma page_source_sorted:
  "storage_ok st \<Longrightarrow> sorted_wrt (<) (map e_seq (page_source stream key floor st))"
  unfolding page_source_def using stream_sorted [of st stream]
  by (simp add: sorted_wrt_map sorted_wrt_filter)

lemma page_source_tail:
  assumes "storage_ok st" "k < length (page_source stream key floor st)"
  shows "page_source stream key (e_seq (page_source stream key floor st ! k)) st =
    drop (Suc k) (page_source stream key floor st)"
proof -
  let ?src = "page_source stream key floor st"
  have above: "floor < e_seq (?src ! k)" using nth_mem [OF assms(2)] by (simp add: page_source_def)
  have "page_source stream key (e_seq (?src ! k)) st = filter (\<lambda>e. e_seq (?src ! k) < e_seq e) ?src"
    using above unfolding page_source_def filter_filter by (intro filter_cong) auto
  then show ?thesis using sorted_tail [OF page_source_sorted [OF assms(1)] assms(2)] by simp
qed

lemma page_cursor:
  assumes "storage_ok st" "e \<in> set (page_source stream key floor st)"
  shows "map_of (st_cursors st) (v_revision (e_versioned e)) = Some (stream, e_seq e)"
  using assms by (fastforce simp: page_source_def storage_ok_def streams_ok_def entry_ok_def)

text \<open>
  Paging loses and repeats nothing: the page after the last revision of a page is what one bigger
  page would have continued with.
\<close>

lemma scan_continues:
  assumes "storage_ok st" "scan stream key after limit st = Inr page" "page \<noteq> []"
    and "scan stream key (Some (v_revision (last page))) limit' st = Inr rest"
  shows "scan stream key after (limit + limit') st = Inr (page @ rest)"
proof -
  from assms(1,2) obtain floor where floor: "1 \<le> limit"
    "case after of None \<Rightarrow> floor = 0 | Some r \<Rightarrow> map_of (st_cursors st) r = Some (stream, floor)"
    and page: "page = map e_versioned (take (nat limit) (page_source stream key floor st))"
    unfolding scan_page [OF assms(1)] by blast
  let ?src = "page_source stream key floor st"
  define k where "k = min (nat limit) (length ?src) - 1"
  have ne: "?src \<noteq> []" using assms(3) page by auto
  with floor(1) have k: "k < length ?src" "Suc k = min (nat limit) (length ?src)"
    by (auto simp: k_def min_def Suc_diff_Suc)
  have "take (nat limit) ?src = take (Suc k) ?src" using k(2) by (simp add: min_def)
  then have last: "last page = e_versioned (?src ! k)"
    using k(1) unfolding page by (simp add: take_Suc_conv_app_nth)
  from assms(4) obtain floor' where floor': "1 \<le> limit'"
    "map_of (st_cursors st) (v_revision (last page)) = Some (stream, floor')"
    and rest: "rest = map e_versioned (take (nat limit') (page_source stream key floor' st))"
    unfolding scan_page [OF assms(1)] by auto
  have "floor' = e_seq (?src ! k)"
    using floor'(2) page_cursor [OF assms(1) nth_mem [OF k(1)]] last by simp
  then have "rest = map e_versioned (take (nat limit') (drop (nat limit) ?src))"
    using rest page_source_tail [OF assms(1) k(1)] k(2)
    by (cases "nat limit \<le> length ?src") (auto simp: min_def)
  then have "page @ rest = map e_versioned (take (nat (limit + limit')) ?src)"
    using page floor(1) floor'(1) by (simp add: take_add nat_add_distrib flip: map_append)
  with floor floor'(1) show ?thesis unfolding scan_page [OF assms(1)] by auto
qed

section \<open>Retention\<close>

lemma fold_delete: "fold AList.delete ks xs = filter (\<lambda>kv. fst kv \<notin> set ks) xs"
  by (induction ks arbitrary: xs) (auto simp: AList.delete_eq case_prod_beta intro!: filter_cong)

lemma fold_delete_doomed:
  assumes "distinct (map fst xs)"
  shows "fold AList.delete (map fst (filter P xs)) xs = filter (\<lambda>kv. \<not> P kv) xs"
  unfolding fold_delete
proof (rule filter_cong [OF refl])
  fix kv
  assume kv: "kv \<in> set xs"
  show "fst kv \<notin> set (map fst (filter P xs)) \<longleftrightarrow> \<not> P kv"
  proof
    assume "fst kv \<notin> set (map fst (filter P xs))"
    with kv show "\<not> P kv" by auto
  next
    assume np: "\<not> P kv"
    show "fst kv \<notin> set (map fst (filter P xs))"
    proof
      assume "fst kv \<in> set (map fst (filter P xs))"
      then obtain kv' where "kv' \<in> set xs" "P kv'" "fst kv' = fst kv" by auto
      with kv assms have "kv' = kv" by (metis eq_key_imp_eq_value prod.collapse)
      with np \<open>P kv'\<close> show False by simp
    qed
  qed
qed

lemma prune_cases:
  assumes "storage_ok st" "prune clk stream older_than oid st = (res, st')"
  obtains (raised) e fs where "res = Inl e" "st' = st\<lparr>st_faults := fs\<rparr>"
    | (pruned) t fs kept where "now_of clk = Inr t" "0 \<le> older_than"
        "kept = filter (\<lambda>kv. t - e_at (snd kv) \<le> older_than) (st_streams st stream)"
        "st' = st\<lparr>st_faults := fs, st_streams := (st_streams st)(stream := kept)\<rparr>"
        "res = Inr \<lparr>pr_stream = stream, pr_removed = length (st_streams st stream) - length kept,
                   pr_retained = length kept, pr_operation = oid\<rparr>"
proof -
  consider (early) e where "res = Inl e" "st' = st"
    | (go) "canonical_uuid oid" "0 \<le> older_than"
    using assms(2) unfolding prune_def
    by (elim attempt_cases) (auto simp: check_operation_Inr split: if_splits)
  then show thesis
  proof cases
    case early
    then show thesis by (intro raised [where fs = "st_faults st"]) auto
  next
    case go
    then have "\<not> older_than < 0" by simp
    note run = assms(2) [unfolded prune_def check_operation_def, simplified go this if_True if_False attempt_simps]
    from run show thesis
    proof (cases rule: with_fault_cases)
      case (unavailable fs)
      then show thesis by (intro raised [where fs = fs]) auto
    next
      case (runs fault fs)
      show thesis
      proof (cases "now_of clk")
        case (Inl e)
        with runs(1) show thesis by (intro raised [where fs = fs]) auto
      next
        case (Inr t)
        let ?xs = "st_streams st stream" and ?old = "\<lambda>kv. older_than < t - e_at (snd kv)"
        have d: "distinct (map fst ?xs)" using assms(1) by (simp add: storage_ok_def streams_ok_def)
        have len: "length (filter (\<lambda>(key, e). older_than < t - e_at e) ?xs) =
            length ?xs - length (filter (\<lambda>kv. \<not> ?old kv) ?xs)"
          using sum_length_filter_compl [of ?old ?xs] unfolding case_prod_beta by linarith
        from runs(1) Inr go show thesis
          by (intro pruned [where fs = fs and t = t and kept = "filter (\<lambda>kv. \<not> ?old kv) ?xs"])
            (auto simp: Let_def case_prod_beta fold_delete_doomed [OF d] len [unfolded not_less] not_less)
      qed
    qed
  qed
qed

lemma streams_ok_filter:
  assumes "streams_ok I n cur ss"
  shows "streams_ok I n cur (ss(stream := filter P (ss stream)))"
  using assms unfolding streams_ok_def
  by (auto simp: distinct_map_filter sorted_wrt_map sorted_wrt_filter)

lemma prune_ok:
  assumes "storage_ok st" "prune clk stream older_than oid st = (res, st')"
  shows "storage_ok st' \<and> st_mint st' = st_mint st \<and> st_records st' = st_records st"
  using assms
proof (cases rule: prune_cases)
  case (raised e fs)
  with assms(1) show ?thesis by simp
next
  case (pruned t fs kept)
  with assms(1) show ?thesis by (simp add: storage_ok_def streams_ok_filter)
qed

section \<open>Liveness\<close>

lemma renew_cases:
  assumes "renew clk kind key body st = (res, st')"
  obtains (raised) e fs where "res = Inl e" "st' = st\<lparr>st_faults := fs\<rparr>"
    | (stamped) t c fs where "check_key key = Inr key" "now_of clk = Inr t" "res = Inr t"
        "st' = st\<lparr>st_faults := fs, st_live := AList.update (kind, key) (t, c) (st_live st)\<rparr>"
proof -
  let ?b = "case body of None \<Rightarrow> Inr None
    | Some b \<Rightarrow> and_then (canonical b (st_cap st)) (\<lambda>c. Inr (Some c))"
  consider (early) e where "res = Inl e" "st' = st" | (go) c where "check_key key = Inr key" "?b = Inr c"
    using assms unfolding renew_def by (elim attempt_cases) (auto simp: check_key_Inr)
  then show thesis
  proof cases
    case early
    then show thesis by (intro raised [where fs = "st_faults st"]) auto
  next
    case (go c)
    note run = assms [unfolded renew_def go attempt_simps]
    from run show thesis
    proof (cases rule: with_fault_cases)
      case (unavailable fs)
      then show thesis by (intro raised [where fs = fs]) auto
    next
      case (runs fault fs)
      show thesis
      proof (cases "now_of clk")
        case (Inl e)
        with runs(1) show thesis by (intro raised [where fs = fs and e = e]) auto
      next
        case (Inr t)
        with runs(1) go show thesis by (intro stamped [where fs = fs and c = c and t = t]) auto
      qed
    qed
  qed
qed

lemma renew_ok:
  assumes "storage_ok st" "renew clk kind key body st = (res, st')"
  shows "storage_ok st' \<and> st_mint st' = st_mint st \<and> st_records st' = st_records st"
  using assms(2) by (cases rule: renew_cases) (use assms(1) in \<open>auto simp: storage_ok_def\<close>)

lemma renew_stamps:
  assumes "renew clk kind key body st = (Inr t, st')"
  shows "now_of clk = Inr t \<and> stamped_at kind key st' = Inr (Some t) \<and>
    (\<forall>k. k \<noteq> (kind, key) \<longrightarrow> map_of (st_live st') k = map_of (st_live st) k)"
  using assms by (cases rule: renew_cases) (auto simp: stamped_at_def)

lemma ages_nonneg: "ages clk kind keys st = Inr xs \<Longrightarrow> (key, a) \<in> set xs \<Longrightarrow> 0 \<le> a"
  by (auto simp: ages_def and_then_eq_Inr)

end
