(* ===== verification/Hq_History.thy ===== *)
theory Hq_History
  imports Hq_Log
begin

text \<open>
  \<^verbatim>\<open>CommittedHistory\<close> of \<^verbatim>\<open>InMemoryHqStorage\<close> (\<^verbatim>\<open>_fake.py\<close>): publications on a local head with a
  simulated remote. A document's bytes are a list of characters.

  The lemmas give every branch of \<open>publish\<close> and \<open>push\<close>, that an unknown publication is resolved
  by its witness, that \<open>push\<close> only ever fast-forwards, and that the history behind a head is
  never rewritten: what was in the chain of the remote head stays in it.
\<close>

section \<open>Operations\<close>

record change_set =
  ch_documents :: "(string \<times> string) list"
  ch_tables :: "string set"

record consistency_token =
  ct_identity :: string
  ct_generation :: string
  ct_revision :: revision

record sync_report =
  sr_head :: revision
  sr_ahead :: nat
  sr_behind :: nat
  sr_diverged :: bool

definition storage_head :: "hq_storage \<Rightarrow> revision" where
  "storage_head st = st_local st"

definition read_at :: "revision \<Rightarrow> hq_storage \<Rightarrow> storage_error + (string \<times> string) list" where
  "read_at r st =
     (case map_of (st_commits st) r of None \<Rightarrow> Inl NotProvisioned | Some c \<Rightarrow> Inr (c_snapshot c))"

definition consistent_read :: "hq_storage \<Rightarrow> storage_error + consistency_token" where
  "consistent_read st =
     (if \<not> st_consistent st then Inl CapabilityUnsupported
      else Inr \<lparr>ct_identity = st_identity st, ct_generation = ''0'', ct_revision = st_local st\<rparr>)"

fun check_documents ::
  "string set \<Rightarrow> (string \<times> string) list \<Rightarrow> (string \<times> string) list
     \<Rightarrow> storage_error + (string \<times> string) list"
where
  "check_documents tables out [] = Inr out"
| "check_documents tables out ((name, raw) # ds) =
     and_then (check_key name) (\<lambda>_.
       case partition_at CHR ''/'' name of
         (table, sep, rest) \<Rightarrow>
           if \<not> sep \<or> rest = [] \<or> table \<notin> tables then Inl InvalidRequest
           else if name \<in> fst ` set out then Inl InvalidRequest
           else check_documents tables (AList.update name raw out) ds)"

definition check_changes :: "change_set \<Rightarrow> storage_error + (string \<times> string) list" where
  "check_changes changes =
     (if ch_documents changes = [] then Inl InvalidRequest
      else if ch_tables changes = {} \<or> [] \<in> ch_tables changes then Inl InvalidRequest
      else check_documents (ch_tables changes) [] (ch_documents changes))"

text \<open>\<^verbatim>\<open>snapshot.update(documents)\<close> and \<^verbatim>\<open>tuple(sorted(snapshot.items()))\<close>.\<close>

definition merged_snapshot ::
  "(string \<times> string) list \<Rightarrow> (string \<times> string) list \<Rightarrow> (string \<times> string) list"
where
  "merged_snapshot old docs = sort_key fst (fold (\<lambda>(k, v). AList.update k v) docs old)"

definition publish_commit ::
  "clock_reading \<Rightarrow> (string \<times> string) list \<Rightarrow> expectation \<Rightarrow> operation_id \<Rightarrow> string \<Rightarrow> string
     \<Rightarrow> fault option \<Rightarrow> hq_storage \<Rightarrow> (storage_error + outcome) \<times> hq_storage"
where
  "publish_commit clk docs expected operation author message fault st =
     (let prior = st_local st;
          rollback = (\<lambda>s. s\<lparr>st_commits := AList.delete (st_local s) (st_commits s),
                            st_local := prior,
                            st_publications := st_publications s - {operation}\<rparr>)
      in if expected \<noteq> At prior
         then map_prod Inr id
           (settle fault (Conflict (Some \<lparr>v_key = ''head'', v_revision = prior, v_body = JObj []\<rparr>))
              operation expected rollback st)
         else (case map_of (st_commits st) prior of
                 None \<Rightarrow> (Inl KeyError, st)
               | Some parent \<Rightarrow>
                   (case mint_revision (st_mint st) of
                      (rv, m) \<Rightarrow>
                        attempt (st\<lparr>st_mint := m\<rparr>) (now_of clk) (\<lambda>t.
                          map_prod Inr id
                            (settle fault (Applied rv operation) operation expected rollback
                               (st\<lparr>st_mint := m,
                                   st_commits :=
                                     (rv, \<lparr>c_revision = rv, c_parent = Some prior,
                                           c_snapshot = merged_snapshot (c_snapshot parent) docs,
                                           c_operation = Some operation, c_at = t,
                                           c_author = author, c_message = message\<rparr>)
                                     # st_commits st,
                                   st_local := rv,
                                   st_publications := insert operation (st_publications st)\<rparr>))))))"

definition publish ::
  "clock_reading \<Rightarrow> change_set \<Rightarrow> expectation \<Rightarrow> operation_id \<Rightarrow> string \<Rightarrow> string
     \<Rightarrow> hq_storage \<Rightarrow> (storage_error + outcome) \<times> hq_storage"
where
  "publish clk changes expected operation author message st =
     attempt st (check_operation operation) (\<lambda>_.
     attempt st (check_changes changes) (\<lambda>docs.
       if operation \<in> st_publications st then (Inl InvalidRequest, st)
       else with_fault ''publish'' True st
              (publish_commit clk docs expected operation author message)))"

fun first_witness ::
  "hq_commit commits \<Rightarrow> operation_id \<Rightarrow> revision option \<Rightarrow> revision list
     \<Rightarrow> storage_error + lookup_outcome"
where
  "first_witness cs oid parent [] = Inr (NotConfirmed oid)"
| "first_witness cs oid parent (r # rs) =
     (case map_of cs r of
        None \<Rightarrow> Inl KeyError
      | Some c \<Rightarrow> if c_operation c = Some oid \<and> c_parent c = parent
                  then Inr (Confirmed oid r (c_at c))
                  else first_witness cs oid parent rs)"

fun expected_parent :: "expectation \<Rightarrow> revision option" where
  "expected_parent ABSENT = None"
| "expected_parent (At r) = Some r"

definition lookup_publication ::
  "operation_id \<Rightarrow> expectation \<Rightarrow> hq_storage \<Rightarrow> storage_error + lookup_outcome"
where
  "lookup_publication operation expected st =
     and_then (check_operation operation) (\<lambda>_.
     and_then (chain c_parent (st_commits st) (Some (st_local st)))
       (first_witness (st_commits st) operation (expected_parent expected)))"

definition fetch :: "hq_storage \<Rightarrow> (storage_error + sync_report) \<times> hq_storage" where
  "fetch st =
     (if \<not> st_reachable st then (Inl StorageUnavailable, st)
      else with_fault ''fetch'' False st (\<lambda>fault st1.
        (and_then (sync_counts c_parent (st_commits st1) (st_local st1) (st_remote st1))
           (\<lambda>(ahead, behind).
              Inr \<lparr>sr_head = st_local st1, sr_ahead = ahead, sr_behind = behind,
                   sr_diverged = (0 < ahead \<and> 0 < behind)\<rparr>), st1)))"

definition push_head :: "fault option \<Rightarrow> hq_storage \<Rightarrow> (storage_error + outcome) \<times> hq_storage" where
  "push_head fault st =
     (case mint_operation (st_mint st) of
        (operation, m) \<Rightarrow>
          let prior = st_remote st; st2 = st\<lparr>st_mint := m\<rparr>;
              rollback = (\<lambda>s. s\<lparr>st_remote := prior\<rparr>)
          in attempt st2 (chain c_parent (st_commits st2) (Some (st_local st2))) (\<lambda>local_chain.
               map_prod Inr id
                 (if prior \<in> set local_chain
                  then settle fault (Applied (st_local st2) operation) operation (At prior) rollback
                         (st2\<lparr>st_remote := st_local st2\<rparr>)
                  else settle fault
                         (Conflict (Some \<lparr>v_key = ''remote'', v_revision = prior, v_body = JObj []\<rparr>))
                         operation (At prior) rollback st2)))"

definition push :: "hq_storage \<Rightarrow> (storage_error + outcome) \<times> hq_storage" where
  "push st =
     (if \<not> st_reachable st then (Inl StorageUnavailable, st)
      else with_fault ''push'' True st push_head)"

definition remote_publish ::
  "clock_reading \<Rightarrow> (string \<times> string) list \<Rightarrow> hq_storage
     \<Rightarrow> (storage_error + revision) \<times> hq_storage"
where
  "remote_publish clk docs st =
     (case map_of (st_commits st) (st_remote st) of
        None \<Rightarrow> (Inl KeyError, st)
      | Some parent \<Rightarrow>
          (case mint_revision (st_mint st) of
             (rv, m1) \<Rightarrow>
               (case mint_operation m1 of
                  (oid, m2) \<Rightarrow>
                    attempt (st\<lparr>st_mint := m2\<rparr>) (now_of clk) (\<lambda>t.
                      (Inr rv,
                       st\<lparr>st_mint := m2,
                          st_commits :=
                            (rv, \<lparr>c_revision = rv, c_parent = Some (c_revision parent),
                                  c_snapshot = merged_snapshot (c_snapshot parent) docs,
                                  c_operation = Some oid, c_at = t, c_author = ''remote'',
                                  c_message = ''competing''\<rparr>)
                            # st_commits st,
                          st_remote := rv\<rparr>)))))"

section \<open>Snapshots\<close>

lemma map_of_updates: "map_of (fold (\<lambda>(k, v). AList.update k v) docs old) = map_of old ++ map_of (rev docs)"
  by (induction docs arbitrary: old) (auto simp: case_prod_beta)

lemma distinct_updates:
  "distinct (map fst old) \<Longrightarrow> distinct (map fst (fold (\<lambda>(k, v). AList.update k v) docs old))"
  by (induction docs arbitrary: old) (auto simp: case_prod_beta distinct_update)

lemma map_of_sort_key: "distinct (map fst xs) \<Longrightarrow> map_of (sort_key fst xs) = map_of xs"
proof -
  assume d: "distinct (map fst xs)"
  then have "distinct (map fst (sort_key fst xs))"
    by (metis distinct_map distinct_sort set_sort)
  with d show ?thesis by (metis map_of_inject_set set_sort)
qed

lemma merged_snapshot_map:
  "distinct (map fst old) \<Longrightarrow> map_of (merged_snapshot old docs) = map_of old ++ map_of (rev docs)"
  by (simp add: merged_snapshot_def map_of_sort_key distinct_updates map_of_updates)

lemma merged_snapshot_ok:
  assumes "distinct (map fst old)"
  shows "distinct (map fst (merged_snapshot old docs)) \<and> sorted (map fst (merged_snapshot old docs))"
  unfolding merged_snapshot_def using distinct_updates [OF assms, of docs]
  by (metis distinct_map distinct_sort set_sort sorted_sort_key)

section \<open>One more commit\<close>

lemma history_ok_keys:
  "history_ok I cs l r \<Longrightarrow> graph_ok c_parent cs \<and> l \<in> fst ` set cs \<and> r \<in> fst ` set cs"
  by (simp add: history_ok_def)

lemma history_ok_commit:
  assumes "history_ok I cs l r" "map_of cs k = Some c"
  shows "c_revision c = k" "distinct (map fst (c_snapshot c))"
  using assms by (auto simp: history_ok_def dest!: map_of_SomeD)

lemma history_ok_new:
  assumes "history_ok I cs l r" "rv \<notin> I" "I \<subseteq> J" "rv \<in> J" "c_parent c = Some p" "p \<in> fst ` set cs"
    "c_revision c = rv" "distinct (map fst (c_snapshot c)) \<and> sorted (map fst (c_snapshot c))"
  shows "graph_ok c_parent ((rv, c) # cs)" "history_ok J ((rv, c) # cs) l r"
    "history_ok J ((rv, c) # cs) rv r" "history_ok J ((rv, c) # cs) l rv"
  using assms by (auto simp: history_ok_def)

lemma witnesses_ok_other:
  assumes "graph_ok c_parent ((rv, c) # cs)" "local \<in> fst ` set cs" "witnesses_ok cs local pubs"
  shows "witnesses_ok ((rv, c) # cs) local pubs"
  unfolding witnesses_ok_def chain_older [OF assms(1,2)]
proof (intro allI impI)
  fix rs r d oid
  assume a: "chain c_parent cs (Some local) = Inr rs" "r \<in> set rs"
    "map_of ((rv, c) # cs) r = Some d" "c_operation d = Some oid"
  have "r \<noteq> rv" using chain_keys [OF a(1)] a(2) assms(1) by auto
  with a assms(3) show "oid \<in> pubs" by (auto simp: witnesses_ok_def)
qed

lemma witnesses_ok_new:
  assumes g: "graph_ok c_parent ((rv, c) # cs)" and "local \<in> fst ` set cs" "witnesses_ok cs local pubs"
    "c_parent c = Some local" "c_operation c = Some oid"
  shows "witnesses_ok ((rv, c) # cs) rv (insert oid pubs)"
proof -
  from g assms(2) obtain rs where rs: "chain c_parent cs (Some local) = Inr rs"
    using graph_ok_chain by (metis graph_ok.simps(2))
  note new = chain_new_child [OF g assms(4) rs]
  have "rv \<notin> set rs" using chain_keys [OF rs] g by auto
  with assms(3,5) rs show ?thesis unfolding witnesses_ok_def new by (auto simp: image_iff)
qed

section \<open>Publishing, every branch\<close>

definition published_commit ::
  "revision \<Rightarrow> revision \<Rightarrow> (string \<times> string) list \<Rightarrow> operation_id \<Rightarrow> instant \<Rightarrow> string \<Rightarrow> string \<Rightarrow> hq_commit"
where
  "published_commit rv prior snap oid t author message =
     \<lparr>c_revision = rv, c_parent = Some prior, c_snapshot = snap, c_operation = Some oid, c_at = t,
      c_author = author, c_message = message\<rparr>"

definition with_commit :: "revision \<Rightarrow> hq_commit \<Rightarrow> operation_id \<Rightarrow> hq_storage \<Rightarrow> hq_storage" where
  "with_commit rv c oid st =
     st\<lparr>st_commits := (rv, c) # st_commits st, st_local := rv,
        st_publications := insert oid (st_publications st)\<rparr>"

lemma delete_front: "k \<notin> fst ` set xs \<Longrightarrow> AList.delete k ((k, v) # xs) = xs"
  by (force simp: AList.delete_eq filter_id_conv)

lemma publish_commit_written:
  assumes "map_of (st_commits st) (st_local st) = Some parent" "mint_revision (st_mint st) = (rv, m)"
    "now_of clk = Inr t" "rv \<notin> fst ` set (st_commits st)" "oid \<notin> st_publications st"
  shows "publish_commit clk docs (At (st_local st)) oid author message fault st =
    (Inr (case fault of None \<Rightarrow> Applied rv oid | Some f \<Rightarrow> Unknown oid (At (st_local st)) (f_reason f)),
     if \<exists>f. fault = Some f \<and> \<not> f_applied f then st\<lparr>st_mint := m\<rparr>
     else with_commit rv
       (published_commit rv (st_local st) (merged_snapshot (c_snapshot parent) docs) oid t author message)
       oid (st\<lparr>st_mint := m\<rparr>))"
  using assms
  by (auto simp: publish_commit_def Let_def settle_def with_commit_def published_commit_def delete_front
      split: option.splits)

lemma publish_cases:
  assumes "storage_ok st" "publish clk changes ex oid author message st = (res, st')"
  obtains
    (raised) e fs m where "res = Inl e" "st' = st\<lparr>st_faults := fs, st_mint := m\<rparr>"
      "m = st_mint st \<or> (\<exists>rv. mint_revision (st_mint st) = (rv, m))"
  | (conflict) fault :: "fault option" and fs where "ex \<noteq> At (st_local st)" "st' = st\<lparr>st_faults := fs\<rparr>"
      "res = Inr (case fault of
          None \<Rightarrow> Conflict (Some \<lparr>v_key = ''head'', v_revision = st_local st, v_body = JObj []\<rparr>)
        | Some f \<Rightarrow> Unknown oid ex (f_reason f))"
      "oid \<notin> st_publications st" "canonical_uuid oid"
  | (written) fault :: "fault option" and fs rv m t docs parent where
      "ex = At (st_local st)" "canonical_uuid oid" "check_changes changes = Inr docs"
      "oid \<notin> st_publications st" "map_of (st_commits st) (st_local st) = Some parent"
      "mint_revision (st_mint st) = (rv, m)" "now_of clk = Inr t"
      "res = Inr (case fault of None \<Rightarrow> Applied rv oid | Some f \<Rightarrow> Unknown oid ex (f_reason f))"
      "st' = (if \<exists>f. fault = Some f \<and> \<not> f_applied f then st\<lparr>st_faults := fs, st_mint := m\<rparr>
        else with_commit rv (published_commit rv (st_local st) (merged_snapshot (c_snapshot parent) docs)
               oid t author message) oid (st\<lparr>st_faults := fs, st_mint := m\<rparr>))"
proof -
  consider (early) e where "res = Inl e" "st' = st"
    | (go) docs where "canonical_uuid oid" "check_changes changes = Inr docs" "oid \<notin> st_publications st"
    using assms(2) unfolding publish_def
    by (elim attempt_cases) (auto simp: check_operation_Inr split: if_splits)
  then show thesis
  proof cases
    case early
    then show thesis by (intro raised [where fs = "st_faults st" and m = "st_mint st"]) auto
  next
    case (go docs)
    note run = assms(2) [unfolded publish_def check_operation_def, simplified go if_True if_False attempt_simps]
    from run show thesis
    proof (cases rule: with_fault_cases)
      case (unavailable fs)
      then show thesis by (intro raised [where fs = fs and m = "st_mint st"]) auto
    next
      case (runs fault fs)
      obtain rv m where m: "mint_revision (st_mint st) = (rv, m)" by force
      have h: "history_ok (issued (st_mint st)) (st_commits st) (st_local st) (st_remote st)"
        using assms(1) by (simp add: storage_ok_def)
      then have new: "rv \<notin> fst ` set (st_commits st)"
        using storage_ok_mint_revision(2) [OF assms(1) m] by (auto simp: history_ok_def)
      obtain parent where parent: "map_of (st_commits st) (st_local st) = Some parent"
        using history_ok_keys [OF h] by (auto simp: in_keys_iff)
      consider (lost) "ex \<noteq> At (st_local st)"
        | (late) e where "ex = At (st_local st)" "now_of clk = Inl e"
        | (hit) t where "ex = At (st_local st)" "now_of clk = Inr t"
        by (cases "now_of clk") auto
      then show thesis
      proof cases
        case lost
        with runs(1) go show thesis
          by (intro conflict [where fs = fs and fault = fault])
            (auto simp: publish_commit_def Let_def settle_def split: option.splits)
      next
        case late
        with runs(1) m parent show thesis
          by (intro raised [where fs = fs and m = m]) (auto simp: publish_commit_def Let_def)
      next
        case hit
        with runs(1) m parent go new publish_commit_written [of "st\<lparr>st_faults := fs\<rparr>" parent rv m clk t oid docs author message fault]
        show thesis
          by (intro written [where fs = fs and fault = fault and rv = rv and m = m and t = t and docs = docs
                and parent = parent]) (auto split: option.splits)
      qed
    qed
  qed
qed

lemma publish_ok:
  assumes "storage_ok st" "publish clk changes ex oid author message st = (res, st')"
  shows "storage_ok st' \<and> issued (st_mint st) \<subseteq> issued (st_mint st') \<and> st_records st' = st_records st"
  using assms
proof (cases rule: publish_cases)
  case (raised e fs m)
  then show ?thesis
    using assms(1) storage_ok_mint_revision(1) [OF assms(1), of _ m] mint_revision_issued [of "st_mint st" _ m]
    by (auto simp: storage_ok_def)
next
  case (conflict fault fs)
  with assms(1) show ?thesis by simp
next
  case (written fault fs rv m t docs parent)
  let ?c = "published_commit rv (st_local st) (merged_snapshot (c_snapshot parent) docs) oid t author message"
  let ?st = "st\<lparr>st_faults := fs, st_mint := m\<rparr>"
  note mint = storage_ok_mint_revision [OF assms(1) written(6)]
  have sub: "issued (st_mint st) \<subseteq> issued m" using mint_revision_issued [OF written(6)] by auto
  have h: "history_ok (issued (st_mint st)) (st_commits st) (st_local st) (st_remote st)"
    and w: "witnesses_ok (st_commits st) (st_local st) (st_publications st)"
    using assms(1) by (simp_all add: storage_ok_def)
  have snap: "distinct (map fst (c_snapshot ?c)) \<and> sorted (map fst (c_snapshot ?c))"
    using merged_snapshot_ok history_ok_commit(2) [OF h written(5)] by (simp add: published_commit_def)
  have par: "c_parent ?c = Some (st_local st)" "c_revision ?c = rv" "c_operation ?c = Some oid"
    by (simp_all add: published_commit_def)
  have loc: "st_local st \<in> fst ` set (st_commits st)" using history_ok_keys [OF h] by simp
  note new = history_ok_new [OF h mint(2) sub mint(3) par(1) loc par(2) snap]
  have "storage_ok ?st" using mint(1) by (simp add: storage_ok_def)
  moreover have "storage_ok (with_commit rv ?c oid ?st)"
    using mint(1) new(3) witnesses_ok_new [OF new(1) loc w par(1,3)]
    by (simp add: storage_ok_def with_commit_def)
  ultimately show ?thesis using written(9) sub by (auto simp: with_commit_def)
qed

text \<open>
  An unknown publication left the head where it was, with no witness for its operation, or moved
  it to the one commit that carries the witness; \<open>lookup_publication\<close> tells which.
\<close>

lemma first_witness_none:
  assumes "set rs \<subseteq> fst ` set cs"
    and "\<And>r c. r \<in> set rs \<Longrightarrow> map_of cs r = Some c \<Longrightarrow> c_operation c \<noteq> Some oid"
  shows "first_witness cs oid parent rs = Inr (NotConfirmed oid)"
  using assms
proof (induction rs)
  case (Cons r rs)
  then obtain c where "map_of cs r = Some c" by (force simp: in_keys_iff)
  with Cons show ?case by (force)
qed simp

lemma unwitnessed_lookup:
  assumes "storage_ok st" "canonical_uuid oid" "oid \<notin> st_publications st"
  shows "lookup_publication oid ex st = Inr (NotConfirmed oid)"
proof -
  from assms(1) have g: "graph_ok c_parent (st_commits st)" "st_local st \<in> fst ` set (st_commits st)"
    and w: "witnesses_ok (st_commits st) (st_local st) (st_publications st)"
    by (simp_all add: storage_ok_def history_ok_def)
  from graph_ok_chain [OF g] obtain rs where rs: "chain c_parent (st_commits st) (Some (st_local st)) = Inr rs" ..
  have "first_witness (st_commits st) oid (expected_parent ex) rs = Inr (NotConfirmed oid)"
  proof (rule first_witness_none)
    show "set rs \<subseteq> fst ` set (st_commits st)" using chain_keys [OF rs] .
    show "c_operation c \<noteq> Some oid" if "r \<in> set rs" "map_of (st_commits st) r = Some c" for r c
      using w rs that assms(3) by (auto simp: witnesses_ok_def)
  qed
  with rs assms(2) show ?thesis by (simp add: lookup_publication_def check_operation_def)
qed

lemma published_lookup:
  assumes "storage_ok (with_commit rv c oid st)" "c_parent c = Some prior" "c_operation c = Some oid"
    "canonical_uuid oid"
  shows "lookup_publication oid (At prior) (with_commit rv c oid st) = Inr (Confirmed oid rv (c_at c))"
proof -
  let ?st = "with_commit rv c oid st"
  from assms(1) have "graph_ok c_parent (st_commits ?st)" "st_local ?st \<in> fst ` set (st_commits ?st)"
    by (simp_all add: storage_ok_def history_ok_def)
  from graph_ok_chain [OF this] obtain rs where
    rs: "chain c_parent (st_commits ?st) (Some (st_local ?st)) = Inr rs" ..
  from chain_hd [OF rs] obtain rest where "rs = rv # rest" by (auto simp: with_commit_def)
  moreover have "map_of (st_commits ?st) rv = Some c" by (simp add: with_commit_def)
  ultimately show ?thesis using rs assms(2-4) by (simp add: lookup_publication_def check_operation_def)
qed

lemma publish_unknown_resolved:
  assumes "storage_ok st" "publish clk changes ex oid author message st = (Inr (Unknown o' ex' why), st')"
  shows "(st_local st' = st_local st \<and> st_commits st' = st_commits st \<and>
      lookup_publication oid ex st' = Inr (NotConfirmed oid)) \<or>
    (\<exists>docs old t. ex = At (st_local st) \<and> check_changes changes = Inr docs \<and>
      read_at (st_local st) st = Inr old \<and>
      read_at (st_local st') st' = Inr (merged_snapshot old docs) \<and>
      lookup_publication oid ex st' = Inr (Confirmed oid (st_local st') t))"
proof -
  have ok': "storage_ok st'" using publish_ok [OF assms] by simp
  from assms show ?thesis
  proof (cases rule: publish_cases)
    case (conflict fault fs)
    then have "oid \<notin> st_publications st'" by simp
    with conflict unwitnessed_lookup [OF ok' conflict(5)] show ?thesis by simp
  next
    case (written fault fs rv m t docs parent)
    show ?thesis
    proof (cases "\<exists>f. fault = Some f \<and> \<not> f_applied f")
      case True
      then have st': "st' = st\<lparr>st_faults := fs, st_mint := m\<rparr>" using written(9) by auto
      then have "oid \<notin> st_publications st'" using written(4) by simp
      with unwitnessed_lookup [OF ok' written(2)] st' show ?thesis by simp
    next
      case False
      let ?c = "published_commit rv (st_local st) (merged_snapshot (c_snapshot parent) docs) oid t author message"
      have st': "st' = with_commit rv ?c oid (st\<lparr>st_faults := fs, st_mint := m\<rparr>)"
        using written(9) False by (simp only: if_False)
      have "lookup_publication oid ex st' = Inr (Confirmed oid rv t)"
        using published_lookup [of rv ?c oid _ "st_local st"] ok' st' written(1,2)
        by (simp add: published_commit_def)
      moreover have "st_local st' = rv" "read_at (st_local st) st = Inr (c_snapshot parent)"
        "read_at rv st' = Inr (merged_snapshot (c_snapshot parent) docs)"
        using st' written(5) by (simp_all add: with_commit_def read_at_def published_commit_def)
      ultimately show ?thesis using written(1,3) by auto
    qed
  qed simp
qed

section \<open>The remote only moves forward\<close>

definition line_of :: "hq_storage \<Rightarrow> revision \<Rightarrow> storage_error + revision list" where
  "line_of st h = chain c_parent (st_commits st) (Some h)"

lemma push_cases:
  assumes "push st = (res, st')"
  obtains (same) fs m where "st' = st\<lparr>st_faults := fs, st_mint := m\<rparr>" "\<forall>r oid. res \<noteq> Inr (Applied r oid)"
      "m = st_mint st \<or> (\<exists>oid. mint_operation (st_mint st) = (oid, m))"
    | (forward) fs m oid rs where "st' = st\<lparr>st_faults := fs, st_mint := m, st_remote := st_local st\<rparr>"
      "mint_operation (st_mint st) = (oid, m)" "line_of st (st_local st) = Inr rs" "st_remote st \<in> set rs"
      "\<forall>v. res \<noteq> Inr (Conflict v)"
proof (cases "st_reachable st")
  case False
  with assms show thesis by (intro same [where fs = "st_faults st" and m = "st_mint st"]) (auto simp: push_def)
next
  case True
  with assms have run: "with_fault ''push'' True st push_head = (res, st')" by (simp add: push_def)
  from run show thesis
  proof (cases rule: with_fault_cases)
    case (unavailable fs)
    then show thesis by (intro same [where fs = fs and m = "st_mint st"]) auto
  next
    case (runs fault fs)
    obtain oid m where m: "mint_operation (st_mint st) = (oid, m)" by force
    show thesis
    proof (cases "line_of st (st_local st)")
      case (Inl e)
      with runs(1) m show thesis
        by (intro same [where fs = fs and m = m]) (auto simp: push_head_def Let_def line_of_def)
    next
      case (Inr rs)
      show thesis
      proof (cases "st_remote st \<in> set rs \<and> (\<forall>f. fault = Some f \<longrightarrow> f_applied f)")
        case True
        with Inr runs(1) m show thesis
          by (intro forward [where fs = fs and m = m and oid = oid and rs = rs])
            (auto simp: push_head_def Let_def line_of_def settle_def split: option.splits)
      next
        case False
        with Inr runs(1) m show thesis
          by (intro same [where fs = fs and m = m])
            (auto simp: push_head_def Let_def line_of_def settle_def split: option.splits if_splits)
      qed
    qed
  qed
qed

lemma push_ok:
  assumes "storage_ok st" "push st = (res, st')"
  shows "storage_ok st' \<and> issued (st_mint st) \<subseteq> issued (st_mint st') \<and> st_records st' = st_records st"
  using assms(2)
proof (cases rule: push_cases)
  case (same fs m)
  then show ?thesis
    using assms(1) storage_ok_mint_operation [OF assms(1), of _ m] by (auto simp: storage_ok_def)
next
  case (forward fs m oid rs)
  then show ?thesis
    using assms(1) storage_ok_mint_operation [OF assms(1) forward(2)]
    by (auto simp: storage_ok_def history_ok_def)
qed

lemma line_of_total:
  assumes "storage_ok st"
  obtains ls rs where "line_of st (st_local st) = Inr ls" "line_of st (st_remote st) = Inr rs"
  using assms graph_ok_chain [of c_parent "st_commits st"]
  unfolding storage_ok_def history_ok_def line_of_def by metis

lemma line_of_member:
  assumes "line_of st h = Inr rs" "r \<in> set rs"
  obtains new old where "rs = new @ r # old" "line_of st r = Inr (r # old)"
  using assms unfolding line_of_def by (rule chain_suffix) (blast intro: that)

lemma push_forward:
  assumes "storage_ok st" "push st = (res, st')" "line_of st (st_remote st) = Inr old"
  shows "\<exists>new. line_of st' (st_remote st') = Inr (new @ old)"
  using assms(2)
proof (cases rule: push_cases)
  case (same fs m)
  with assms(3) show ?thesis by (simp add: line_of_def)
next
  case (forward fs m oid rs)
  from line_of_member [OF forward(3,4)] obtain new rest where
    "rs = new @ st_remote st # rest" "line_of st (st_remote st) = Inr (st_remote st # rest)" .
  with forward assms(3) show ?thesis by (auto simp: line_of_def)
qed

lemma remote_publish_cases:
  assumes "storage_ok st" "remote_publish clk docs st = (res, st')"
  obtains rv m1 oid m2 parent where "mint_revision (st_mint st) = (rv, m1)" "mint_operation m1 = (oid, m2)"
      "map_of (st_commits st) (st_remote st) = Some parent"
      "(\<exists>e. now_of clk = Inl e \<and> res = Inl e \<and> st' = st\<lparr>st_mint := m2\<rparr>) \<or>
       (\<exists>t c. now_of clk = Inr t \<and> res = Inr rv \<and>
          c = published_commit rv (st_remote st) (merged_snapshot (c_snapshot parent) docs) oid t
                ''remote'' ''competing'' \<and>
          st' = st\<lparr>st_mint := m2, st_commits := (rv, c) # st_commits st, st_remote := rv\<rparr>)"
proof -
  obtain rv m1 where m1: "mint_revision (st_mint st) = (rv, m1)" by force
  obtain oid m2 where m2: "mint_operation m1 = (oid, m2)" by force
  have h: "history_ok (issued (st_mint st)) (st_commits st) (st_local st) (st_remote st)"
    using assms(1) by (simp add: storage_ok_def)
  obtain parent where parent: "map_of (st_commits st) (st_remote st) = Some parent"
    using history_ok_keys [OF h] by (auto simp: in_keys_iff)
  note rev = history_ok_commit(1) [OF h parent]
  show thesis
    using assms(2) m1 m2 parent rev
    by (intro that [of rv m1 oid m2 parent])
      (cases "now_of clk"; auto simp: remote_publish_def published_commit_def)+
qed

lemma remote_publish_ok:
  assumes "storage_ok st" "remote_publish clk docs st = (res, st')"
  shows "storage_ok st' \<and> issued (st_mint st) \<subseteq> issued (st_mint st') \<and> st_records st' = st_records st \<and>
    (\<forall>old. line_of st (st_remote st) = Inr old \<longrightarrow> (\<exists>new. line_of st' (st_remote st') = Inr (new @ old)))"
  using assms
proof (cases rule: remote_publish_cases)
  case (1 rv m1 oid m2 parent)
  note mint = storage_ok_mint_revision [OF assms(1) 1(1)]
  have m2: "storage_ok (st\<lparr>st_mint := m2\<rparr>)" "issued m1 \<subseteq> issued m2"
    using storage_ok_mint_operation [OF mint(1), of oid m2] 1(2) by simp_all
  have sub: "issued (st_mint st) \<subseteq> issued m2" "rv \<in> issued m2"
    using mint_revision_issued [OF 1(1)] m2(2) by auto
  have h: "history_ok (issued (st_mint st)) (st_commits st) (st_local st) (st_remote st)"
    and w: "witnesses_ok (st_commits st) (st_local st) (st_publications st)"
    using assms(1) by (simp_all add: storage_ok_def)
  from 1(4) show ?thesis
  proof (elim disjE exE conjE)
    fix e
    assume "st' = st\<lparr>st_mint := m2\<rparr>"
    with m2 sub show ?thesis by (simp add: line_of_def)
  next
    fix t c
    assume c: "c = published_commit rv (st_remote st) (merged_snapshot (c_snapshot parent) docs) oid t
        ''remote'' ''competing''"
      and st': "st' = st\<lparr>st_mint := m2, st_commits := (rv, c) # st_commits st, st_remote := rv\<rparr>"
    have snap: "distinct (map fst (c_snapshot c)) \<and> sorted (map fst (c_snapshot c))"
      using merged_snapshot_ok history_ok_commit(2) [OF h 1(3)] by (simp add: c published_commit_def)
    have par: "c_parent c = Some (st_remote st)" "c_revision c = rv" by (simp_all add: c published_commit_def)
    have loc: "st_remote st \<in> fst ` set (st_commits st)" "st_local st \<in> fst ` set (st_commits st)"
      using history_ok_keys [OF h] by simp_all
    note new = history_ok_new [OF h mint(2) sub(1,2) par(1) loc(1) par(2) snap]
    have "storage_ok st'" "st_mint st' = m2" "st_records st' = st_records st"
      using m2(1) new(4) witnesses_ok_other [OF new(1) loc(2) w] by (simp_all add: st' storage_ok_def)
    moreover have "\<exists>new. line_of st' (st_remote st') = Inr (new @ old)"
      if "line_of st (st_remote st) = Inr old" for old
      using chain_new_child [OF new(1) par(1), of old] that by (auto simp: st' line_of_def)
    ultimately show ?thesis using sub(1) by simp
  qed
qed

lemma publish_line:
  assumes "storage_ok st" "publish clk changes ex oid author message st = (res, st')"
    "line_of st (st_remote st) = Inr old"
  shows "line_of st' (st_remote st') = Inr old"
  using assms(1,2)
proof (cases rule: publish_cases)
  case (raised e fs m)
  with assms(3) show ?thesis by (simp add: line_of_def)
next
  case (conflict fault fs)
  with assms(3) show ?thesis by (simp add: line_of_def)
next
  case (written fault fs rv m t docs parent)
  have ok: "storage_ok st'" using publish_ok [OF assms(1,2)] by simp
  have rem: "st_remote st \<in> fst ` set (st_commits st)" using assms(1) by (simp add: storage_ok_def history_ok_def)
  show ?thesis
  proof (cases "\<exists>f. fault = Some f \<and> \<not> f_applied f")
    case True
    with written(9) assms(3) show ?thesis by (auto simp: line_of_def)
  next
    case False
    then have "st_commits st' = (rv, published_commit rv (st_local st)
        (merged_snapshot (c_snapshot parent) docs) oid t author message) # st_commits st"
      "st_remote st' = st_remote st"
      using written(9) by (simp_all only: if_False) (simp_all add: with_commit_def)
    note cs = this
    have "graph_ok c_parent (st_commits st')" using ok by (simp add: storage_ok_def history_ok_def)
    from chain_older [OF this [unfolded cs(1)] rem] cs assms(3) show ?thesis by (simp add: line_of_def)
  qed
qed

lemma fetch_frame: "fetch st = (res, st') \<Longrightarrow> \<exists>fs. st' = st\<lparr>st_faults := fs\<rparr>"
  unfolding fetch_def
  by (cases "st_reachable st") (auto elim!: with_fault_cases intro: exI [of _ "st_faults st"])

end
