(* ===== verification/Hive_Fence.thy ===== *)
theory Hive_Fence
  imports Hq_History
begin

text \<open>
  \<^verbatim>\<open>InMemoryHiveFence\<close> (\<^verbatim>\<open>_fake.py\<close>): the writer fence of one hive. Each node has a local \<^verbatim>\<open>main\<close>;
  all nodes share one commit graph, one mint and one remote head (\<^verbatim>\<open>_SharedRemote\<close>). A node's view
  \<open>hive_fence\<close> holds the shared part (\<open>hf_mint\<close>, \<open>hf_commits\<close>, \<open>hf_remote\<close>) and its own; \<open>Fence_System\<close>
  runs several nodes over one shared part.

  A fence commit carries the writer row, the live epoch, the write marks and the bead rows a
  reclaim may touch. Sets are HOL sets, dictionaries association lists; a comment's stamp is the
  text \<^verbatim>\<open>strftime\<close> makes of it, computed with the proleptic Gregorian calendar for years from 1000.
\<close>

section \<open>Values\<close>

record writer_row =
  wr_frame :: string
  wr_epoch :: int
  wr_revision :: string

record epoch_floor_view =
  ef_history_max :: int
  ef_writer :: "int option"

record reclaim_note =
  n_bead :: string
  n_comment :: string
  n_author :: string
  n_text :: string
  n_created :: clock_reading

record reclaim_set =
  rc_dead_frame :: string
  rc_beads :: "string set"
  rc_resumable :: "string set"
  rc_notes :: "reclaim_note list"

record bump_request =
  b_frame :: string
  b_epoch :: int
  b_revision :: string
  b_operation :: operation_id
  b_reclaim :: "reclaim_set option"

record guard_report =
  g_expected :: nat
  g_present :: nat
  g_missing :: "string list"

definition claim_frame_prefix :: string where
  "claim_frame_prefix = ''claim-frame:''"

definition recovery_prefix :: string where
  "recovery_prefix = ''recovery:''"

definition resumable_label :: string where
  "resumable_label = ''recovery:resumable''"

definition adopt_sentinel :: "int \<Rightarrow> string" where
  "adopt_sentinel epoch = ''adopt-'' @ int_str epoch"

lemma adopt_sentinel_inject [simp]: "adopt_sentinel a = adopt_sentinel b \<longleftrightarrow> a = b"
  by (simp add: adopt_sentinel_def)

type_synonym comment_row = "string \<times> string \<times> string \<times> string \<times> string"

record fence_snapshot =
  s_writer :: "writer_row option"
  s_live_epoch :: int
  s_marks :: "(string \<times> int) set"
  s_beads :: "(string \<times> (string \<times> string)) list"
  s_labels :: "(string \<times> string) set"
  s_comments :: "comment_row set"

record fence_commit =
  fc_revision :: revision
  fc_parent :: "revision option"
  fc_state :: fence_snapshot
  fc_operation :: "operation_id option"
  fc_at :: instant
  fc_sentinel :: "string option"

record hive_fence =
  hf_mint :: mint
  hf_commits :: "fence_commit commits"
  hf_remote :: revision
  hf_faults :: "fault list"
  hf_guards :: "string list"
  hf_missing :: "string list"
  hf_local :: revision
  hf_reachable :: bool
  hf_capabilities :: "(string \<times> nat) list"

section \<open>The comment stamp\<close>

definition two_digits :: "int \<Rightarrow> string" where
  "two_digits n = (if n < 10 then CHR ''0'' # int_str n else int_str n)"

text \<open>Year, month and day of a day number counted from 1970-01-01.\<close>

definition civil_from_days :: "int \<Rightarrow> int \<times> int \<times> int" where
  "civil_from_days days =
     (let z = days + 719468;
          era = z div 146097;
          doe = z mod 146097;
          yoe = (doe - doe div 1460 + doe div 36524 - doe div 146096) div 365;
          doy = doe - (365 * yoe + yoe div 4 - yoe div 100);
          mp = (5 * doy + 2) div 153;
          d = doy - (153 * mp + 2) div 5 + 1;
          m = (if mp < 10 then mp + 3 else mp - 9)
      in (yoe + era * 400 + (if m \<le> 2 then 1 else 0), m, d))"

definition comment_stamp :: "instant \<Rightarrow> string" where
  "comment_stamp t =
     (let secs = t div 1000000; days = secs div 86400; sod = secs mod 86400
      in case civil_from_days days of (y, m, d) \<Rightarrow>
           int_str y @ ''-'' @ two_digits m @ ''-'' @ two_digits d @ '' '' @
           two_digits (sod div 3600) @ '':'' @ two_digits (sod mod 3600 div 60) @ '':'' @
           two_digits (sod mod 60))"

section \<open>Reclaim\<close>

fun check_notes :: "string set \<Rightarrow> string set \<Rightarrow> reclaim_note list \<Rightarrow> storage_error + unit" where
  "check_notes beads seen [] = Inr ()"
| "check_notes beads seen (n # ns) =
     (if n_bead n \<notin> beads then Inl InvalidRequest
      else and_then (check_key (n_comment n)) (\<lambda>_.
        and_then (check_key (n_author n)) (\<lambda>_.
          if n_text n = [] then Inl InvalidRequest
          else if n_created n = Naive then Inl InvalidRequest
          else if n_comment n \<in> seen then Inl InvalidRequest
          else check_notes beads (insert (n_comment n) seen) ns)))"

definition check_reclaim :: "reclaim_set \<Rightarrow> storage_error + unit" where
  "check_reclaim r =
     and_then (check_key (rc_dead_frame r)) (\<lambda>_.
       if \<exists>b \<in> rc_beads r. \<not> is_ok (check_key b) then Inl InvalidRequest
       else if \<not> rc_resumable r \<subseteq> rc_beads r then Inl InvalidRequest
       else check_notes (rc_beads r) {} (rc_notes r))"

text \<open>One round of the loop over \<^verbatim>\<open>sorted(live)\<close>.\<close>

definition reclaim_bead ::
  "string set \<Rightarrow> string \<Rightarrow> (string \<times> (string \<times> string)) list \<times> (string \<times> string) set
     \<Rightarrow> (string \<times> (string \<times> string)) list \<times> (string \<times> string) set"
where
  "reclaim_bead resumable bead bl =
     (let beads = AList.update bead (''open'', []) (fst bl);
          dropped = (\<lambda>label. starts_with label claim_frame_prefix \<or>
            (bead \<in> resumable \<and> starts_with label recovery_prefix));
          labels = {x \<in> snd bl. fst x \<noteq> bead \<or> \<not> dropped (snd x)}
      in (beads, if bead \<in> resumable then insert (bead, resumable_label) labels else labels))"

definition live_beads :: "fence_snapshot \<Rightarrow> reclaim_set \<Rightarrow> string set" where
  "live_beads state r =
     {b \<in> rc_beads r. case map_of (s_beads state) b of
                        None \<Rightarrow> False | Some (status, assignee) \<Rightarrow> status = ''in_progress''}"

fun note_comment :: "reclaim_note \<Rightarrow> comment_row" where
  "note_comment n =
     (n_comment n, n_bead n, n_author n, n_text n,
      case n_created n of Aware t \<Rightarrow> comment_stamp t | Naive \<Rightarrow> [])"

definition apply_reclaim ::
  "fence_snapshot \<Rightarrow> reclaim_set
     \<Rightarrow> (string \<times> (string \<times> string)) list \<times> (string \<times> string) set \<times> comment_row set"
where
  "apply_reclaim state r =
     (let live = live_beads state r;
          bl = fold (reclaim_bead (rc_resumable r)) (sorted_list_of_set live)
                 (s_beads state, s_labels state);
          comments = s_comments state \<union>
            note_comment ` set (filter (\<lambda>n. n_bead n \<in> live) (rc_notes r))
      in (fst bl, snd bl, comments))"

section \<open>Construction and reads\<close>

definition default_guards :: "string list" where
  "default_guards = [''bh_writer_guard'', ''bh_epoch_live_guard'', ''bh_write_mark_guard'']"

definition attach ::
  "mint \<Rightarrow> fence_commit commits \<Rightarrow> revision \<Rightarrow> string list \<Rightarrow> string list \<Rightarrow> hive_fence"
where
  "attach m cs head guards missing_guards =
     \<lparr>hf_mint = m, hf_commits = cs, hf_remote = head, hf_faults = [], hf_guards = guards,
      hf_missing = filter (\<lambda>g. g \<in> set missing_guards) guards, hf_local = head,
      hf_reachable = True, hf_capabilities = []\<rparr>"

definition init_fence ::
  "clock_reading \<Rightarrow> writer_row option \<Rightarrow> (string \<times> (string \<times> string)) list
     \<Rightarrow> (string \<times> string) set \<Rightarrow> string list \<Rightarrow> string list \<Rightarrow> string
     \<Rightarrow> (string \<Rightarrow> string) \<Rightarrow> (string \<Rightarrow> string) \<Rightarrow> storage_error + hive_fence"
where
  "init_fence clk writer beads labels guards missing_guards namespace sha256 uuid5 =
     (case mint_revision \<lparr>mint_namespace = namespace, mint_n = 0, mint_sha256 = sha256,
                          mint_uuid5 = uuid5\<rparr> of
        (rv, m) \<Rightarrow>
          and_then (now_of clk) (\<lambda>t.
            Inr (attach m
              [(rv, \<lparr>fc_revision = rv, fc_parent = None,
                     fc_state = \<lparr>s_writer = writer,
                                 s_live_epoch = (case writer of None \<Rightarrow> 0 | Some w \<Rightarrow> wr_epoch w),
                                 s_marks = {}, s_beads = beads, s_labels = labels, s_comments = {}\<rparr>,
                     fc_operation = None, fc_at = t, fc_sentinel = None\<rparr>)]
              rv guards missing_guards)))"

definition peer :: "string list \<Rightarrow> string list \<Rightarrow> hive_fence \<Rightarrow> hive_fence" where
  "peer guards missing_guards hf =
     attach (hf_mint hf) (hf_commits hf) (hf_remote hf) guards missing_guards"

definition commit_at :: "hive_fence \<Rightarrow> revision \<Rightarrow> storage_error + fence_commit" where
  "commit_at hf r = (case map_of (hf_commits hf) r of None \<Rightarrow> Inl KeyError | Some c \<Rightarrow> Inr c)"

definition fence_chain :: "hive_fence \<Rightarrow> revision \<Rightarrow> storage_error + revision list" where
  "fence_chain hf r = chain fc_parent (hf_commits hf) (Some r)"

definition sentinel_of :: "hive_fence \<Rightarrow> revision \<Rightarrow> storage_error + string option" where
  "sentinel_of hf r = and_then (commit_at hf r) (\<lambda>c. Inr (fc_sentinel c))"

definition parent_of :: "hive_fence \<Rightarrow> revision \<Rightarrow> storage_error + revision option" where
  "parent_of hf r = and_then (commit_at hf r) (\<lambda>c. Inr (fc_parent c))"

definition snapshot_at :: "hive_fence \<Rightarrow> revision \<Rightarrow> storage_error + fence_snapshot" where
  "snapshot_at hf r =
     (case map_of (hf_commits hf) r of None \<Rightarrow> Inl NotProvisioned | Some c \<Rightarrow> Inr (fc_state c))"

definition fence_set_reachable :: "bool \<Rightarrow> hive_fence \<Rightarrow> hive_fence" where
  "fence_set_reachable b hf = hf\<lparr>hf_reachable := b\<rparr>"

definition fence_register_capability :: "string \<Rightarrow> nat \<Rightarrow> hive_fence \<Rightarrow> hive_fence" where
  "fence_register_capability kind impl hf =
     hf\<lparr>hf_capabilities := AList.update kind impl (hf_capabilities hf)\<rparr>"

definition fence_capability :: "string \<Rightarrow> hive_fence \<Rightarrow> nat option" where
  "fence_capability kind hf = map_of (hf_capabilities hf) kind"

definition writer :: "hive_fence \<Rightarrow> storage_error + writer_row option" where
  "writer hf = and_then (commit_at hf (hf_local hf)) (\<lambda>c. Inr (s_writer (fc_state c)))"

definition remote_writer :: "hive_fence \<Rightarrow> storage_error + writer_row option" where
  "remote_writer hf =
     (if \<not> hf_reachable hf then Inl StorageUnavailable
      else and_then (commit_at hf (hf_remote hf)) (\<lambda>c. Inr (s_writer (fc_state c))))"

text \<open>\<^verbatim>\<open>max(epochs, default=0)\<close> over the writer epochs behind a revision.\<close>

fun max_default :: "int list \<Rightarrow> int" where
  "max_default [] = 0"
| "max_default (e # es) = fold max es e"

fun chain_epochs :: "fence_commit commits \<Rightarrow> revision list \<Rightarrow> storage_error + int list" where
  "chain_epochs cs [] = Inr []"
| "chain_epochs cs (r # rs) =
     (case map_of cs r of
        None \<Rightarrow> Inl KeyError
      | Some c \<Rightarrow> and_then (chain_epochs cs rs) (\<lambda>es.
          Inr (case s_writer (fc_state c) of None \<Rightarrow> es | Some w \<Rightarrow> wr_epoch w # es)))"

definition history_max :: "hive_fence \<Rightarrow> revision \<Rightarrow> storage_error + int" where
  "history_max hf r =
     and_then (fence_chain hf r) (\<lambda>rs.
     and_then (chain_epochs (hf_commits hf) rs) (\<lambda>es. Inr (max_default es)))"

definition epoch_floor :: "hive_fence \<Rightarrow> storage_error + epoch_floor_view" where
  "epoch_floor hf =
     and_then (history_max hf (hf_local hf)) (\<lambda>h.
     and_then (writer hf) (\<lambda>w.
       Inr \<lparr>ef_history_max = h, ef_writer = map_option wr_epoch w\<rparr>))"

definition guard_conformance :: "hive_fence \<Rightarrow> guard_report" where
  "guard_conformance hf =
     \<lparr>g_expected = length (hf_guards hf),
      g_present = length (hf_guards hf) - length (hf_missing hf),
      g_missing = hf_missing hf\<rparr>"

section \<open>Writes\<close>

definition add_commit :: "fence_commit \<Rightarrow> hive_fence \<Rightarrow> hive_fence" where
  "add_commit c hf = hf\<lparr>hf_commits := (fc_revision c, c) # hf_commits hf\<rparr>"

definition written_rows ::
  "string option \<Rightarrow> string \<Rightarrow> string \<Rightarrow> string list \<Rightarrow> fence_snapshot
     \<Rightarrow> storage_error + (string \<times> (string \<times> string)) list \<times> (string \<times> string) set"
where
  "written_rows bead status assignee labels state =
     (case bead of
        None \<Rightarrow> Inr (s_beads state, s_labels state)
      | Some b \<Rightarrow>
          and_then (check_key b) (\<lambda>_.
            if list_ex (\<lambda>l. \<not> is_ok (check_key l)) labels then Inl InvalidRequest
            else Inr (AList.update b (status, assignee) (s_beads state),
                      s_labels state \<union> Pair b ` set labels)))"

definition data_commit ::
  "clock_reading \<Rightarrow> string \<Rightarrow> fence_commit
     \<Rightarrow> (string \<times> (string \<times> string)) list \<times> (string \<times> string) set \<Rightarrow> hive_fence
     \<Rightarrow> (storage_error + revision) \<times> hive_fence"
where
  "data_commit clk mark parent rows hf =
     (let state = fc_state parent in
      case mint_revision (hf_mint hf) of
        (rv, m) \<Rightarrow>
          attempt (hf\<lparr>hf_mint := m\<rparr>) (now_of clk) (\<lambda>t.
            (Inr rv,
             (add_commit
               \<lparr>fc_revision = rv, fc_parent = Some (fc_revision parent),
                fc_state = state\<lparr>s_marks := insert (mark, s_live_epoch state) (s_marks state),
                                 s_beads := fst rows, s_labels := snd rows\<rparr>,
                fc_operation = None, fc_at = t, fc_sentinel = None\<rparr> (hf\<lparr>hf_mint := m\<rparr>))
             \<lparr>hf_local := rv\<rparr>)))"

definition local_write ::
  "clock_reading \<Rightarrow> string \<Rightarrow> string option \<Rightarrow> string \<Rightarrow> string \<Rightarrow> string list \<Rightarrow> hive_fence
     \<Rightarrow> (storage_error + revision) \<times> hive_fence"
where
  "local_write clk mark bead status assignee labels hf =
     attempt hf (check_key mark) (\<lambda>_.
     attempt hf (commit_at hf (hf_local hf)) (\<lambda>parent.
       if s_writer (fc_state parent) = None then (Inl NotProvisioned, hf)
       else if mark \<in> fst ` s_marks (fc_state parent) then (Inl InvalidRequest, hf)
       else attempt hf (written_rows bead status assignee labels (fc_state parent)) (\<lambda>rows.
         data_commit clk mark parent rows hf)))"

definition bump_state :: "fence_snapshot \<Rightarrow> bump_request \<Rightarrow> fence_snapshot" where
  "bump_state state bump =
     (let blc = (case b_reclaim bump of
                   None \<Rightarrow> (s_beads state, s_labels state, s_comments state)
                 | Some r \<Rightarrow> apply_reclaim state r)
      in \<lparr>s_writer = Some \<lparr>wr_frame = b_frame bump, wr_epoch = b_epoch bump,
                           wr_revision = b_revision bump\<rparr>,
          s_live_epoch = b_epoch bump,
          s_marks = insert (adopt_sentinel (b_epoch bump), b_epoch bump)
            {x \<in> s_marks state. snd x \<ge> b_epoch bump},
          s_beads = fst blc, s_labels = fst (snd blc), s_comments = snd (snd blc)\<rparr>)"

text \<open>The checks of \<^verbatim>\<open>_bump_commit\<close>: they return the state the bump starts from.\<close>

definition check_bump :: "revision \<Rightarrow> bump_request \<Rightarrow> hive_fence \<Rightarrow> storage_error + fence_snapshot" where
  "check_bump parent_rev bump hf =
     and_then (check_key (b_frame bump)) (\<lambda>_.
     and_then (check_operation (b_operation bump)) (\<lambda>_.
       if b_epoch bump < 1 then Inl InvalidRequest
       else and_then (case b_reclaim bump of None \<Rightarrow> Inr () | Some r \<Rightarrow> check_reclaim r) (\<lambda>_.
         and_then (commit_at hf parent_rev) (\<lambda>parent.
           case s_writer (fc_state parent) of
             None \<Rightarrow> Inl NotProvisioned
           | Some w \<Rightarrow>
               and_then (history_max hf parent_rev) (\<lambda>h.
                 if b_epoch bump \<le> max h (wr_epoch w) then Inl IntegrityViolation
                 else Inr (fc_state parent))))))"

definition bump_commit ::
  "clock_reading \<Rightarrow> revision \<Rightarrow> bump_request \<Rightarrow> hive_fence
     \<Rightarrow> (storage_error + fence_commit) \<times> hive_fence"
where
  "bump_commit clk parent_rev bump hf =
     attempt hf (check_bump parent_rev bump hf) (\<lambda>state.
       case mint_revision (hf_mint hf) of
         (rv, m) \<Rightarrow>
           let hf1 = hf\<lparr>hf_mint := m\<rparr> in
           attempt hf1 (now_of clk) (\<lambda>t.
             (Inr \<lparr>fc_revision = rv, fc_parent = Some parent_rev, fc_state = bump_state state bump,
                   fc_operation = Some (b_operation bump), fc_at = t,
                   fc_sentinel = Some (adopt_sentinel (b_epoch bump))\<rparr>, hf1)))"

definition remote_bump ::
  "clock_reading \<Rightarrow> bump_request \<Rightarrow> hive_fence \<Rightarrow> (storage_error + revision) \<times> hive_fence"
where
  "remote_bump clk bump hf =
     (case bump_commit clk (hf_remote hf) bump hf of
        (Inl e, hf1) \<Rightarrow> (Inl e, hf1)
      | (Inr c, hf1) \<Rightarrow> (Inr (fc_revision c), (add_commit c hf1)\<lparr>hf_remote := fc_revision c\<rparr>))"

definition fence_fault ::
  "string \<Rightarrow> bool \<Rightarrow> hive_fence \<Rightarrow> (fault option \<Rightarrow> hive_fence \<Rightarrow> (storage_error + 'a) \<times> hive_fence)
     \<Rightarrow> (storage_error + 'a) \<times> hive_fence"
where
  "fence_fault meth unknown_ok hf k =
     (case take_fault meth unknown_ok (hf_faults hf) of
        (r, fs) \<Rightarrow> attempt (hf\<lparr>hf_faults := fs\<rparr>) r (\<lambda>fault. k fault (hf\<lparr>hf_faults := fs\<rparr>)))"

definition sync_to_remote :: "hive_fence \<Rightarrow> (storage_error + sync_report) \<times> hive_fence" where
  "sync_to_remote hf =
     (if \<not> hf_reachable hf then (Inl StorageUnavailable, hf)
      else fence_fault ''sync_to_remote'' False hf (\<lambda>fault hf1.
        attempt hf1 (sync_counts fc_parent (hf_commits hf1) (hf_local hf1) (hf_remote hf1))
          (\<lambda>(ahead, behind).
            (Inr \<lparr>sr_head = hf_remote hf1, sr_ahead = ahead, sr_behind = behind,
                  sr_diverged = (0 < ahead \<and> 0 < behind)\<rparr>,
             hf1\<lparr>hf_local := hf_remote hf1\<rparr>))))"

definition commit_bump ::
  "clock_reading \<Rightarrow> bump_request \<Rightarrow> hive_fence \<Rightarrow> (storage_error + outcome) \<times> hive_fence"
where
  "commit_bump clk bump hf =
     (let prior = hf_local hf in
      case bump_commit clk prior bump hf of
        (Inl e, hf1) \<Rightarrow> (Inl e, hf1)
      | (Inr c, hf1) \<Rightarrow>
          fence_fault ''commit_bump'' True hf1 (\<lambda>fault hf2.
            let hf3 = (if (case fault of None \<Rightarrow> True | Some f \<Rightarrow> f_applied f)
                       then (add_commit c hf2)\<lparr>hf_local := fc_revision c\<rparr> else hf2)
            in (case fault of
                  Some f \<Rightarrow> (Inr (Unknown (b_operation bump) (At prior) (f_reason f)), hf3)
                | None \<Rightarrow> (Inr (Applied (fc_revision c) (b_operation bump)), hf3))))"

definition writer_versioned :: "fence_commit \<Rightarrow> versioned" where
  "writer_versioned c =
     \<lparr>v_key = ''bh_writer'', v_revision = fc_revision c,
      v_body = (case s_writer (fc_state c) of
                  None \<Rightarrow> JObj []
                | Some w \<Rightarrow> JObj [(''frame'', JStr (wr_frame w)), (''epoch'', JInt (wr_epoch w))])\<rparr>"

text \<open>\<^verbatim>\<open>self._commits[self._local].operation or self._mint.operation()\<close>.\<close>

definition push_operation :: "hive_fence \<Rightarrow> (storage_error + operation_id) \<times> hive_fence" where
  "push_operation hf =
     attempt hf (commit_at hf (hf_local hf)) (\<lambda>c.
       case fc_operation c of
         Some oid \<Rightarrow> (if oid \<noteq> [] then (Inr oid, hf)
                      else (case mint_operation (hf_mint hf) of (o', m) \<Rightarrow> (Inr o', hf\<lparr>hf_mint := m\<rparr>)))
       | None \<Rightarrow> (case mint_operation (hf_mint hf) of (o', m) \<Rightarrow> (Inr o', hf\<lparr>hf_mint := m\<rparr>)))"

definition fence_push :: "hive_fence \<Rightarrow> (storage_error + outcome) \<times> hive_fence" where
  "fence_push hf =
     (if \<not> hf_reachable hf then (Inl StorageUnavailable, hf)
      else fence_fault ''push'' True hf (\<lambda>fault hf1.
        case push_operation hf1 of
          (Inl e, hf2) \<Rightarrow> (Inl e, hf2)
        | (Inr operation, hf2) \<Rightarrow>
            let prior = hf_remote hf2; rollback = (\<lambda>h. h\<lparr>hf_remote := prior\<rparr>)
            in attempt hf2 (fence_chain hf2 (hf_local hf2)) (\<lambda>local_chain.
                 if prior \<in> set local_chain
                 then map_prod Inr id
                   (settle fault (Applied (hf_local hf2) operation) operation (At prior) rollback
                      (hf2\<lparr>hf_remote := hf_local hf2\<rparr>))
                 else attempt hf2 (commit_at hf2 prior) (\<lambda>c.
                   map_prod Inr id
                     (settle fault (Conflict (Some (writer_versioned c))) operation (At prior)
                        rollback hf2)))))"

fun find_sentinel ::
  "fence_commit commits \<Rightarrow> string \<Rightarrow> revision list \<Rightarrow> storage_error + (revision \<times> fence_commit) option"
where
  "find_sentinel cs sentinel [] = Inr None"
| "find_sentinel cs sentinel (r # rs) =
     (case map_of cs r of
        None \<Rightarrow> Inl KeyError
      | Some c \<Rightarrow> if fc_sentinel c = Some sentinel then Inr (Some (r, c))
                  else find_sentinel cs sentinel rs)"

definition lookup_bump ::
  "string \<Rightarrow> int \<Rightarrow> operation_id \<Rightarrow> hive_fence \<Rightarrow> storage_error + lookup_outcome"
where
  "lookup_bump frame epoch operation hf =
     and_then (check_operation operation) (\<lambda>_.
       if \<not> hf_reachable hf then Inl StorageUnavailable
       else and_then (commit_at hf (hf_remote hf)) (\<lambda>head.
         if adopt_sentinel epoch \<in> fst ` s_marks (fc_state head)
         then and_then (fence_chain hf (hf_remote hf)) (\<lambda>rs.
           and_then (find_sentinel (hf_commits hf) (adopt_sentinel epoch) rs) (\<lambda>found.
             Inr (case found of
                    None \<Rightarrow> NotConfirmed operation
                  | Some (r, c) \<Rightarrow>
                      (case s_writer (fc_state c) of
                         None \<Rightarrow> NotConfirmed operation
                       | Some w \<Rightarrow> if wr_frame w = frame then Confirmed operation r (fc_at c)
                                   else NotConfirmed operation))))
         else Inr (NotConfirmed operation)))"

end
