(* ===== verification/Fence_System.thy ===== *)
theory Fence_System
  imports Hive_Fence Cas_Contract
begin

text \<open>
  Many nodes, one hive: \<open>hive\<close> is the shared remote of \<^verbatim>\<open>InMemoryHiveFence\<close> with all its peers, and
  \<open>hive_step\<close> one call of any mutating method on any node, in any order.

  The invariant \<open>fence_inv\<close> says that every commit is either a data write that keeps its parent's
  writer row or a bump whose epoch exceeds it. From it: the writer epoch never goes down along a
  line of history, an epoch has one writer, the remote's line is only ever extended, and whatever
  lands on the remote later carries at least the epoch the remote had (a fenced writer cannot land).
\<close>

section \<open>Well-formed fence histories\<close>

definition snapshot_ok :: "fence_snapshot \<Rightarrow> bool" where
  "snapshot_ok s \<longleftrightarrow>
     s_live_epoch s = (case s_writer s of None \<Rightarrow> 0 | Some w \<Rightarrow> wr_epoch w) \<and>
     (\<forall>x \<in> s_marks s. snd x = s_live_epoch s)"

text \<open>How a commit follows its parent: a data write keeps the writer row, a bump exceeds it.\<close>

definition follows :: "fence_commit commits \<Rightarrow> fence_commit \<Rightarrow> bool" where
  "follows cs c \<longleftrightarrow>
     (case fc_parent c of
        None \<Rightarrow> fc_sentinel c = None
      | Some p \<Rightarrow>
          (\<exists>d wd w. map_of cs p = Some d \<and> s_writer (fc_state d) = Some wd \<and>
             s_writer (fc_state c) = Some w \<and>
             (case fc_sentinel c of
                None \<Rightarrow> w = wd
              | Some s \<Rightarrow> s = adopt_sentinel (wr_epoch w) \<and> wr_epoch wd < wr_epoch w \<and>
                  s_marks (fc_state c) = {(s, wr_epoch w)})))"

definition commit_ok :: "fence_commit commits \<Rightarrow> revision \<Rightarrow> fence_commit \<Rightarrow> bool" where
  "commit_ok older r c \<longleftrightarrow>
     r \<notin> fst ` set older \<and> fc_revision c = r \<and> snapshot_ok (fc_state c) \<and> follows older c"

lemma follows_mono:
  assumes "follows cs c" "\<And>p d. map_of cs p = Some d \<Longrightarrow> map_of cs' p = Some d"
  shows "follows cs' c"
proof (cases "fc_parent c")
  case None
  with assms(1) show ?thesis by (simp add: follows_def)
next
  case (Some p)
  with assms(1) obtain d wd w where "map_of cs p = Some d" "s_writer (fc_state d) = Some wd"
    "s_writer (fc_state c) = Some w" and s: "case fc_sentinel c of None \<Rightarrow> w = wd
      | Some s \<Rightarrow> s = adopt_sentinel (wr_epoch w) \<and> wr_epoch wd < wr_epoch w \<and>
          s_marks (fc_state c) = {(s, wr_epoch w)}"
    unfolding follows_def by auto
  with assms(2) Some show ?thesis unfolding follows_def by (simp only: option.case) blast
qed

lemma follows_older:
  assumes "follows cs c" "r \<notin> fst ` set cs"
  shows "follows ((r, c') # cs) c"
  using assms(1) by (rule follows_mono) (use assms(2) in \<open>auto dest: map_of_SomeD'\<close>)

fun fence_graph :: "fence_commit commits \<Rightarrow> bool" where
  "fence_graph [] = True"
| "fence_graph ((r, c) # older) = (commit_ok older r c \<and> fence_graph older)"

definition fence_inv :: "hive_fence \<Rightarrow> bool" where
  "fence_inv hf \<longleftrightarrow>
     collision_free (hf_mint hf) \<and> fence_graph (hf_commits hf) \<and>
     fst ` set (hf_commits hf) \<subseteq> issued (hf_mint hf) \<and>
     hf_local hf \<in> fst ` set (hf_commits hf) \<and> hf_remote hf \<in> fst ` set (hf_commits hf)"

lemma fence_graph_ok: "fence_graph cs \<Longrightarrow> graph_ok fc_parent cs"
  by (induction cs rule: fence_graph.induct)
    (auto simp: commit_ok_def follows_def split: option.splits dest: map_of_SomeD')

lemma fence_graph_commit:
  "fence_graph cs \<Longrightarrow> map_of cs r = Some c \<Longrightarrow>
   fc_revision c = r \<and> snapshot_ok (fc_state c) \<and> follows cs c"
proof (induction cs rule: fence_graph.induct)
  case (2 r' c' older)
  then have ok: "r' \<notin> fst ` set older" "fc_revision c' = r'" "snapshot_ok (fc_state c')"
    "follows older c'" by (simp_all add: commit_ok_def)
  show ?case
  proof (cases "r = r'")
    case True
    with 2 have "c' = c" by simp
    with ok True follows_older [OF ok(4,1)] show ?thesis by simp
  next
    case False
    with 2 have "fc_revision c = r \<and> snapshot_ok (fc_state c) \<and> follows older c" by simp
    with follows_older [of older c r'] ok(1) show ?thesis by blast
  qed
qed simp

section \<open>Epochs along a line of history\<close>

definition writer_at :: "fence_commit commits \<Rightarrow> revision \<Rightarrow> writer_row option" where
  "writer_at cs r = (case map_of cs r of None \<Rightarrow> None | Some c \<Rightarrow> s_writer (fc_state c))"

definition epoch_at :: "fence_commit commits \<Rightarrow> revision \<Rightarrow> int" where
  "epoch_at cs r = (case writer_at cs r of None \<Rightarrow> 0 | Some w \<Rightarrow> wr_epoch w)"

definition bump_at :: "fence_commit commits \<Rightarrow> revision \<Rightarrow> bool" where
  "bump_at cs r \<longleftrightarrow> (case map_of cs r of None \<Rightarrow> False | Some c \<Rightarrow> fc_sentinel c \<noteq> None)"

lemma parent_step:
  assumes "fence_graph cs" "map_of cs h = Some c" "fc_parent c = Some p"
  shows "writer_at cs p \<noteq> None \<and> writer_at cs h \<noteq> None \<and>
    (if bump_at cs h then epoch_at cs p < epoch_at cs h else writer_at cs h = writer_at cs p)"
  using fence_graph_commit [OF assms(1,2)] assms(2,3)
  by (auto simp: follows_def writer_at_def epoch_at_def bump_at_def split: option.splits)

lemma epochs_descend:
  "lineage fc_parent cs h rs \<Longrightarrow> fence_graph cs \<Longrightarrow> r \<in> set rs \<Longrightarrow> epoch_at cs r \<le> epoch_at cs h"
proof (induction rule: lineage.induct)
  case (child h c p rs)
  from parent_step [OF child.prems(1) child.hyps(1,2)] have "epoch_at cs p \<le> epoch_at cs h"
    by (auto simp: epoch_at_def split: if_splits)
  with child show ?case by fastforce
qed simp

lemma epochs_sorted:
  "lineage fc_parent cs h rs \<Longrightarrow> fence_graph cs \<Longrightarrow> sorted_wrt (\<ge>) (map (epoch_at cs) rs)"
proof (induction rule: lineage.induct)
  case (child h c p rs)
  have "epoch_at cs r \<le> epoch_at cs h" if "r \<in> set rs" for r
    using epochs_descend [of cs h "h # rs" r] lineage.child [OF child.hyps] child.prems that by simp
  with child show ?case by simp
qed simp

lemma bump_strict:
  assumes "lineage fc_parent cs h (h # rs)" "fence_graph cs" "bump_at cs h" "r \<in> set rs"
  shows "epoch_at cs r < epoch_at cs h"
  using assms(1)
proof (cases rule: lineage.cases)
  case (root c)
  with assms(4) show ?thesis by simp
next
  case (child c p)
  from parent_step [OF assms(2) child(1,2)] assms(3) have "epoch_at cs p < epoch_at cs h" by simp
  moreover have "epoch_at cs r \<le> epoch_at cs p" using epochs_descend child(3) assms(2,4) by blast
  ultimately show ?thesis by simp
qed

text \<open>One writer row per epoch on a line of history.\<close>

lemma epoch_has_one_writer:
  "lineage fc_parent cs h rs \<Longrightarrow> fence_graph cs \<Longrightarrow> a \<in> set rs \<Longrightarrow> b \<in> set rs \<Longrightarrow>
   writer_at cs a \<noteq> None \<Longrightarrow> writer_at cs b \<noteq> None \<Longrightarrow> epoch_at cs a = epoch_at cs b \<Longrightarrow>
   writer_at cs a = writer_at cs b"
proof (induction arbitrary: a b rule: lineage.induct)
  case (root h c)
  then show ?case by simp
next
  case (child h c p rs)
  have line: "lineage fc_parent cs h (h # rs)" using lineage.child [OF child.hyps] .
  have pin: "p \<in> set rs" using lineage_hd [OF child.hyps(3)] by auto
  have top: "writer_at cs h = writer_at cs r"
    if r: "r \<in> set rs" "writer_at cs r \<noteq> None" "epoch_at cs r = epoch_at cs h" for r
  proof -
    have "\<not> bump_at cs h" using bump_strict [OF line child.prems(1) _ r(1)] r(3) by auto
    with parent_step [OF child.prems(1) child.hyps(1,2)] have w: "writer_at cs h = writer_at cs p"
      "writer_at cs p \<noteq> None" by (auto split: if_splits)
    then have "epoch_at cs r = epoch_at cs p" using r(3) by (simp add: epoch_at_def)
    with child.IH [OF child.prems(1) r(1) pin r(2) w(2)] w show ?thesis by simp
  qed
  show ?case
  proof (cases "a \<in> set rs"; cases "b \<in> set rs")
    assume "a \<in> set rs" "b \<in> set rs"
    with child.IH child.prems show ?thesis by blast
  next
    assume "a \<in> set rs" "b \<notin> set rs"
    with child.prems top [of a] show ?thesis by auto
  next
    assume "a \<notin> set rs" "b \<in> set rs"
    with child.prems top [of b] show ?thesis by auto
  next
    assume "a \<notin> set rs" "b \<notin> set rs"
    with child.prems show ?thesis by auto
  qed
qed

text \<open>A line of history has at most one bump for an epoch.\<close>

lemma one_bump_per_epoch:
  "lineage fc_parent cs h rs \<Longrightarrow> fence_graph cs \<Longrightarrow> a \<in> set rs \<Longrightarrow> b \<in> set rs \<Longrightarrow>
   bump_at cs a \<Longrightarrow> bump_at cs b \<Longrightarrow> epoch_at cs a = epoch_at cs b \<Longrightarrow> a = b"
proof (induction arbitrary: a b rule: lineage.induct)
  case (child h c p rs)
  have line: "lineage fc_parent cs h (h # rs)" using lineage.child [OF child.hyps] .
  show ?case
    using child bump_strict [OF line child.prems(1)] by (metis less_irrefl set_ConsD)
qed simp

section \<open>The epoch floor\<close>

lemma chain_epochs_spec:
  assumes "set rs \<subseteq> fst ` set cs"
  obtains es where "chain_epochs cs rs = Inr es"
    "set es = epoch_at cs ` {r \<in> set rs. writer_at cs r \<noteq> None}"
    "\<And>r rest w. rs = r # rest \<Longrightarrow> writer_at cs r = Some w \<Longrightarrow> \<exists>es'. es = wr_epoch w # es'"
proof -
  have "\<exists>es. chain_epochs cs rs = Inr es \<and>
    set es = epoch_at cs ` {r \<in> set rs. writer_at cs r \<noteq> None} \<and>
    (\<forall>r rest w. rs = r # rest \<longrightarrow> writer_at cs r = Some w \<longrightarrow> (\<exists>es'. es = wr_epoch w # es'))"
    using assms
  proof (induction rs)
    case (Cons r rs)
    then obtain es c where "chain_epochs cs rs = Inr es"
      "set es = epoch_at cs ` {r \<in> set rs. writer_at cs r \<noteq> None}" "map_of cs r = Some c"
      by (force simp: in_keys_iff)
    moreover have w: "writer_at cs r = s_writer (fc_state c)" using calculation by (simp add: writer_at_def)
    moreover have "{x \<in> set (r # rs). writer_at cs x \<noteq> None} =
        (if writer_at cs r = None then {} else {r}) \<union> {x \<in> set rs. writer_at cs x \<noteq> None}" by auto
    ultimately show ?case
      by (cases "s_writer (fc_state c)") (simp_all add: epoch_at_def [of cs r])
  qed simp
  then show thesis using that by blast
qed

lemma fold_max_id: "\<forall>x \<in> set es. x \<le> e \<Longrightarrow> fold max es (e :: int) = e"
  by (induction es) auto

lemma history_max_eq:
  assumes "fence_graph (hf_commits hf)" "r \<in> fst ` set (hf_commits hf)"
    "writer_at (hf_commits hf) r = Some w"
  shows "history_max hf r = Inr (wr_epoch w)"
proof -
  from graph_ok_chain [OF fence_graph_ok [OF assms(1)] assms(2)]
  obtain rs where rs: "fence_chain hf r = Inr rs" by (auto simp: fence_chain_def)
  then obtain rest where hd: "rs = r # rest" using chain_hd by (metis fence_chain_def)
  from rs have keys: "set rs \<subseteq> fst ` set (hf_commits hf)" using chain_keys by (metis fence_chain_def)
  have line: "lineage fc_parent (hf_commits hf) r rs" using rs by (simp add: fence_chain_def chain_iff_lineage)
  have below: "epoch_at (hf_commits hf) x \<le> wr_epoch w" if "x \<in> set rs" for x
    using epochs_descend [OF line assms(1) that] assms(3) by (simp add: epoch_at_def)
  from chain_epochs_spec [OF keys] obtain es where es: "chain_epochs (hf_commits hf) rs = Inr es"
    "set es = epoch_at (hf_commits hf) ` {r \<in> set rs. writer_at (hf_commits hf) r \<noteq> None}"
    "\<And>r rest w. rs = r # rest \<Longrightarrow> writer_at (hf_commits hf) r = Some w \<Longrightarrow> \<exists>es'. es = wr_epoch w # es'"
    by blast
  obtain es' where es': "es = wr_epoch w # es'" using es(3) [OF hd assms(3)] by blast
  have "x \<le> wr_epoch w" if "x \<in> set es'" for x
  proof -
    have "x \<in> set es" using that es' by simp
    with es(2) below show ?thesis by auto
  qed
  then have "fold max es' (wr_epoch w) = wr_epoch w" by (intro fold_max_id) blast
  with rs es(1) es' show ?thesis by (simp add: history_max_def)
qed

section \<open>New commits\<close>

lemma fence_inv_mint:
  assumes "fence_inv hf" "m = hf_mint hf \<or> (\<exists>rv. mint_revision (hf_mint hf) = (rv, m)) \<or>
    (\<exists>oid. mint_operation (hf_mint hf) = (oid, m))"
  shows "fence_inv (hf\<lparr>hf_mint := m\<rparr>)" "issued (hf_mint hf) \<subseteq> issued m"
proof -
  have m: "issued (hf_mint hf) \<subseteq> issued m" "collision_free m = collision_free (hf_mint hf)"
    using assms(2) mint_facts(2-5) by blast+
  then show "issued (hf_mint hf) \<subseteq> issued m" by simp
  from m(1) assms(1) have "fst ` set (hf_commits hf) \<subseteq> issued m" unfolding fence_inv_def by blast
  with m(2) assms(1) show "fence_inv (hf\<lparr>hf_mint := m\<rparr>)" by (simp add: fence_inv_def)
qed

lemma fence_inv_new:
  assumes "fence_inv hf" "mint_revision (hf_mint hf) = (rv, m)"
    "fc_revision c = rv" "snapshot_ok (fc_state c)" "follows (hf_commits hf) c"
  shows "fence_inv ((add_commit c (hf\<lparr>hf_mint := m\<rparr>))\<lparr>hf_local := rv\<rparr>)"
    "fence_inv ((add_commit c (hf\<lparr>hf_mint := m\<rparr>))\<lparr>hf_remote := rv\<rparr>)"
proof -
  have "rv \<notin> issued (hf_mint hf)" "issued m = insert rv (issued (hf_mint hf))" "collision_free m"
    using assms(1,2) mint_facts(1-3) by (auto simp: fence_inv_def)
  moreover from this have "commit_ok (hf_commits hf) rv c"
    using assms by (auto simp: commit_ok_def fence_inv_def)
  ultimately show "fence_inv ((add_commit c (hf\<lparr>hf_mint := m\<rparr>))\<lparr>hf_local := rv\<rparr>)"
    "fence_inv ((add_commit c (hf\<lparr>hf_mint := m\<rparr>))\<lparr>hf_remote := rv\<rparr>)"
    using assms(1,3) by (auto simp: fence_inv_def add_commit_def)
qed

lemma fence_inv_commit:
  assumes "fence_inv hf" "r \<in> {hf_local hf, hf_remote hf}"
  obtains c where "map_of (hf_commits hf) r = Some c" "fc_revision c = r" "snapshot_ok (fc_state c)"
proof -
  from assms have "r \<in> fst ` set (hf_commits hf)" by (auto simp: fence_inv_def)
  then obtain c where c: "map_of (hf_commits hf) r = Some c" by (auto simp: in_keys_iff)
  with fence_graph_commit assms(1) show thesis by (intro that [OF c]) (auto simp: fence_inv_def)
qed

definition made_bump :: "revision \<Rightarrow> revision \<Rightarrow> fence_snapshot \<Rightarrow> bump_request \<Rightarrow> instant \<Rightarrow> fence_commit" where
  "made_bump rv p state bump t =
     \<lparr>fc_revision = rv, fc_parent = Some p, fc_state = bump_state state bump,
      fc_operation = Some (b_operation bump), fc_at = t,
      fc_sentinel = Some (adopt_sentinel (b_epoch bump))\<rparr>"

lemma made_bump_revision [simp]: "fc_revision (made_bump rv p state bump t) = rv"
  by (simp add: made_bump_def)

lemma check_bump_Inr:
  assumes "fence_inv hf" "p \<in> fst ` set (hf_commits hf)" "check_bump p bump hf = Inr state"
  obtains c w where "map_of (hf_commits hf) p = Some c" "fc_state c = state" "s_writer state = Some w"
    "wr_epoch w < b_epoch bump" "1 \<le> b_epoch bump" "b_frame bump \<noteq> []" "canonical_uuid (b_operation bump)"
proof -
  from assms(3) obtain c w h where c: "map_of (hf_commits hf) p = Some c" "fc_state c = state"
    "s_writer state = Some w" and h: "history_max hf p = Inr h" "\<not> b_epoch bump \<le> max h (wr_epoch w)"
    and args: "\<not> b_epoch bump < 1" "b_frame bump \<noteq> []" "canonical_uuid (b_operation bump)"
    unfolding check_bump_def
    by (auto simp: and_then_eq_Inr commit_at_def check_key_Inr check_operation_Inr
        split: if_splits option.splits)
  then show thesis by (intro that [OF c]) auto
qed

lemma bump_commit_cases:
  assumes "fence_inv hf" "p \<in> fst ` set (hf_commits hf)" "bump_commit clk p bump hf = (res, hf')"
  obtains (raised) e m where "res = Inl e" "hf' = hf\<lparr>hf_mint := m\<rparr>"
      "m = hf_mint hf \<or> (\<exists>rv. mint_revision (hf_mint hf) = (rv, m))"
    | (made) rv m t state w c where "res = Inr (made_bump rv p state bump t)"
      "hf' = hf\<lparr>hf_mint := m\<rparr>" "mint_revision (hf_mint hf) = (rv, m)" "now_of clk = Inr t"
      "map_of (hf_commits hf) p = Some c" "fc_state c = state" "s_writer state = Some w"
      "wr_epoch w < b_epoch bump" "canonical_uuid (b_operation bump)"
proof (cases "check_bump p bump hf")
  case (Inl e)
  with assms(3) show thesis by (intro raised [where m = "hf_mint hf"]) (auto simp: bump_commit_def)
next
  case (Inr state)
  obtain rv m where m: "mint_revision (hf_mint hf) = (rv, m)" by force
  from check_bump_Inr [OF assms(1,2) Inr] obtain c w where c: "map_of (hf_commits hf) p = Some c"
    "fc_state c = state" "s_writer state = Some w" "wr_epoch w < b_epoch bump"
    "canonical_uuid (b_operation bump)" by blast
  show thesis
  proof (cases "now_of clk")
    fix e
    assume "now_of clk = Inl e"
    with assms(3) Inr m show thesis by (intro raised [where m = m]) (auto simp: bump_commit_def Let_def)
  next
    fix t
    assume "now_of clk = Inr t"
    with assms(3) Inr m c show thesis
      by (intro made [where rv = rv and m = m and t = t and state = state and w = w and c = c])
        (auto simp: bump_commit_def made_bump_def Let_def)
  qed
qed

lemma made_bump_ok:
  assumes "fence_inv hf" "map_of (hf_commits hf) p = Some c" "fc_state c = state" "s_writer state = Some w"
    "wr_epoch w < b_epoch bump"
  shows "fc_revision (made_bump rv p state bump t) = rv"
    "snapshot_ok (fc_state (made_bump rv p state bump t))"
    "follows (hf_commits hf) (made_bump rv p state bump t)"
proof -
  have ok: "snapshot_ok state" using fence_graph_commit assms by (auto simp: fence_inv_def)
  with assms(4,5) have "{x \<in> s_marks state. snd x \<ge> b_epoch bump} = {}" by (auto simp: snapshot_ok_def)
  then have marks: "s_marks (bump_state state bump) = {(adopt_sentinel (b_epoch bump), b_epoch bump)}"
    unfolding bump_state_def Let_def by (simp only: fence_snapshot.simps)
  have state: "fc_state (made_bump rv p state bump t) = bump_state state bump"
    "fc_parent (made_bump rv p state bump t) = Some p"
    "fc_sentinel (made_bump rv p state bump t) = Some (adopt_sentinel (b_epoch bump))"
    by (simp_all add: made_bump_def)
  have parts: "s_live_epoch (bump_state state bump) = b_epoch bump"
    "\<exists>w'. s_writer (bump_state state bump) = Some w' \<and> wr_epoch w' = b_epoch bump"
    by (simp_all add: bump_state_def Let_def)
  show "fc_revision (made_bump rv p state bump t) = rv" by (simp add: made_bump_def)
  show "snapshot_ok (fc_state (made_bump rv p state bump t))"
    using marks parts by (auto simp: snapshot_ok_def state)
  show "follows (hf_commits hf) (made_bump rv p state bump t)"
    using marks parts assms by (auto simp: follows_def state)
qed

section \<open>The calls of one node\<close>

text \<open>
  \<open>advances hf hf'\<close> is what every call of a node does to the hive: the invariant stays, commits are
  only added, and the remote's line of history is only extended, by commits whose epoch is at least
  the remote's.
\<close>

definition advances :: "hive_fence \<Rightarrow> hive_fence \<Rightarrow> bool" where
  "advances hf hf' \<longleftrightarrow>
     fence_inv hf' \<and> (\<exists>new. hf_commits hf' = new @ hf_commits hf) \<and>
     (\<forall>old. fence_chain hf (hf_remote hf) = Inr old \<longrightarrow>
        (\<exists>new. fence_chain hf' (hf_remote hf') = Inr (new @ old)))"

lemma advances_quiet:
  assumes "fence_inv hf'" "hf_commits hf' = hf_commits hf" "hf_remote hf' = hf_remote hf"
  shows "advances hf hf'"
  using assms by (auto simp: advances_def fence_chain_def)

lemma fence_inv_graph: "fence_inv hf \<Longrightarrow> graph_ok fc_parent (hf_commits hf)"
  by (simp add: fence_inv_def fence_graph_ok)

lemma advances_local:
  assumes "fence_inv hf" "fence_inv hf'" "hf_commits hf' = (r, c) # hf_commits hf" "hf_remote hf' = hf_remote hf"
  shows "advances hf hf'"
  using assms chain_older [OF fence_inv_graph [OF assms(2), unfolded assms(3)], of "hf_remote hf"]
  by (auto simp: advances_def fence_chain_def fence_inv_def)

lemma advances_remote:
  assumes "fence_inv hf" "fence_inv hf'" "hf_commits hf' = (r, c) # hf_commits hf" "hf_remote hf' = r"
    "fc_parent c = Some (hf_remote hf)"
  shows "advances hf hf'"
  using assms chain_new_child [OF fence_inv_graph [OF assms(2), unfolded assms(3)] assms(5)]
  by (auto simp: advances_def fence_chain_def)

lemma fence_inv_faults [simp]: "fence_inv (hf\<lparr>hf_faults := fs\<rparr>) = fence_inv hf"
  by (simp add: fence_inv_def)

lemma fence_fault_cases:
  assumes "fence_fault meth ok hf k = (res, hf')"
  obtains (unavailable) fs where "res = Inl StorageUnavailable" "hf' = hf\<lparr>hf_faults := fs\<rparr>"
    | (runs) fault fs where "k fault (hf\<lparr>hf_faults := fs\<rparr>) = (res, hf')"
        "take_fault meth ok (hf_faults hf) = (Inr fault, fs)"
proof -
  obtain r fs where t: "take_fault meth ok (hf_faults hf) = (r, fs)" by force
  show thesis
  proof (cases r)
    case (Inl e)
    with t assms take_fault_error [of meth ok "hf_faults hf" e fs] show thesis
      by (intro unavailable [of fs]) (simp_all add: fence_fault_def)
  next
    case (Inr fault)
    with t assms show thesis by (intro runs [of fault fs]) (simp_all add: fence_fault_def)
  qed
qed

lemma local_write_cases:
  assumes "fence_inv hf" "local_write clk mark bead status assignee labels hf = (res, hf')"
  obtains (raised) e m where "res = Inl e" "hf' = hf\<lparr>hf_mint := m\<rparr>"
      "m = hf_mint hf \<or> (\<exists>rv. mint_revision (hf_mint hf) = (rv, m))"
    | (made) rv m c p w where "res = Inr rv" "mint_revision (hf_mint hf) = (rv, m)"
      "hf' = (add_commit c (hf\<lparr>hf_mint := m\<rparr>))\<lparr>hf_local := rv\<rparr>" "fc_revision c = rv"
      "fc_parent c = Some (hf_local hf)" "fc_sentinel c = None" "fc_operation c = None"
      "map_of (hf_commits hf) (hf_local hf) = Some p" "s_writer (fc_state p) = Some w"
      "s_writer (fc_state c) = Some w" "s_live_epoch (fc_state c) = s_live_epoch (fc_state p)"
      "s_marks (fc_state c) = insert (mark, s_live_epoch (fc_state p)) (s_marks (fc_state p))"
proof -
  from assms(1) obtain p where p: "map_of (hf_commits hf) (hf_local hf) = Some p"
    "fc_revision p = hf_local hf" by (rule fence_inv_commit) auto
  consider (early) e where "res = Inl e" "hf' = hf"
    | (go) w rows where "s_writer (fc_state p) = Some w" "data_commit clk mark p rows hf = (res, hf')"
    using assms(2) p(1) unfolding local_write_def
    by (elim attempt_cases) (auto simp: commit_at_def split: if_splits elim!: attempt_cases)
  then show thesis
  proof cases
    case early
    then show thesis by (intro raised [where m = "hf_mint hf"]) auto
  next
    case (go w rows)
    obtain rv m where m: "mint_revision (hf_mint hf) = (rv, m)" by force
    show thesis
    proof (cases "now_of clk")
      case (Inl e)
      with go(2) m show thesis by (intro raised [where m = m]) (auto simp: data_commit_def Let_def)
    next
      case (Inr t)
      let ?c = "\<lparr>fc_revision = rv, fc_parent = Some (fc_revision p),
        fc_state = (fc_state p)\<lparr>s_marks := insert (mark, s_live_epoch (fc_state p)) (s_marks (fc_state p)),
                                s_beads := fst rows, s_labels := snd rows\<rparr>,
        fc_operation = None, fc_at = t, fc_sentinel = None\<rparr>"
      from go m Inr p show thesis
        by (intro made [where rv = rv and m = m and p = p and w = w and c = ?c])
          (auto simp: data_commit_def Let_def)
    qed
  qed
qed

lemma local_write_advances:
  assumes "fence_inv hf" "local_write clk mark bead status assignee labels hf = (res, hf')"
  shows "advances hf hf'"
  using assms
proof (cases rule: local_write_cases)
  case (raised e m)
  with fence_inv_mint [OF assms(1), of m] show ?thesis by (intro advances_quiet) auto
next
  case (made rv m c p w)
  have "snapshot_ok (fc_state p)" using fence_graph_commit assms(1) made(8) by (auto simp: fence_inv_def)
  with made have "snapshot_ok (fc_state c)" "follows (hf_commits hf) c"
    by (auto simp: snapshot_ok_def follows_def)
  from fence_inv_new(1) [OF assms(1) made(2,4) this] made(3)
  show ?thesis by (intro advances_local [OF assms(1), of hf' rv c]) (auto simp: add_commit_def made(4))
qed

lemma commit_bump_cases:
  assumes "fence_inv hf" "commit_bump clk bump hf = (res, hf')"
  obtains (raised) e m fs where "res = Inl e" "hf' = hf\<lparr>hf_mint := m, hf_faults := fs\<rparr>"
      "m = hf_mint hf \<or> (\<exists>rv. mint_revision (hf_mint hf) = (rv, m))"
    | (made) fault :: "fault option" and rv m t fs state w c where
      "mint_revision (hf_mint hf) = (rv, m)" "now_of clk = Inr t"
      "map_of (hf_commits hf) (hf_local hf) = Some c" "fc_state c = state" "s_writer state = Some w"
      "wr_epoch w < b_epoch bump" "canonical_uuid (b_operation bump)"
      "res = Inr (case fault of None \<Rightarrow> Applied rv (b_operation bump)
          | Some f \<Rightarrow> Unknown (b_operation bump) (At (hf_local hf)) (f_reason f))"
      "hf' = (let base = hf\<lparr>hf_mint := m, hf_faults := fs\<rparr> in
         if \<exists>f. fault = Some f \<and> \<not> f_applied f then base
         else (add_commit (made_bump rv (hf_local hf) state bump t) base)\<lparr>hf_local := rv\<rparr>)"
proof -
  have loc: "hf_local hf \<in> fst ` set (hf_commits hf)" using assms(1) by (simp add: fence_inv_def)
  obtain r hf1 where b: "bump_commit clk (hf_local hf) bump hf = (r, hf1)" by force
  from assms(1) loc b show thesis
  proof (cases rule: bump_commit_cases)
    case (raised e m)
    with assms(2) b show thesis
      by (intro that(1) [where m = m and fs = "hf_faults hf"]) (auto simp: commit_bump_def)
  next
    case (made rv m t state w c)
    let ?b = "made_bump rv (hf_local hf) state bump t"
    let ?k = "\<lambda>fault hf2.
            let hf3 = (if (case fault of None \<Rightarrow> True | Some f \<Rightarrow> f_applied f)
                       then (add_commit ?b hf2)\<lparr>hf_local := fc_revision ?b\<rparr> else hf2)
            in (case fault of
                  Some f \<Rightarrow> (Inr (Unknown (b_operation bump) (At (hf_local hf)) (f_reason f)), hf3)
                | None \<Rightarrow> (Inr (Applied (fc_revision ?b) (b_operation bump)), hf3))"
    have run: "fence_fault ''commit_bump'' True hf1 ?k = (res, hf')"
      using assms(2) b made(1) by (simp add: commit_bump_def Let_def)
    from run show thesis
    proof (cases rule: fence_fault_cases)
      case (unavailable fs)
      with made show thesis by (intro that(1) [where m = m and fs = fs]) auto
    next
      case (runs fault fs)
      with made show thesis
        by (intro that(2) [where fault = fault and rv = rv and m = m and t = t and fs = fs
              and state = state and w = w and c = c])
          (auto simp: Let_def split: option.splits)
    qed
  qed
qed

lemma commit_bump_advances:
  assumes "fence_inv hf" "commit_bump clk bump hf = (res, hf')"
  shows "advances hf hf'"
  using assms
proof (cases rule: commit_bump_cases)
  case (raised e m fs)
  with fence_inv_mint [OF assms(1), of m] show ?thesis by (intro advances_quiet) auto
next
  case (made fault rv m t fs state w c)
  let ?b = "made_bump rv (hf_local hf) state bump t"
  note ok = made_bump_ok [OF assms(1) made(3,4,5,6), of rv t]
  have base: "fence_inv (hf\<lparr>hf_mint := m, hf_faults := fs\<rparr>)"
    using fence_inv_mint(1) [OF assms(1), of m] made(1) by auto
  have new: "fence_inv ((add_commit ?b (hf\<lparr>hf_mint := m, hf_faults := fs\<rparr>))\<lparr>hf_local := rv\<rparr>)"
    using fence_inv_new(1) [OF assms(1) made(1) ok] by (simp add: add_commit_def fence_inv_def)
  show ?thesis
  proof (cases "\<exists>f. fault = Some f \<and> \<not> f_applied f")
    case True
    with made(9) base show ?thesis by (intro advances_quiet) (auto simp: Let_def)
  next
    case False
    then have hf': "hf' = (add_commit ?b (hf\<lparr>hf_mint := m, hf_faults := fs\<rparr>))\<lparr>hf_local := rv\<rparr>"
      using made(9) by (simp only: Let_def if_False)
    with new show ?thesis by (intro advances_local [OF assms(1), of hf' rv ?b]) (auto simp: add_commit_def ok(1))
  qed
qed

lemma remote_bump_advances:
  assumes "fence_inv hf" "remote_bump clk bump hf = (res, hf')"
  shows "advances hf hf'"
proof -
  have rem: "hf_remote hf \<in> fst ` set (hf_commits hf)" using assms(1) by (simp add: fence_inv_def)
  obtain r hf1 where b: "bump_commit clk (hf_remote hf) bump hf = (r, hf1)" by force
  from assms(1) rem b show ?thesis
  proof (cases rule: bump_commit_cases)
    case (raised e m)
    with assms(2) b fence_inv_mint [OF assms(1), of m] show ?thesis
      by (intro advances_quiet) (auto simp: remote_bump_def)
  next
    case (made rv m t state w c)
    note ok = made_bump_ok [OF assms(1) made(5-8), of rv t]
    have hf': "hf' = (add_commit (made_bump rv (hf_remote hf) state bump t) (hf\<lparr>hf_mint := m\<rparr>))\<lparr>hf_remote := rv\<rparr>"
      using assms(2) b made ok(1) by (simp add: remote_bump_def)
    with fence_inv_new(2) [OF assms(1) made(3) ok] show ?thesis
      by (intro advances_remote [OF assms(1), of hf' rv "made_bump rv (hf_remote hf) state bump t"])
        (auto simp: add_commit_def ok(1) made_bump_def)
  qed
qed

lemma push_operation_cases:
  assumes "push_operation hf = (res, hf')"
  obtains m where "hf' = hf\<lparr>hf_mint := m\<rparr>" "m = hf_mint hf \<or> (\<exists>oid. mint_operation (hf_mint hf) = (oid, m))"
proof -
  obtain oid m where m: "mint_operation (hf_mint hf) = (oid, m)" by force
  have "hf' = hf \<or> hf' = hf\<lparr>hf_mint := m\<rparr>"
    using assms m unfolding push_operation_def
    by (elim attempt_cases) (auto split: option.splits if_splits)
  then show thesis
    using m that [of "hf_mint hf"] that [of m] by auto
qed

lemma fence_push_cases:
  assumes "fence_push hf = (res, hf')"
  obtains (same) m fs where "hf' = hf\<lparr>hf_mint := m, hf_faults := fs\<rparr>"
      "m = hf_mint hf \<or> (\<exists>oid. mint_operation (hf_mint hf) = (oid, m))"
      "\<forall>r oid. res \<noteq> Inr (Applied r oid)"
      "\<forall>v. res = Inr (Conflict v) \<longrightarrow>
        (\<exists>rs. fence_chain hf (hf_local hf) = Inr rs \<and> hf_remote hf \<notin> set rs)"
    | (forward) m fs rs where
      "hf' = hf\<lparr>hf_mint := m, hf_faults := fs, hf_remote := hf_local hf\<rparr>"
      "m = hf_mint hf \<or> (\<exists>oid. mint_operation (hf_mint hf) = (oid, m))"
      "fence_chain hf (hf_local hf) = Inr rs" "hf_remote hf \<in> set rs" "\<forall>v. res \<noteq> Inr (Conflict v)"
      "\<forall>r oid. res = Inr (Applied r oid) \<longrightarrow> r = hf_local hf"
proof (cases "hf_reachable hf")
  case False
  with assms show thesis by (intro same [where m = "hf_mint hf" and fs = "hf_faults hf"]) (auto simp: fence_push_def)
next
  case True
  note run = assms [unfolded fence_push_def, simplified True simp_thms if_False]
  from run show thesis
  proof (cases rule: fence_fault_cases)
    case (unavailable fs)
    then show thesis by (intro same [where m = "hf_mint hf" and fs = fs]) auto
  next
    case (runs fault fs)
    obtain r hf2 where op: "push_operation (hf\<lparr>hf_faults := fs\<rparr>) = (r, hf2)" by force
    from op obtain m where hf2: "hf2 = hf\<lparr>hf_faults := fs, hf_mint := m\<rparr>"
      and m: "m = hf_mint hf \<or> (\<exists>oid. mint_operation (hf_mint hf) = (oid, m))"
      by (rule push_operation_cases) auto
    have swap: "hf2 = hf\<lparr>hf_mint := m, hf_faults := fs\<rparr>" using hf2 by simp
    have ch: "fence_chain hf2 = fence_chain hf" "hf_local hf2 = hf_local hf" "hf_remote hf2 = hf_remote hf"
      by (auto simp: hf2 fence_chain_def)
    show thesis
    proof (cases r)
      case (Inl e)
      with runs(1) op swap m show thesis by (intro same [where m = m and fs = fs]) auto
    next
      case (Inr oid)
      show thesis
      proof (cases "fence_chain hf (hf_local hf)")
        fix e
        assume "fence_chain hf (hf_local hf) = Inl e"
        with runs(1) op swap m Inr ch show thesis by (intro same [where m = m and fs = fs]) (auto simp: Let_def)
      next
        fix rs
        assume rs: "fence_chain hf (hf_local hf) = Inr rs"
        show thesis
        proof (cases "hf_remote hf \<in> set rs \<and> (\<forall>f. fault = Some f \<longrightarrow> f_applied f)")
          case True
          with runs(1) op swap m Inr ch rs show thesis
            by (intro forward [where m = m and fs = fs and rs = rs])
              (auto simp: Let_def settle_def split: option.splits)
        next
          case False
          with runs(1) op swap m Inr ch rs show thesis
            by (intro same [where m = m and fs = fs])
              (auto simp: Let_def settle_def commit_at_def split: option.splits if_splits)
        qed
      qed
    qed
  qed
qed

lemma fence_push_advances:
  assumes "fence_inv hf" "fence_push hf = (res, hf')"
  shows "advances hf hf'"
  using assms(2)
proof (cases rule: fence_push_cases)
  case (same m fs)
  with fence_inv_mint(1) [OF assms(1), of m] show ?thesis by (intro advances_quiet) auto
next
  case (forward m fs rs)
  have "fence_inv (hf\<lparr>hf_mint := m\<rparr>)" using fence_inv_mint(1) [OF assms(1), of m] forward(2) by auto
  then have "fence_inv hf'" by (simp add: forward(1) fence_inv_def)
  moreover obtain new old where "rs = new @ hf_remote hf # old" "fence_chain hf (hf_remote hf) = Inr (hf_remote hf # old)"
    using chain_suffix forward(3,4) unfolding fence_chain_def by metis
  ultimately show ?thesis using forward(1,3) by (auto simp: advances_def fence_chain_def)
qed

lemma sync_to_remote_cases:
  assumes "sync_to_remote hf = (res, hf')"
  obtains (raised) e fs where "res = Inl e" "hf' = hf\<lparr>hf_faults := fs\<rparr>"
    | (synced) fs ahead behind where "hf' = hf\<lparr>hf_faults := fs, hf_local := hf_remote hf\<rparr>"
      "sync_counts fc_parent (hf_commits hf) (hf_local hf) (hf_remote hf) = Inr (ahead, behind)"
      "res = Inr \<lparr>sr_head = hf_remote hf, sr_ahead = ahead, sr_behind = behind,
                  sr_diverged = (0 < ahead \<and> 0 < behind)\<rparr>"
proof (cases "hf_reachable hf")
  case False
  with assms show thesis by (intro raised [where fs = "hf_faults hf"]) (auto simp: sync_to_remote_def)
next
  case True
  note run = assms [unfolded sync_to_remote_def, simplified True simp_thms if_False]
  from run show thesis
  proof (cases rule: fence_fault_cases)
    case (unavailable fs)
    then show thesis by (intro raised [where fs = fs]) auto
  next
    case (runs fault fs)
    then show thesis
      by (elim attempt_cases) (auto intro: raised [where fs = fs] synced [where fs = fs])
  qed
qed

lemma sync_advances:
  assumes "fence_inv hf" "sync_to_remote hf = (res, hf')"
  shows "advances hf hf'"
  using assms(2)
  by (cases rule: sync_to_remote_cases; intro advances_quiet) (use assms(1) in \<open>auto simp: fence_inv_def\<close>)

inductive fence_call :: "hive_fence \<Rightarrow> hive_fence \<Rightarrow> bool" where
  local_write: "local_write clk mark bead status assignee labels hf = (res, hf') \<Longrightarrow> fence_call hf hf'"
| commit_bump: "commit_bump clk bump hf = (ores, hf') \<Longrightarrow> fence_call hf hf'"
| push: "fence_push hf = (ores, hf') \<Longrightarrow> fence_call hf hf'"
| sync: "sync_to_remote hf = (sres, hf') \<Longrightarrow> fence_call hf hf'"
| remote_bump: "remote_bump clk bump hf = (res, hf') \<Longrightarrow> fence_call hf hf'"
| reachability: "fence_call hf (fence_set_reachable b hf)"
| capability: "fence_call hf (fence_register_capability kind impl hf)"
| arming: "fence_call hf (hf\<lparr>hf_faults := fs\<rparr>)"

lemma fence_call_advances: "fence_call hf hf' \<Longrightarrow> fence_inv hf \<Longrightarrow> advances hf hf'"
proof (induction rule: fence_call.induct)
  case (local_write clk mark bead status assignee labels hf res hf')
  then show ?case by (blast intro: local_write_advances)
next
  case (commit_bump clk bump hf ores hf')
  then show ?case by (blast intro: commit_bump_advances)
next
  case (push hf ores hf')
  then show ?case by (blast intro: fence_push_advances)
next
  case (sync hf sres hf')
  then show ?case by (blast intro: sync_advances)
next
  case (remote_bump clk bump hf res hf')
  then show ?case by (blast intro: remote_bump_advances)
next
  case (reachability hf b)
  then show ?case by (intro advances_quiet) (auto simp: fence_set_reachable_def fence_inv_def)
next
  case (capability hf kind impl)
  then show ?case by (intro advances_quiet) (auto simp: fence_register_capability_def fence_inv_def)
next
  case (arming hf fs)
  then show ?case by (intro advances_quiet) auto
qed

section \<open>The hive: one remote, many nodes\<close>

record fence_node =
  nd_faults :: "fault list"
  nd_guards :: "string list"
  nd_missing :: "string list"
  nd_local :: revision
  nd_reachable :: bool
  nd_capabilities :: "(string \<times> nat) list"

record hive =
  hv_mint :: mint
  hv_commits :: "fence_commit commits"
  hv_remote :: revision
  hv_nodes :: "fence_node list"

definition view :: "hive \<Rightarrow> fence_node \<Rightarrow> hive_fence" where
  "view h n =
     \<lparr>hf_mint = hv_mint h, hf_commits = hv_commits h, hf_remote = hv_remote h, hf_faults = nd_faults n,
      hf_guards = nd_guards n, hf_missing = nd_missing n, hf_local = nd_local n,
      hf_reachable = nd_reachable n, hf_capabilities = nd_capabilities n\<rparr>"

definition node_of :: "hive_fence \<Rightarrow> fence_node" where
  "node_of hf =
     \<lparr>nd_faults = hf_faults hf, nd_guards = hf_guards hf, nd_missing = hf_missing hf,
      nd_local = hf_local hf, nd_reachable = hf_reachable hf, nd_capabilities = hf_capabilities hf\<rparr>"

definition put_node :: "nat \<Rightarrow> hive_fence \<Rightarrow> hive \<Rightarrow> hive" where
  "put_node i hf h =
     \<lparr>hv_mint = hf_mint hf, hv_commits = hf_commits hf, hv_remote = hf_remote hf,
      hv_nodes = (hv_nodes h)[i := node_of hf]\<rparr>"

definition hive_of :: "hive_fence \<Rightarrow> hive" where
  "hive_of hf =
     \<lparr>hv_mint = hf_mint hf, hv_commits = hf_commits hf, hv_remote = hf_remote hf,
      hv_nodes = [node_of hf]\<rparr>"

inductive hive_step :: "hive \<Rightarrow> hive \<Rightarrow> bool" where
  call: "i < length (hv_nodes h) \<Longrightarrow> fence_call (view h (hv_nodes h ! i)) hf' \<Longrightarrow>
    hive_step h (put_node i hf' h)"
| join: "i < length (hv_nodes h) \<Longrightarrow>
    hive_step h (h\<lparr>hv_nodes := hv_nodes h @ [node_of (peer guards missing (view h (hv_nodes h ! i)))]\<rparr>)"

inductive hive_reachable :: "hive \<Rightarrow> bool" where
  start: "init_fence clk wr beads labels guards missing ns sha uuid = Inr hf \<Longrightarrow> inj sha \<Longrightarrow>
    hive_reachable (hive_of hf)"
| step: "hive_reachable h \<Longrightarrow> hive_step h h' \<Longrightarrow> hive_reachable h'"

definition hive_inv :: "hive \<Rightarrow> bool" where
  "hive_inv h \<longleftrightarrow> hv_nodes h \<noteq> [] \<and> (\<forall>n \<in> set (hv_nodes h). fence_inv (view h n))"

definition hive_line :: "hive \<Rightarrow> storage_error + revision list" where
  "hive_line h = chain fc_parent (hv_commits h) (Some (hv_remote h))"

lemma init_fence_inv:
  assumes "init_fence clk wr beads labels guards missing ns sha uuid = Inr hf" "inj sha"
  shows "fence_inv hf"
proof -
  define m0 where "m0 = \<lparr>mint_namespace = ns, mint_n = 0, mint_sha256 = sha, mint_uuid5 = uuid\<rparr>"
  obtain rv m where m: "mint_revision m0 = (rv, m)" by force
  have cf: "collision_free m0" by (rule collision_free_inj) (simp add: m0_def assms(2))
  from cf m have "collision_free m" "rv \<in> issued m"
    using mint_revision_collision_free [OF m] mint_revision_issued [OF m] by auto
  with assms(1) m show ?thesis
    by (cases "now_of clk")
      (auto simp: init_fence_def m0_def [symmetric] fence_inv_def attach_def commit_ok_def follows_def
        snapshot_ok_def)
qed

lemma view_node [simp]: "view (put_node i hf h) (node_of hf) = hf"
  by (simp add: view_def put_node_def node_of_def)

lemma hive_step_inv:
  assumes "hive_step h h'" "hive_inv h"
  shows "hive_inv h' \<and> (\<forall>old. hive_line h = Inr old \<longrightarrow> (\<exists>new. hive_line h' = Inr (new @ old))) \<and>
    (\<exists>new. hv_commits h' = new @ hv_commits h)"
  using assms
proof (induction rule: hive_step.induct)
  case (call i h hf')
  let ?n = "hv_nodes h ! i"
  have "fence_inv (view h ?n)" using call by (simp add: hive_inv_def)
  with call.hyps(2) have adv: "advances (view h ?n) hf'" by (rule fence_call_advances)
  then have inv': "fence_inv hf'" by (simp add: advances_def)
  from adv obtain new where new: "hf_commits hf' = new @ hv_commits h"
    by (auto simp: advances_def view_def)
  have "fence_inv (view (put_node i hf' h) n)" if "n \<in> set (hv_nodes (put_node i hf' h))" for n
  proof (cases "n = node_of hf'")
    case True
    with inv' show ?thesis by simp
  next
    case False
    with that have "n \<in> set (hv_nodes h)"
      by (auto simp: put_node_def dest: set_update_subset_insert [THEN subsetD])
    then have "nd_local n \<in> fst ` set (hv_commits h)"
      using call.prems by (auto simp: hive_inv_def fence_inv_def view_def)
    with inv' new show ?thesis by (auto simp: fence_inv_def view_def put_node_def)
  qed
  moreover have "hv_nodes (put_node i hf' h) \<noteq> []" using call.hyps(1) by (auto simp: put_node_def)
  ultimately have "hive_inv (put_node i hf' h)" by (simp add: hive_inv_def)
  moreover have "\<exists>new. hive_line (put_node i hf' h) = Inr (new @ old)" if "hive_line h = Inr old" for old
    using adv that by (auto simp: advances_def fence_chain_def hive_line_def view_def put_node_def)
  moreover have "hv_commits (put_node i hf' h) = new @ hv_commits h" using new by (simp add: put_node_def)
  ultimately show ?case by blast
next
  case (join i h guards missing)
  then have "fence_inv (view h (hv_nodes h ! i))" by (simp add: hive_inv_def)
  then have new: "fence_inv (view h (node_of (peer guards missing (view h (hv_nodes h ! i)))))"
    by (simp add: fence_inv_def view_def peer_def attach_def node_of_def)
  have same: "view (h\<lparr>hv_nodes := ns\<rparr>) n = view h n" for ns n by (simp add: view_def)
  from join.prems new show ?case by (auto simp: hive_inv_def hive_line_def same)
qed

lemma hive_reachable_inv: "hive_reachable h \<Longrightarrow> hive_inv h"
proof (induction rule: hive_reachable.induct)
  case (start clk wr beads labels guards missing ns sha uuid hf)
  have "view (hive_of hf) (node_of hf) = hf" by (simp add: view_def hive_of_def node_of_def)
  with init_fence_inv [OF start] show ?case by (simp add: hive_inv_def hive_of_def)
next
  case (step h h')
  then show ?case using hive_step_inv by blast
qed

section \<open>Fencing\<close>

lemma writer_at_grows:
  assumes "graph_ok fc_parent (new @ cs)" "r \<in> fst ` set cs"
  shows "writer_at (new @ cs) r = writer_at cs r" "epoch_at (new @ cs) r = epoch_at cs r"
proof -
  have "map_of (new @ cs) r = map_of cs r"
    using assms
  proof (induction new)
    case (Cons rc new)
    obtain q c where rc: "rc = (q, c)" by (cases rc)
    with Cons.prems have "q \<noteq> r" "graph_ok fc_parent (new @ cs)" by (auto split: option.splits)
    with Cons rc show ?case by simp
  qed simp
  then show "writer_at (new @ cs) r = writer_at cs r" "epoch_at (new @ cs) r = epoch_at cs r"
    by (simp_all add: writer_at_def epoch_at_def)
qed

lemma hive_inv_graph:
  assumes "hive_inv h"
  shows "fence_graph (hv_commits h)" "hv_remote h \<in> fst ` set (hv_commits h)"
  using assms by (cases "hv_nodes h"; simp add: hive_inv_def fence_inv_def view_def)+

lemma hive_line_total: "hive_inv h \<Longrightarrow> \<exists>rs. hive_line h = Inr rs"
  unfolding hive_line_def using hive_inv_graph fence_graph_ok graph_ok_chain by metis

lemma hive_steps_inv:
  assumes "hive_step\<^sup>*\<^sup>* h h'" "hive_inv h" "hive_line h = Inr old"
  shows "hive_inv h' \<and> (\<exists>new. hive_line h' = Inr (new @ old)) \<and> (\<exists>new. hv_commits h' = new @ hv_commits h)"
  using assms
proof (induction rule: rtranclp_induct)
  case base
  then show ?case by simp
next
  case (step y z)
  then obtain new1 new2 where y: "hive_inv y" "hive_line y = Inr (new1 @ old)"
    "hv_commits y = new2 @ hv_commits h" by blast
  from hive_step_inv [OF step.hyps(2) y(1)] y show ?case by (metis append.assoc)
qed

lemma hive_fenced:
  assumes "hive_step\<^sup>*\<^sup>* h h'" "hive_inv h" "hive_line h = Inr old"
  obtains new where "hive_line h' = Inr (new @ old)"
    "\<And>r. r \<in> set new \<Longrightarrow> epoch_at (hv_commits h) (hv_remote h) \<le> epoch_at (hv_commits h') r"
proof -
  from hive_steps_inv [OF assms] obtain new1 new2 where inv': "hive_inv h'"
    and line: "hive_line h' = Inr (new1 @ old)" and cs: "hv_commits h' = new2 @ hv_commits h" by blast
  have "lineage fc_parent (hv_commits h') (hv_remote h') (new1 @ old)"
    using line by (simp add: hive_line_def chain_iff_lineage)
  then have sorted: "sorted_wrt (\<ge>) (map (epoch_at (hv_commits h')) (new1 @ old))"
    by (rule epochs_sorted) (rule hive_inv_graph(1) [OF inv'])
  have "hv_remote h \<in> set old" using assms(3) chain_self by (metis hive_line_def)
  moreover have "epoch_at (hv_commits h') (hv_remote h) = epoch_at (hv_commits h) (hv_remote h)"
    using writer_at_grows(2) fence_graph_ok hive_inv_graph assms(2) inv' cs by metis
  moreover have "\<forall>x \<in> set new1. \<forall>y \<in> set old. epoch_at (hv_commits h') y \<le> epoch_at (hv_commits h') x"
    using sorted by (simp add: sorted_wrt_append)
  ultimately have "epoch_at (hv_commits h) (hv_remote h) \<le> epoch_at (hv_commits h') r" if "r \<in> set new1" for r
    using that by metis
  with line show thesis by (rule that)
qed

lemma hive_one_writer:
  assumes "hive_inv h" "hive_line h = Inr rs" "a \<in> set rs" "b \<in> set rs"
    "writer_at (hv_commits h) a = Some wa" "writer_at (hv_commits h) b = Some wb" "wr_epoch wa = wr_epoch wb"
  shows "wa = wb"
proof -
  have "lineage fc_parent (hv_commits h) (hv_remote h) rs"
    using assms(2) by (simp add: hive_line_def chain_iff_lineage)
  from epoch_has_one_writer [OF this hive_inv_graph(1) [OF assms(1)] assms(3,4)] assms(5-7)
  show ?thesis by (simp add: epoch_at_def)
qed

section \<open>Looking a bump up\<close>

lemma find_sentinel_Some:
  "find_sentinel cs s rs = Inr (Some (r, c)) \<Longrightarrow> r \<in> set rs \<and> map_of cs r = Some c \<and> fc_sentinel c = Some s"
  by (induction cs s rs rule: find_sentinel.induct) (auto split: option.splits if_splits)

lemma lookup_bump_sound:
  assumes "fence_inv hf" "lookup_bump frame epoch oid hf = Inr (Confirmed o' r t)"
  obtains rs w where "fence_chain hf (hf_remote hf) = Inr rs" "r \<in> set rs"
    "bump_at (hf_commits hf) r" "writer_at (hf_commits hf) r = Some w" "wr_frame w = frame" "wr_epoch w = epoch"
proof -
  from assms(2) obtain rs found where rs: "fence_chain hf (hf_remote hf) = Inr rs"
    and found: "find_sentinel (hf_commits hf) (adopt_sentinel epoch) rs = Inr found"
    and res: "(case found of
        None \<Rightarrow> NotConfirmed oid
      | Some (r, c) \<Rightarrow>
          (case s_writer (fc_state c) of
             None \<Rightarrow> NotConfirmed oid
           | Some w \<Rightarrow> if wr_frame w = frame then Confirmed oid r (fc_at c) else NotConfirmed oid)) =
      Confirmed o' r t"
    unfolding lookup_bump_def by (auto simp only: and_then_eq_Inr split: if_splits)
  from res obtain c w where f: "found = Some (r, c)" and w: "s_writer (fc_state c) = Some w" "wr_frame w = frame"
    by (auto split: option.splits prod.splits if_splits)
  note f = found [unfolded f]
  from find_sentinel_Some [OF f] have r: "r \<in> set rs" "map_of (hf_commits hf) r = Some c"
    "fc_sentinel c = Some (adopt_sentinel epoch)" by simp_all
  have "follows (hf_commits hf) c" using fence_graph_commit r(2) assms(1) by (auto simp: fence_inv_def)
  with r(3) w(1) have "wr_epoch w = epoch" by (auto simp: follows_def split: option.splits)
  with rs r w show thesis by (intro that) (auto simp: bump_at_def writer_at_def)
qed

lemma bump_lookup:
  assumes "fence_inv hf" "hf_reachable hf" "canonical_uuid oid"
    "map_of (hf_commits hf) (hf_remote hf) = Some (made_bump (hf_remote hf) p state bump t)"
  shows "lookup_bump (b_frame bump) (b_epoch bump) oid hf = Inr (Confirmed oid (hf_remote hf) t)"
    "remote_writer hf = Inr (Some \<lparr>wr_frame = b_frame bump, wr_epoch = b_epoch bump, wr_revision = b_revision bump\<rparr>)"
proof -
  from assms(1) graph_ok_chain [OF fence_inv_graph [OF assms(1)], of "hf_remote hf"]
  obtain rs where rs: "fence_chain hf (hf_remote hf) = Inr rs" by (auto simp: fence_chain_def fence_inv_def)
  then obtain rest where hd: "rs = hf_remote hf # rest" using chain_hd by (metis fence_chain_def)
  have st: "fc_state (made_bump (hf_remote hf) p state bump t) = bump_state state bump"
    "fc_sentinel (made_bump (hf_remote hf) p state bump t) = Some (adopt_sentinel (b_epoch bump))"
    "fc_at (made_bump (hf_remote hf) p state bump t) = t" by (simp_all add: made_bump_def)
  have wr: "s_writer (bump_state state bump) =
      Some \<lparr>wr_frame = b_frame bump, wr_epoch = b_epoch bump, wr_revision = b_revision bump\<rparr>"
    by (simp add: bump_state_def Let_def)
  have mark: "adopt_sentinel (b_epoch bump) \<in> fst ` s_marks (bump_state state bump)"
    by (simp add: bump_state_def Let_def)
  show "lookup_bump (b_frame bump) (b_epoch bump) oid hf = Inr (Confirmed oid (hf_remote hf) t)"
    using assms(2-4) rs hd st wr mark by (simp add: lookup_bump_def check_operation_def commit_at_def)
  show "remote_writer hf = Inr (Some \<lparr>wr_frame = b_frame bump, wr_epoch = b_epoch bump, wr_revision = b_revision bump\<rparr>)"
    using assms(2,4) st wr by (simp add: remote_writer_def commit_at_def)
qed

text \<open>A bump that was committed and pushed is the remote's writer and is confirmed by its witness.\<close>

lemma bump_lands:
  assumes "fence_inv hf" "commit_bump clk bump hf = (Inr (Applied rv o1), hf1)"
    "fence_push hf1 = (Inr (Applied r o2), hf2)"
  shows "hf_remote hf2 = rv \<and> r = rv \<and>
    (\<exists>t. now_of clk = Inr t \<and>
       lookup_bump (b_frame bump) (b_epoch bump) (b_operation bump) hf2 = Inr (Confirmed (b_operation bump) rv t)) \<and>
    remote_writer hf2 = Inr (Some \<lparr>wr_frame = b_frame bump, wr_epoch = b_epoch bump, wr_revision = b_revision bump\<rparr>)"
  using assms(1,2)
proof (cases rule: commit_bump_cases)
  case (made fault rv' m t fs state w c)
  then have rv: "rv' = rv" "fault = None" by (auto split: option.splits)
  have hf1: "map_of (hf_commits hf1) rv = Some (made_bump rv (hf_local hf) state bump t)" "hf_local hf1 = rv"
    using made(9) rv by (simp_all add: Let_def add_commit_def)
  have reach: "hf_reachable hf1" using assms(3) by (auto simp: fence_push_def split: if_splits)
  have inv1: "fence_inv hf1" using commit_bump_advances [OF assms(1,2)] by (simp add: advances_def)
  have inv2: "fence_inv hf2" using fence_push_advances [OF inv1 assms(3)] by (simp add: advances_def)
  from assms(3) have hf2: "hf_remote hf2 = rv" "hf_commits hf2 = hf_commits hf1" "hf_reachable hf2" "r = rv"
    by (cases rule: fence_push_cases; use reach hf1 in auto)+
  from bump_lookup [OF inv2 hf2(3) made(7), of "hf_local hf" state bump t] hf1(1) hf2 made(2) show ?thesis
    by simp
qed simp

end
