(* ===== verification/Fence_Reclaim.thy ===== *)
theory Fence_Reclaim
  imports Hive_Fence
begin

text \<open>
  What the failover reclaim inside a bump does to bead rows, labels and comments
  (\<^verbatim>\<open>_apply_reclaim\<close> of \<^verbatim>\<open>_fake.py\<close>): a closed form for the loop over the live beads, and that a
  second reclaim of the same set changes nothing.
\<close>

definition kept_label :: "string set \<Rightarrow> string \<Rightarrow> string \<Rightarrow> bool" where
  "kept_label resumable bead label \<longleftrightarrow>
     \<not> starts_with label claim_frame_prefix \<and>
     \<not> (bead \<in> resumable \<and> starts_with label recovery_prefix)"

lemma reclaim_bead_spec:
  "map_of (fst (reclaim_bead R b bl)) = (map_of (fst bl))(b \<mapsto> (''open'', []))"
  "(x, l) \<in> snd (reclaim_bead R b bl) \<longleftrightarrow>
     (if x = b then ((x, l) \<in> snd bl \<and> kept_label R b l) \<or> (b \<in> R \<and> l = resumable_label)
      else (x, l) \<in> snd bl)"
  by (auto simp: reclaim_bead_def Let_def kept_label_def)

lemma reclaim_fold:
  assumes "distinct bs"
  shows "map_of (fst (fold (reclaim_bead R) bs bl)) x =
      (if x \<in> set bs then Some (''open'', []) else map_of (fst bl) x)"
    "(x, l) \<in> snd (fold (reclaim_bead R) bs bl) \<longleftrightarrow>
      (if x \<in> set bs then ((x, l) \<in> snd bl \<and> kept_label R x l) \<or> (x \<in> R \<and> l = resumable_label)
       else (x, l) \<in> snd bl)"
  using assms
proof (induction bs arbitrary: bl)
  case (Cons b bs)
  { case 1
    then show ?case using Cons(1) [of "reclaim_bead R b bl"] by (simp add: reclaim_bead_spec) }
  { case 2
    then show ?case using Cons(2) [of "reclaim_bead R b bl"] by (auto simp: reclaim_bead_spec) }
qed simp_all

lemma apply_reclaim_spec:
  assumes "finite (rc_beads r)" "apply_reclaim s r = (beads, labels, comments)"
  shows "map_of beads b = (if b \<in> live_beads s r then Some (''open'', []) else map_of (s_beads s) b)"
    "(b, l) \<in> labels \<longleftrightarrow>
      (if b \<in> live_beads s r
       then ((b, l) \<in> s_labels s \<and> kept_label (rc_resumable r) b l) \<or>
            (b \<in> rc_resumable r \<and> l = resumable_label)
       else (b, l) \<in> s_labels s)"
    "comments = s_comments s \<union> note_comment ` {n \<in> set (rc_notes r). n_bead n \<in> live_beads s r}"
proof -
  have fin: "finite (live_beads s r)" using assms(1) by (simp add: live_beads_def)
  note fold = reclaim_fold [where bs = "sorted_list_of_set (live_beads s r)" and R = "rc_resumable r"
      and bl = "(s_beads s, s_labels s)", OF distinct_sorted_list_of_set]
  from assms(2) have parts:
    "beads = fst (fold (reclaim_bead (rc_resumable r)) (sorted_list_of_set (live_beads s r)) (s_beads s, s_labels s))"
    "labels = snd (fold (reclaim_bead (rc_resumable r)) (sorted_list_of_set (live_beads s r)) (s_beads s, s_labels s))"
    "comments = s_comments s \<union> note_comment ` set (filter (\<lambda>n. n_bead n \<in> live_beads s r) (rc_notes r))"
    by (auto simp: apply_reclaim_def Let_def)
  show "map_of beads b = (if b \<in> live_beads s r then Some (''open'', []) else map_of (s_beads s) b)"
    using fold(1) fin by (simp add: parts)
  show "(b, l) \<in> labels \<longleftrightarrow>
      (if b \<in> live_beads s r
       then ((b, l) \<in> s_labels s \<and> kept_label (rc_resumable r) b l) \<or>
            (b \<in> rc_resumable r \<and> l = resumable_label)
       else (b, l) \<in> s_labels s)"
    using fold(2) fin by (simp add: parts)
  show "comments = s_comments s \<union> note_comment ` {n \<in> set (rc_notes r). n_bead n \<in> live_beads s r}"
    using parts(3) by simp
qed

lemma reclaimed_not_live:
  assumes "finite (rc_beads r)" "apply_reclaim s r = (beads, labels, comments)" "s_beads s' = beads"
    "rc_beads r' \<subseteq> rc_beads r"
  shows "live_beads s' r' = {}"
proof -
  have "b \<notin> live_beads s' r'" for b
  proof
    assume b: "b \<in> live_beads s' r'"
    with assms(3) have in': "b \<in> rc_beads r'"
      "(case map_of beads b of None \<Rightarrow> False | Some (st, a) \<Rightarrow> st = ''in_progress'')"
      by (auto simp: live_beads_def)
    show False
    proof (cases "b \<in> live_beads s r")
      case True
      with in'(2) apply_reclaim_spec(1) [OF assms(1,2), of b] show False by simp
    next
      case False
      with in' assms(4) apply_reclaim_spec(1) [OF assms(1,2), of b] show False
        by (auto simp: live_beads_def)
    qed
  qed
  then show ?thesis by blast
qed

lemma apply_reclaim_idle:
  assumes "live_beads s r = {}"
  shows "apply_reclaim s r = (s_beads s, s_labels s, s_comments s)"
  using assms by (simp add: apply_reclaim_def Let_def)

text \<open>Reclaiming again, under the bump that retries the first, finds nothing left to do.\<close>

lemma reclaim_again:
  assumes "finite (rc_beads r)" "b_reclaim bump = Some r" "b_reclaim bump' = Some r"
  shows "s_beads (bump_state (bump_state s bump) bump') = s_beads (bump_state s bump) \<and>
    s_labels (bump_state (bump_state s bump) bump') = s_labels (bump_state s bump) \<and>
    s_comments (bump_state (bump_state s bump) bump') = s_comments (bump_state s bump)"
proof -
  obtain beads labels comments where a: "apply_reclaim s r = (beads, labels, comments)"
    by (metis prod_cases3)
  have "s_beads (bump_state s bump) = beads" using a assms(2) by (simp add: bump_state_def Let_def)
  then have "live_beads (bump_state s bump) r = {}" using reclaimed_not_live [OF assms(1) a] by simp
  note idle = apply_reclaim_idle [OF this]
  show ?thesis unfolding bump_state_def [of "bump_state s bump" bump'] Let_def assms(3)
    by (simp add: idle)
qed

end
