(* ===== verification/Epoch_Ref.thy ===== *)
theory Epoch_Ref
  imports Hive_Fence Cas_Contract
begin

text \<open>
  \<^verbatim>\<open>InMemoryEpochRef\<close> (\<^verbatim>\<open>_fake.py\<close>): the legacy \<^verbatim>\<open>refs/bh/epoch\<close> with its compare-and-set by sha. It is
  a \<open>cas_cell\<close>: no sha is ever superseded by two writers.
\<close>

record ref_view =
  rf_frame :: string
  rf_epoch :: int
  rf_sha :: revision

record epoch_ref =
  er_mint :: mint
  er_faults :: "fault list"
  er_ref :: "ref_view option"

definition init_epoch_ref ::
  "(string \<times> int) option \<Rightarrow> string \<Rightarrow> (string \<Rightarrow> string) \<Rightarrow> (string \<Rightarrow> string) \<Rightarrow> epoch_ref"
where
  "init_epoch_ref initial namespace sha256 uuid5 =
     (let m = \<lparr>mint_namespace = namespace, mint_n = 0, mint_sha256 = sha256, mint_uuid5 = uuid5\<rparr>
      in case initial of
           None \<Rightarrow> \<lparr>er_mint = m, er_faults = [], er_ref = None\<rparr>
         | Some (frame, epoch) \<Rightarrow>
             (case mint_revision m of
                (rv, m1) \<Rightarrow> \<lparr>er_mint = m1, er_faults = [],
                            er_ref = Some \<lparr>rf_frame = frame, rf_epoch = epoch, rf_sha = rv\<rparr>\<rparr>))"

definition ref_versioned :: "ref_view \<Rightarrow> versioned" where
  "ref_versioned v =
     \<lparr>v_key = ''refs/bh/epoch'', v_revision = rf_sha v,
      v_body = JObj [(''frame'', JStr (rf_frame v)), (''epoch'', JInt (rf_epoch v))]\<rparr>"

definition ref_compare_and_set ::
  "string \<Rightarrow> int \<Rightarrow> ref_view \<Rightarrow> epoch_ref \<Rightarrow> (storage_error + outcome) \<times> epoch_ref"
where
  "ref_compare_and_set frame epoch expected er =
     attempt er (check_key frame) (\<lambda>_.
       case take_fault ''compare_and_set'' True (er_faults er) of
         (r, fs) \<Rightarrow> attempt (er\<lparr>er_faults := fs\<rparr>) r (\<lambda>fault.
           case mint_operation (er_mint er) of
             (operation, m) \<Rightarrow>
               let prior = er_ref er; er1 = er\<lparr>er_faults := fs, er_mint := m\<rparr>;
                   rollback = (\<lambda>e. e\<lparr>er_ref := prior\<rparr>)
               in map_prod Inr id
                 (if map_option rf_sha prior \<noteq> Some (rf_sha expected)
                  then settle fault (Conflict (map_option ref_versioned prior)) operation
                         (At (rf_sha expected)) rollback er1
                  else (case mint_revision m of
                          (rv, m') \<Rightarrow>
                            settle fault (Applied rv operation) operation (At (rf_sha expected)) rollback
                              (er1\<lparr>er_mint := m',
                                   er_ref := Some \<lparr>rf_frame = frame, rf_epoch = epoch, rf_sha = rv\<rparr>\<rparr>)))))"

section \<open>The ref is a compare-and-set cell\<close>

definition ref_inv :: "epoch_ref \<Rightarrow> bool" where
  "ref_inv er \<longleftrightarrow> collision_free (er_mint er) \<and>
     (case er_ref er of None \<Rightarrow> True | Some v \<Rightarrow> rf_sha v \<in> issued (er_mint er))"

definition ref_token :: "epoch_ref \<Rightarrow> revision option" where
  "ref_token er = map_option rf_sha (er_ref er)"

text \<open>The port has no expectation for an absent ref: it always compares with a view that was read.\<close>

definition ref_cas ::
  "string \<times> int \<times> ref_view \<Rightarrow> expectation \<Rightarrow> epoch_ref \<Rightarrow> (storage_error + outcome) \<times> epoch_ref"
where
  "ref_cas a ex er =
     (case (a, ex) of
        ((frame, epoch, v), At sha) \<Rightarrow> ref_compare_and_set frame epoch (v\<lparr>rf_sha := sha\<rparr>) er
      | (_, ABSENT) \<Rightarrow> (Inl InvalidRequest, er))"

inductive ref_env :: "epoch_ref \<Rightarrow> epoch_ref \<Rightarrow> bool" where
  arm: "ref_env er (er\<lparr>er_faults := fs\<rparr>)"
| cas: "ref_compare_and_set frame epoch expected er = (res, er') \<Longrightarrow> ref_env er er'"

lemma ref_cas_cases:
  assumes "ref_compare_and_set frame epoch expected er = (res, er')"
  obtains
    (raised) e fs where "res = Inl e" "er' = er\<lparr>er_faults := fs\<rparr>"
  | (conflict) fault :: "fault option" and fs oid m where
      "ref_token er \<noteq> Some (rf_sha expected)" "mint_operation (er_mint er) = (oid, m)"
      "er' = er\<lparr>er_faults := fs, er_mint := m\<rparr>"
      "res = Inr (case fault of None \<Rightarrow> Conflict (map_option ref_versioned (er_ref er))
          | Some f \<Rightarrow> Unknown oid (At (rf_sha expected)) (f_reason f))"
  | (written) fault :: "fault option" and fs oid m rv m' where
      "ref_token er = Some (rf_sha expected)" "mint_operation (er_mint er) = (oid, m)"
      "mint_revision m = (rv, m')"
      "er' = er\<lparr>er_faults := fs, er_mint := m', er_ref :=
         (if \<exists>f. fault = Some f \<and> \<not> f_applied f then er_ref er
          else Some \<lparr>rf_frame = frame, rf_epoch = epoch, rf_sha = rv\<rparr>)\<rparr>"
      "res = Inr (case fault of None \<Rightarrow> Applied rv oid
          | Some f \<Rightarrow> Unknown oid (At (rf_sha expected)) (f_reason f))"
proof (cases "check_key frame")
  case (Inl e)
  with assms show thesis by (intro raised [where fs = "er_faults er"]) (auto simp: ref_compare_and_set_def)
next
  case (Inr k)
  obtain r fs where tk: "take_fault ''compare_and_set'' True (er_faults er) = (r, fs)" by force
  obtain oid m where m: "mint_operation (er_mint er) = (oid, m)" by force
  obtain rv m' where m': "mint_revision m = (rv, m')" by force
  show thesis
  proof (cases r)
    case (Inl e)
    with assms Inr tk show thesis by (intro raised [where fs = fs]) (auto simp: ref_compare_and_set_def)
  next
    fix fault
    assume r: "r = Inr fault"
    show thesis
    proof (cases "ref_token er = Some (rf_sha expected)")
      case True
      with assms Inr tk r m m' show thesis
        by (intro written [where fault = fault and fs = fs and oid = oid and m = m and rv = rv and m' = m'])
          (auto simp: ref_compare_and_set_def ref_token_def settle_def Let_def split: option.splits)
    next
      case False
      with assms Inr tk r m m' show thesis
        by (intro conflict [where fault = fault and fs = fs and oid = oid and m = m])
          (auto simp: ref_compare_and_set_def ref_token_def settle_def Let_def split: option.splits)
    qed
  qed
qed

lemma ref_cas_ok:
  assumes "ref_inv er" "ref_compare_and_set frame epoch expected er = (res, er')"
  shows "ref_inv er' \<and> issued (er_mint er) \<subseteq> issued (er_mint er') \<and>
    (ref_token er' = ref_token er \<or>
      (\<exists>r. ref_token er = Some (rf_sha expected) \<and> ref_token er' = Some r \<and> r \<notin> issued (er_mint er)))"
  using assms(2)
proof (cases rule: ref_cas_cases)
  case (raised e fs)
  with assms(1) show ?thesis by (auto simp: ref_inv_def ref_token_def split: option.splits)
next
  case (conflict fault fs oid m)
  with assms(1) mint_operation_issued [OF conflict(2)] mint_operation_collision_free [OF conflict(2)]
  show ?thesis by (auto simp: ref_inv_def ref_token_def split: option.splits)
next
  case (written fault fs oid m rv m')
  have sub: "issued (er_mint er) \<subseteq> issued m" "collision_free m" "issued m' = insert rv (issued m)"
    "collision_free m'" "rv \<notin> issued m"
    using assms(1) mint_facts [of m rv m'] mint_facts(4,5) [OF written(2)] written(3)
    by (auto simp: ref_inv_def)
  then show ?thesis using assms(1) written
    by (auto simp: ref_inv_def ref_token_def split: option.splits)
qed

interpretation ref_cell: cas_cell ref_token "\<lambda>er. issued (er_mint er)" ref_inv ref_cas ref_env
proof unfold_locales
  fix er er' :: epoch_ref and a :: "string \<times> int \<times> ref_view" and ex res r oid v e ex' why
  assume ok: "ref_inv er"
  obtain frame epoch w where a: "a = (frame, epoch, w)" by (cases a)
  show "ref_token er = Some r \<Longrightarrow> r \<in> issued (er_mint er)"
    using ok by (auto simp: ref_inv_def ref_token_def)
  show "ref_cas a ex er = (res, er') \<Longrightarrow> ref_inv er' \<and> issued (er_mint er) \<subseteq> issued (er_mint er')"
    using ref_cas_ok [OF ok] ok by (cases ex) (auto simp: ref_cas_def a)
  show "ref_cas a ex er = (Inr (Applied r oid), er') \<Longrightarrow>
      matches (ref_token er) ex \<and> ref_token er' = Some r \<and> r \<notin> issued (er_mint er)"
  proof (cases ex)
    case (At sha)
    assume "ref_cas a ex er = (Inr (Applied r oid), er')"
    then have run: "ref_compare_and_set frame epoch (w\<lparr>rf_sha := sha\<rparr>) er = (Inr (Applied r oid), er')"
      by (simp add: ref_cas_def a At)
    from run show ?thesis
    proof (cases rule: ref_cas_cases)
      case (written fault fs o' m rv m')
      then have "fault = None" "rv = r" by (auto split: option.splits)
      with written At ref_cas_ok [OF ok run] mint_facts(1) [of m rv m'] mint_facts(4,5) [OF written(2)] ok
      show ?thesis by (auto simp: ref_token_def ref_inv_def)
    qed (auto split: option.splits)
  qed (simp add: ref_cas_def a)
  show "ref_cas a ex er = (Inr (Conflict v), er') \<Longrightarrow>
      \<not> matches (ref_token er) ex \<and> ref_token er' = ref_token er"
  proof (cases ex)
    case (At sha)
    assume "ref_cas a ex er = (Inr (Conflict v), er')"
    then have run: "ref_compare_and_set frame epoch (w\<lparr>rf_sha := sha\<rparr>) er = (Inr (Conflict v), er')"
      by (simp add: ref_cas_def a At)
    from run At show ?thesis
      by (cases rule: ref_cas_cases) (auto simp: ref_token_def split: option.splits)
  qed (simp add: ref_cas_def a)
  show "ref_cas a ex er = (Inl e, er') \<Longrightarrow> ref_token er' = ref_token er"
  proof (cases ex)
    case (At sha)
    assume "ref_cas a ex er = (Inl e, er')"
    then have run: "ref_compare_and_set frame epoch (w\<lparr>rf_sha := sha\<rparr>) er = (Inl e, er')"
      by (simp add: ref_cas_def a At)
    from run show ?thesis by (cases rule: ref_cas_cases) (auto simp: ref_token_def split: option.splits)
  qed (simp add: ref_cas_def a)
  show "ref_cas a ex er = (Inr (Unknown oid ex' why), er') \<Longrightarrow>
      ref_token er' = ref_token er \<or>
      (\<exists>r. matches (ref_token er) ex \<and> ref_token er' = Some r \<and> r \<notin> issued (er_mint er))"
  proof (cases ex)
    case (At sha)
    assume "ref_cas a ex er = (Inr (Unknown oid ex' why), er')"
    then have run: "ref_compare_and_set frame epoch (w\<lparr>rf_sha := sha\<rparr>) er = (Inr (Unknown oid ex' why), er')"
      by (simp add: ref_cas_def a At)
    from ref_cas_ok [OF ok run] At show ?thesis by simp
  qed (simp add: ref_cas_def a)
  show "ref_inv er' \<and> issued (er_mint er) \<subseteq> issued (er_mint er')" if env: "ref_env er er'"
    using env
  proof (cases rule: ref_env.cases)
    case (cas frame epoch expected res)
    from ref_cas_ok [OF ok cas] show ?thesis by simp
  qed (use ok in \<open>simp_all add: ref_inv_def split: option.splits\<close>)
  show "ref_token er' = ref_token er \<or> (\<exists>r. ref_token er' = Some r \<and> r \<notin> issued (er_mint er))"
    if env: "ref_env er er'"
    using env
  proof (cases rule: ref_env.cases)
    case (cas frame epoch expected res)
    from ref_cas_ok [OF ok cas] show ?thesis by auto
  qed (simp_all add: ref_token_def)
qed

lemma init_epoch_ref_inv:
  assumes "inj sha"
  shows "ref_inv (init_epoch_ref initial ns sha uuid)"
proof -
  define m0 where "m0 = \<lparr>mint_namespace = ns, mint_n = 0, mint_sha256 = sha, mint_uuid5 = uuid\<rparr>"
  have cf: "collision_free m0" by (rule collision_free_inj) (simp add: m0_def assms)
  obtain rv m where m: "mint_revision m0 = (rv, m)" by force
  with cf mint_facts(2,3) [of m0 rv m] show ?thesis
    by (auto simp: ref_inv_def init_epoch_ref_def Let_def m0_def [symmetric] split: option.splits)
qed

end
