(* ===== verification/Hq_System.thy ===== *)
theory Hq_System
  imports Hq_History
begin

text \<open>
  The in-memory HQ store as a whole: \<open>hq_step\<close> is one call of any method that can change the
  store, with any arguments, any clock reading and any armed faults; \<open>hq_reachable\<close> is what a
  sequence of calls can reach from a fresh store.

  Shown here: every call keeps \<open>storage_ok\<close>, a record's revision only ever moves to a fresh one,
  the history behind the remote head is never rewritten, and each slot is a \<open>cas_cell\<close>, so
  that in any interleaving one expectation has at most one winner.
\<close>

inductive hq_step :: "hq_storage \<Rightarrow> hq_storage \<Rightarrow> bool" where
  provision: "provision clk kind key body st = (res, st') \<Longrightarrow> hq_step st st'"
| cas: "compare_and_set clk kind key body ex oid st = (res, st') \<Longrightarrow> hq_step st st'"
| cas_all: "compare_and_set_all clk ws oid st = (res, st') \<Longrightarrow> hq_step st st'"
| append: "append_once clk stream key body oid st = (res, st') \<Longrightarrow> hq_step st st'"
| prune: "prune clk stream older_than oid st = (pres, st') \<Longrightarrow> hq_step st st'"
| renew: "renew clk lkind key lbody st = (rres, st') \<Longrightarrow> hq_step st st'"
| publish: "publish clk changes ex oid author message st = (res, st') \<Longrightarrow> hq_step st st'"
| push: "push st = (res, st') \<Longrightarrow> hq_step st st'"
| fetch: "fetch st = (fres, st') \<Longrightarrow> hq_step st st'"
| remote_publish: "remote_publish clk docs st = (vres, st') \<Longrightarrow> hq_step st st'"
| reachability: "hq_step st (set_reachable b st)"
| capability: "hq_step st (register_capability ckind impl st)"
| arming: "hq_step st (st\<lparr>st_faults := fs\<rparr>)"

inductive hq_reachable :: "hq_storage \<Rightarrow> bool" where
  fresh: "init_storage clk cons cap ident sha uuid = Inr st \<Longrightarrow> inj sha \<Longrightarrow> hq_reachable st"
| call: "hq_reachable st \<Longrightarrow> hq_step st st' \<Longrightarrow> hq_reachable st'"

section \<open>Provisioning\<close>

lemma provision_cases:
  assumes "provision clk kind key body st = (res, st')"
  obtains rv m1 oid m2 where "mint_revision (st_mint st) = (rv, m1)" "mint_operation m1 = (oid, m2)"
    "(\<exists>e m. res = Inl e \<and> m \<in> {m1, m2} \<and> st' = st\<lparr>st_mint := m\<rparr>) \<or>
     (\<exists>c t. res = Inr rv \<and> canonical body (st_cap st) = Inr c \<and> now_of clk = Inr t \<and>
        st' = st\<lparr>st_mint := m2,
          st_records := AList.update (kind, key) (written_record key rv c oid t) (st_records st)\<rparr>)"
proof -
  obtain rv m1 where m1: "mint_revision (st_mint st) = (rv, m1)" by force
  obtain oid m2 where m2: "mint_operation m1 = (oid, m2)" by force
  show thesis
    using assms m1 m2
    by (intro that [of rv m1 oid m2])
      (auto simp: provision_def written_record_def elim!: attempt_cases)
qed

lemma provision_keeps:
  assumes "storage_ok st" "provision clk kind key body st = (res, st')"
  shows "issued (st_mint st) \<subseteq> issued (st_mint st')"
    and "record_token s st' = record_token s st \<or>
      (\<exists>r. record_token s st' = Some r \<and> r \<notin> issued (st_mint st))"
    and "st_commits st' = st_commits st \<and> st_remote st' = st_remote st"
proof -
  from assms(2) obtain rv m1 oid m2 where m: "mint_revision (st_mint st) = (rv, m1)"
    "mint_operation m1 = (oid, m2)"
    and st': "(\<exists>e m. res = Inl e \<and> m \<in> {m1, m2} \<and> st' = st\<lparr>st_mint := m\<rparr>) \<or>
     (\<exists>c t. res = Inr rv \<and> canonical body (st_cap st) = Inr c \<and> now_of clk = Inr t \<and>
        st' = st\<lparr>st_mint := m2,
          st_records := AList.update (kind, key) (written_record key rv c oid t) (st_records st)\<rparr>)"
    by (rule provision_cases)
  note fresh = storage_ok_mint_revision(2) [OF assms(1) m(1)]
  from st' mint_revision_issued [OF m(1)] mint_operation_issued [OF m(2)]
  show "issued (st_mint st) \<subseteq> issued (st_mint st')" by auto
  from st' show "st_commits st' = st_commits st \<and> st_remote st' = st_remote st" by auto
  from st' fresh show "record_token s st' = record_token s st \<or>
      (\<exists>r. record_token s st' = Some r \<and> r \<notin> issued (st_mint st))"
    by (cases "s = (kind, key)") (auto simp: record_token_def written_record_def)
qed

section \<open>Every call keeps the invariant\<close>

lemma record_token_cong: "st_records st' = st_records st \<Longrightarrow> record_token s st' = record_token s st"
  by (simp add: record_token_def)

lemma hq_step_ok:
  assumes "hq_step st st'" "storage_ok st"
  shows "storage_ok st' \<and> issued (st_mint st) \<subseteq> issued (st_mint st') \<and>
    (record_token s st' = record_token s st \<or>
     (\<exists>r. record_token s st' = Some r \<and> r \<notin> issued (st_mint st)))"
  using assms
proof (cases rule: hq_step.cases)
  case (provision clk kind key body res)
  with assms(2) provision_ok [OF assms(2), of clk kind key body] provision_keeps [OF assms(2) provision]
  show ?thesis by simp
next
  case (cas clk kind key body ex oid res)
  from compare_and_set_ok [OF assms(2) cas] compare_and_set_token [OF assms(2) cas]
  show ?thesis by simp
next
  case (cas_all clk ws oid res)
  from compare_and_set_all_ok [OF assms(2) cas_all] compare_and_set_all_token [OF assms(2) cas_all]
  show ?thesis by simp
next
  case (append clk stream key body oid res)
  from append_once_ok [OF assms(2) append] record_token_cong [of st' st s]
  show ?thesis by simp
next
  case (prune clk stream older_than oid pres)
  from prune_ok [OF assms(2) prune] record_token_cong [of st' st s]
  show ?thesis by simp
next
  case (renew clk lkind key lbody rres)
  from renew_ok [OF assms(2) renew] record_token_cong [of st' st s]
  show ?thesis by simp
next
  case (publish clk changes ex oid author message res)
  from publish_ok [OF assms(2) publish] record_token_cong [of st' st s]
  show ?thesis by simp
next
  case (push res)
  from push_ok [OF assms(2) push] record_token_cong [of st' st s]
  show ?thesis by simp
next
  case (fetch fres)
  from fetch_frame [OF fetch] assms(2) show ?thesis by (auto simp: record_token_def)
next
  case (remote_publish clk docs vres)
  from remote_publish_ok [OF assms(2) remote_publish] record_token_cong [of st' st s]
  show ?thesis by simp
qed (use assms(2) in \<open>simp_all add: record_token_def set_reachable_def register_capability_def storage_ok_def\<close>)

lemma hq_reachable_ok: "hq_reachable st \<Longrightarrow> storage_ok st"
  by (induction rule: hq_reachable.induct) (auto dest: hq_step_ok intro: init_storage_ok)

section \<open>The remote line of history\<close>

lemma line_of_cong:
  "st_commits st' = st_commits st \<Longrightarrow> line_of st' h = line_of st h"
  by (simp add: line_of_def)

lemma compare_and_set_history:
  assumes "compare_and_set clk kind key body ex oid st = (res, st')"
  shows "st_commits st' = st_commits st \<and> st_remote st' = st_remote st"
  using assms by (cases rule: compare_and_set_cases) simp_all

lemma compare_and_set_all_history:
  assumes "compare_and_set_all clk ws oid st = (res, st')"
  shows "st_commits st' = st_commits st \<and> st_remote st' = st_remote st"
  using assms by (cases rule: compare_and_set_all_cases) simp_all

lemma append_once_history:
  assumes "storage_ok st" "append_once clk stream key body oid st = (res, st')"
  shows "st_commits st' = st_commits st \<and> st_remote st' = st_remote st"
  using assms by (cases rule: append_once_cases) (simp_all add: Let_def with_entry_def)

lemma prune_history:
  assumes "storage_ok st" "prune clk stream older_than oid st = (res, st')"
  shows "st_commits st' = st_commits st \<and> st_remote st' = st_remote st"
  using assms by (cases rule: prune_cases) simp_all

lemma renew_history:
  assumes "renew clk kind key body st = (res, st')"
  shows "st_commits st' = st_commits st \<and> st_remote st' = st_remote st"
  using assms by (cases rule: renew_cases) simp_all

lemma hq_step_line:
  assumes "hq_step st st'" "storage_ok st" "line_of st (st_remote st) = Inr old"
  shows "\<exists>new. line_of st' (st_remote st') = Inr (new @ old)"
proof -
  have quiet: ?thesis if "st_commits st' = st_commits st \<and> st_remote st' = st_remote st"
    using that assms(3) by (simp add: line_of_def)
  from assms(1) show ?thesis
  proof (cases rule: hq_step.cases)
    case (provision clk kind key body res)
    with provision_keeps(3) [OF assms(2) provision] quiet show ?thesis by simp
  next
    case (cas clk kind key body ex oid res)
    with compare_and_set_history quiet show ?thesis by blast
  next
    case (cas_all clk ws oid res)
    with compare_and_set_all_history quiet show ?thesis by blast
  next
    case (append clk stream key body oid res)
    with append_once_history [OF assms(2)] quiet show ?thesis by blast
  next
    case (prune clk stream older_than oid pres)
    with prune_history [OF assms(2)] quiet show ?thesis by blast
  next
    case (renew clk lkind key lbody rres)
    with renew_history quiet show ?thesis by blast
  next
    case (publish clk changes ex oid author message res)
    with publish_line [OF assms(2) publish assms(3)] show ?thesis by simp
  next
    case (push res)
    with push_forward [OF assms(2) push assms(3)] show ?thesis by simp
  next
    case (fetch fres)
    with fetch_frame [OF fetch] quiet show ?thesis by auto
  next
    case (remote_publish clk docs vres)
    with remote_publish_ok [OF assms(2) remote_publish] assms(3) show ?thesis by blast
  qed (use quiet in \<open>simp_all add: set_reachable_def register_capability_def\<close>)
qed

lemma hq_steps_line:
  assumes "hq_step\<^sup>*\<^sup>* st st'" "storage_ok st" "line_of st (st_remote st) = Inr old"
  shows "storage_ok st' \<and> (\<exists>new. line_of st' (st_remote st') = Inr (new @ old))"
  using assms
proof (induction rule: rtranclp_induct)
  case base
  then show ?case by simp
next
  case (step y z)
  then obtain new where "storage_ok y" "line_of y (st_remote y) = Inr (new @ old)" by blast
  with step.hyps(2) hq_step_line [of y z "new @ old"] hq_step_ok [of y z] show ?case by fastforce
qed

section \<open>Each slot is a compare-and-set cell\<close>

definition slot_cas ::
  "slot \<Rightarrow> clock_reading \<times> json_value \<times> operation_id \<Rightarrow> expectation \<Rightarrow> hq_storage
     \<Rightarrow> (storage_error + outcome) \<times> hq_storage"
where
  "slot_cas s a ex st =
     (case a of (clk, body, oid) \<Rightarrow> compare_and_set clk (fst s) (snd s) body ex oid st)"

interpretation slot_cell: cas_cell "record_token s" "\<lambda>st. issued (st_mint st)" storage_ok "slot_cas s" hq_step
  for s
proof unfold_locales
  fix st st' :: hq_storage and a :: "clock_reading \<times> json_value \<times> operation_id"
    and ex res r oid v e ex' why
  assume ok: "storage_ok st"
  obtain clk body oid' where a: "a = (clk, body, oid')" by (cases a)
  show "record_token s st = Some r \<Longrightarrow> r \<in> issued (st_mint st)"
    using ok by (rule record_token_issued)
  show "slot_cas s a ex st = (res, st') \<Longrightarrow> storage_ok st' \<and> issued (st_mint st) \<subseteq> issued (st_mint st')"
    using compare_and_set_ok [OF ok] by (auto simp: slot_cas_def a)
  show "slot_cas s a ex st = (Inr (Applied r oid), st') \<Longrightarrow>
      matches (record_token s st) ex \<and> record_token s st' = Some r \<and> r \<notin> issued (st_mint st)"
    using compare_and_set_applied [OF ok, of clk "fst s" "snd s"] by (simp add: slot_cas_def a)
  show "slot_cas s a ex st = (Inr (Conflict v), st') \<Longrightarrow>
      \<not> matches (record_token s st) ex \<and> record_token s st' = record_token s st"
    using compare_and_set_conflict [of clk "fst s" "snd s"] by (simp add: slot_cas_def a)
  show "slot_cas s a ex st = (Inl e, st') \<Longrightarrow> record_token s st' = record_token s st"
    using compare_and_set_raised [of clk "fst s" "snd s"] by (auto simp: slot_cas_def a record_token_def)
  show "slot_cas s a ex st = (Inr (Unknown oid ex' why), st') \<Longrightarrow>
      record_token s st' = record_token s st \<or>
      (\<exists>r. matches (record_token s st) ex \<and> record_token s st' = Some r \<and> r \<notin> issued (st_mint st))"
    using compare_and_set_unknown [OF ok, of clk "fst s" "snd s"] by (simp add: slot_cas_def a)
  show "hq_step st st' \<Longrightarrow> storage_ok st' \<and> issued (st_mint st) \<subseteq> issued (st_mint st')"
    using hq_step_ok ok by blast
  show "hq_step st st' \<Longrightarrow> record_token s st' = record_token s st \<or>
      (\<exists>r. record_token s st' = Some r \<and> r \<notin> issued (st_mint st))"
    using hq_step_ok ok by blast
qed

section \<open>A concrete store\<close>

text \<open>A fresh store and two operation ids, to apply the properties to.\<close>

definition example_store :: hq_storage where
  "example_store = projr (init_storage (Aware 0) True 65536 ''hq'' (\<lambda>s. s) (\<lambda>s. s))"

definition oid1 :: operation_id where
  "oid1 = ''00000000-0000-0000-0000-000000000001''"

definition oid2 :: operation_id where
  "oid2 = ''00000000-0000-0000-0000-000000000002''"

definition example_body :: json_value where
  "example_body = JObj [(''frame'', JStr ''f1''), (''epoch'', JInt 3)]"

definition example_docs :: change_set where
  "example_docs = \<lparr>ch_documents = [(''t/a'', ''x'')], ch_tables = {''t''}\<rparr>"

definition example_two_writes :: "record_write list" where
  "example_two_writes =
     [\<lparr>w_kind = AUTHORITY, w_key = ''k'', w_body = example_body, w_expected = ABSENT\<rparr>,
      \<lparr>w_kind = FAILOVER_POLICY, w_key = ''k'', w_body = example_body, w_expected = ABSENT\<rparr>]"

text \<open>The store after one append, and after two.\<close>

definition example_log1 :: hq_storage where
  "example_log1 = snd (append_once (Aware 5) INBOX ''a'' example_body oid1 example_store)"

definition example_log2 :: hq_storage where
  "example_log2 = snd (append_once (Aware 9) INBOX ''b'' example_body oid2 example_log1)"

lemma example_store_init:
  "init_storage (Aware 0) True 65536 ''hq'' (\<lambda>s. s) (\<lambda>s. s) = Inr example_store"
  by (simp add: example_store_def init_storage_def mint_revision_def Let_def)

lemma example_store_ok: "storage_ok example_store"
  using example_store_init by (rule init_storage_ok) (simp add: inj_def)

lemma example_store_reachable: "hq_reachable example_store"
  using example_store_init by (rule hq_reachable.fresh) (simp add: inj_def)

lemma example_log1_ok: "storage_ok example_log1"
  unfolding example_log1_def using append_once_ok [OF example_store_ok] by (metis prod.collapse)

lemma example_log2_ok: "storage_ok example_log2"
  unfolding example_log2_def using append_once_ok [OF example_log1_ok] by (metis prod.collapse)

section \<open>Properties\<close>

text \<open>
  C1: one winner per expectation. In any run of the store, where compare-and-sets on one record
  interleave with any other calls (also calls on the same record), no two compare-and-sets made
  against the same expectation are both applied. This is what lets an HQ record name one writer
  per epoch.
\<close>

theorem slot_one_winner:
  assumes "cas_run (slot_cas s) hq_step st log st'" "hq_reachable st"
  shows "distinct (winners log)"
  using slot_cell.one_winner [OF assms(1)] hq_reachable_ok [OF assms(2)] by blast

theorem slot_one_winner_witness:
  "\<exists>log st'. cas_run (slot_cas (AUTHORITY, ''k'')) hq_step example_store log st' \<and>
     map fst log = [ABSENT, ABSENT] \<and> winners log = [ABSENT] \<and> distinct (winners log)"
proof -
  let ?c1 = "slot_cas (AUTHORITY, ''k'') (Aware 5, example_body, oid1) ABSENT example_store"
  let ?c2 = "slot_cas (AUTHORITY, ''k'') (Aware 6, example_body, oid2) ABSENT (snd ?c1)"
  let ?log = "[(ABSENT, fst ?c1), (ABSENT, fst ?c2)]"
  have run: "cas_run (slot_cas (AUTHORITY, ''k'')) hq_step example_store ?log (snd ?c2)"
    by (rule cas_run.attempted [OF prod.collapse [symmetric]
          cas_run.attempted [OF prod.collapse [symmetric] cas_run.idle]])
  have "winners ?log = [ABSENT]" by code_simp
  with run slot_one_winner [OF run example_store_reachable] show ?thesis by (intro exI) auto
qed

text \<open>
  C2: the store's invariant. Whatever calls are made, in whatever order, with whatever arguments,
  clock readings and injected faults: records hold issued revisions under their own keys, every
  stream is in append order with a cursor for each entry, every commit's parent is an older commit,
  snapshots are sorted with one entry per document, both heads exist, and every witness behind the
  local head is a recorded publication.
\<close>

theorem store_invariant:
  assumes "hq_reachable st" "hq_step st st'"
  shows "storage_ok st'"
  using hq_reachable_ok [OF assms(1)] hq_step_ok [OF assms(2)] by blast

theorem store_invariant_witness: "storage_ok example_log1 \<and> st_streams example_log1 INBOX \<noteq> []"
proof
  have "hq_step example_store example_log1"
    unfolding example_log1_def by (rule hq_step.append) (rule prod.collapse [symmetric])
  with example_store_reachable show "storage_ok example_log1" by (rule store_invariant)
  show "st_streams example_log1 INBOX \<noteq> []" by code_simp
qed

text \<open>
  C34: a compare-and-set whose expectation holds. With valid arguments and no armed fault it is
  applied with a revision never issued before, the new body (in canonical form) is what a read
  returns, the operation is confirmed at that revision and at the clock's time, and no other
  record changes.
\<close>

theorem cas_holds_applies:
  assumes "storage_ok st" "check_key key = Inr key" "canonical_uuid oid"
    "canonical body (st_cap st) = Inr c" "\<not> (ex = ABSENT \<and> kind \<in> update_only_kinds)"
    "st_faults st = []" "now_of clk = Inr t" "matches (record_token (kind, key) st) ex"
  shows "\<exists>r st'. compare_and_set clk kind key body ex oid st = (Inr (Applied r oid), st') \<and>
    r \<notin> issued (st_mint st) \<and>
    read kind key st' = Inr (Some \<lparr>v_key = key, v_revision = r, v_body = c\<rparr>) \<and>
    lookup_record kind key oid st' = Inr (Confirmed oid r t) \<and>
    (\<forall>s. s \<noteq> (kind, key) \<longrightarrow> map_of (st_records st') s = map_of (st_records st) s)"
  using compare_and_set_success [OF assms] by blast

theorem cas_holds_applies_witness:
  "\<exists>r st'. compare_and_set (Aware 5) AUTHORITY ''k'' example_body ABSENT oid1 example_store =
      (Inr (Applied r oid1), st') \<and>
    lookup_record AUTHORITY ''k'' oid1 st' = Inr (Confirmed oid1 r 5)"
proof -
  have "check_key ''k'' = Inr ''k''" "canonical_uuid oid1"
    "canonical example_body (st_cap example_store) = Inr (sort_members example_body)"
    "\<not> (ABSENT = ABSENT \<and> AUTHORITY \<in> update_only_kinds)" "st_faults example_store = []"
    "now_of (Aware 5) = Inr 5" "matches (record_token (AUTHORITY, ''k'') example_store) ABSENT"
    by code_simp+
  from cas_holds_applies [OF example_store_ok this] show ?thesis by blast
qed

text \<open>
  C35: an unknown outcome is resolvable. When a compare-and-set under a fresh operation id answers
  "unknown", the record store is in one of exactly two states, and looking the operation up tells
  which: not confirmed and no record changed, or confirmed and the requested body is in place (and
  the expectation held).
\<close>

theorem cas_unknown_resolved:
  assumes "compare_and_set clk kind key body ex oid st = (Inr (Unknown o' ex' why), st')"
    and "lookup_record kind key oid st = Inr (NotConfirmed oid)"
  shows "(lookup_record kind key oid st' = Inr (NotConfirmed oid) \<and> st_records st' = st_records st) \<or>
    (\<exists>r c t. canonical body (st_cap st) = Inr c \<and> matches (record_token (kind, key) st) ex \<and>
       lookup_record kind key oid st' = Inr (Confirmed oid r t) \<and>
       read kind key st' = Inr (Some \<lparr>v_key = key, v_revision = r, v_body = c\<rparr>))"
  using assms by (rule unknown_resolved)

theorem cas_unknown_resolved_witness:
  "let st = example_store\<lparr>st_faults := arm_unknown Deadline True None []\<rparr>;
       st' = snd (compare_and_set (Aware 5) AUTHORITY ''k'' example_body ABSENT oid1 st)
   in lookup_record AUTHORITY ''k'' oid1 st = Inr (NotConfirmed oid1) \<and>
      fst (compare_and_set (Aware 5) AUTHORITY ''k'' example_body ABSENT oid1 st) =
        Inr (Unknown oid1 ABSENT Deadline) \<and>
      (\<exists>r t. lookup_record AUTHORITY ''k'' oid1 st' = Inr (Confirmed oid1 r t))"
proof -
  let ?st = "example_store\<lparr>st_faults := arm_unknown Deadline True None []\<rparr>"
  let ?run = "compare_and_set (Aware 5) AUTHORITY ''k'' example_body ABSENT oid1 ?st"
  have a: "fst ?run = Inr (Unknown oid1 ABSENT Deadline)" by code_simp
  have b: "lookup_record AUTHORITY ''k'' oid1 ?st = Inr (NotConfirmed oid1)" by code_simp
  have c: "st_records (snd ?run) \<noteq> st_records ?st" by code_simp
  have "?run = (Inr (Unknown oid1 ABSENT Deadline), snd ?run)" using a by (metis prod.collapse)
  from cas_unknown_resolved [OF this b] a b c show ?thesis by (simp only: Let_def) blast
qed

text \<open>
  C36: a multi-record write is all or nothing. After \<open>compare_and_set_all\<close>, whatever it answers and
  whatever faults are armed: either no record changed (and it did not answer "applied"), or every
  expectation held, every record of the request was written with its body under a fresh revision,
  the operation and one common time, and no other record changed (and it did not answer "conflict").
\<close>

theorem multi_write_atomic:
  assumes "storage_ok st" "compare_and_set_all clk ws oid st = (res, st')"
  shows "map_of (st_records st') = map_of (st_records st) \<and> (\<forall>r o'. res \<noteq> Inr (Applied r o')) \<or>
    (\<exists>ps t. check_writes (st_cap st) ws = Inr ps \<and> all_hold ps st \<and> now_of clk = Inr t \<and>
       (\<forall>(s, body, ex) \<in> set ps. \<exists>rv. rv \<notin> issued (st_mint st) \<and>
          map_of (st_records st') s = Some (written_record (snd s) rv body oid t)) \<and>
       (\<forall>s. s \<notin> fst ` set ps \<longrightarrow> map_of (st_records st') s = map_of (st_records st) s) \<and>
       (\<forall>v. res \<noteq> Inr (Conflict v)))"
  using compare_and_set_all_atomic [OF assms] .

theorem multi_write_atomic_witness:
  "\<exists>st'. compare_and_set_all (Aware 4) example_two_writes oid1
       (example_store\<lparr>st_faults := arm_unknown Transport False None []\<rparr>) =
      (Inr (Unknown oid1 ABSENT Transport), st') \<and>
     map_of (st_records st') = map_of (st_records example_store)"
proof -
  let ?st = "example_store\<lparr>st_faults := arm_unknown Transport False None []\<rparr>"
  let ?run = "compare_and_set_all (Aware 4) example_two_writes oid1 ?st"
  have ok: "storage_ok ?st" using example_store_ok by simp
  have a: "fst ?run = Inr (Unknown oid1 ABSENT Transport)" by code_simp
  have b: "st_records (snd ?run) = []" by code_simp
  have c: "case check_writes (st_cap ?st) example_two_writes of Inl e \<Rightarrow> False | Inr ps \<Rightarrow> ps \<noteq> []" by code_simp
  from multi_write_atomic [OF ok prod.collapse [symmetric], of "Aware 4" example_two_writes oid1]
  have "map_of (st_records (snd ?run)) = map_of (st_records ?st)"
  proof (elim disjE exE conjE)
    fix ps t
    assume ps: "check_writes (st_cap ?st) example_two_writes = Inr ps"
      "\<forall>(s, body, ex) \<in> set ps. \<exists>rv. rv \<notin> issued (st_mint ?st) \<and>
          map_of (st_records (snd ?run)) s = Some (written_record (snd s) rv body oid1 t)"
    with c obtain p where "p \<in> set ps" by (cases ps) auto
    with ps(2) b show ?thesis by fastforce
  qed
  moreover have "?run = (Inr (Unknown oid1 ABSENT Transport), snd ?run)" using a by (metis prod.collapse)
  ultimately show ?thesis by (intro exI [of _ "snd ?run"]) simp
qed

text \<open>
  an append is idempotent. Once an append was applied, the same append (same key, operation
  and body) at any later clock reading answers with the same revision and changes nothing.
\<close>

theorem append_idempotent:
  assumes "storage_ok st" "append_once clk stream key body oid st = (Inr (Applied r oid), st1)"
    "st_faults st1 = []"
  shows "append_once clk' stream key body oid st1 = (Inr (Applied r oid), st1)"
  using append_again(1) [OF assms] .

theorem append_idempotent_witness:
  "\<exists>r. append_once (Aware 99) INBOX ''a'' example_body oid1 example_log1 = (Inr (Applied r oid1), example_log1)"
proof -
  let ?run = "append_once (Aware 5) INBOX ''a'' example_body oid1 example_store"
  have "case fst ?run of Inl e \<Rightarrow> False | Inr (Applied r oid) \<Rightarrow> oid = oid1 | Inr x \<Rightarrow> False" by code_simp
  then obtain r where r: "?run = (Inr (Applied r oid1), example_log1)"
    unfolding example_log1_def by (cases ?run) (auto split: sum.splits outcome.splits)
  have "st_faults example_log1 = []" by code_simp
  from append_idempotent [OF example_store_ok r this] show ?thesis by blast
qed

text \<open>
  paging neither skips nor repeats. The page that starts after the last revision of a page,
  put behind it, is exactly the page of both limits together.
\<close>

theorem pages_continue:
  assumes "storage_ok st" "scan stream key after limit st = Inr page" "page \<noteq> []"
    "scan stream key (Some (v_revision (last page))) limit' st = Inr rest"
  shows "scan stream key after (limit + limit') st = Inr (page @ rest)"
  using scan_continues [OF assms] .

theorem pages_continue_witness:
  "\<exists>page rest. scan INBOX None None 1 example_log2 = Inr page \<and> length page = 1 \<and> length rest = 1 \<and>
     scan INBOX None None 2 example_log2 = Inr (page @ rest)"
proof -
  let ?page = "projr (scan INBOX None None 1 example_log2)"
  let ?rest = "projr (scan INBOX None (Some (v_revision (last ?page))) 1 example_log2)"
  have a: "scan INBOX None None 1 example_log2 = Inr ?page" "?page \<noteq> []"
    "scan INBOX None (Some (v_revision (last ?page))) 1 example_log2 = Inr ?rest"
    "length ?page = 1" "length ?rest = 1" by code_simp+
  from pages_continue [OF example_log2_ok a(1-3)] a show ?thesis by (intro exI [of _ ?page] exI [of _ ?rest]) simp
qed

text \<open>
  retention by age. A prune that returns removed exactly the entries of its stream older than
  the limit on the store's clock, kept the others in order, touched no other stream, and reports
  both counts.
\<close>

theorem prune_by_age:
  assumes "storage_ok st" "prune clk stream older_than oid st = (Inr rep, st')"
  shows "\<exists>t. now_of clk = Inr t \<and>
    st_streams st' stream = filter (\<lambda>kv. t - e_at (snd kv) \<le> older_than) (st_streams st stream) \<and>
    (\<forall>s. s \<noteq> stream \<longrightarrow> st_streams st' s = st_streams st s) \<and>
    pr_retained rep = length (st_streams st' stream) \<and>
    pr_removed rep + pr_retained rep = length (st_streams st stream)"
  using assms
proof (cases rule: prune_cases)
  case (pruned t fs kept)
  then have "length kept \<le> length (st_streams st stream)" by simp
  with pruned show ?thesis by auto
qed simp

theorem prune_by_age_witness:
  "\<exists>rep st'. prune (Aware 12) INBOX 4 oid1 example_log2 = (Inr rep, st') \<and>
     length (st_streams st' INBOX) = 1 \<and> pr_removed rep + pr_retained rep = 2"
proof -
  let ?run = "prune (Aware 12) INBOX 4 oid1 example_log2"
  have "case fst ?run of Inl e \<Rightarrow> False | Inr rep \<Rightarrow> True" by code_simp
  then obtain rep where rep: "?run = (Inr rep, snd ?run)" by (rule returned_run)
  have "length (st_streams (snd ?run) INBOX) = 1" "length (st_streams example_log2 INBOX) = 2" by code_simp+
  with prune_by_age [OF example_log2_ok rep] rep show ?thesis by (intro exI [of _ rep] exI [of _ "snd ?run"]) auto
qed

text \<open>
  C37: committed history is append-only. Whatever calls are made on the store, the line of commits
  behind the remote head is only ever extended at its new end.
\<close>

theorem remote_history_append_only:
  assumes "hq_reachable st" "hq_step\<^sup>*\<^sup>* st st'" "line_of st (st_remote st) = Inr old"
  shows "\<exists>new. line_of st' (st_remote st') = Inr (new @ old)"
  using hq_steps_line [OF assms(2) hq_reachable_ok [OF assms(1)] assms(3)] by blast

theorem remote_history_append_only_witness:
  "\<exists>old new st'. hq_step example_store st' \<and> line_of example_store (st_remote example_store) = Inr old \<and>
     new \<noteq> [] \<and> line_of st' (st_remote st') = Inr (new @ old)"
proof -
  let ?st' = "snd (remote_publish (Aware 8) [(''t/a'', ''y'')] example_store)"
  have step: "hq_step example_store ?st'" by (rule hq_step.remote_publish) (rule prod.collapse [symmetric])
  obtain old where old: "line_of example_store (st_remote example_store) = Inr old"
    using line_of_total [OF example_store_ok] by blast
  from remote_history_append_only [OF example_store_reachable _ old, of ?st'] step
  obtain new where new: "line_of ?st' (st_remote ?st') = Inr (new @ old)" by blast
  have "line_of ?st' (st_remote ?st') \<noteq> line_of example_store (st_remote example_store)" by code_simp
  with old new have "new \<noteq> []" by auto
  with step old new show ?thesis by blast
qed

text \<open>
  an unknown publication is resolvable. When \<open>publish\<close> answers "unknown", either nothing was
  committed and the lookup does not confirm the operation, or the head moved to one new commit
  whose documents are the old ones with the changes over them, and the lookup confirms the
  operation at that commit.
\<close>

theorem publication_resolved:
  assumes "storage_ok st" "publish clk changes ex oid author message st = (Inr (Unknown o' ex' why), st')"
  shows "(st_local st' = st_local st \<and> st_commits st' = st_commits st \<and>
      lookup_publication oid ex st' = Inr (NotConfirmed oid)) \<or>
    (\<exists>docs old t. ex = At (st_local st) \<and> check_changes changes = Inr docs \<and>
      read_at (st_local st) st = Inr old \<and>
      read_at (st_local st') st' = Inr (merged_snapshot old docs) \<and>
      lookup_publication oid ex st' = Inr (Confirmed oid (st_local st') t))"
  using publish_unknown_resolved [OF assms] .

theorem publication_resolved_witness:
  "\<exists>st'. publish (Aware 6) example_docs (At (st_local example_store)) oid1 ''me'' ''msg''
       (example_store\<lparr>st_faults := arm_unknown Deadline True None []\<rparr>) =
      (Inr (Unknown oid1 (At (st_local example_store)) Deadline), st') \<and>
     (\<exists>t. lookup_publication oid1 (At (st_local example_store)) st' = Inr (Confirmed oid1 (st_local st') t))"
proof -
  let ?st = "example_store\<lparr>st_faults := arm_unknown Deadline True None []\<rparr>"
  let ?run = "publish (Aware 6) example_docs (At (st_local example_store)) oid1 ''me'' ''msg'' ?st"
  have ok: "storage_ok ?st" using example_store_ok by simp
  have a: "fst ?run = Inr (Unknown oid1 (At (st_local example_store)) Deadline)" by code_simp
  have moved: "st_local (snd ?run) \<noteq> st_local ?st" by code_simp
  have run: "?run = (Inr (Unknown oid1 (At (st_local example_store)) Deadline), snd ?run)"
    using a by (metis prod.collapse)
  from publication_resolved [OF ok run] moved run show ?thesis by blast
qed

end
