(* ===== verification/Writer_Adopt.thy ===== *)
theory Writer_Adopt
  imports Fence_System Fence_Reclaim Epoch_Ref Hq_System
begin

text \<open>
  The adopt protocol (\<^verbatim>\<open>src/beadhive/writer_adopt.py\<close>): how a frame becomes the writer of a hive.
  Placement first, then the legacy ref in lockstep, then the idempotent step 2 in data.

  The protocol talks to three ports. Here a port is a record of calls on a world \<open>'w\<close>; a call
  returns or raises and leaves a new world, so that other frames can act inside any call. Errors
  of the stores are \<open>storage_error\<close>; the protocol's own exceptions are \<open>adopt_error\<close> without their
  message texts (the \<^verbatim>\<open>detail\<close> of a step-2 result is such a text and is left out). Randomness
  (\<^verbatim>\<open>uuid4\<close>) and \<^verbatim>\<open>sha256\<close> come from an \<open>entropy\<close> record, one draw per use. The environment variable
  \<^verbatim>\<open>BH_ADOPT_STEP2_ATTEMPTS\<close> is an argument: its stripped text read as an integer, if it is set.

  \<open>Adopt_Memory\<close> runs the protocol on the in-memory stores.
\<close>

section \<open>Results and errors\<close>

datatype step2_outcome =
    LANDED
  | SUPERSEDED
  | PLACEMENT_MOVED
  | GUARD_INCOMPLETE
  | UNREACHABLE
  | RETRIES_EXHAUSTED

text \<open>Of a reclaim plan the protocol reads only the typed reclaim set.\<close>

record reclaim_plan =
  rp_reclaim :: "reclaim_set option"

record step2_result =
  s2_outcome :: step2_outcome
  s2_epoch :: int
  s2_attempts :: nat
  s2_revision :: "string option"
  s2_reclaim :: "reclaim_plan option"

definition landed :: "step2_result \<Rightarrow> bool" where
  "landed r \<longleftrightarrow> s2_outcome r = LANDED"

record adopt_report_view =
  ar_prefix :: string
  ar_placement :: placement_view
  ar_writer :: writer_row
  ar_ref :: "ref_view option"

datatype adopt_error =
    NotCutOver
  | PlacementLost
  | PlacementUnknown operation_id unknown_reason
  | AdoptLost
  | AdoptIncomplete adopt_report_view
  | EpochRefLost adopt_report_view
  | ValueError
  | Storage storage_error

record coexistence_outcome =
  co_epoch :: int
  co_placement :: placement_view
  co_ref :: "ref_view option"
  co_step2 :: step2_result
  co_resumed :: bool

section \<open>Ports\<close>

type_synonym ('w, 'a) call = "'w \<Rightarrow> (storage_error + 'a) \<times> 'w"

record 'w fence_port =
  fp_sync :: "('w, sync_report) call"
  fp_writer :: "('w, writer_row option) call"
  fp_remote_writer :: "('w, writer_row option) call"
  fp_epoch_floor :: "('w, epoch_floor_view) call"
  fp_guard :: "('w, guard_report) call"
  fp_commit :: "bump_request \<Rightarrow> ('w, outcome) call"
  fp_push :: "('w, outcome) call"
  fp_lookup :: "string \<Rightarrow> int \<Rightarrow> operation_id \<Rightarrow> ('w, lookup_outcome) call"

record 'w placement_port =
  pp_read :: "string \<Rightarrow> ('w, placement_view option) call"
  pp_cas :: "string \<Rightarrow> string \<Rightarrow> int \<Rightarrow> placement_view option \<Rightarrow> string \<Rightarrow> operation_id \<Rightarrow> ('w, outcome) call"
  pp_lookup :: "string \<Rightarrow> operation_id \<Rightarrow> ('w, lookup_outcome) call"

record 'w ref_port =
  rf_read :: "('w, ref_view option) call"
  rf_cas :: "string \<Rightarrow> int \<Rightarrow> ref_view \<Rightarrow> ('w, ref_view) call"

record 'w reclaim_port =
  rk_plan :: "string \<Rightarrow> string \<Rightarrow> int \<Rightarrow> ('w, reclaim_plan) call"
  rk_after_landed :: "reclaim_plan \<Rightarrow> ('w, unit) call"

record entropy =
  en_sha256 :: "string \<Rightarrow> string"
  en_hex :: "nat \<Rightarrow> string"
  en_op :: "nat \<Rightarrow> operation_id"

text \<open>A call with an exception handler, then the rest of the function.\<close>

definition try_call ::
  "('w, 'a) call \<Rightarrow> 'w \<Rightarrow> (storage_error \<Rightarrow> 'w \<Rightarrow> 'r) \<Rightarrow> ('a \<Rightarrow> 'w \<Rightarrow> 'r) \<Rightarrow> 'r"
where
  "try_call c w handler k =
     (case c w of (Inl e, w1) \<Rightarrow> handler e w1 | (Inr x, w1) \<Rightarrow> k x w1)"

text \<open>\<^verbatim>\<open>except StorageError\<close>: every error of the port, but not a defect of Python's own.\<close>

definition port_error :: "storage_error \<Rightarrow> bool" where
  "port_error e \<longleftrightarrow> e \<noteq> KeyError \<and> e \<noteq> Diverges"

section \<open>Pure pieces\<close>

text \<open>\<^verbatim>\<open>v or 0\<close>.\<close>

fun or_zero :: "int option \<Rightarrow> int" where
  "or_zero None = 0"
| "or_zero (Some v) = v"

definition next_epoch :: "int option \<Rightarrow> int option \<Rightarrow> int option \<Rightarrow> int option \<Rightarrow> int" where
  "next_epoch ref placement wr hist =
     max (or_zero ref) (max (or_zero placement) (max (or_zero wr) (or_zero hist))) + 1"

definition fresh_revision :: "entropy \<Rightarrow> nat \<Rightarrow> string \<Rightarrow> int \<Rightarrow> string" where
  "fresh_revision en n frame epoch =
     en_sha256 en (frame @ CHR 0x00 # int_str epoch @ CHR 0x00 # en_hex en n)"

definition default_step2_attempts :: int where
  "default_step2_attempts = 4"

definition step2_attempts :: "int option \<Rightarrow> int option \<Rightarrow> adopt_error + nat" where
  "step2_attempts env attempts =
     (let n = (case attempts of
                 Some a \<Rightarrow> a
               | None \<Rightarrow> (case env of Some a \<Rightarrow> a | None \<Rightarrow> default_step2_attempts))
      in if n < 1 then Inl ValueError else Inr (nat n))"

definition recovery_command :: "string \<Rightarrow> string" where
  "recovery_command prefix = ''bh host lease adopt '' @ prefix"

definition failover_kind :: "string \<Rightarrow> placement_view option \<Rightarrow> bool option" where
  "failover_kind frame displaced =
     (case displaced of
        None \<Rightarrow> Some False
      | Some v \<Rightarrow> if p_frame v = [] then Some False
                  else if p_frame v = frame then None else Some True)"

definition resumable ::
  "string \<Rightarrow> placement_view option \<Rightarrow> writer_row \<Rightarrow> int \<Rightarrow> ref_view option \<Rightarrow> bool"
where
  "resumable frame placed wr hist ref =
     (case placed of
        None \<Rightarrow> False
      | Some v \<Rightarrow>
          if p_frame v \<noteq> frame then False
          else let e = p_epoch v; here = (wr_frame wr = frame \<and> wr_epoch wr = e)
               in if \<not> here \<and> \<not> (wr_epoch wr < e \<and> hist < e) then False
                  else (case ref of
                          None \<Rightarrow> True
                        | Some rf \<Rightarrow> rf_epoch rf < e \<or> (rf_epoch rf = e \<and> rf_frame rf = frame)))"

definition adopt_report ::
  "string \<Rightarrow> placement_view option \<Rightarrow> writer_row option \<Rightarrow> ref_view option \<Rightarrow> adopt_report_view option"
where
  "adopt_report prefix placement wr ref =
     (case (placement, wr) of
        (Some p, Some w) \<Rightarrow>
          if p_epoch p \<le> wr_epoch w then None
          else Some \<lparr>ar_prefix = prefix, ar_placement = p, ar_writer = w, ar_ref = ref\<rparr>
      | _ \<Rightarrow> None)"

section \<open>Step 2\<close>

definition step2 :: "step2_outcome \<Rightarrow> int \<Rightarrow> nat \<Rightarrow> step2_result" where
  "step2 o' epoch n =
     \<lparr>s2_outcome = o', s2_epoch = epoch, s2_attempts = n, s2_revision = None, s2_reclaim = None\<rparr>"

text \<open>
  A round gives the result, or \<open>None\<close> for "back to the data check". The one-shot \<^verbatim>\<open>before_push\<close>
  hook rides along with the world.
\<close>

type_synonym 'w hook = "('w \<Rightarrow> 'w) option"
type_synonym 'w round = "(adopt_error + step2_result option) \<times> 'w hook \<times> 'w"

fun is_unknown :: "outcome \<Rightarrow> bool" where
  "is_unknown (Unknown oid ex why) = True"
| "is_unknown (Applied r oid) = False"
| "is_unknown (Conflict v) = False"

fun is_conflict :: "outcome \<Rightarrow> bool" where
  "is_conflict (Conflict v) = True"
| "is_conflict (Applied r oid) = False"
| "is_conflict (Unknown oid ex why) = False"

fun is_confirmed :: "lookup_outcome \<Rightarrow> bool" where
  "is_confirmed (Confirmed oid r t) = True"
| "is_confirmed (NotConfirmed oid) = False"

text \<open>From the push on: publish the bump, resolve an unknown, and report.\<close>

definition finish_landed ::
  "'w reclaim_port option \<Rightarrow> reclaim_plan option \<Rightarrow> step2_result \<Rightarrow> 'w hook \<Rightarrow> 'w \<Rightarrow> 'w round"
where
  "finish_landed rk plan res hook w =
     (case (rk, plan) of
        (Some k, Some p) \<Rightarrow>
          try_call (rk_after_landed k p) w (\<lambda>e w1. (Inl (Storage e), hook, w1))
            (\<lambda>_ w1. (Inr (Some res), hook, w1))
      | _ \<Rightarrow> (Inr (Some res), hook, w))"

definition push_round ::
  "'w fence_port \<Rightarrow> 'w reclaim_port option \<Rightarrow> reclaim_plan option \<Rightarrow> nat \<Rightarrow> bump_request
     \<Rightarrow> outcome \<Rightarrow> 'w hook \<Rightarrow> 'w \<Rightarrow> 'w round"
where
  "push_round fp rk plan n bump committed hook w =
     (let epoch = b_epoch bump;
          unreachable = (\<lambda>e w1. (if port_error e then Inr (Some (step2 UNREACHABLE epoch n))
                                 else Inl (Storage e), hook, w1));
          res = \<lparr>s2_outcome = LANDED, s2_epoch = epoch, s2_attempts = n,
                 s2_revision = Some (b_revision bump), s2_reclaim = plan\<rparr>
      in try_call (fp_push fp) w unreachable (\<lambda>pushed w1.
           if is_conflict pushed then (Inr None, hook, w1)
           else if is_unknown committed \<or> is_unknown pushed
           then try_call (fp_lookup fp (b_frame bump) epoch (b_operation bump)) w1 unreachable
                  (\<lambda>found w2.
                    if is_confirmed found then finish_landed rk plan res hook w2
                    else (Inr (Some (step2 UNREACHABLE epoch n)), hook, w2))
           else finish_landed rk plan res hook w1))"

text \<open>The bump itself: commit, run the hook, push.\<close>

definition commit_round ::
  "'w fence_port \<Rightarrow> entropy \<Rightarrow> 'w reclaim_port option \<Rightarrow> string \<Rightarrow> int \<Rightarrow> nat \<Rightarrow> 'w hook
     \<Rightarrow> reclaim_plan option \<Rightarrow> 'w \<Rightarrow> 'w round"
where
  "commit_round fp en rk frame epoch n hook plan w =
     (let bump = \<lparr>b_frame = frame, b_epoch = epoch, b_revision = fresh_revision en n frame epoch,
                  b_operation = en_op en n,
                  b_reclaim = (case plan of None \<Rightarrow> None | Some p \<Rightarrow> rp_reclaim p)\<rparr>
      in try_call (fp_commit fp bump) w (\<lambda>e w1. (Inl (Storage e), hook, w1)) (\<lambda>committed w1.
           case hook of
             None \<Rightarrow> push_round fp rk plan n bump committed None w1
           | Some h \<Rightarrow> push_round fp rk plan n bump committed None (h w1)))"

definition bump_round ::
  "'w fence_port \<Rightarrow> entropy \<Rightarrow> 'w reclaim_port option \<Rightarrow> string \<Rightarrow> int \<Rightarrow> nat \<Rightarrow> string
     \<Rightarrow> 'w hook \<Rightarrow> 'w \<Rightarrow> 'w round"
where
  "bump_round fp en rk frame epoch n dead hook w =
     (case rk of
        None \<Rightarrow> commit_round fp en rk frame epoch n hook None w
      | Some k \<Rightarrow>
          try_call (rk_plan k dead frame epoch) w (\<lambda>e w1. (Inl (Storage e), hook, w1))
            (\<lambda>plan w1. commit_round fp en rk frame epoch n hook (Some plan) w1))"

text \<open>The re-check of placement and of the guard install, once the data is known to be behind.\<close>

definition placed_round ::
  "'w fence_port \<Rightarrow> 'w placement_port \<Rightarrow> entropy \<Rightarrow> 'w reclaim_port option \<Rightarrow> string \<Rightarrow> string
     \<Rightarrow> int \<Rightarrow> nat \<Rightarrow> string \<Rightarrow> 'w hook \<Rightarrow> 'w \<Rightarrow> 'w round"
where
  "placed_round fp pp en rk prefix frame epoch n dead hook w =
     try_call (pp_read pp prefix) w
       (\<lambda>e w1. (Inr (Some (step2 UNREACHABLE epoch n)), hook, w1))
       (\<lambda>placed w1.
         case placed of
           None \<Rightarrow> (Inr (Some (step2 PLACEMENT_MOVED epoch n)), hook, w1)
         | Some v \<Rightarrow>
             if \<not> (p_frame v = frame \<and> p_epoch v = epoch)
             then (Inr (Some (step2 PLACEMENT_MOVED epoch n)), hook, w1)
             else try_call (fp_guard fp) w1 (\<lambda>e w2. (Inl (Storage e), hook, w2)) (\<lambda>guard w2.
               if g_missing guard \<noteq> [] \<or> g_present guard < g_expected guard
               then (Inr (Some (step2 GUARD_INCOMPLETE epoch n)), hook, w2)
               else bump_round fp en rk frame epoch n dead hook w2))"

definition step2_round ::
  "'w fence_port \<Rightarrow> 'w placement_port \<Rightarrow> entropy \<Rightarrow> 'w reclaim_port option \<Rightarrow> string \<Rightarrow> string
     \<Rightarrow> int \<Rightarrow> nat \<Rightarrow> 'w hook \<Rightarrow> 'w \<Rightarrow> 'w round"
where
  "step2_round fp pp en rk prefix frame epoch n hook w =
     (let unreachable = (\<lambda>e w1. (if e = StorageUnavailable
                                 then Inr (Some (step2 UNREACHABLE epoch n))
                                 else Inl (Storage e), hook, w1))
      in try_call (fp_sync fp) w unreachable (\<lambda>_ w1.
         try_call (fp_writer fp) w1 unreachable (\<lambda>current w2.
           case current of
             None \<Rightarrow> (Inr (Some (step2 SUPERSEDED epoch n)), hook, w2)
           | Some cur \<Rightarrow>
               if wr_frame cur = frame \<and> wr_epoch cur = epoch
               then (Inr (Some (step2 LANDED epoch n)), hook, w2)
               else if wr_epoch cur \<ge> epoch
               then (Inr (Some (step2 SUPERSEDED epoch n)), hook, w2)
               else placed_round fp pp en rk prefix frame epoch n (wr_frame cur) hook w2)))"

fun step2_rounds ::
  "(nat \<Rightarrow> 'w hook \<Rightarrow> 'w \<Rightarrow> 'w round) \<Rightarrow> int \<Rightarrow> nat \<Rightarrow> nat \<Rightarrow> 'w hook \<Rightarrow> 'w
     \<Rightarrow> (adopt_error + step2_result) \<times> 'w"
where
  "step2_rounds rnd epoch rounds 0 hook w = (Inr (step2 RETRIES_EXHAUSTED epoch rounds), w)"
| "step2_rounds rnd epoch rounds (Suc left) hook w =
     (case rnd (rounds - left) hook w of
        (Inl e, hook1, w1) \<Rightarrow> (Inl e, w1)
      | (Inr (Some r), hook1, w1) \<Rightarrow> (Inr r, w1)
      | (Inr None, hook1, w1) \<Rightarrow> step2_rounds rnd epoch rounds left hook1 w1)"

definition run_step2 ::
  "'w fence_port \<Rightarrow> 'w placement_port \<Rightarrow> entropy \<Rightarrow> 'w reclaim_port option \<Rightarrow> int option
     \<Rightarrow> string \<Rightarrow> string \<Rightarrow> int \<Rightarrow> int option \<Rightarrow> 'w hook \<Rightarrow> 'w
     \<Rightarrow> (adopt_error + step2_result) \<times> 'w"
where
  "run_step2 fp pp en rk env prefix frame epoch attempts hook w =
     (case step2_attempts env attempts of
        Inl e \<Rightarrow> (Inl e, w)
      | Inr rounds \<Rightarrow>
          step2_rounds (step2_round fp pp en rk prefix frame epoch) epoch rounds rounds hook w)"

section \<open>Placement and the coexistence adopt\<close>

definition place ::
  "'w placement_port \<Rightarrow> entropy \<Rightarrow> nat \<Rightarrow> string \<Rightarrow> string \<Rightarrow> int \<Rightarrow> placement_view option \<Rightarrow> string
     \<Rightarrow> 'w \<Rightarrow> (adopt_error + placement_view) \<times> 'w"
where
  "place pp en n prefix frame epoch expected cause w =
     (let operation = en_op en n in
      try_call (pp_cas pp prefix frame epoch expected cause operation) w
        (\<lambda>e w1. (Inl (Storage e), w1))
        (\<lambda>out w1.
          case out of
            Applied r oid \<Rightarrow> (Inr \<lparr>p_frame = frame, p_epoch = epoch, p_token = r\<rparr>, w1)
          | Conflict v \<Rightarrow> (Inl PlacementLost, w1)
          | Unknown oid ex why \<Rightarrow>
              try_call (pp_lookup pp prefix operation) w1
                (\<lambda>e w2. (Inl (if port_error e then PlacementUnknown operation why else Storage e), w2))
                (\<lambda>found w2.
                  case found of
                    Confirmed o' r t \<Rightarrow> (Inr \<lparr>p_frame = frame, p_epoch = epoch, p_token = r\<rparr>, w2)
                  | NotConfirmed o' \<Rightarrow> (Inl (PlacementUnknown operation why), w2))))"

definition cause_failover :: string where
  "cause_failover = ''failover''"

definition cause_planned :: string where
  "cause_planned = ''planned''"

text \<open>The part after placement is settled: the ref in lockstep, then step 2 and its report.\<close>

definition adopt_rest ::
  "'w fence_port \<Rightarrow> 'w placement_port \<Rightarrow> 'w ref_port \<Rightarrow> entropy \<Rightarrow> 'w reclaim_port option
     \<Rightarrow> int option \<Rightarrow> string \<Rightarrow> string \<Rightarrow> int option \<Rightarrow> 'w hook \<Rightarrow> writer_row \<Rightarrow> ref_view option
     \<Rightarrow> bool \<Rightarrow> placement_view \<Rightarrow> int \<Rightarrow> 'w \<Rightarrow> (adopt_error + coexistence_outcome) \<times> 'w"
where
  "adopt_rest fp pp rp en rk env prefix frame attempts hook wr held resumed now_placed epoch w =
     (let incomplete = (\<lambda>now_ref. \<lparr>ar_prefix = prefix, ar_placement = now_placed, ar_writer = wr,
                                   ar_ref = now_ref\<rparr>);
          step = (\<lambda>now_ref w1.
            case run_step2 fp pp en rk env prefix frame epoch attempts hook w1 of
              (Inl e, w2) \<Rightarrow> (Inl e, w2)
            | (Inr result, w2) \<Rightarrow>
                if landed result
                then (Inr \<lparr>co_epoch = epoch, co_placement = now_placed, co_ref = now_ref,
                           co_step2 = result, co_resumed = resumed\<rparr>, w2)
                else if s2_outcome result \<in> {SUPERSEDED, PLACEMENT_MOVED} then (Inl AdoptLost, w2)
                else (Inl (AdoptIncomplete (incomplete now_ref)), w2))
      in case held of
           None \<Rightarrow> step None w
         | Some h \<Rightarrow>
             if rf_frame h = frame \<and> rf_epoch h = epoch then step (Some h) w
             else try_call (rf_cas rp frame epoch h) w
                    (\<lambda>e w1. (Inl (EpochRefLost (incomplete (Some h))), w1))
                    (\<lambda>r w1. step (Some r) w1))"

text \<open>The decision, from what was read: resume at the placed epoch, or place at a new one.\<close>

definition adopt_decided ::
  "'w fence_port \<Rightarrow> 'w placement_port \<Rightarrow> 'w ref_port \<Rightarrow> entropy
     \<Rightarrow> (bool option \<Rightarrow> 'w reclaim_port) option \<Rightarrow> int option \<Rightarrow> string \<Rightarrow> string \<Rightarrow> int option
     \<Rightarrow> (placement_view \<Rightarrow> 'w \<Rightarrow> 'w) option \<Rightarrow> 'w hook \<Rightarrow> bool option
     \<Rightarrow> writer_row \<Rightarrow> epoch_floor_view \<Rightarrow> placement_view option \<Rightarrow> ref_view option \<Rightarrow> 'w
     \<Rightarrow> (adopt_error + coexistence_outcome) \<times> 'w"
where
  "adopt_decided fp pp rp en reclaim env prefix frame attempts on_placed hook failover wr floor placed held w =
     (let resumed = resumable frame placed wr (ef_history_max floor) held;
          kind = (case failover of Some f \<Rightarrow> Some f | None \<Rightarrow> failover_kind frame placed);
          rk = map_option (\<lambda>with_kind. with_kind kind) reclaim;
          rest = adopt_rest fp pp rp en rk env prefix frame attempts hook wr held resumed
      in if resumed then rest (the placed) (p_epoch (the placed)) w
         else let epoch = next_epoch (map_option rf_epoch held) (map_option p_epoch placed)
                            (Some (wr_epoch wr)) (Some (ef_history_max floor))
              in case place pp en 0 prefix frame epoch placed
                        (if kind = Some True then cause_failover else cause_planned) w of
                   (Inl e, w1) \<Rightarrow> (Inl e, w1)
                 | (Inr now_placed, w1) \<Rightarrow>
                     rest now_placed epoch
                       (case on_placed of None \<Rightarrow> w1 | Some f \<Rightarrow> f now_placed w1))"

definition adopt_reads ::
  "'w fence_port \<Rightarrow> 'w placement_port \<Rightarrow> 'w ref_port \<Rightarrow> entropy
     \<Rightarrow> (bool option \<Rightarrow> 'w reclaim_port) option \<Rightarrow> int option \<Rightarrow> string \<Rightarrow> string \<Rightarrow> int option
     \<Rightarrow> (placement_view \<Rightarrow> 'w \<Rightarrow> 'w) option \<Rightarrow> 'w hook \<Rightarrow> bool option \<Rightarrow> writer_row \<Rightarrow> 'w
     \<Rightarrow> (adopt_error + coexistence_outcome) \<times> 'w"
where
  "adopt_reads fp pp rp en reclaim env prefix frame attempts on_placed hook failover wr w =
     (let raise = (\<lambda>e w1. (Inl (Storage e), w1)) in
      try_call (fp_epoch_floor fp) w raise (\<lambda>floor w1.
      try_call (pp_read pp prefix) w1 raise (\<lambda>placed w2.
      try_call (rf_read rp) w2 raise (\<lambda>held w3.
        adopt_decided fp pp rp en reclaim env prefix frame attempts on_placed hook failover
          wr floor placed held w3))))"

definition coexistence_adopt ::
  "'w fence_port \<Rightarrow> 'w placement_port \<Rightarrow> 'w ref_port \<Rightarrow> entropy
     \<Rightarrow> (bool option \<Rightarrow> 'w reclaim_port) option \<Rightarrow> int option \<Rightarrow> string \<Rightarrow> string \<Rightarrow> int option
     \<Rightarrow> (placement_view \<Rightarrow> 'w \<Rightarrow> 'w) option \<Rightarrow> 'w hook \<Rightarrow> bool option \<Rightarrow> 'w
     \<Rightarrow> (adopt_error + coexistence_outcome) \<times> 'w"
where
  "coexistence_adopt fp pp rp en reclaim env prefix frame attempts on_placed hook failover w =
     (let raise = (\<lambda>e w1. (Inl (Storage e), w1)) in
      try_call (fp_remote_writer fp) w raise (\<lambda>remote w1.
        if remote = None then (Inl NotCutOver, w1)
        else try_call (fp_sync fp) w1 raise (\<lambda>_ w2.
          try_call (fp_writer fp) w2 raise (\<lambda>current w3.
            case current of
              None \<Rightarrow> (Inl NotCutOver, w3)
            | Some wr \<Rightarrow>
                adopt_reads fp pp rp en reclaim env prefix frame attempts on_placed hook failover wr w3))))"

end
