(* ===== verification/Adopt_Laws.thy ===== *)
theory Adopt_Laws
  imports Writer_Adopt
begin

text \<open>
  What the adopt protocol relies on, as a locale, and what it concludes from it.

  \<open>fence_laws\<close> states the contract of the \<^verbatim>\<open>HiveFence\<close> port (\<^verbatim>\<open>_ports.py\<close>) that step 2 needs: after a
  sync the local head is the remote's (\<open>clean\<close>), a committed bump stays on the local line
  (\<open>holds\<close>) until it is pushed, a push that is applied publishes it, the lookup confirms only
  what is on the remote, and a writer once named on the remote's line stays named there
  (\<open>names\<close>). Other frames may act inside every call.

  The client lemma \<open>step2_lands\<close> says that "landed" is true: the remote's history names the frame
  at the epoch.
\<close>

text \<open>A call keeps the invariant and loses no name from the remote's history.\<close>

definition keeps ::
  "('w \<Rightarrow> bool) \<Rightarrow> (string \<Rightarrow> int \<Rightarrow> 'w \<Rightarrow> bool) \<Rightarrow> ('w \<Rightarrow> 'r \<times> 'w) \<Rightarrow> bool"
where
  "keeps ok names c \<longleftrightarrow>
     (\<forall>w r w'. ok w \<longrightarrow> c w = (r, w') \<longrightarrow> ok w' \<and> (\<forall>f e. names f e w \<longrightarrow> names f e w'))"

lemma keepsD:
  assumes "keeps ok names c" "ok w" "c w = (r, w')"
  shows "ok w' \<and> (names f e w \<longrightarrow> names f e w')"
  using assms unfolding keeps_def by blast

lemma try_call_cases:
  assumes "try_call c w handler k = x"
  obtains (raised) e w1 where "c w = (Inl e, w1)" "handler e w1 = x"
    | (returned) y w1 where "c w = (Inr y, w1)" "k y w1 = x"
  using assms unfolding try_call_def by (cases "c w"; cases "fst (c w)") auto

text \<open>Step 2 never commits or pushes while placement does not name the frame at the epoch.\<close>

lemma try_call_cong:
  assumes "\<And>e w1. c w = (Inl e, w1) \<Longrightarrow> h e w1 = h' e w1" "\<And>x w1. c w = (Inr x, w1) \<Longrightarrow> k x w1 = k' x w1"
  shows "try_call c w h k = try_call c w h' k'"
  using assms unfolding try_call_def by (auto split: prod.splits sum.splits)

lemma step2_round_unplaced:
  assumes "\<And>w v w'. pp_read pp prefix w = (Inr (Some v), w') \<Longrightarrow> \<not> (p_frame v = frame \<and> p_epoch v = epoch)"
  shows "step2_round (fp\<lparr>fp_commit := c, fp_push := p\<rparr>) pp en rk prefix frame epoch n hook w =
    step2_round fp pp en rk prefix frame epoch n hook w"
proof -
  have "placed_round (fp\<lparr>fp_commit := c, fp_push := p\<rparr>) pp en rk prefix frame epoch n dead hook w2 =
      placed_round fp pp en rk prefix frame epoch n dead hook w2" for dead w2
    unfolding placed_round_def
    by (rule try_call_cong) (use assms in \<open>auto split: option.splits\<close>)
  note same = this
  show ?thesis unfolding step2_round_def same by simp
qed

lemma step2_rounds_cong:
  assumes "\<And>n hook w. rnd n hook w = rnd' n hook w"
  shows "step2_rounds rnd epoch rounds left hook w = step2_rounds rnd' epoch rounds left hook w"
proof -
  have "rnd = rnd'" using assms by blast
  then show ?thesis by simp
qed

locale fence_laws =
  fixes fp :: "'w fence_port"
    and inv :: "'w \<Rightarrow> bool"
    and names :: "string \<Rightarrow> int \<Rightarrow> 'w \<Rightarrow> bool"
    and clean :: "'w \<Rightarrow> bool"
    and holds :: "string \<Rightarrow> int \<Rightarrow> 'w \<Rightarrow> bool"
    and benign :: "('w \<Rightarrow> 'w) \<Rightarrow> bool"
  assumes sync_keeps: "keeps inv names (fp_sync fp)"
    and writer_keeps: "keeps inv names (fp_writer fp)"
    and guard_keeps: "keeps inv names (fp_guard fp)"
    and remote_writer_keeps: "keeps inv names (fp_remote_writer fp)"
    and floor_keeps: "keeps inv names (fp_epoch_floor fp)"
    and commit_keeps: "keeps inv names (fp_commit fp bump)"
    and push_keeps: "keeps inv names (fp_push fp)"
    and lookup_keeps: "keeps inv names (fp_lookup fp frame epoch oid)"
    and sync_clean: "inv w \<Longrightarrow> fp_sync fp w = (Inr rep, w') \<Longrightarrow> clean w'"
    and writer_names: "inv w \<Longrightarrow> clean w \<Longrightarrow> fp_writer fp w = (Inr (Some row), w') \<Longrightarrow>
      names (wr_frame row) (wr_epoch row) w'"
    and commit_holds: "inv w \<Longrightarrow> fp_commit fp bump w = (Inr (Applied r oid), w') \<Longrightarrow>
      holds (b_frame bump) (b_epoch bump) w'"
    and commit_outcome: "fp_commit fp bump w = (Inr (Conflict v), w') \<Longrightarrow> False"
    and push_lands: "inv w \<Longrightarrow> holds frame epoch w \<Longrightarrow> fp_push fp w = (Inr (Applied r oid), w') \<Longrightarrow>
      names frame epoch w'"
    and lookup_lands: "inv w \<Longrightarrow> fp_lookup fp frame epoch oid w = (Inr (Confirmed o' r t), w') \<Longrightarrow>
      names frame epoch w'"
    and benign_keeps: "benign h \<Longrightarrow> inv w \<Longrightarrow> inv (h w)"
    and benign_names: "benign h \<Longrightarrow> inv w \<Longrightarrow> names frame epoch w \<Longrightarrow> names frame epoch (h w)"
    and benign_holds: "benign h \<Longrightarrow> inv w \<Longrightarrow> holds frame epoch w \<Longrightarrow> holds frame epoch (h w)"
begin

definition round_ok :: "string \<Rightarrow> int \<Rightarrow> 'w round \<Rightarrow> bool" where
  "round_ok frame epoch x \<longleftrightarrow>
     (case x of (r, hook, w) \<Rightarrow> inv w \<and> (\<forall>h. hook = Some h \<longrightarrow> benign h) \<and>
        (\<forall>res. r = Inr (Some res) \<longrightarrow> landed res \<longrightarrow> names frame epoch w))"

definition reclaim_keeps :: "'w reclaim_port option \<Rightarrow> bool" where
  "reclaim_keeps rk \<longleftrightarrow>
     (\<forall>k. rk = Some k \<longrightarrow> (\<forall>d f e. keeps inv names (rk_plan k d f e)) \<and>
        (\<forall>p. keeps inv names (rk_after_landed k p)))"

lemma finish_landed_ok:
  assumes "inv w" "names frame epoch w" "reclaim_keeps rk" "\<forall>h. hook = Some h \<longrightarrow> benign h"
  shows "round_ok frame epoch (finish_landed rk plan res hook w)"
proof (cases rk)
  case None
  with assms show ?thesis by (simp add: finish_landed_def round_ok_def)
next
  case (Some k)
  show ?thesis
  proof (cases plan)
    case None
    with Some assms show ?thesis by (simp add: finish_landed_def round_ok_def)
  next
    case (Some p)
    have "keeps inv names (rk_after_landed k p)" using assms(3) \<open>rk = Some k\<close> by (simp add: reclaim_keeps_def)
    note k = keepsD [OF this assms(1)]
    show ?thesis
      using \<open>rk = Some k\<close> Some assms(2,4) k
      by (auto simp: finish_landed_def round_ok_def try_call_def split: prod.splits sum.splits)
  qed
qed

lemma push_round_ok:
  assumes "inv w" "is_unknown committed \<or> holds (b_frame bump) (b_epoch bump) w" "reclaim_keeps rk"
    "\<forall>h. hook = Some h \<longrightarrow> benign h"
  shows "round_ok (b_frame bump) (b_epoch bump) (push_round fp rk plan n bump committed hook w)"
proof -
  let ?ok = "round_ok (b_frame bump) (b_epoch bump)"
  let ?un = "\<lambda>e w1. (if port_error e then Inr (Some (step2 UNREACHABLE (b_epoch bump) n))
      else Inl (Storage e), hook, w1)"
  let ?res = "\<lparr>s2_outcome = LANDED, s2_epoch = b_epoch bump, s2_attempts = n,
      s2_revision = Some (b_revision bump), s2_reclaim = plan\<rparr>"
  obtain x where x: "push_round fp rk plan n bump committed hook w = x" by blast
  have fails: "?ok (?un e w1)" "?ok (Inr None, hook, w1)"
    "?ok (Inr (Some (step2 UNREACHABLE (b_epoch bump) n)), hook, w1)" if "inv w1" for w1 e
    using that assms(4) by (auto simp: round_ok_def landed_def step2_def)
  from x [unfolded push_round_def Let_def] have "?ok x"
  proof (cases rule: try_call_cases)
    case (raised e w1)
    have "inv w1" using keepsD [OF push_keeps assms(1) raised(1)] by simp
    from fails(1) [OF this, of e] show ?thesis unfolding raised(2) .
  next
    case (returned pushed w1)
    have inv1: "inv w1" using keepsD [OF push_keeps assms(1) returned(1)] by simp
    consider (conflict) "is_conflict pushed"
      | (unsure) "\<not> is_conflict pushed" "is_unknown committed \<or> is_unknown pushed"
      | (sure) "\<not> is_conflict pushed" "\<not> (is_unknown committed \<or> is_unknown pushed)" by blast
    then show ?thesis
    proof cases
      case conflict
      with returned(2) fails(2) [OF inv1] show ?thesis by simp
    next
      case unsure
      then have "try_call (fp_lookup fp (b_frame bump) (b_epoch bump) (b_operation bump)) w1 ?un
           (\<lambda>found w2. if is_confirmed found then finish_landed rk plan ?res hook w2
              else (Inr (Some (step2 UNREACHABLE (b_epoch bump) n)), hook, w2)) = x"
        using returned(2) by (simp only: if_False if_True)
      then show ?thesis
      proof (cases rule: try_call_cases)
        case (raised e w2)
        have "inv w2" using keepsD [OF lookup_keeps inv1 raised(1)] by simp
        from fails(1) [OF this, of e] show ?thesis unfolding raised(2) .
      next
        case (returned found w2)
        have inv2: "inv w2" using keepsD [OF lookup_keeps inv1 returned(1)] by simp
        show ?thesis
        proof (cases found)
          case (Confirmed o' r t)
          then have "names (b_frame bump) (b_epoch bump) w2" using returned(1) lookup_lands [OF inv1] by simp
          from finish_landed_ok [OF inv2 this assms(3,4)] returned(2) Confirmed show ?thesis by auto
        next
          case (NotConfirmed o')
          with returned(2) fails(3) [OF inv2] show ?thesis by simp
        qed
      qed
    next
      case sure
      with assms(2) have held: "holds (b_frame bump) (b_epoch bump) w" by simp
      obtain r oid where "pushed = Applied r oid" using sure by (cases pushed) auto
      with push_lands [OF assms(1) held] returned(1) have "names (b_frame bump) (b_epoch bump) w1" by simp
      from finish_landed_ok [OF inv1 this assms(3,4)] returned(2) sure show ?thesis by auto
    qed
  qed
  with x show ?thesis by simp
qed

lemma commit_round_ok:
  assumes "inv w" "reclaim_keeps rk" "\<forall>h. hook = Some h \<longrightarrow> benign h"
  shows "round_ok frame epoch (commit_round fp en rk frame epoch n hook plan w)"
proof -
  let ?bump = "\<lparr>b_frame = frame, b_epoch = epoch, b_revision = fresh_revision en n frame epoch,
                  b_operation = en_op en n,
                  b_reclaim = (case plan of None \<Rightarrow> None | Some p \<Rightarrow> rp_reclaim p)\<rparr>"
  obtain x where x: "commit_round fp en rk frame epoch n hook plan w = x" by blast
  from x [unfolded commit_round_def Let_def] have "round_ok frame epoch x"
  proof (cases rule: try_call_cases)
    case (raised e w2)
    with keepsD [OF commit_keeps assms(1) raised(1)] assms(3) show ?thesis by (auto simp: round_ok_def)
  next
    case (returned committed w2)
    have w2: "inv w2" using keepsD [OF commit_keeps assms(1) returned(1)] by simp
    have c: "is_unknown committed \<or> holds frame epoch w2"
    proof (cases committed)
      case (Applied r oid)
      with commit_holds [OF assms(1), of ?bump] returned(1) show ?thesis by simp
    next
      case (Conflict v)
      with commit_outcome [of ?bump w] returned(1) show ?thesis by blast
    qed simp
    show ?thesis
    proof (cases hook)
      case None
      with push_round_ok [OF w2, of committed ?bump rk None plan n] c assms(2) returned(2) show ?thesis by simp
    next
      case (Some h)
      then have h: "benign h" using assms(3) by simp
      have "is_unknown committed \<or> holds frame epoch (h w2)" using c benign_holds [OF h w2] by blast
      with push_round_ok [OF benign_keeps [OF h w2], of committed ?bump rk None plan n] Some assms(2) returned(2)
      show ?thesis by simp
    qed
  qed
  with x show ?thesis by simp
qed

lemma bump_round_ok:
  assumes "inv w" "reclaim_keeps rk" "\<forall>h. hook = Some h \<longrightarrow> benign h"
  shows "round_ok frame epoch (bump_round fp en rk frame epoch n dead hook w)"
proof (cases rk)
  case None
  with commit_round_ok [OF assms] show ?thesis by (simp add: bump_round_def)
next
  case (Some k)
  then have keep: "keeps inv names (rk_plan k dead frame epoch)" using assms(2) by (simp add: reclaim_keeps_def)
  obtain x where x: "bump_round fp en rk frame epoch n dead hook w = x" by blast
  from x [unfolded bump_round_def Some option.case] have "round_ok frame epoch x"
  proof (cases rule: try_call_cases)
    case (raised e w1)
    with keepsD [OF keep assms(1) raised(1)] assms(3) show ?thesis by (auto simp: round_ok_def)
  next
    case (returned plan w1)
    with keepsD [OF keep assms(1) returned(1)] commit_round_ok [OF _ assms(2,3), of w1] Some show ?thesis by auto
  qed
  with x show ?thesis by simp
qed

lemma stop_ok:
  assumes "inv w" "\<forall>h. hook = Some h \<longrightarrow> benign h" "out \<noteq> LANDED"
  shows "round_ok frame epoch (Inr (Some (step2 out epoch' n)), hook, w)"
  using assms by (simp add: round_ok_def landed_def step2_def)

lemma placed_round_ok:
  assumes "inv w" "reclaim_keeps rk" "\<forall>h. hook = Some h \<longrightarrow> benign h" "\<And>p. keeps inv names (pp_read pp p)"
  shows "round_ok frame epoch (placed_round fp pp en rk prefix frame epoch n dead hook w)"
proof -
  obtain x where x: "placed_round fp pp en rk prefix frame epoch n dead hook w = x" by blast
  from x [unfolded placed_round_def] have "round_ok frame epoch x"
  proof (cases rule: try_call_cases)
    case (raised e w3)
    with keepsD [OF assms(4,1) raised(1)] stop_ok [OF _ assms(3), of w3 UNREACHABLE] show ?thesis by auto
  next
    case (returned placed w3)
    have w3: "inv w3" using keepsD [OF assms(4,1) returned(1)] by simp
    note moved = stop_ok [OF w3 assms(3), of PLACEMENT_MOVED frame epoch epoch n]
    show ?thesis
    proof (cases "\<exists>v. placed = Some v \<and> p_frame v = frame \<and> p_epoch v = epoch")
      case False
      with returned(2) moved show ?thesis by (auto split: option.splits if_splits)
    next
      case True
      then have "try_call (fp_guard fp) w3 (\<lambda>e w4. (Inl (Storage e), hook, w4)) (\<lambda>guard w4.
                         if g_missing guard \<noteq> [] \<or> g_present guard < g_expected guard
                         then (Inr (Some (step2 GUARD_INCOMPLETE epoch n)), hook, w4)
                         else bump_round fp en rk frame epoch n dead hook w4) = x"
        using returned(2) by auto
      then show ?thesis
      proof (cases rule: try_call_cases)
        case (raised e w4)
        with keepsD [OF guard_keeps w3 raised(1)] assms(3) show ?thesis by (auto simp: round_ok_def)
      next
        case (returned guard w4)
        have w4: "inv w4" using keepsD [OF guard_keeps w3 returned(1)] by simp
        show ?thesis
          using returned(2) stop_ok [OF w4 assms(3), of GUARD_INCOMPLETE frame epoch epoch n]
            bump_round_ok [OF w4 assms(2,3), of frame epoch en n dead]
          by (auto split: if_splits)
      qed
    qed
  qed
  with x show ?thesis by simp
qed

lemma step2_round_ok:
  assumes "inv w" "reclaim_keeps rk" "\<forall>h. hook = Some h \<longrightarrow> benign h" "\<And>p. keeps inv names (pp_read pp p)"
  shows "round_ok frame epoch (step2_round fp pp en rk prefix frame epoch n hook w)"
proof -
  have un: "round_ok frame epoch
      (if e = StorageUnavailable then Inr (Some (step2 UNREACHABLE epoch n)) else Inl (Storage e), hook, w1)"
    if "inv w1" for e w1
    using that assms(3) by (simp add: round_ok_def landed_def step2_def)
  obtain x where x: "step2_round fp pp en rk prefix frame epoch n hook w = x" by blast
  from x [unfolded step2_round_def Let_def] have "round_ok frame epoch x"
  proof (cases rule: try_call_cases)
    case (raised e w1)
    have "inv w1" using keepsD [OF sync_keeps assms(1) raised(1)] by simp
    from un [OF this, of e] show ?thesis unfolding raised(2) .
  next
    case (returned rep w1)
    have w1: "inv w1" using keepsD [OF sync_keeps assms(1) returned(1)] by simp
    have clean: "clean w1" using sync_clean [OF assms(1) returned(1)] .
    from returned(2) show ?thesis
    proof (cases rule: try_call_cases)
      case (raised e w2)
      have "inv w2" using keepsD [OF writer_keeps w1 raised(1)] by simp
      from un [OF this, of e] show ?thesis unfolding raised(2) .
    next
      case (returned current w2)
      have w2: "inv w2" using keepsD [OF writer_keeps w1 returned(1)] by simp
      note past = stop_ok [OF w2 assms(3), of SUPERSEDED frame epoch epoch n]
      show ?thesis
      proof (cases current)
        case None
        with returned(2) past show ?thesis by simp
      next
        case (Some cur)
        have named: "names (wr_frame cur) (wr_epoch cur) w2"
          using writer_names [OF w1 clean] returned(1) Some by blast
        show ?thesis
          using returned(2) Some past named w2 assms(3)
            placed_round_ok [OF w2 assms(2-4), of frame epoch en prefix n "wr_frame cur"]
          by (auto simp: round_ok_def split: if_splits)
      qed
    qed
  qed
  with x show ?thesis by simp
qed

lemma step2_rounds_ok:
  assumes "inv w" "reclaim_keeps rk" "\<forall>h. hook = Some h \<longrightarrow> benign h" "\<And>p. keeps inv names (pp_read pp p)"
    "step2_rounds (step2_round fp pp en rk prefix frame epoch) epoch rounds left hook w = (r, w')"
  shows "inv w' \<and> (\<forall>res. r = Inr res \<longrightarrow> landed res \<longrightarrow> names frame epoch w')"
  using assms(1,3,5)
proof (induction left arbitrary: hook w)
  case 0
  then show ?case by (auto simp: landed_def step2_def)
next
  case (Suc left)
  obtain q hook1 w1 where q: "step2_round fp pp en rk prefix frame epoch (rounds - left) hook w = (q, hook1, w1)"
    by (metis prod_cases3)
  from step2_round_ok [OF Suc.prems(1) assms(2) Suc.prems(2) assms(4), of frame epoch en prefix "rounds - left"]
  have ok: "inv w1" "\<forall>h. hook1 = Some h \<longrightarrow> benign h"
    "\<forall>res. q = Inr (Some res) \<longrightarrow> landed res \<longrightarrow> names frame epoch w1"
    unfolding q by (simp_all add: round_ok_def)
  show ?case
  proof (cases q)
    case (Inl e)
    with q Suc.prems(3) ok(1) show ?thesis by auto
  next
    case (Inr res)
    show ?thesis
    proof (cases res)
      case None
      with q Inr Suc.prems(3) Suc.IH [OF ok(1,2)] show ?thesis by simp
    next
      case (Some r')
      with q Inr Suc.prems(3) ok show ?thesis by auto
    qed
  qed
qed

text \<open>"Landed" is true: the remote's history names the frame at the epoch.\<close>

lemma step2_lands:
  assumes "inv w" "reclaim_keeps rk" "\<forall>h. hook = Some h \<longrightarrow> benign h" "\<And>p. keeps inv names (pp_read pp p)"
    "run_step2 fp pp en rk env prefix frame epoch attempts hook w = (r, w')"
  shows "inv w' \<and> (\<forall>res. r = Inr res \<longrightarrow> landed res \<longrightarrow> names frame epoch w')"
  using assms step2_rounds_ok [OF assms(1-4)]
  by (auto simp: run_step2_def split: sum.splits)

text \<open>The same for the whole adopt.\<close>

definition ports_keep :: "'w placement_port \<Rightarrow> 'w ref_port \<Rightarrow> bool" where
  "ports_keep pp rp \<longleftrightarrow>
     (\<forall>p. keeps inv names (pp_read pp p)) \<and>
     (\<forall>p f e x c oid. keeps inv names (pp_cas pp p f e x c oid)) \<and>
     (\<forall>p oid. keeps inv names (pp_lookup pp p oid)) \<and>
     keeps inv names (rf_read rp) \<and> (\<forall>f e v. keeps inv names (rf_cas rp f e v))"

lemma place_keeps:
  assumes "ports_keep pp rp" "inv w" "place pp en n prefix frame epoch expected cause w = (r, w')"
  shows "inv w'"
proof -
  have cas: "keeps inv names (pp_cas pp prefix frame epoch expected cause (en_op en n))"
    and look: "keeps inv names (pp_lookup pp prefix (en_op en n))"
    using assms(1) by (simp_all add: ports_keep_def)
  from assms(3) [unfolded place_def Let_def] show ?thesis
  proof (cases rule: try_call_cases)
    case (raised e w1)
    with keepsD [OF cas assms(2) raised(1)] show ?thesis by auto
  next
    case (returned out w1)
    have w1: "inv w1" using keepsD [OF cas assms(2) returned(1)] by simp
    show ?thesis
    proof (cases out)
      case (Unknown oid ex why)
      note run = returned(2) [unfolded Unknown outcome.case]
      from run show ?thesis
      proof (cases rule: try_call_cases)
        case (raised e w2)
        with keepsD [OF look w1 raised(1)] show ?thesis by auto
      next
        case (returned found w2)
        with keepsD [OF look w1 returned(1)] show ?thesis by (auto split: lookup_outcome.splits)
      qed
    qed (use returned(2) w1 in auto)
  qed
qed

lemma adopt_rest_ok:
  assumes "inv w" "ports_keep pp rp" "reclaim_keeps rk" "\<forall>h. hook = Some h \<longrightarrow> benign h"
    "adopt_rest fp pp rp en rk env prefix frame attempts hook wr held resumed placed epoch w = (r, w')"
  shows "inv w' \<and> (\<forall>co. r = Inr co \<longrightarrow> names frame (co_epoch co) w' \<and> co_epoch co = epoch \<and>
    co_placement co = placed \<and> co_resumed co = resumed)"
proof -
  define step where "step = (\<lambda>now_ref w1.
            case run_step2 fp pp en rk env prefix frame epoch attempts hook w1 of
              (Inl e, w2) \<Rightarrow> (Inl e, w2)
            | (Inr result, w2) \<Rightarrow>
                if landed result
                then (Inr \<lparr>co_epoch = epoch, co_placement = placed, co_ref = now_ref,
                           co_step2 = result, co_resumed = resumed\<rparr>, w2)
                else if s2_outcome result \<in> {SUPERSEDED, PLACEMENT_MOVED} then (Inl AdoptLost, w2)
                else (Inl (AdoptIncomplete \<lparr>ar_prefix = prefix, ar_placement = placed, ar_writer = wr,
                                   ar_ref = now_ref\<rparr>), w2))"
  have read: "\<And>p. keeps inv names (pp_read pp p)" using assms(2) by (simp add: ports_keep_def)
  have step_ok: "inv w2 \<and> (\<forall>co. q = Inr co \<longrightarrow> names frame (co_epoch co) w2 \<and> co_epoch co = epoch \<and>
      co_placement co = placed \<and> co_resumed co = resumed)"
    if "inv w1" "step now_ref w1 = (q, w2)" for now_ref w1 q w2
  proof -
    obtain s w3 where s: "run_step2 fp pp en rk env prefix frame epoch attempts hook w1 = (s, w3)" by force
    from step2_lands [OF that(1) assms(3,4) read s] that(2) s show ?thesis
      by (auto simp: step_def split: sum.splits if_splits)
  qed
  have unf: "adopt_rest fp pp rp en rk env prefix frame attempts hook wr held resumed placed epoch w =
    (case held of None \<Rightarrow> step None w
       | Some h \<Rightarrow> if rf_frame h = frame \<and> rf_epoch h = epoch then step (Some h) w
             else try_call (rf_cas rp frame epoch h) w
                    (\<lambda>e w1. (Inl (EpochRefLost \<lparr>ar_prefix = prefix, ar_placement = placed, ar_writer = wr,
                                   ar_ref = Some h\<rparr>), w1))
                    (\<lambda>r w1. step (Some r) w1))"
    unfolding adopt_rest_def Let_def step_def ..
  show ?thesis
  proof (cases held)
    case None
    with unf assms(5) have "step None w = (r, w')" by simp
    from step_ok [OF assms(1) this] show ?thesis .
  next
    case (Some h)
    show ?thesis
    proof (cases "rf_frame h = frame \<and> rf_epoch h = epoch")
      case True
      with Some unf assms(5) have "step (Some h) w = (r, w')" by simp
      from step_ok [OF assms(1) this] show ?thesis .
    next
      case False
      have cas: "keeps inv names (rf_cas rp frame epoch h)" using assms(2) by (simp add: ports_keep_def)
      have "try_call (rf_cas rp frame epoch h) w
                    (\<lambda>e w1. (Inl (EpochRefLost \<lparr>ar_prefix = prefix, ar_placement = placed, ar_writer = wr,
                                   ar_ref = Some h\<rparr>), w1))
                    (\<lambda>r w1. step (Some r) w1) = (r, w')"
        using unf assms(5) Some False by (simp only: option.case if_False)
      then show ?thesis
      proof (cases rule: try_call_cases)
        case (raised e w1)
        with keepsD [OF cas assms(1) raised(1)] show ?thesis by auto
      next
        case (returned y w1)
        with keepsD [OF cas assms(1) returned(1)] step_ok show ?thesis by blast
      qed
    qed
  qed
qed

lemma adopt_decided_ok:
  assumes "inv w" "ports_keep pp rp" "\<And>k. reclaim_keeps (map_option (\<lambda>f. f k) reclaim)"
    "\<forall>h. hook = Some h \<longrightarrow> benign h" "\<forall>f v. on_placed = Some f \<longrightarrow> benign (f v)"
    "adopt_decided fp pp rp en reclaim env prefix frame attempts on_placed hook failover wr floor placed held w = (r, w')"
  shows "inv w' \<and> (\<forall>co. r = Inr co \<longrightarrow> names frame (co_epoch co) w' \<and>
    co_resumed co = resumable frame placed wr (ef_history_max floor) held \<and>
    (if co_resumed co then placed = Some (co_placement co) \<and> co_epoch co = p_epoch (co_placement co)
     else co_epoch co = next_epoch (map_option rf_epoch held) (map_option p_epoch placed)
                          (Some (wr_epoch wr)) (Some (ef_history_max floor))))"
proof (cases "resumable frame placed wr (ef_history_max floor) held")
  case True
  then have placed: "placed = Some (the placed)" by (auto simp: resumable_def split: option.splits)
  let ?rk = "map_option (\<lambda>f. f (case failover of Some f \<Rightarrow> Some f | None \<Rightarrow> failover_kind frame placed)) reclaim"
  have "adopt_rest fp pp rp en ?rk env prefix frame attempts hook wr held True (the placed)
      (p_epoch (the placed)) w = (r, w')"
    using assms(6) True by (simp add: adopt_decided_def Let_def)
  from adopt_rest_ok [OF assms(1,2,3,4) this] True placed show ?thesis by auto
next
  case False
  let ?kind = "case failover of Some f \<Rightarrow> Some f | None \<Rightarrow> failover_kind frame placed"
  let ?rk = "map_option (\<lambda>f. f ?kind) reclaim"
  let ?e = "next_epoch (map_option rf_epoch held) (map_option p_epoch placed)
                          (Some (wr_epoch wr)) (Some (ef_history_max floor))"
  obtain q w7 where pl: "place pp en 0 prefix frame ?e placed
      (if ?kind = Some True then cause_failover else cause_planned) w = (q, w7)" by force
  have w7: "inv w7" using place_keeps [OF assms(2,1) pl] .
  show ?thesis
  proof (cases q)
    case (Inl e)
    with pl assms(6) False w7 show ?thesis by (auto simp: adopt_decided_def Let_def)
  next
    case (Inr now)
    let ?w8 = "case on_placed of None \<Rightarrow> w7 | Some f \<Rightarrow> f now w7"
    have w8: "inv ?w8" using w7 assms(5) benign_keeps by (auto split: option.splits)
    have "adopt_rest fp pp rp en ?rk env prefix frame attempts hook wr held False now ?e ?w8 = (r, w')"
      using assms(6) False pl Inr by (simp add: adopt_decided_def Let_def)
    from adopt_rest_ok [OF w8 assms(2,3,4) this] False show ?thesis by auto
  qed
qed

lemma adopt_reads_ok:
  assumes "inv w" "ports_keep pp rp" "\<And>k. reclaim_keeps (map_option (\<lambda>f. f k) reclaim)"
    "\<forall>h. hook = Some h \<longrightarrow> benign h" "\<forall>f v. on_placed = Some f \<longrightarrow> benign (f v)"
    "adopt_reads fp pp rp en reclaim env prefix frame attempts on_placed hook failover wr w = (r, w')"
  shows "inv w' \<and> (\<forall>co. r = Inr co \<longrightarrow> names frame (co_epoch co) w')"
proof -
  have keep: "keeps inv names (pp_read pp prefix)" "keeps inv names (rf_read rp)"
    using assms(2) by (simp_all add: ports_keep_def)
  from assms(6) [unfolded adopt_reads_def Let_def] show ?thesis
  proof (cases rule: try_call_cases)
    case (raised e w1)
    with keepsD [OF floor_keeps assms(1) raised(1)] show ?thesis by auto
  next
    case (returned floor w1)
    have w1: "inv w1" using keepsD [OF floor_keeps assms(1) returned(1)] by simp
    from returned(2) show ?thesis
    proof (cases rule: try_call_cases)
      case (raised e w2)
      with keepsD [OF keep(1) w1 raised(1)] show ?thesis by auto
    next
      case (returned placed w2)
      have w2: "inv w2" using keepsD [OF keep(1) w1 returned(1)] by simp
      from returned(2) show ?thesis
      proof (cases rule: try_call_cases)
        case (raised e w3)
        with keepsD [OF keep(2) w2 raised(1)] show ?thesis by auto
      next
        case (returned held w3)
        have w3: "inv w3" using keepsD [OF keep(2) w2 returned(1)] by simp
        from adopt_decided_ok [OF w3 assms(2-5) returned(2)] show ?thesis by blast
      qed
    qed
  qed
qed

text \<open>An adopt that returns has landed, at the epoch it resumed or at a new one above every carrier.\<close>

lemma adopt_lands:
  assumes "inv w" "ports_keep pp rp" "\<And>k. reclaim_keeps (map_option (\<lambda>f. f k) reclaim)"
    "\<forall>h. hook = Some h \<longrightarrow> benign h" "\<forall>f v. on_placed = Some f \<longrightarrow> benign (f v)"
    "coexistence_adopt fp pp rp en reclaim env prefix frame attempts on_placed hook failover w = (r, w')"
  shows "inv w' \<and> (\<forall>co. r = Inr co \<longrightarrow> names frame (co_epoch co) w')"
  using assms(6) [unfolded coexistence_adopt_def Let_def]
proof (cases rule: try_call_cases)
  case (raised e w1)
  with keepsD [OF remote_writer_keeps assms(1) raised(1)] show ?thesis by auto
next
  case (returned remote w1)
  have w1: "inv w1" using keepsD [OF remote_writer_keeps assms(1) returned(1)] by simp
  show ?thesis
  proof (cases "remote = None")
    case True
    with returned(2) w1 show ?thesis by auto
  next
    case False
    note run = returned(2) [unfolded if_not_P [OF False]]
    from run show ?thesis
    proof (cases rule: try_call_cases)
      case (raised e w2)
      with keepsD [OF sync_keeps w1 raised(1)] show ?thesis by auto
    next
      case (returned rep w2)
      have w2: "inv w2" using keepsD [OF sync_keeps w1 returned(1)] by simp
      from returned(2) show ?thesis
      proof (cases rule: try_call_cases)
        case (raised e w3)
        with keepsD [OF writer_keeps w2 raised(1)] show ?thesis by auto
      next
        case (returned current w3)
        have w3: "inv w3" using keepsD [OF writer_keeps w2 returned(1)] by simp
        show ?thesis
        proof (cases current)
          case None
          with returned(2) w3 show ?thesis by auto
        next
          case (Some wr)
          from adopt_reads_ok [OF w3 assms(2-5)] returned(2) Some show ?thesis by simp
        qed
      qed
    qed
  qed
qed

end

end
