(* ===== verification/Adopt_Memory.thy ===== *)
theory Adopt_Memory
  imports Adopt_Laws
begin

text \<open>
  The adopt protocol on the in-memory stores: \<open>memory_fence\<close>, \<open>memory_placement\<close> and \<open>memory_ref\<close>
  are the three ports over one world, and inside every call another frame may act first
  (\<open>aw_others\<close> is what the others will do, one action per call). The interpretation
  \<open>memory: fence_laws\<close> discharges the port's laws for the model of \<^verbatim>\<open>InMemoryHiveFence\<close>.
\<close>

section \<open>The world\<close>

record stores =
  sx_hq :: hq_storage
  sx_fence :: hive_fence
  sx_ref :: epoch_ref
  sx_clock :: clock_reading

record adopt_world =
  aw_stores :: stores
  aw_others :: "(stores \<Rightarrow> stores) list"

abbreviation fence_of :: "adopt_world \<Rightarrow> hive_fence" where
  "fence_of w \<equiv> sx_fence (aw_stores w)"

definition disturb :: "adopt_world \<Rightarrow> adopt_world" where
  "disturb w =
     (case aw_others w of
        [] \<Rightarrow> w
      | f # fs \<Rightarrow> \<lparr>aw_stores = f (aw_stores w), aw_others = fs\<rparr>)"

definition on_stores :: "(stores \<Rightarrow> 'r \<times> stores) \<Rightarrow> adopt_world \<Rightarrow> 'r \<times> adopt_world" where
  "on_stores op w =
     (let w1 = disturb w in
      case op (aw_stores w1) of (r, s) \<Rightarrow> (r, w1\<lparr>aw_stores := s\<rparr>))"

definition on_fence :: "(stores \<Rightarrow> hive_fence \<Rightarrow> 'r \<times> hive_fence) \<Rightarrow> adopt_world \<Rightarrow> 'r \<times> adopt_world" where
  "on_fence op = on_stores (\<lambda>s. case op s (sx_fence s) of (r, hf) \<Rightarrow> (r, s\<lparr>sx_fence := hf\<rparr>))"

definition memory_fence :: "adopt_world fence_port" where
  "memory_fence =
     \<lparr>fp_sync = on_fence (\<lambda>s. sync_to_remote),
      fp_writer = on_fence (\<lambda>s hf. (writer hf, hf)),
      fp_remote_writer = on_fence (\<lambda>s hf. (remote_writer hf, hf)),
      fp_epoch_floor = on_fence (\<lambda>s hf. (epoch_floor hf, hf)),
      fp_guard = on_fence (\<lambda>s hf. (Inr (guard_conformance hf), hf)),
      fp_commit = (\<lambda>bump. on_fence (\<lambda>s. commit_bump (sx_clock s) bump)),
      fp_push = on_fence (\<lambda>s. fence_push),
      fp_lookup = (\<lambda>frame epoch oid. on_fence (\<lambda>s hf. (lookup_bump frame epoch oid hf, hf)))\<rparr>"

definition memory_placement :: "adopt_world placement_port" where
  "memory_placement =
     \<lparr>pp_read = (\<lambda>prefix. on_stores (\<lambda>s. (placement_read prefix (sx_hq s), s))),
      pp_cas = (\<lambda>prefix frame epoch expected cause oid. on_stores (\<lambda>s.
        case placement_cas (sx_clock s) prefix frame epoch expected cause oid (sx_hq s) of
          (r, hq) \<Rightarrow> (r, s\<lparr>sx_hq := hq\<rparr>))),
      pp_lookup = (\<lambda>prefix oid. on_stores (\<lambda>s. (placement_lookup prefix oid (sx_hq s), s)))\<rparr>"

text \<open>
  The protocol's \<^verbatim>\<open>EpochRef.cas\<close> returns the moved ref or raises; on the in-memory ref anything but
  \<^verbatim>\<open>Applied\<close> is a loss.
\<close>

definition memory_ref :: "adopt_world ref_port" where
  "memory_ref =
     \<lparr>rf_read = on_stores (\<lambda>s. (Inr (er_ref (sx_ref s)), s)),
      rf_cas = (\<lambda>frame epoch expected. on_stores (\<lambda>s.
        case ref_compare_and_set frame epoch expected (sx_ref s) of
          (r, er) \<Rightarrow> (case r of
                       Inl e \<Rightarrow> Inl e
                     | Inr (Applied rv oid) \<Rightarrow> Inr \<lparr>rf_frame = frame, rf_epoch = epoch, rf_sha = rv\<rparr>
                     | Inr _ \<Rightarrow> Inl StorageUnavailable,
                     s\<lparr>sx_ref := er\<rparr>)))\<rparr>"

section \<open>The laws hold\<close>

text \<open>What another frame may do: anything that advances the hive and leaves this node's local head.\<close>

definition harmless :: "(stores \<Rightarrow> stores) \<Rightarrow> bool" where
  "harmless f \<longleftrightarrow>
     (\<forall>s. fence_inv (sx_fence s) \<longrightarrow>
        advances (sx_fence s) (sx_fence (f s)) \<and> hf_local (sx_fence (f s)) = hf_local (sx_fence s))"

definition world_inv :: "adopt_world \<Rightarrow> bool" where
  "world_inv w \<longleftrightarrow> fence_inv (fence_of w) \<and> (\<forall>f \<in> set (aw_others w). harmless f)"

definition benign_hook :: "(adopt_world \<Rightarrow> adopt_world) \<Rightarrow> bool" where
  "benign_hook h \<longleftrightarrow> (\<exists>f. harmless f \<and> h = (\<lambda>w. w\<lparr>aw_stores := f (aw_stores w)\<rparr>))"

definition fence_names :: "string \<Rightarrow> int \<Rightarrow> hive_fence \<Rightarrow> bool" where
  "fence_names frame epoch hf \<longleftrightarrow>
     (\<exists>rs r row. fence_chain hf (hf_remote hf) = Inr rs \<and> r \<in> set rs \<and>
        writer_at (hf_commits hf) r = Some row \<and> wr_frame row = frame \<and> wr_epoch row = epoch)"

definition fence_clean :: "hive_fence \<Rightarrow> bool" where
  "fence_clean hf \<longleftrightarrow> (\<exists>rs. fence_chain hf (hf_remote hf) = Inr rs \<and> hf_local hf \<in> set rs)"

definition fence_holds :: "string \<Rightarrow> int \<Rightarrow> hive_fence \<Rightarrow> bool" where
  "fence_holds frame epoch hf \<longleftrightarrow>
     (\<exists>row. writer_at (hf_commits hf) (hf_local hf) = Some row \<and>
        wr_frame row = frame \<and> wr_epoch row = epoch)"

lemma advances_writer:
  assumes "fence_inv hf" "advances hf hf'" "r \<in> fst ` set (hf_commits hf)"
  shows "writer_at (hf_commits hf') r = writer_at (hf_commits hf) r"
proof -
  from assms(2) obtain new where "hf_commits hf' = new @ hf_commits hf" "fence_inv hf'"
    by (auto simp: advances_def)
  with writer_at_grows(1) [of new "hf_commits hf" r] fence_inv_graph [of hf'] assms(3) show ?thesis by simp
qed

lemma fence_chain_keys: "fence_chain hf h = Inr rs \<Longrightarrow> set rs \<subseteq> fst ` set (hf_commits hf)"
  unfolding fence_chain_def by (rule chain_keys)

lemma advances_names:
  assumes "fence_inv hf" "advances hf hf'" "fence_names frame epoch hf"
  shows "fence_names frame epoch hf'"
proof -
  from assms(3) obtain rs r row where rs: "fence_chain hf (hf_remote hf) = Inr rs" "r \<in> set rs"
    "writer_at (hf_commits hf) r = Some row" "wr_frame row = frame" "wr_epoch row = epoch"
    by (auto simp: fence_names_def)
  with assms(2) obtain new where "fence_chain hf' (hf_remote hf') = Inr (new @ rs)"
    by (auto simp: advances_def)
  moreover have "writer_at (hf_commits hf') r = Some row"
    using advances_writer [OF assms(1,2) subsetD [OF fence_chain_keys [OF rs(1)] rs(2)]] rs(3) by simp
  ultimately show ?thesis using rs by (auto simp: fence_names_def)
qed

lemma advances_holds:
  assumes "fence_inv hf" "advances hf hf'" "hf_local hf' = hf_local hf"
  shows "fence_holds frame epoch hf \<Longrightarrow> fence_holds frame epoch hf'" "fence_clean hf \<Longrightarrow> fence_clean hf'"
proof -
  show "fence_holds frame epoch hf \<Longrightarrow> fence_holds frame epoch hf'"
    using advances_writer [OF assms(1,2), of "hf_local hf"] assms(1,3)
    by (auto simp: fence_holds_def fence_inv_def)
  show "fence_clean hf \<Longrightarrow> fence_clean hf'"
    using assms(2,3) by (fastforce simp: fence_clean_def advances_def)
qed

lemma advances_refl: "fence_inv hf \<Longrightarrow> advances hf hf"
  by (intro advances_quiet) auto

lemma disturb_ok:
  assumes "world_inv w"
  shows "world_inv (disturb w)" "advances (fence_of w) (fence_of (disturb w))"
    "hf_local (fence_of (disturb w)) = hf_local (fence_of w)"
  using assms advances_refl
  by (cases "aw_others w"; auto simp: disturb_def world_inv_def harmless_def advances_def)+

text \<open>A fence operation that advances the hive is a good port call.\<close>

lemma on_fence_step:
  assumes "world_inv w" "on_fence op w = (r, w')"
  obtains hf where "world_inv (disturb w)" "fence_inv (fence_of (disturb w))"
    "op (aw_stores (disturb w)) (fence_of (disturb w)) = (r, hf)" "fence_of w' = hf" "aw_others w' = aw_others (disturb w)"
proof -
  obtain hf where hf: "op (aw_stores (disturb w)) (fence_of (disturb w)) = (r, hf)"
    "w' = (disturb w)\<lparr>aw_stores := (aw_stores (disturb w))\<lparr>sx_fence := hf\<rparr>\<rparr>"
    using assms(2) by (auto simp: on_fence_def on_stores_def Let_def split: prod.splits)
  have "world_inv (disturb w)" using disturb_ok [OF assms(1)] by simp
  with hf show thesis by (intro that [of hf]) (auto simp: world_inv_def)
qed

lemma on_fence_keeps:
  assumes "\<And>s hf r hf'. fence_inv hf \<Longrightarrow> op s hf = (r, hf') \<Longrightarrow> advances hf hf'"
  shows "keeps world_inv (\<lambda>f e w. fence_names f e (fence_of w)) (on_fence op)"
  unfolding keeps_def
proof (intro allI impI)
  fix w r w'
  assume w: "world_inv w" and run: "on_fence op w = (r, w')"
  from on_fence_step [OF w run] obtain hf where st: "world_inv (disturb w)" "fence_inv (fence_of (disturb w))"
    "op (aw_stores (disturb w)) (fence_of (disturb w)) = (r, hf)" "fence_of w' = hf"
    "aw_others w' = aw_others (disturb w)" .
  have adv: "advances (fence_of (disturb w)) hf" using assms st(2,3) by blast
  then have "world_inv w'" using st by (simp add: world_inv_def advances_def)
  moreover have "fence_names f e (fence_of w')" if "fence_names f e (fence_of w)" for f e
    using that advances_names disturb_ok(2) [OF w] w adv st(2,4) by (metis world_inv_def)
  ultimately show "world_inv w' \<and> (\<forall>f e. fence_names f e (fence_of w) \<longrightarrow> fence_names f e (fence_of w'))"
    by blast
qed

lemma on_stores_keeps:
  assumes "\<And>s r s'. op s = (r, s') \<Longrightarrow> sx_fence s' = sx_fence s"
  shows "keeps world_inv (\<lambda>f e w. fence_names f e (fence_of w)) (on_stores op)"
  unfolding keeps_def
proof (intro allI impI)
  fix w r w'
  assume w: "world_inv w" and run: "on_stores op w = (r, w')"
  obtain q s where op: "op (aw_stores (disturb w)) = (q, s)" by force
  with run have w': "w' = (disturb w)\<lparr>aw_stores := s\<rparr>" by (simp add: on_stores_def Let_def)
  have same: "fence_of w' = fence_of (disturb w)" using assms [OF op] w' by simp
  have "world_inv w'" using disturb_ok(1) [OF w] same w' by (simp add: world_inv_def)
  moreover have "fence_names f e (fence_of w')" if "fence_names f e (fence_of w)" for f e
    using that advances_names disturb_ok(2) [OF w] w same by (metis world_inv_def)
  ultimately show "world_inv w' \<and> (\<forall>f e. fence_names f e (fence_of w) \<longrightarrow> fence_names f e (fence_of w'))"
    by blast
qed

lemma synced_clean:
  assumes "fence_inv hf" "sync_to_remote hf = (Inr rep, hf')"
  shows "fence_clean hf'"
  using assms(2)
proof (cases rule: sync_to_remote_cases)
  case (synced fs ahead behind)
  from graph_ok_chain [OF fence_inv_graph [OF assms(1)], of "hf_remote hf"] assms(1)
  obtain rs where rs: "chain fc_parent (hf_commits hf) (Some (hf_remote hf)) = Inr rs"
    by (auto simp: fence_inv_def)
  with synced(1) chain_self [OF rs] show ?thesis by (simp add: fence_clean_def fence_chain_def)
qed simp

lemma clean_writer_named:
  assumes "fence_clean hf" "writer hf = Inr (Some row)"
  shows "fence_names (wr_frame row) (wr_epoch row) hf"
  using assms by (auto simp: fence_clean_def fence_names_def writer_def commit_at_def writer_at_def
      and_then_eq_Inr split: option.splits)

lemma committed_holds:
  assumes "fence_inv hf" "commit_bump clk bump hf = (Inr (Applied r oid), hf')"
  shows "fence_holds (b_frame bump) (b_epoch bump) hf'"
  using assms
proof (cases rule: commit_bump_cases)
  case (made fault rv m t fs state w c)
  then have "fault = None" by (auto split: option.splits)
  with made(9) show ?thesis
    by (simp add: fence_holds_def writer_at_def add_commit_def Let_def)
      (simp add: made_bump_def bump_state_def Let_def)
qed simp

lemma pushed_names:
  assumes "fence_inv hf" "fence_holds frame epoch hf" "fence_push hf = (Inr (Applied r oid), hf')"
  shows "fence_names frame epoch hf'"
  using assms(3)
proof (cases rule: fence_push_cases)
  case (forward m fs rs)
  then have "fence_chain hf' (hf_remote hf') = Inr rs" "hf_local hf \<in> set rs"
    using chain_self [of fc_parent "hf_commits hf" "hf_local hf"] by (auto simp: fence_chain_def)
  with assms(2) forward(1) show ?thesis by (auto simp: fence_names_def fence_holds_def)
qed simp

lemma lookup_names:
  assumes "fence_inv hf" "lookup_bump frame epoch oid hf = Inr (Confirmed o' r t)"
  shows "fence_names frame epoch hf"
  using lookup_bump_sound [OF assms] unfolding fence_names_def by metis

lemma commit_bump_no_conflict:
  "commit_bump clk bump hf = (Inr (Conflict v), hf') \<Longrightarrow> False"
  by (auto simp: commit_bump_def Let_def split: prod.splits sum.splits
      elim!: fence_fault_cases split: option.splits)

lemma memory_calls [simp]:
  "fp_sync memory_fence = on_fence (\<lambda>s. sync_to_remote)"
  "fp_writer memory_fence = on_fence (\<lambda>s hf. (writer hf, hf))"
  "fp_remote_writer memory_fence = on_fence (\<lambda>s hf. (remote_writer hf, hf))"
  "fp_epoch_floor memory_fence = on_fence (\<lambda>s hf. (epoch_floor hf, hf))"
  "fp_guard memory_fence = on_fence (\<lambda>s hf. (Inr (guard_conformance hf), hf))"
  "fp_commit memory_fence bump = on_fence (\<lambda>s. commit_bump (sx_clock s) bump)"
  "fp_push memory_fence = on_fence (\<lambda>s. fence_push)"
  "fp_lookup memory_fence frame epoch oid = on_fence (\<lambda>s hf. (lookup_bump frame epoch oid hf, hf))"
  by (simp_all add: memory_fence_def)

interpretation memory: fence_laws memory_fence world_inv "\<lambda>f e w. fence_names f e (fence_of w)"
  "\<lambda>w. fence_clean (fence_of w)" "\<lambda>f e w. fence_holds f e (fence_of w)" benign_hook
proof
  let ?names = "\<lambda>f e w. fence_names f e (fence_of w)"
  have quiet: "keeps world_inv ?names (on_fence (\<lambda>s hf. (g hf, hf)))" for g :: "hive_fence \<Rightarrow> 'x"
    by (rule on_fence_keeps) (auto intro: advances_refl)
  show "keeps world_inv ?names (fp_sync memory_fence)"
    unfolding memory_calls by (rule on_fence_keeps) (rule sync_advances)
  show "keeps world_inv ?names (fp_writer memory_fence)" unfolding memory_calls by (rule quiet)
  show "keeps world_inv ?names (fp_guard memory_fence)" unfolding memory_calls by (rule quiet)
  show "keeps world_inv ?names (fp_remote_writer memory_fence)" unfolding memory_calls by (rule quiet)
  show "keeps world_inv ?names (fp_epoch_floor memory_fence)" unfolding memory_calls by (rule quiet)
  show "keeps world_inv ?names (fp_commit memory_fence bump)" for bump
    unfolding memory_calls by (rule on_fence_keeps) (rule commit_bump_advances)
  show "keeps world_inv ?names (fp_push memory_fence)"
    unfolding memory_calls by (rule on_fence_keeps) (rule fence_push_advances)
  show "keeps world_inv ?names (fp_lookup memory_fence frame epoch oid)" for frame epoch oid
    unfolding memory_calls by (rule quiet)
next
  fix w w' rep
  assume w: "world_inv w" and run: "fp_sync memory_fence w = (Inr rep, w')"
  from on_fence_step [OF w run [unfolded memory_calls]] synced_clean show "fence_clean (fence_of w')" by metis
next
  fix w w' row
  assume w: "world_inv w" and clean: "fence_clean (fence_of w)"
    and run: "fp_writer memory_fence w = (Inr (Some row), w')"
  have "fence_clean (fence_of (disturb w))"
    using advances_holds(2) [OF _ disturb_ok(2,3) [OF w] clean] w by (simp add: world_inv_def)
  with on_fence_step [OF w run [unfolded memory_calls]] clean_writer_named
  show "fence_names (wr_frame row) (wr_epoch row) (fence_of w')" by (metis prod.inject)
next
  fix w w' bump r oid
  assume w: "world_inv w" and run: "fp_commit memory_fence bump w = (Inr (Applied r oid), w')"
  from on_fence_step [OF w run [unfolded memory_calls]] committed_holds
  show "fence_holds (b_frame bump) (b_epoch bump) (fence_of w')" by metis
next
  fix w w' bump v
  assume run: "fp_commit memory_fence bump w = (Inr (Conflict v), w')"
  then obtain hf where "commit_bump (sx_clock (aw_stores (disturb w))) bump (fence_of (disturb w)) = (Inr (Conflict v), hf)"
    by (auto simp: on_fence_def on_stores_def Let_def split: prod.splits)
  then show False by (rule commit_bump_no_conflict)
next
  fix w w' frame epoch r oid
  assume w: "world_inv w" and holds: "fence_holds frame epoch (fence_of w)"
    and run: "fp_push memory_fence w = (Inr (Applied r oid), w')"
  have "fence_holds frame epoch (fence_of (disturb w))"
    using advances_holds(1) [OF _ disturb_ok(2,3) [OF w] holds] w by (simp add: world_inv_def)
  with on_fence_step [OF w run [unfolded memory_calls]] pushed_names
  show "fence_names frame epoch (fence_of w')" by metis
next
  fix w w' frame epoch oid o' r t
  assume w: "world_inv w" and run: "fp_lookup memory_fence frame epoch oid w = (Inr (Confirmed o' r t), w')"
  from on_fence_step [OF w run [unfolded memory_calls]] lookup_names
  show "fence_names frame epoch (fence_of w')" by (metis prod.inject)
next
  fix h w frame epoch
  assume h: "benign_hook h" and w: "world_inv w"
  then obtain f where f: "harmless f" "h w = w\<lparr>aw_stores := f (aw_stores w)\<rparr>" by (auto simp: benign_hook_def)
  have inv: "fence_inv (fence_of w)" using w by (simp add: world_inv_def)
  with f have adv: "advances (fence_of w) (fence_of (h w))" "hf_local (fence_of (h w)) = hf_local (fence_of w)"
    by (simp_all add: harmless_def)
  show "world_inv (h w)" using adv f w by (simp add: world_inv_def advances_def)
  show "fence_names frame epoch (fence_of w) \<Longrightarrow> fence_names frame epoch (fence_of (h w))"
    using advances_names [OF inv adv(1)] .
  show "fence_holds frame epoch (fence_of w) \<Longrightarrow> fence_holds frame epoch (fence_of (h w))"
    using advances_holds(1) [OF inv adv] .
qed

lemma memory_ports_keep: "memory.ports_keep memory_placement memory_ref"
  unfolding memory.ports_keep_def memory_placement_def memory_ref_def
  by (auto intro!: on_stores_keeps split: prod.splits)

text \<open>Calls of other nodes of the hive are harmless.\<close>

lemma other_call_harmless:
  assumes "\<And>s. fence_inv (sx_fence s) \<Longrightarrow>
      \<exists>hf hf'. fence_call hf hf' \<and> hf_mint hf = hf_mint (sx_fence s) \<and>
        hf_commits hf = hf_commits (sx_fence s) \<and> hf_remote hf = hf_remote (sx_fence s) \<and>
        hf_local hf \<in> fst ` set (hf_commits hf) \<and>
        sx_fence (f s) = (sx_fence s)\<lparr>hf_mint := hf_mint hf', hf_commits := hf_commits hf', hf_remote := hf_remote hf'\<rparr>"
  shows "harmless f"
  unfolding harmless_def
proof (intro allI impI)
  fix s :: stores
  assume inv: "fence_inv (sx_fence s)"
  from assms [OF inv] obtain hf hf' where call: "fence_call hf hf'" and
    same: "hf_mint hf = hf_mint (sx_fence s)" "hf_commits hf = hf_commits (sx_fence s)"
      "hf_remote hf = hf_remote (sx_fence s)" "hf_local hf \<in> fst ` set (hf_commits hf)" and
    f: "sx_fence (f s) = (sx_fence s)\<lparr>hf_mint := hf_mint hf', hf_commits := hf_commits hf', hf_remote := hf_remote hf'\<rparr>"
    by blast
  from inv same have "fence_inv hf" by (simp add: fence_inv_def)
  with call have adv: "advances hf hf'" by (rule fence_call_advances)
  then obtain new where new: "hf_commits hf' = new @ hf_commits (sx_fence s)" using same by (auto simp: advances_def)
  have "fence_inv (sx_fence (f s))" using adv inv new by (auto simp: f advances_def fence_inv_def)
  moreover have "fence_chain (sx_fence (f s)) (hf_remote (sx_fence (f s))) = fence_chain hf' (hf_remote hf')"
    "fence_chain (sx_fence s) (hf_remote (sx_fence s)) = fence_chain hf (hf_remote hf)"
    by (simp_all add: f fence_chain_def same)
  ultimately show "advances (sx_fence s) (sx_fence (f s)) \<and> hf_local (sx_fence (f s)) = hf_local (sx_fence s)"
    using adv new by (auto simp: advances_def f)
qed

section \<open>Running step 2 again\<close>

lemma on_fence_alone:
  "aw_others w = [] \<Longrightarrow> on_fence op w =
     (case op (aw_stores w) (fence_of w) of (r, hf) \<Rightarrow> (r, w\<lparr>aw_stores := (aw_stores w)\<lparr>sx_fence := hf\<rparr>\<rparr>))"
  by (simp add: on_fence_def on_stores_def disturb_def Let_def split: prod.splits)

lemma sync_quiet:
  assumes "fence_inv hf" "hf_reachable hf" "hf_faults hf = []"
  obtains rep where "sync_to_remote hf = (Inr rep, hf\<lparr>hf_local := hf_remote hf\<rparr>)"
proof -
  obtain ahead behind where "sync_counts fc_parent (hf_commits hf) (hf_local hf) (hf_remote hf) = Inr (ahead, behind)"
    using sync_counts_total [OF fence_inv_graph [OF assms(1)], of "hf_local hf" "hf_remote hf"] assms(1)
    unfolding fence_inv_def by blast
  moreover have "hf\<lparr>hf_faults := []\<rparr> = hf" using assms(3) by simp
  ultimately show thesis
    using assms(2,3) by (intro that) (simp add: sync_to_remote_def fence_fault_def)
qed

lemma rerun_lands:
  assumes "world_inv w" "aw_others w = []" "hf_reachable (fence_of w)" "hf_faults (fence_of w) = []"
    "remote_writer (fence_of w) = Inr (Some row)" "wr_frame row = frame" "wr_epoch row = epoch"
    "step2_attempts env attempts = Inr n"
  shows "run_step2 memory_fence pp en rk env prefix frame epoch attempts hook w =
    (Inr (step2 LANDED epoch 1),
     w\<lparr>aw_stores := (aw_stores w)\<lparr>sx_fence := (fence_of w)\<lparr>hf_local := hf_remote (fence_of w)\<rparr>\<rparr>\<rparr>)"
proof -
  let ?hf = "fence_of w"
  let ?w1 = "w\<lparr>aw_stores := (aw_stores w)\<lparr>sx_fence := ?hf\<lparr>hf_local := hf_remote ?hf\<rparr>\<rparr>\<rparr>"
  have inv: "fence_inv ?hf" using assms(1) by (simp add: world_inv_def)
  from sync_quiet [OF inv assms(3,4)] obtain rep
    where "sync_to_remote ?hf = (Inr rep, ?hf\<lparr>hf_local := hf_remote ?hf\<rparr>)" .
  then have sync: "fp_sync memory_fence w = (Inr rep, ?w1)" using assms(2) by (simp add: on_fence_alone)
  have "writer (?hf\<lparr>hf_local := hf_remote ?hf\<rparr>) = Inr (Some row)"
    using assms(3,5) by (simp add: writer_def remote_writer_def commit_at_def)
  then have wr: "fp_writer memory_fence ?w1 = (Inr (Some row), ?w1)"
    using assms(2) by (simp add: on_fence_alone)
  have round: "step2_round memory_fence pp en rk prefix frame epoch 1 hook w =
      (Inr (Some (step2 LANDED epoch 1)), hook, ?w1)"
    unfolding step2_round_def Let_def try_call_def sync prod.case sum.case wr option.case
    using assms(6,7) by simp
  have "1 \<le> n" using assms(8) by (auto simp: step2_attempts_def Let_def split: if_splits option.splits)
  then obtain k where "n = Suc k" by (cases n) auto
  with round assms(8) show ?thesis by (simp add: run_step2_def)
qed

end
