(* ===== verification/Fence_Properties.thy ===== *)
theory Fence_Properties
  imports Fence_System Fence_Reclaim Epoch_Ref Hq_System
begin

text \<open>
  The properties of the hive fence, of the failover reclaim and of the legacy epoch ref, each with
  the concrete hive it is applied to: one node, written by frame \<open>a\<close> at epoch 0, with one bead in
  progress.
\<close>

section \<open>A concrete hive\<close>

definition example_fence :: hive_fence where
  "example_fence =
     projr (init_fence (Aware 0) (Some \<lparr>wr_frame = ''a'', wr_epoch = 0, wr_revision = []\<rparr>)
       [(''b1'', (''in_progress'', ''a''))] {(''b1'', ''claim-frame:a''), (''b1'', ''area:x'')}
       default_guards [] ''fence'' (\<lambda>s. s) (\<lambda>s. s))"

definition example_reclaim :: reclaim_set where
  "example_reclaim =
     \<lparr>rc_dead_frame = ''a'', rc_beads = {''b1''}, rc_resumable = {''b1''},
      rc_notes = [\<lparr>n_bead = ''b1'', n_comment = ''c1'', n_author = ''bh'', n_text = ''reclaimed'',
                   n_created = Aware 0\<rparr>]\<rparr>"

definition example_bump :: bump_request where
  "example_bump =
     \<lparr>b_frame = ''b'', b_epoch = 1, b_revision = ''r1'', b_operation = oid1,
      b_reclaim = Some example_reclaim\<rparr>"

definition example_bumped :: hive_fence where
  "example_bumped = snd (commit_bump (Aware 7) example_bump example_fence)"

definition example_pushed :: hive_fence where
  "example_pushed = snd (fence_push example_bumped)"


lemma example_fence_init:
  "init_fence (Aware 0) (Some \<lparr>wr_frame = ''a'', wr_epoch = 0, wr_revision = []\<rparr>)
       [(''b1'', (''in_progress'', ''a''))] {(''b1'', ''claim-frame:a''), (''b1'', ''area:x'')}
       default_guards [] ''fence'' (\<lambda>s. s) (\<lambda>s. s) = Inr example_fence"
  by (simp add: example_fence_def init_fence_def mint_revision_def Let_def)

lemma example_fence_inv: "fence_inv example_fence"
  using example_fence_init by (rule init_fence_inv) (simp add: inj_def)





section \<open>Properties of the fence\<close>





text \<open>
  a bump that is committed and pushed is in force. The remote's writer row is the bump's, and
  looking the bump up confirms it at its own revision and time.
\<close>

theorem pushed_bump_in_force:
  assumes "fence_inv hf" "commit_bump clk bump hf = (Inr (Applied rv o1), hf1)"
    "fence_push hf1 = (Inr (Applied r o2), hf2)"
  shows "hf_remote hf2 = rv \<and>
    (\<exists>t. now_of clk = Inr t \<and>
       lookup_bump (b_frame bump) (b_epoch bump) (b_operation bump) hf2 =
         Inr (Confirmed (b_operation bump) rv t)) \<and>
    remote_writer hf2 =
      Inr (Some \<lparr>wr_frame = b_frame bump, wr_epoch = b_epoch bump, wr_revision = b_revision bump\<rparr>)"
  using bump_lands [OF assms] by blast

theorem pushed_bump_in_force_witness:
  "\<exists>rv o1 r o2. commit_bump (Aware 7) example_bump example_fence = (Inr (Applied rv o1), example_bumped) \<and>
     fence_push example_bumped = (Inr (Applied r o2), example_pushed) \<and>
     remote_writer example_pushed = Inr (Some \<lparr>wr_frame = ''b'', wr_epoch = 1, wr_revision = ''r1''\<rparr>)"
proof -
  have a: "case fst (commit_bump (Aware 7) example_bump example_fence) of Inr (Applied rv o1) \<Rightarrow> True | _ \<Rightarrow> False"
    and b: "case fst (fence_push example_bumped) of Inr (Applied rv o1) \<Rightarrow> True | _ \<Rightarrow> False"
    by code_simp+
  from applied_run [OF a] obtain rv o1
    where c: "commit_bump (Aware 7) example_bump example_fence = (Inr (Applied rv o1), example_bumped)"
    unfolding example_bumped_def by blast
  from applied_run [OF b] obtain r o2 where p: "fence_push example_bumped = (Inr (Applied r o2), example_pushed)"
    unfolding example_pushed_def by blast
  from pushed_bump_in_force [OF example_fence_inv c p] c p show ?thesis by (auto simp: example_bump_def)
qed

text \<open>
  the lookup never lies. When looking a bump up answers "confirmed", the remote's history
  holds, at the confirmed revision, a bump that names that frame at that epoch.
\<close>

theorem confirmed_bump_on_remote:
  assumes "fence_inv hf" "lookup_bump frame epoch oid hf = Inr (Confirmed o' r t)"
  shows "\<exists>rs w. fence_chain hf (hf_remote hf) = Inr rs \<and> r \<in> set rs \<and> bump_at (hf_commits hf) r \<and>
    writer_at (hf_commits hf) r = Some w \<and> wr_frame w = frame \<and> wr_epoch w = epoch"
  using lookup_bump_sound [OF assms] by metis

theorem confirmed_bump_on_remote_witness:
  "\<exists>rs r w. fence_chain example_pushed (hf_remote example_pushed) = Inr rs \<and> r \<in> set rs \<and>
     writer_at (hf_commits example_pushed) r = Some w \<and> wr_frame w = ''b'' \<and> wr_epoch w = 1"
proof -
  have bumped: "fence_inv example_bumped"
    using commit_bump_advances [OF example_fence_inv prod.collapse [symmetric], of "Aware 7" example_bump]
    by (simp add: advances_def example_bumped_def)
  have pushed: "fence_inv example_pushed"
    using fence_push_advances [OF bumped prod.collapse [symmetric]] by (simp add: advances_def example_pushed_def)
  have "case lookup_bump ''b'' 1 oid1 example_pushed of Inr (Confirmed o' r t) \<Rightarrow> True | _ \<Rightarrow> False"
    by code_simp
  then obtain o' r t where "lookup_bump ''b'' 1 oid1 example_pushed = Inr (Confirmed o' r t)"
    by (auto split: sum.splits lookup_outcome.splits)
  from confirmed_bump_on_remote [OF pushed this] show ?thesis by blast
qed

text \<open>
  the epoch floor. A well-formed bump request whose epoch does not exceed the epoch of some
  commit behind the local head is refused with \<^verbatim>\<open>IntegrityViolation\<close>, and the fence is left
  exactly as it was.
\<close>

theorem bump_below_floor_refused:
  assumes "fence_inv hf" "fence_chain hf (hf_local hf) = Inr rs" "r \<in> set rs"
    "writer_at (hf_commits hf) r = Some w" "b_epoch bump \<le> wr_epoch w" "1 \<le> b_epoch bump"
    "check_key (b_frame bump) = Inr (b_frame bump)" "canonical_uuid (b_operation bump)"
    "case b_reclaim bump of None \<Rightarrow> True | Some rc \<Rightarrow> is_ok (check_reclaim rc)"
    "writer_at (hf_commits hf) (hf_local hf) \<noteq> None"
  shows "commit_bump clk bump hf = (Inl IntegrityViolation, hf)"
proof -
  from assms(10) obtain c wl where c: "map_of (hf_commits hf) (hf_local hf) = Some c"
    "s_writer (fc_state c) = Some wl" by (auto simp: writer_at_def split: option.splits)
  have wl: "writer_at (hf_commits hf) (hf_local hf) = Some wl" using c by (simp add: writer_at_def)
  have "lineage fc_parent (hf_commits hf) (hf_local hf) rs"
    using assms(2) by (simp add: fence_chain_def chain_iff_lineage)
  from epochs_descend [OF this _ assms(3)] assms(1,4) wl have "wr_epoch w \<le> wr_epoch wl"
    by (simp add: fence_inv_def epoch_at_def)
  moreover have "history_max hf (hf_local hf) = Inr (wr_epoch wl)"
    using history_max_eq wl assms(1) by (simp add: fence_inv_def)
  ultimately have "check_bump (hf_local hf) bump hf = Inl IntegrityViolation"
    using assms(5-9) c
    by (auto simp: check_bump_def check_operation_def commit_at_def is_ok_iff split: option.splits)
  then show ?thesis by (simp add: commit_bump_def bump_commit_def)
qed

theorem bump_below_floor_refused_witness:
  "commit_bump (Aware 9) example_bump example_pushed = (Inl IntegrityViolation, example_pushed)"
proof -
  have bumped: "fence_inv example_bumped"
    using commit_bump_advances [OF example_fence_inv prod.collapse [symmetric], of "Aware 7" example_bump]
    by (simp add: advances_def example_bumped_def)
  have pushed: "fence_inv example_pushed"
    using fence_push_advances [OF bumped prod.collapse [symmetric]] by (simp add: advances_def example_pushed_def)
  obtain rs where rs: "fence_chain example_pushed (hf_local example_pushed) = Inr rs"
    using graph_ok_chain [OF fence_inv_graph [OF pushed], of "hf_local example_pushed"] pushed
    unfolding fence_chain_def fence_inv_def by blast
  have mem: "hf_local example_pushed \<in> set rs" using chain_self rs by (metis fence_chain_def)
  have "map_option wr_epoch (writer_at (hf_commits example_pushed) (hf_local example_pushed)) = Some 1"
    by code_simp
  then obtain w where w: "writer_at (hf_commits example_pushed) (hf_local example_pushed) = Some w" "wr_epoch w = 1"
    by auto
  have args: "b_epoch example_bump = 1" "check_key (b_frame example_bump) = Inr (b_frame example_bump)"
    "canonical_uuid (b_operation example_bump)"
    "case b_reclaim example_bump of None \<Rightarrow> True | Some rc \<Rightarrow> is_ok (check_reclaim rc)"
    by code_simp+
  from bump_below_floor_refused [OF pushed rs mem w(1), of example_bump "Aware 9"] w args show ?thesis by simp
qed

section \<open>Properties of the reclaim\<close>

text \<open>
  what a reclaim does. Exactly the beads of the set that are in progress become open and
  unassigned; they lose their claim-frame labels, and resumable ones have every recovery label
  replaced by \<^verbatim>\<open>recovery:resumable\<close>; the notes of those beads are added as comments; every
  other bead, label and comment stays.
\<close>

theorem reclaim_effect:
  assumes "finite (rc_beads r)" "apply_reclaim s r = (beads, labels, comments)"
  shows "(\<forall>b. map_of beads b = (if b \<in> live_beads s r then Some (''open'', []) else map_of (s_beads s) b)) \<and>
    (\<forall>b l. (b, l) \<in> labels \<longleftrightarrow>
      (if b \<in> live_beads s r
       then ((b, l) \<in> s_labels s \<and> kept_label (rc_resumable r) b l) \<or>
            (b \<in> rc_resumable r \<and> l = resumable_label)
       else (b, l) \<in> s_labels s)) \<and>
    comments = s_comments s \<union> note_comment ` {n \<in> set (rc_notes r). n_bead n \<in> live_beads s r}"
  using apply_reclaim_spec [OF assms] by blast

theorem reclaim_effect_witness:
  "\<exists>s beads labels comments. s = fc_state (snd (hd (hf_commits example_fence))) \<and>
     apply_reclaim s example_reclaim = (beads, labels, comments) \<and>
     map_of beads ''b1'' = Some (''open'', []) \<and> (''b1'', ''recovery:resumable'') \<in> labels \<and>
     (''b1'', ''claim-frame:a'') \<notin> labels \<and> (''b1'', ''area:x'') \<in> labels"
proof -
  let ?s = "fc_state (snd (hd (hf_commits example_fence)))"
  obtain beads labels comments where a: "apply_reclaim ?s example_reclaim = (beads, labels, comments)"
    by (metis prod_cases3)
  have fin: "finite (rc_beads example_reclaim)" by (simp add: example_reclaim_def)
  have f: "''b1'' \<in> live_beads ?s example_reclaim" "(''b1'', ''area:x'') \<in> s_labels ?s"
    "''b1'' \<in> rc_resumable example_reclaim" "kept_label (rc_resumable example_reclaim) ''b1'' ''area:x''"
    "\<not> kept_label (rc_resumable example_reclaim) ''b1'' ''claim-frame:a''"
    "resumable_label = ''recovery:resumable''" "''claim-frame:a'' \<noteq> resumable_label" by code_simp+
  from reclaim_effect [OF fin a] f show ?thesis by (intro exI [of _ ?s] exI) (use a in auto)
qed

text \<open>
  a reclaim happens once. When the bump is committed again over its own result (a retried
  bump at a higher epoch that carries the same reclaim), the second reclaim finds nothing: beads,
  labels and comments stay as the first left them.
\<close>

theorem reclaim_idempotent:
  assumes "finite (rc_beads r)" "b_reclaim bump = Some r" "b_reclaim bump' = Some r"
  shows "s_beads (bump_state (bump_state s bump) bump') = s_beads (bump_state s bump) \<and>
    s_labels (bump_state (bump_state s bump) bump') = s_labels (bump_state s bump) \<and>
    s_comments (bump_state (bump_state s bump) bump') = s_comments (bump_state s bump)"
  using reclaim_again [OF assms] .

theorem reclaim_idempotent_witness:
  "s_labels (bump_state (bump_state (fc_state (snd (hd (hf_commits example_fence)))) example_bump)
       (example_bump\<lparr>b_epoch := 2\<rparr>)) =
     s_labels (bump_state (fc_state (snd (hd (hf_commits example_fence)))) example_bump)"
  using reclaim_idempotent [of example_reclaim example_bump "example_bump\<lparr>b_epoch := 2\<rparr>"
      "fc_state (snd (hd (hf_commits example_fence)))"]
  by (simp add: example_bump_def example_reclaim_def)

text \<open>
  the legacy epoch ref has one winner per sha. In any run of compare-and-sets on the ref,
  interleaved with any others and with injected faults, no sha is superseded twice.
\<close>

theorem epoch_ref_one_winner:
  assumes "cas_run ref_cas ref_env (init_epoch_ref initial ns sha uuid) log er'" "inj sha"
  shows "distinct (winners log)"
  using ref_cell.one_winner [OF assms(1)] init_epoch_ref_inv [OF assms(2)] by blast

theorem epoch_ref_one_winner_witness:
  "\<exists>log er'. cas_run ref_cas ref_env (init_epoch_ref (Some (''a'', 0)) ''ref'' (\<lambda>s. s) (\<lambda>s. s)) log er' \<and>
     length log = 2 \<and> length (winners log) = 1 \<and> distinct (winners log)"
proof -
  let ?er = "init_epoch_ref (Some (''a'', 0)) ''ref'' (\<lambda>s. s) (\<lambda>s. s)"
  let ?v = "the (er_ref ?er)"
  let ?c1 = "ref_cas (''b'', 1, ?v) (At (rf_sha ?v)) ?er"
  let ?c2 = "ref_cas (''c'', 1, ?v) (At (rf_sha ?v)) (snd ?c1)"
  let ?log = "[(At (rf_sha ?v), fst ?c1), (At (rf_sha ?v), fst ?c2)]"
  have run: "cas_run ref_cas ref_env ?er ?log (snd ?c2)"
    by (rule cas_run.attempted [OF prod.collapse [symmetric]
          cas_run.attempted [OF prod.collapse [symmetric] cas_run.idle]])
  have "length (winners ?log) = 1" by code_simp
  with run epoch_ref_one_winner [OF run] show ?thesis
    by (intro exI [of _ ?log] exI [of _ "snd ?c2"]) (simp add: inj_def)
qed

end
