(* ===== verification/Adopt_Properties.thy ===== *)
theory Adopt_Properties
  imports Adopt_Memory Fence_Properties
begin

text \<open>
  The properties of the adopt protocol, on any ports where that is possible and on the in-memory
  stores otherwise.
\<close>

section \<open>Placement on the in-memory HQ store\<close>

lemma placement_body_members:
  "member (sort_members (placement_body frame epoch cause)) ''frame'' = Some (JStr frame)"
  "member (sort_members (placement_body frame epoch cause)) ''epoch'' = Some (JInt epoch)"
proof -
  let ?ms = "map (map_prod id sort_members) [(''frame'', JStr frame), (''epoch'', JInt epoch), (''cause'', JStr cause)]"
  have "map_of (sort_key fst ?ms) = map_of ?ms" by (rule map_of_sort_key) simp
  then show "member (sort_members (placement_body frame epoch cause)) ''frame'' = Some (JStr frame)"
    "member (sort_members (placement_body frame epoch cause)) ''epoch'' = Some (JInt epoch)"
    by (simp_all add: placement_body_def)
qed

lemma placement_read_back:
  assumes "read PLACEMENT prefix hq = Inr (Some \<lparr>v_key = prefix, v_revision = r, v_body = c\<rparr>)"
    "canonical (placement_body frame epoch cause) cap = Inr c"
  shows "placement_read prefix hq = Inr (Some \<lparr>p_frame = frame, p_epoch = epoch, p_token = r\<rparr>)"
proof -
  from assms(2) have "c = sort_members (placement_body frame epoch cause)" by (auto simp: canonical_Inr)
  with assms(1) placement_body_members show ?thesis by (simp add: placement_read_def)
qed

lemma on_stores_alone:
  "aw_others w = [] \<Longrightarrow> on_stores op w = (case op (aw_stores w) of (r, s) \<Rightarrow> (r, w\<lparr>aw_stores := s\<rparr>))"
  by (simp add: on_stores_def disturb_def)

lemma placed_reads_back:
  assumes "aw_others w = []" "storage_ok (sx_hq (aw_stores w))"
    "placement_lookup prefix (en_op en n) (sx_hq (aw_stores w)) = Inr (NotConfirmed (en_op en n))"
    "place memory_placement en n prefix frame epoch expected cause w = (Inr v, w')"
  shows "p_frame v = frame \<and> p_epoch v = epoch \<and>
    placement_read prefix (sx_hq (aw_stores w')) = Inr (Some v) \<and>
    matches (record_token (PLACEMENT, prefix) (sx_hq (aw_stores w))) (placement_expectation expected)"
proof -
  let ?hq = "sx_hq (aw_stores w)" and ?oid = "en_op en n"
  obtain out hq1 where run: "placement_cas (sx_clock (aw_stores w)) prefix frame epoch expected cause ?oid ?hq = (out, hq1)"
    by force
  let ?w1 = "w\<lparr>aw_stores := (aw_stores w)\<lparr>sx_hq := hq1\<rparr>\<rparr>"
  have cas: "pp_cas memory_placement prefix frame epoch expected cause ?oid w = (out, ?w1)"
    using run assms(1) by (simp add: memory_placement_def on_stores_alone)
  have look: "pp_lookup memory_placement prefix ?oid ?w1 = (placement_lookup prefix ?oid hq1, ?w1)"
    using assms(1) by (simp add: memory_placement_def on_stores_alone)
  note cs = run [unfolded placement_cas_def]
  from assms(4) [unfolded place_def Let_def try_call_def cas prod.case] obtain o' where out: "out = Inr o'"
    by (cases out) auto
  show ?thesis
  proof (cases o')
    case (Applied r oid)
    with assms(4) out have v: "v = \<lparr>p_frame = frame, p_epoch = epoch, p_token = r\<rparr>" "w' = ?w1"
      unfolding place_def Let_def try_call_def cas by auto
    from cs show ?thesis
    proof (cases rule: compare_and_set_cases)
      case (written fault fs rv m c t)
      with out Applied have "fault = None" "rv = r" by (auto split: option.splits)
      with written have "read PLACEMENT prefix hq1 = Inr (Some \<lparr>v_key = prefix, v_revision = r, v_body = c\<rparr>)"
        by (simp add: read_def written_record_def)
      from placement_read_back [OF this written(6)] v written(1) show ?thesis by simp
    qed (use out Applied in \<open>auto split: option.splits\<close>)
  next
    case (Conflict x)
    with assms(4) out show ?thesis unfolding place_def Let_def try_call_def cas by auto
  next
    case (Unknown oid ex why)
    from unknown_resolved [OF cs [unfolded out Unknown] assms(3) [unfolded placement_lookup_def]]
    show ?thesis
    proof (elim disjE exE conjE)
      assume "lookup_record PLACEMENT prefix ?oid hq1 = Inr (NotConfirmed ?oid)"
      with assms(4) out Unknown look show ?thesis
        unfolding place_def Let_def try_call_def cas by (simp add: placement_lookup_def)
    next
      fix r c t
      assume h: "canonical (placement_body frame epoch cause) (st_cap ?hq) = Inr c"
        "matches (record_token (PLACEMENT, prefix) ?hq) (placement_expectation expected)"
        "lookup_record PLACEMENT prefix ?oid hq1 = Inr (Confirmed ?oid r t)"
        "read PLACEMENT prefix hq1 = Inr (Some \<lparr>v_key = prefix, v_revision = r, v_body = c\<rparr>)"
      with assms(4) out Unknown look have "v = \<lparr>p_frame = frame, p_epoch = epoch, p_token = r\<rparr>" "w' = ?w1"
        unfolding place_def Let_def try_call_def cas by (auto simp: placement_lookup_def)
      with placement_read_back [OF h(4,1)] h(2) show ?thesis by simp
    qed
  qed
qed

section \<open>A concrete world\<close>

definition example_hq :: hq_storage where
  "example_hq = snd (provision (Aware 0) PLACEMENT ''hv'' (placement_body ''a'' 0 ''planned'') example_store)"

definition example_world :: adopt_world where
  "example_world =
     \<lparr>aw_stores = \<lparr>sx_hq = example_hq, sx_fence = example_fence,
                   sx_ref = init_epoch_ref None ''ref'' (\<lambda>s. s) (\<lambda>s. s), sx_clock = Aware 5\<rparr>,
      aw_others = []\<rparr>"

definition example_entropy :: entropy where
  "example_entropy = \<lparr>en_sha256 = (\<lambda>s. s), en_hex = nat_str, en_op = (\<lambda>n. if n = 0 then oid1 else oid2)\<rparr>"

lemma example_world_inv: "world_inv example_world"
  by (simp add: world_inv_def example_world_def example_fence_inv)

lemma example_hq_ok: "storage_ok example_hq"
  unfolding example_hq_def by (rule provision_ok) (rule example_store_ok)


section \<open>Properties\<close>

text \<open>
  the new epoch is above everything. \<open>next_epoch\<close> exceeds every carrier that names an epoch
  (the ref, placement, the writer row, the history), is at least 1 when some carrier is absent or
  not negative, and is the smallest such number: it is one more than some carrier (or than 0, for
  an absent one).
\<close>

theorem next_epoch_above_all:
  "or_zero ref < next_epoch ref pl wr hist \<and> or_zero pl < next_epoch ref pl wr hist \<and>
   or_zero wr < next_epoch ref pl wr hist \<and> or_zero hist < next_epoch ref pl wr hist \<and>
   next_epoch ref pl wr hist - 1 \<in> {or_zero ref, or_zero pl, or_zero wr, or_zero hist}"
  by (auto simp: next_epoch_def max_def)





text \<open>
  re-running a landed adopt bumps nothing. When the remote head names the frame at the epoch
  and the remote can be reached, step 2 answers "landed" in its first round without a revision of
  its own, and the only change is that the local head moves to the remote's: no commit, no push,
  whatever placement, the reclaim hook and the \<^verbatim>\<open>before_push\<close> hook would do.
\<close>

theorem rerun_bumps_nothing:
  assumes "world_inv w" "aw_others w = []" "hf_reachable (fence_of w)" "hf_faults (fence_of w) = []"
    "remote_writer (fence_of w) = Inr (Some row)" "step2_attempts env attempts = Inr n"
  shows "run_step2 memory_fence pp en rk env prefix (wr_frame row) (wr_epoch row) attempts hook w =
    (Inr (step2 LANDED (wr_epoch row) 1),
     w\<lparr>aw_stores := (aw_stores w)\<lparr>sx_fence := (fence_of w)\<lparr>hf_local := hf_remote (fence_of w)\<rparr>\<rparr>\<rparr>)"
  using rerun_lands [OF assms(1-5) refl refl assms(6)] .

theorem rerun_bumps_nothing_witness:
  "\<exists>w'. run_step2 memory_fence memory_placement example_entropy None None ''hv'' ''a'' 0 None None example_world =
     (Inr (step2 LANDED 0 1), w')"
proof -
  have "aw_others example_world = []" "hf_reachable (fence_of example_world)"
    "hf_faults (fence_of example_world) = []"
    "remote_writer (fence_of example_world) = Inr (Some \<lparr>wr_frame = ''a'', wr_epoch = 0, wr_revision = []\<rparr>)"
    "step2_attempts None None = Inr 4" by code_simp+
  from rerun_bumps_nothing [OF example_world_inv this, of memory_placement example_entropy None "''hv''" None]
  show ?thesis by simp
qed



text \<open>
  a resumed adopt mints no epoch and writes no placement. When the placement read names this
  frame and step 2 can still converge there, the rest of the adopt does not depend on the
  placement compare-and-set at all: whatever that call would do, result and world are the same.
\<close>

theorem resume_writes_no_placement:
  assumes "resumable frame placed wr (ef_history_max floor) held"
  shows "adopt_decided fp (pp\<lparr>pp_cas := c\<rparr>) rp en reclaim env prefix frame attempts on_placed hook failover
      wr floor placed held w =
    adopt_decided fp pp rp en reclaim env prefix frame attempts on_placed hook failover
      wr floor placed held w"
proof -
  have read: "pp_read (pp\<lparr>pp_cas := c\<rparr>) = pp_read pp" by simp
  have "run_step2 fp (pp\<lparr>pp_cas := c\<rparr>) en rk env prefix frame e attempts hook w1 =
      run_step2 fp pp en rk env prefix frame e attempts hook w1" for rk e w1
    unfolding run_step2_def step2_round_def [abs_def] placed_round_def read ..
  note same = this
  show ?thesis using assms unfolding adopt_decided_def Let_def adopt_rest_def same by simp
qed

theorem resume_writes_no_placement_witness:
  "resumable ''b'' (Some \<lparr>p_frame = ''b'', p_epoch = 1, p_token = ''t''\<rparr>)
     \<lparr>wr_frame = ''a'', wr_epoch = 0, wr_revision = []\<rparr> 0 None \<and>
   adopt_decided memory_fence (memory_placement\<lparr>pp_cas := (\<lambda>_ _ _ _ _ _ w. (Inl KeyError, w))\<rparr>) memory_ref
     example_entropy None None ''hv'' ''b'' None None None None
     \<lparr>wr_frame = ''a'', wr_epoch = 0, wr_revision = []\<rparr> \<lparr>ef_history_max = 0, ef_writer = Some 0\<rparr>
     (Some \<lparr>p_frame = ''b'', p_epoch = 1, p_token = ''t''\<rparr>) None example_world =
   adopt_decided memory_fence memory_placement memory_ref
     example_entropy None None ''hv'' ''b'' None None None None
     \<lparr>wr_frame = ''a'', wr_epoch = 0, wr_revision = []\<rparr> \<lparr>ef_history_max = 0, ef_writer = Some 0\<rparr>
     (Some \<lparr>p_frame = ''b'', p_epoch = 1, p_token = ''t''\<rparr>) None example_world"
proof -
  have "resumable ''b'' (Some \<lparr>p_frame = ''b'', p_epoch = 1, p_token = ''t''\<rparr>)
     \<lparr>wr_frame = ''a'', wr_epoch = 0, wr_revision = []\<rparr> (ef_history_max \<lparr>ef_history_max = 0, ef_writer = Some 0\<rparr>) None"
    by code_simp
  from this resume_writes_no_placement [OF this] show ?thesis by simp
qed

text \<open>
  a placement that was won is in place. When \<open>place\<close> returns, under an operation id the store
  has not seen, on the in-memory HQ store and with no other frame acting meanwhile, the expectation
  held, and reading placement gives exactly the returned view: this frame, this epoch and the
  token. That includes an unknown compare-and-set that the lookup confirmed.
\<close>

theorem place_reads_back:
  assumes "aw_others w = []" "storage_ok (sx_hq (aw_stores w))"
    "placement_lookup prefix (en_op en n) (sx_hq (aw_stores w)) = Inr (NotConfirmed (en_op en n))"
    "place memory_placement en n prefix frame epoch expected cause w = (Inr v, w')"
  shows "p_frame v = frame \<and> p_epoch v = epoch \<and>
    placement_read prefix (sx_hq (aw_stores w')) = Inr (Some v) \<and>
    matches (record_token (PLACEMENT, prefix) (sx_hq (aw_stores w))) (placement_expectation expected)"
  using placed_reads_back [OF assms] .

theorem place_reads_back_witness:
  "\<exists>v w'. place memory_placement example_entropy 0 ''hv'' ''b'' 1 (projr (placement_read ''hv'' example_hq)) ''failover''
      example_world = (Inr v, w') \<and>
    placement_read ''hv'' (sx_hq (aw_stores w')) = Inr (Some v) \<and> p_frame v = ''b'' \<and> p_epoch v = 1"
proof -
  let ?run = "place memory_placement example_entropy 0 ''hv'' ''b'' 1 (projr (placement_read ''hv'' example_hq))
    ''failover'' example_world"
  have "case fst ?run of Inr v \<Rightarrow> True | Inl e \<Rightarrow> False" by code_simp
  then obtain v where v: "?run = (Inr v, snd ?run)" by (rule returned_run)
  have pre: "aw_others example_world = []" "sx_hq (aw_stores example_world) = example_hq"
    by (simp_all add: example_world_def)
  have look: "placement_lookup ''hv'' (en_op example_entropy 0) (sx_hq (aw_stores example_world)) =
      Inr (NotConfirmed (en_op example_entropy 0))" by code_simp
  have ok: "storage_ok (sx_hq (aw_stores example_world))" using pre(2) example_hq_ok by simp
  from place_reads_back [OF pre(1) ok look v] v show ?thesis by blast
qed

text \<open>
  an unavailable bump commit escapes the adopt. On the concrete world, when the bump commit
  raises \<^verbatim>\<open>StorageUnavailable\<close>, the adopt raises exactly that error and no "adopt incomplete",
  although placement has already moved to this frame.
\<close>

theorem unavailable_commit_escapes:
  "let w = example_world\<lparr>aw_stores := (aw_stores example_world)
         \<lparr>sx_fence := example_fence\<lparr>hf_faults := arm_unavailable (Some ''commit_bump'') []\<rparr>\<rparr>\<rparr>;
       run = coexistence_adopt memory_fence memory_placement memory_ref example_entropy None None ''hv'' ''b''
               None None None None w
   in (case fst run of Inl (Storage e) \<Rightarrow> e = StorageUnavailable | _ \<Rightarrow> False) \<and>
      (case placement_read ''hv'' (sx_hq (aw_stores (snd run))) of
         Inr (Some v) \<Rightarrow> p_frame v = ''b'' \<and> p_epoch v = 1 | _ \<Rightarrow> False)"
  by code_simp

end
