(* ===== verification/Wt_Classify.thy ===== *)
theory Wt_Classify
  imports BH_Prelude
begin

text \<open>
  The worktree safety classifier
  (\<^verbatim>\<open>packages/beadhive-worktrees/src/beadhive_worktrees/policy/classification.py\<close>): the
  disposition codec and \<^verbatim>\<open>classify\<close>, which gives every managed worktree one lifecycle state and
  says whether an unattended prune may remove it.

  The callables \<^verbatim>\<open>classify\<close> is given (merge ancestry, bead and parent of a row, the landed check) are
  functions in the record of its arguments; a dictionary argument that may be \<^verbatim>\<open>None\<close> is the empty
  list, as in the code. A precious item and a binding are opaque to the classifier: a precious item
  is the type \<open>'p\<close>. Strings are ASCII.
\<close>

section \<open>Records of the classifier\<close>

datatype wt_classification =
    SAFE | HELD | REVIEW | DIRTY | LANDED_REBASED | RETAINED | WT_SUPERSEDED | STALE | UNMERGED
  | ACTIVE | UNKNOWN | DETACHED | MERGED_ORPHAN | ABANDONED

record binding_state =
  bs_presenter :: string
  bs_state :: string
  bs_gap :: bool

record 'p wt_status =
  ws_hive :: string
  ws_leaf :: string
  ws_branch :: string
  ws_path :: string
  ws_bead_id :: "string option"
  ws_classification :: wt_classification
  ws_merged :: bool
  ws_dirty :: bool
  ws_safe :: bool
  ws_underlying :: "wt_classification option"
  ws_unknown_reason :: string
  ws_precious :: "'p list"
  ws_disposition_reason :: string
  ws_citing_bead :: string
  ws_legacy_root :: bool
  ws_bindings :: "binding_state list"

definition binding_gaps :: "'p wt_status \<Rightarrow> string list" where
  "binding_gaps s = map (\<lambda>b. bs_presenter b @ '':'' @ bs_state b) (filter bs_gap (ws_bindings s))"

record batch_evidence =
  be_member_statuses :: "(string \<times> string) list"
  be_parent :: string

definition all_closed :: "batch_evidence \<Rightarrow> bool" where
  "all_closed e \<longleftrightarrow>
     be_parent e \<noteq> [] \<and> be_member_statuses e \<noteq> [] \<and>
     (\<forall>m \<in> set (be_member_statuses e). snd m = ''closed'')"

record wt_disposition =
  d_state :: string
  d_reason :: string
  d_citing :: string

section \<open>The disposition codec\<close>

definition disposition_prefix :: string where
  "disposition_prefix = ''bh:worktree-disposition:v1''"

definition disposition_states :: "string set" where
  "disposition_states = {''retained'', ''superseded'', ''stale''}"

definition disposition_reasons :: "string set" where
  "disposition_reasons = {''pivot'', ''superseded'', ''obsolete''}"

datatype wt_error = Wt_ValueError

definition reserved :: "char set" where
  "reserved = {CHR '';'', CHR ''='', CHR 0x0A, CHR 0x0D}"

definition format_disposition :: "string \<Rightarrow> string \<Rightarrow> string \<Rightarrow> wt_error + string" where
  "format_disposition state reason citing =
     (if state \<notin> disposition_states then Inl Wt_ValueError
      else if reason \<notin> disposition_reasons then Inl Wt_ValueError
      else if state \<in> {''retained'', ''superseded''} \<and> citing = [] then Inl Wt_ValueError
      else if state = ''stale'' \<and> citing \<noteq> [] then Inl Wt_ValueError
      else if list_ex (\<lambda>c. c \<in> reserved) citing then Inl Wt_ValueError
      else Inr (disposition_prefix @ '';state='' @ state @ '';reason='' @ reason @ '';citing='' @ citing))"

text \<open>One \<^verbatim>\<open>key=value\<close> part with the expected key.\<close>

definition keyed_value :: "string \<Rightarrow> string \<Rightarrow> string option" where
  "keyed_value key part =
     (case partition_at (CHR ''='') part of
        (actual, sep, val) \<Rightarrow> if \<not> sep \<or> actual \<noteq> key then None else Some val)"

definition checked_disposition :: "string \<Rightarrow> string \<Rightarrow> string \<Rightarrow> wt_disposition option" where
  "checked_disposition state reason citing =
     (if state \<notin> disposition_states \<or> reason \<notin> disposition_reasons then None
      else if state \<in> {''retained'', ''superseded''} \<and> citing = [] then None
      else if state = ''stale'' \<and> citing \<noteq> [] then None
      else Some \<lparr>d_state = state, d_reason = reason, d_citing = citing\<rparr>)"

definition parse_disposition :: "string \<Rightarrow> wt_disposition option" where
  "parse_disposition close_reason =
     (case split_at (CHR '';'') close_reason of
        [p0, p1, p2, p3] \<Rightarrow>
          if p0 \<noteq> disposition_prefix then None
          else (case (keyed_value ''state'' p1, keyed_value ''reason'' p2, keyed_value ''citing'' p3) of
                  (Some state, Some reason, Some citing) \<Rightarrow> checked_disposition state reason citing
                | _ \<Rightarrow> None)
      | _ \<Rightarrow> None)"

section \<open>The classifier\<close>

type_synonym managed_row = "string \<times> string \<times> string"

record 'p classify_args =
  ca_hive_prefix :: string
  ca_meta_branches :: "(string option \<times> bool) list"
  ca_bead_statuses :: "(string \<times> string) list"
  ca_dirty_by_path :: "(string \<times> bool) list"
  ca_is_merged :: "string \<Rightarrow> string \<Rightarrow> string \<Rightarrow> bool"
  ca_parent :: "string \<Rightarrow> string \<Rightarrow> string \<Rightarrow> string \<Rightarrow> string option \<times> string"
  ca_integration :: string
  ca_is_landed :: "(string \<Rightarrow> string \<Rightarrow> string \<Rightarrow> string \<Rightarrow> bool) option"
  ca_close_reasons :: "(string \<times> string) list"
  ca_unknown_reasons :: "(string \<times> string) list"
  ca_store_unreadable :: string
  ca_precious :: "(string \<times> 'p list) list"
  ca_relations :: "(string \<times> (string \<times> string) set) list"
  ca_batches :: "(string \<times> batch_evidence) list"

text \<open>\<^verbatim>\<open>d.get(key, default)\<close> and \<^verbatim>\<open>Path(path).name\<close>.\<close>

definition get_or :: "'v \<Rightarrow> (string \<times> 'v) list \<Rightarrow> string \<Rightarrow> 'v" where
  "get_or v d key = (case map_of d key of None \<Rightarrow> v | Some x \<Rightarrow> x)"

definition path_name :: "string \<Rightarrow> string" where
  "path_name path =
     (case filter (\<lambda>p. p \<noteq> [] \<and> p \<noteq> ''.'') (split_at (CHR ''/'') path) of
        [] \<Rightarrow> [] | ps \<Rightarrow> last ps)"

fun branch_dirty :: "string \<Rightarrow> (string option \<times> bool) list \<Rightarrow> bool" where
  "branch_dirty branch [] = False"
| "branch_dirty branch ((name, dirty) # bs) = (if name = Some branch then dirty else branch_dirty branch bs)"

definition detached_name :: string where
  "detached_name = ''(detached)''"

definition batch_prefix :: string where
  "batch_prefix = ''wt/batch/''"

definition row_batch :: "'p classify_args \<Rightarrow> string \<Rightarrow> batch_evidence option" where
  "row_batch a branch = (if starts_with branch batch_prefix then map_of (ca_batches a) branch else None)"

definition row_parent :: "'p classify_args \<Rightarrow> managed_row \<Rightarrow> string option \<times> string" where
  "row_parent a row =
     (case row of (prefix, path, branch) \<Rightarrow>
        (case ca_parent a prefix path (ca_integration a) branch of
           (bead_id, parent) \<Rightarrow>
             (bead_id, case row_batch a branch of None \<Rightarrow> parent | Some b \<Rightarrow> be_parent b)))"

definition row_merged :: "'p classify_args \<Rightarrow> managed_row \<Rightarrow> bool" where
  "row_merged a row =
     (case row of (prefix, path, branch) \<Rightarrow>
        if branch = detached_name \<or> branch = [] then False
        else ca_is_merged a prefix branch (snd (row_parent a row)))"

definition row_dirty :: "'p classify_args \<Rightarrow> managed_row \<Rightarrow> bool" where
  "row_dirty a row =
     (case row of (prefix, path, branch) \<Rightarrow>
        get_or (branch_dirty branch (ca_meta_branches a)) (ca_dirty_by_path a) path)"

text \<open>\<^verbatim>\<open>bead_id or ""\<close>, the bead's status, its close reason and its disposition.\<close>

definition id_or_empty :: "string option \<Rightarrow> string" where
  "id_or_empty bead_id = (case bead_id of None \<Rightarrow> [] | Some i \<Rightarrow> i)"

definition bead_status :: "'p classify_args \<Rightarrow> string option \<Rightarrow> string" where
  "bead_status a bead_id =
     (if id_or_empty bead_id = [] then [] else get_or [] (ca_bead_statuses a) (id_or_empty bead_id))"

definition bead_closed :: "'p classify_args \<Rightarrow> string option \<Rightarrow> bool" where
  "bead_closed a bead_id \<longleftrightarrow> bead_status a bead_id = ''closed''"

definition close_reason_of :: "'p classify_args \<Rightarrow> string option \<Rightarrow> string" where
  "close_reason_of a bead_id = get_or [] (ca_close_reasons a) (id_or_empty bead_id)"

definition disposition_of :: "'p classify_args \<Rightarrow> string option \<Rightarrow> wt_disposition option" where
  "disposition_of a bead_id =
     (if bead_closed a bead_id then parse_disposition (close_reason_of a bead_id) else None)"

definition malformed_disposition :: "'p classify_args \<Rightarrow> string option \<Rightarrow> bool" where
  "malformed_disposition a bead_id \<longleftrightarrow>
     bead_closed a bead_id \<and> starts_with (close_reason_of a bead_id) ''bh:worktree-disposition:'' \<and>
     disposition_of a bead_id = None"

definition relation_matches :: "'p classify_args \<Rightarrow> string option \<Rightarrow> bool" where
  "relation_matches a bead_id =
     (case disposition_of a bead_id of
        None \<Rightarrow> False
      | Some d \<Rightarrow> (d_state d, d_citing d) \<in> get_or {} (ca_relations a) (id_or_empty bead_id))"

definition unresolved :: "'p classify_args \<Rightarrow> string option \<Rightarrow> bool" where
  "unresolved a bead_id \<longleftrightarrow> id_or_empty bead_id \<noteq> [] \<and> bead_status a bead_id = []"

definition unknown_reason_of :: "'p classify_args \<Rightarrow> string option \<Rightarrow> string" where
  "unknown_reason_of a bead_id =
     (if \<not> unresolved a bead_id then []
      else let named = get_or [] (ca_unknown_reasons a) (id_or_empty bead_id)
           in if named \<noteq> [] then named
              else if ca_store_unreadable a \<noteq> [] then ca_store_unreadable a
              else ''bead '' @ id_or_empty bead_id @ '' did not resolve, and the caller gave no reason'')"

definition row_landed :: "'p classify_args \<Rightarrow> managed_row \<Rightarrow> bool" where
  "row_landed a row =
     (case row of (prefix, path, branch) \<Rightarrow>
        (case ca_is_landed a of
           None \<Rightarrow> False
         | Some f \<Rightarrow> f prefix branch (snd (row_parent a row)) (close_reason_of a (fst (row_parent a row)))))"

text \<open>The classification by priority, before the overlays.\<close>

definition no_bead_class :: "'p classify_args \<Rightarrow> managed_row \<Rightarrow> wt_classification" where
  "no_bead_class a row =
     (case row of (prefix, path, branch) \<Rightarrow>
        let is_batch = starts_with branch batch_prefix
        in if is_batch \<and> (case row_batch a branch of None \<Rightarrow> False | Some b \<Rightarrow> all_closed b) \<and> row_merged a row
           then SAFE
           else if row_merged a row \<and> \<not> is_batch then MERGED_ORPHAN
           else ABANDONED)"

definition bead_class :: "'p classify_args \<Rightarrow> managed_row \<Rightarrow> string option \<Rightarrow> wt_classification" where
  "bead_class a row bead_id =
     (if unresolved a bead_id then UNKNOWN
      else if malformed_disposition a bead_id then STALE
      else case disposition_of a bead_id of
        Some d \<Rightarrow>
          if \<not> relation_matches a bead_id then STALE
          else if d_state d = ''retained'' then RETAINED
          else if d_state d = ''stale'' then STALE
          else if d_state d = ''superseded'' then (if row_landed a row then WT_SUPERSEDED else STALE)
          else if row_merged a row then SAFE
          else if row_landed a row then LANDED_REBASED else STALE
      | None \<Rightarrow>
          if bead_closed a bead_id \<and> row_merged a row then SAFE
          else if row_merged a row then REVIEW
          else if bead_closed a bead_id then (if row_landed a row then LANDED_REBASED else STALE)
          else ACTIVE)"

definition base_class :: "'p classify_args \<Rightarrow> managed_row \<Rightarrow> wt_classification" where
  "base_class a row =
     (case row of (prefix, path, branch) \<Rightarrow>
        if branch = detached_name then DETACHED
        else (case fst (row_parent a row) of
                None \<Rightarrow> no_bead_class a row
              | Some i \<Rightarrow> bead_class a row (Some i)))"

definition prunable :: "wt_classification \<Rightarrow> bool" where
  "prunable c \<longleftrightarrow> c \<in> {SAFE, LANDED_REBASED, WT_SUPERSEDED}"

text \<open>\<^verbatim>\<open>DIRTY\<close> masks everything but \<^verbatim>\<open>DETACHED\<close>; precious content holds what would be removed.\<close>

definition overlay ::
  "bool \<Rightarrow> bool \<Rightarrow> bool \<Rightarrow> wt_classification \<Rightarrow> wt_classification \<times> wt_classification option \<times> bool"
where
  "overlay detached dirty precious cls =
     (let (cls1, masked) = (if dirty \<and> \<not> detached then (DIRTY, Some cls) else (cls, None));
          base_safe = prunable cls1;
          safe = (base_safe \<and> \<not> precious)
      in if base_safe \<and> precious then (HELD, Some cls1, safe) else (cls1, masked, safe))"

definition classify_row :: "'p classify_args \<Rightarrow> managed_row \<Rightarrow> 'p wt_status" where
  "classify_row a row =
     (case row of (prefix, path, branch) \<Rightarrow>
        let bead_id = fst (row_parent a row);
            precious = get_or [] (ca_precious a) path;
            (cls, masked, safe) =
              overlay (branch = detached_name) (row_dirty a row) (precious \<noteq> []) (base_class a row)
        in \<lparr>ws_hive = ca_hive_prefix a, ws_leaf = path_name path, ws_branch = branch, ws_path = path,
            ws_bead_id = bead_id, ws_classification = cls, ws_merged = row_merged a row,
            ws_dirty = row_dirty a row, ws_safe = safe, ws_underlying = masked,
            ws_unknown_reason = unknown_reason_of a bead_id, ws_precious = precious,
            ws_disposition_reason = (case disposition_of a bead_id of None \<Rightarrow> [] | Some d \<Rightarrow> d_reason d),
            ws_citing_bead = (case disposition_of a bead_id of None \<Rightarrow> [] | Some d \<Rightarrow> d_citing d),
            ws_legacy_root = False, ws_bindings = []\<rparr>)"

definition classify :: "'p classify_args \<Rightarrow> managed_row list \<Rightarrow> 'p wt_status list" where
  "classify a rows = map (classify_row a) rows"

definition is_untrustworthy :: "'p wt_status \<Rightarrow> bool" where
  "is_untrustworthy s \<longleftrightarrow> ws_classification s = UNKNOWN \<or> ws_underlying s = Some UNKNOWN"

definition untrustworthy :: "'p wt_status list \<Rightarrow> 'p wt_status list" where
  "untrustworthy statuses = filter is_untrustworthy statuses"

end
