(* ===== verification/Wt_Naming.thy ===== *)
theory Wt_Naming
  imports Wt_Classify
begin

text \<open>
  Names of managed worktrees and the branch a bead's work lands on
  (\<^verbatim>\<open>beadhive_worktrees/domain/models.py\<close>, \<^verbatim>\<open>src/beadhive/worktree.py\<close> and
  \<^verbatim>\<open>src/beadhive/worktree_git.py\<close>): branch and directory leaf, the bead id in a branch name, and the
  climb to the nearest started container.

  Git is the function \<open>ex\<close> that says whether a local branch exists; the bead store is a function
  from an id to the bead's parent field (the empty string when the bead or its parent is missing) or
  an error. The climb along parent links may not end on a store that answers with ever new parents,
  so it is a \<open>partial_function\<close>; \<open>link_climb_returns\<close> shows that it returns when only finitely many
  beads have a parent.
\<close>

section \<open>Branches and leaves\<close>

definition wt_prefix :: string where
  "wt_prefix = ''wt/''"

definition removeprefix :: "string \<Rightarrow> string \<Rightarrow> string" where
  "removeprefix s p = (if starts_with s p then drop (length p) s else s)"

definition lower_char :: "char \<Rightarrow> char" where
  "lower_char c =
     (let n = (of_char c :: nat) in if 65 \<le> n \<and> n \<le> 90 then char_of (n + 32) else c)"

definition leaf_char :: "char \<Rightarrow> bool" where
  "leaf_char c =
     (let n = (of_char c :: nat) in (97 \<le> n \<and> n \<le> 122) \<or> (48 \<le> n \<and> n \<le> 57) \<or> c = CHR ''-'')"

fun squeeze_dashes :: "string \<Rightarrow> string" where
  "squeeze_dashes (CHR ''-'' # CHR ''-'' # s) = squeeze_dashes (CHR ''-'' # s)"
| "squeeze_dashes (c # s) = c # squeeze_dashes s"
| "squeeze_dashes [] = []"

definition strip_char :: "char \<Rightarrow> string \<Rightarrow> string" where
  "strip_char c s = rev (dropWhile (\<lambda>x. x = c) (rev (dropWhile (\<lambda>x. x = c) s)))"

definition sanitize_leaf :: "string \<Rightarrow> string" where
  "sanitize_leaf s =
     strip_char (CHR ''-'')
       (squeeze_dashes (map (\<lambda>c. if leaf_char c then c else CHR ''-'') (map lower_char s)))"

definition apply_prefix :: "string \<Rightarrow> string" where
  "apply_prefix suffix = wt_prefix @ dropWhile (\<lambda>c. c = CHR ''/'') (removeprefix suffix wt_prefix)"

definition last_segment :: "string \<Rightarrow> string" where
  "last_segment s = last (split_at (CHR ''/'') s)"

definition leaf_for_branch :: "string \<Rightarrow> string" where
  "leaf_for_branch branch =
     (let body = removeprefix branch wt_prefix
      in if starts_with body ''batch/'' then ''batch-'' @ sanitize_leaf (drop 6 body)
         else sanitize_leaf (last_segment branch))"

record worktree_binding =
  wb_branch :: string
  wb_leaf :: string

definition make_binding :: "string \<Rightarrow> string \<Rightarrow> wt_error + worktree_binding" where
  "make_binding branch leaf =
     (if \<not> starts_with branch wt_prefix then Inl Wt_ValueError
      else if leaf = [] \<or> CHR ''/'' \<in> set leaf then Inl Wt_ValueError
      else Inr \<lparr>wb_branch = branch, wb_leaf = leaf\<rparr>)"

definition bind_worktree :: "string \<Rightarrow> wt_error + worktree_binding" where
  "bind_worktree suffix = (let branch = apply_prefix suffix in make_binding branch (leaf_for_branch branch))"

section \<open>The bead of a branch\<close>

definition bead_prefix :: string where
  "bead_prefix = ''wt/bead/''"

definition bead_kinds :: "string list" where
  "bead_kinds = [''epic'', ''issue'']"

definition container_types :: "string list" where
  "container_types = [''epic'']"

definition or_none :: "string \<Rightarrow> string option" where
  "or_none s = (if s = [] then None else Some s)"

definition bead_id_from_branch :: "string \<Rightarrow> string option" where
  "bead_id_from_branch branch =
     (if \<not> starts_with branch bead_prefix then None
      else let rest = drop (length bead_prefix) branch
           in case partition_at (CHR ''/'') rest of
                (head, sep, tail) \<Rightarrow> if sep \<and> head \<in> set bead_kinds then or_none tail else or_none rest)"

section \<open>The integration base\<close>

definition bead_branch :: "string \<Rightarrow> string \<Rightarrow> string" where
  "bead_branch kind bead = bead_prefix @ kind @ ''/'' @ bead"

fun container_at :: "(string \<Rightarrow> bool) \<Rightarrow> string list \<Rightarrow> string \<Rightarrow> string" where
  "container_at ex [] parent = []"
| "container_at ex (t # ts) parent =
     (if ex (bead_branch t parent) then bead_branch t parent else container_at ex ts parent)"

text \<open>\<^verbatim>\<open>str.rpartition(c)\<close>: the parts around the last \<open>c\<close>, or \<open>None\<close>.\<close>

fun rpartition_at :: "char \<Rightarrow> string \<Rightarrow> (string \<times> string) option" where
  "rpartition_at c [] = None"
| "rpartition_at c (x # xs) =
     (case rpartition_at c xs of
        Some (a, b) \<Rightarrow> Some (x # a, b)
      | None \<Rightarrow> if x = c then Some ([], xs) else None)"

lemma rpartition_at_split: "rpartition_at c s = Some (a, b) \<Longrightarrow> s = a @ c # b \<and> c \<notin> set b"
proof -
  have none: "rpartition_at c s = None \<Longrightarrow> c \<notin> set s" for s
    by (induction s) (auto split: option.splits if_splits prod.splits)
  show "rpartition_at c s = Some (a, b) \<Longrightarrow> s = a @ c # b \<and> c \<notin> set b"
    by (induction s arbitrary: a) (auto dest: none split: option.splits if_splits prod.splits)
qed

lemma rpartition_at_none: "rpartition_at c s = None \<longleftrightarrow> c \<notin> set s"
  by (induction s) (auto split: option.splits if_splits prod.splits)

function id_prefix_base :: "(string \<Rightarrow> bool) \<Rightarrow> string \<Rightarrow> string \<Rightarrow> string" where
  "id_prefix_base ex integration node =
     (case rpartition_at (CHR ''.'') node of
        None \<Rightarrow> integration
      | Some (parent, tail) \<Rightarrow>
          if parent = [] then integration
          else let branch = container_at ex container_types parent
               in if branch \<noteq> [] then branch else id_prefix_base ex integration parent)"
  by pat_completeness auto

termination
  by (relation "measure (\<lambda>(ex, integration, node). length node)")
    (auto dest: rpartition_at_split)

declare id_prefix_base.simps [simp del]

text \<open>
  The parent link of a bead: \<open>Inl\<close> when the store raises. The climb gives the container, or \<open>Some\<close>
  of the integration branch when it stops.
\<close>

type_synonym 'e parent_lookup = "string \<Rightarrow> 'e + string"

partial_function (option) link_climb ::
  "'e parent_lookup \<Rightarrow> (string \<Rightarrow> bool) \<Rightarrow> string \<Rightarrow> string list \<Rightarrow> string \<Rightarrow> string option"
where
  "link_climb parent_of_bead ex integration seen node =
     (if node = [] \<or> node \<in> set seen then Some integration
      else (case parent_of_bead node of
              Inl e \<Rightarrow> Some integration
            | Inr parent \<Rightarrow>
                if parent = [] then Some integration
                else if container_at ex container_types parent \<noteq> []
                then Some (container_at ex container_types parent)
                else link_climb parent_of_bead ex integration (node # seen) parent))"

declare link_climb.simps [code]

definition parent_link_base ::
  "'e parent_lookup \<Rightarrow> (string \<Rightarrow> bool) \<Rightarrow> string \<Rightarrow> string option \<Rightarrow> string \<Rightarrow> string option"
where
  "parent_link_base parent_of_bead ex integration bead_data bead =
     link_climb (\<lambda>node. case bead_data of
                          Some parent \<Rightarrow> if node = bead then Inr parent else parent_of_bead node
                        | None \<Rightarrow> parent_of_bead node) ex integration [] bead"

definition integration_base ::
  "'e parent_lookup \<Rightarrow> (string \<Rightarrow> bool) \<Rightarrow> string \<Rightarrow> string option \<Rightarrow> string \<Rightarrow> string option"
where
  "integration_base parent_of_bead ex integration bead_data bead =
     (let id_base = id_prefix_base ex integration bead
      in map_option
           (\<lambda>link_base. if link_base \<noteq> integration \<and> link_base \<noteq> id_base then link_base else id_base)
           (parent_link_base parent_of_bead ex integration bead_data bead))"

definition container_conflict ::
  "'e parent_lookup \<Rightarrow> (string \<Rightarrow> bool) \<Rightarrow> string \<Rightarrow> string \<Rightarrow> (string \<times> string) option option"
where
  "container_conflict parent_of_bead ex integration bead =
     (let id_base = id_prefix_base ex integration bead
      in map_option
           (\<lambda>link_base. if id_base \<noteq> integration \<and> link_base \<noteq> integration \<and> id_base \<noteq> link_base
                        then Some (id_base, link_base) else None)
           (parent_link_base parent_of_bead ex integration None bead))"

section \<open>Facts about names\<close>

lemma leaf_char_lower: "leaf_char (if leaf_char c then c else CHR ''-'')"
  by (simp add: leaf_char_def)

lemma squeeze_dashes_set: "set (squeeze_dashes s) \<subseteq> set s"
  by (induction s rule: squeeze_dashes.induct) auto

lemma strip_char_set: "set (strip_char c s) \<subseteq> set s"
  unfolding strip_char_def by (metis set_dropWhileD set_rev subset_code(1))

lemma sanitize_leaf_chars: "c \<in> set (sanitize_leaf s) \<Longrightarrow> leaf_char c"
proof -
  assume "c \<in> set (sanitize_leaf s)"
  then have "c \<in> set (map (\<lambda>c. if leaf_char c then c else CHR ''-'') (map lower_char s))"
    using strip_char_set squeeze_dashes_set unfolding sanitize_leaf_def by blast
  then show ?thesis by (auto simp: leaf_char_def)
qed

lemma leaf_for_branch_chars: "c \<in> set (leaf_for_branch b) \<Longrightarrow> leaf_char c"
  by (auto simp: leaf_for_branch_def Let_def leaf_char_def dest: sanitize_leaf_chars split: if_splits)

lemma slash_no_leaf: "\<not> leaf_char (CHR ''/'')"
  by (simp add: leaf_char_def)

lemma bind_worktree_iff:
  "bind_worktree suffix = Inr b \<longleftrightarrow>
     b = \<lparr>wb_branch = apply_prefix suffix, wb_leaf = leaf_for_branch (apply_prefix suffix)\<rparr> \<and>
     leaf_for_branch (apply_prefix suffix) \<noteq> []"
proof -
  have "starts_with (apply_prefix suffix) wt_prefix" by (simp add: apply_prefix_def)
  moreover have "CHR ''/'' \<notin> set (leaf_for_branch (apply_prefix suffix))"
    using leaf_for_branch_chars slash_no_leaf by blast
  ultimately show ?thesis by (auto simp: bind_worktree_def make_binding_def Let_def)
qed

lemma bead_branch_id:
  "\<lbrakk>kind \<in> set bead_kinds; bead \<noteq> []\<rbrakk> \<Longrightarrow> bead_id_from_branch (bead_branch kind bead) = Some bead"
proof -
  assume k: "kind \<in> set bead_kinds" and b: "bead \<noteq> []"
  from k have "CHR ''/'' \<notin> set kind" by (auto simp: bead_kinds_def)
  then have "partition_at (CHR ''/'') (kind @ ''/'' @ bead) = (kind, True, bead)"
    by (simp add: partition_at_append)
  with k b show ?thesis by (simp add: bead_id_from_branch_def bead_branch_def or_none_def)
qed

section \<open>Facts about the climb\<close>

lemma container_at_iff: "container_at ex ts p \<noteq> [] \<longleftrightarrow> (\<exists>t \<in> set ts. ex (bead_branch t p))"
  by (induction ts) (auto simp: bead_branch_def bead_prefix_def)

lemma container_epic: "container_at ex container_types p \<noteq> [] \<Longrightarrow>
    container_at ex container_types p = bead_branch ''epic'' p \<and> ex (bead_branch ''epic'' p)"
  by (auto simp: container_types_def split: if_splits)

text \<open>The dotted ancestors of an id: what stands before one of its dots.\<close>

definition dotted_ancestor :: "string \<Rightarrow> string \<Rightarrow> bool" where
  "dotted_ancestor bead p \<longleftrightarrow> p \<noteq> [] \<and> (\<exists>s. bead = p @ CHR ''.'' # s)"

lemma dotted_ancestor_step:
  assumes "rpartition_at (CHR ''.'') bead = Some (parent, tail)"
  shows "dotted_ancestor bead p \<longleftrightarrow> p \<noteq> [] \<and> (p = parent \<or> dotted_ancestor parent p)"
proof -
  from rpartition_at_split [OF assms] have b: "bead = parent @ CHR ''.'' # tail" "CHR ''.'' \<notin> set tail"
    by auto
  show ?thesis
  proof
    assume "dotted_ancestor bead p"
    then obtain s where s: "p \<noteq> []" "parent @ CHR ''.'' # tail = p @ CHR ''.'' # s"
      unfolding dotted_ancestor_def using b by auto
    from this(2) b(2) show "p \<noteq> [] \<and> (p = parent \<or> dotted_ancestor parent p)"
      using s(1) unfolding dotted_ancestor_def append_eq_append_conv2
      by (auto simp: Cons_eq_append_conv append_eq_Cons_conv)
  next
    assume "p \<noteq> [] \<and> (p = parent \<or> dotted_ancestor parent p)"
    then show "dotted_ancestor bead p" unfolding dotted_ancestor_def b(1) by auto
  qed
qed

lemma no_dotted_ancestor:
  "rpartition_at (CHR ''.'') bead = None \<Longrightarrow> \<not> dotted_ancestor bead p"
  by (auto simp: rpartition_at_none dotted_ancestor_def)

text \<open>The nearest started container of an id, as a specification.\<close>

definition nearest_base :: "(string \<Rightarrow> bool) \<Rightarrow> string \<Rightarrow> string \<Rightarrow> string \<Rightarrow> bool" where
  "nearest_base ex integration bead b \<longleftrightarrow>
     (\<exists>p. dotted_ancestor bead p \<and> ex (bead_branch ''epic'' p) \<and> b = bead_branch ''epic'' p \<and>
        (\<forall>q. dotted_ancestor bead q \<and> ex (bead_branch ''epic'' q) \<longrightarrow> length q \<le> length p)) \<or>
     (b = integration \<and> (\<forall>p. dotted_ancestor bead p \<longrightarrow> \<not> ex (bead_branch ''epic'' p)))"

lemma nearest_base_climb:
  assumes "\<And>p. dotted_ancestor node p \<longleftrightarrow> p = parent \<or> dotted_ancestor parent p"
    and "\<not> ex (bead_branch ''epic'' parent)"
  shows "nearest_base ex integration node b \<longleftrightarrow> nearest_base ex integration parent b"
proof -
  have "dotted_ancestor node p \<and> ex (bead_branch ''epic'' p) \<longleftrightarrow>
        dotted_ancestor parent p \<and> ex (bead_branch ''epic'' p)" for p
    using assms by auto
  then show ?thesis unfolding nearest_base_def by (metis (no_types, lifting))
qed

lemma id_prefix_base_nearest: "nearest_base ex integration bead (id_prefix_base ex integration bead)"
proof (induction ex integration bead rule: id_prefix_base.induct)
  case (1 ex integration node)
  show ?case
  proof (cases "rpartition_at (CHR ''.'') node")
    case None
    then show ?thesis by (simp add: nearest_base_def id_prefix_base.simps no_dotted_ancestor)
  next
    case (Some pt)
    obtain parent tail where pt: "pt = (parent, tail)" by (cases pt)
    note step = dotted_ancestor_step [OF Some [unfolded pt]]
    show ?thesis
    proof (cases "parent = []")
      case True
      then have "\<not> dotted_ancestor node p" for p
        using step by (auto simp: dotted_ancestor_def)
      with True Some pt show ?thesis
        by (simp add: nearest_base_def id_prefix_base.simps [of ex integration node])
    next
      case nonempty: False
      have anc: "dotted_ancestor node p \<longleftrightarrow> p = parent \<or> dotted_ancestor parent p" for p
        using step [of p] nonempty by (auto simp: dotted_ancestor_def)
      show ?thesis
      proof (cases "container_at ex container_types parent = []")
        case True
        then have "\<not> ex (bead_branch ''epic'' parent)"
          using container_at_iff [of ex container_types parent] by (auto simp: container_types_def)
        note climb = nearest_base_climb [of node parent ex, OF anc this]
        have same: "id_prefix_base ex integration node = id_prefix_base ex integration parent"
          using Some pt nonempty True by (subst id_prefix_base.simps) simp
        have "nearest_base ex integration parent (id_prefix_base ex integration parent)"
          by (rule "1.IH" [OF Some pt [symmetric] nonempty refl]) (simp add: True)
        then show ?thesis unfolding same climb .
      next
        case False
        have "length q \<le> length parent" if "dotted_ancestor node q" for q
        proof -
          from that anc [of q] have "q = parent \<or> dotted_ancestor parent q" by simp
          then show ?thesis by (auto simp: dotted_ancestor_def)
        qed
        moreover have "id_prefix_base ex integration node = container_at ex container_types parent"
          using Some pt nonempty False by (subst id_prefix_base.simps) simp
        moreover have "dotted_ancestor node parent" using anc by simp
        ultimately show ?thesis unfolding nearest_base_def using container_epic [OF False] by metis
      qed
    qed
  qed
qed

text \<open>Along the parent links: the climb returns, and what it returns is a started container above.\<close>

definition linked :: "'e parent_lookup \<Rightarrow> string \<Rightarrow> string \<Rightarrow> bool" where
  "linked parent_of_bead a b \<longleftrightarrow> parent_of_bead a = Inr b \<and> b \<noteq> []"

lemma link_climb_returns:
  assumes "finite {n. \<exists>p. linked par n p}"
  shows "\<exists>b. link_climb par ex integration seen node = Some b"
proof (induction "card ({n. \<exists>p. linked par n p} - set seen)" arbitrary: seen node rule: less_induct)
  case less
  let ?A = "\<lambda>seen. {n. \<exists>p. linked par n p} - set seen"
  show ?case
  proof (cases "\<exists>p. linked par node p \<and> node \<notin> set seen")
    case True
    then obtain p where p: "linked par node p" "node \<notin> set seen" by blast
    then have "node \<in> ?A seen" by blast
    then have "card (?A (node # seen)) < card (?A seen)"
      by (intro psubset_card_mono) (use assms in auto)
    from less [OF this, of p] p show ?thesis
      by (subst link_climb.simps) (auto simp: linked_def)
  next
    case False
    then show ?thesis
      by (subst link_climb.simps) (auto simp: linked_def split: sum.splits)
  qed
qed

lemma link_climb_container:
  assumes "link_climb par ex integration seen node = Some b" "b \<noteq> integration"
  shows "\<exists>p. (linked par)\<^sup>+\<^sup>+ node p \<and> b = bead_branch ''epic'' p \<and> ex b"
proof -
  let ?P = "\<lambda>par ex integration seen node b.
    b \<noteq> integration \<longrightarrow> (\<exists>p. (linked par)\<^sup>+\<^sup>+ node p \<and> b = bead_branch ''epic'' p \<and> ex b)"
  have "?P par ex integration seen node b"
  proof (rule link_climb.raw_induct [OF _ assms(1), where P = ?P])
    fix climb par ex integration seen node b
    assume IH: "\<And>par ex integration seen node b.
        climb par ex integration seen node = Some b \<Longrightarrow> ?P par ex integration seen node b"
      and body: "(if node = [] \<or> node \<in> set seen then Some integration
        else case par node of Inl e \<Rightarrow> Some integration
          | Inr parent \<Rightarrow>
              if parent = [] then Some integration
              else if container_at ex container_types parent \<noteq> []
              then Some (container_at ex container_types parent)
              else climb par ex integration (node # seen) parent) = Some b"
    show "?P par ex integration seen node b"
    proof
      assume other: "b \<noteq> integration"
      with body obtain parent where p: "linked par node parent"
        and res: "(if container_at ex container_types parent \<noteq> []
              then Some (container_at ex container_types parent)
              else climb par ex integration (node # seen) parent) = Some b"
        by (auto simp: linked_def split: if_splits sum.splits)
      show "\<exists>p. (linked par)\<^sup>+\<^sup>+ node p \<and> b = bead_branch ''epic'' p \<and> ex b"
      proof (cases "container_at ex container_types parent = []")
        case True
        with res have "climb par ex integration (node # seen) parent = Some b" by simp
        from IH [OF this] other p show ?thesis by (blast intro: tranclp_into_tranclp2)
      next
        case False
        with res container_epic [OF False] p show ?thesis by auto
      qed
    qed
  qed
  with assms(2) show ?thesis by blast
qed

lemma integration_base_returns:
  assumes "finite {n. \<exists>p. linked par n p}"
  obtains b where "integration_base par ex integration None bead = Some b"
  using link_climb_returns [OF assms, of ex integration "[]" bead]
  by (auto simp: integration_base_def parent_link_base_def Let_def)

end
