(* ===== verification/Wt_Evidence.thy ===== *)
theory Wt_Evidence
  imports Wt_Naming
begin

text \<open>
  The evidence the classifier is given and what a prune does with its answer
  (\<^verbatim>\<open>beadhive_worktrees/policy/bead_state.py\<close>,
  \<^verbatim>\<open>beadhive_worktrees/application/{classification_service,prune_selection,merge_tiers,status_presentation}.py\<close>,
  \<^verbatim>\<open>src/beadhive/{worktree_inventory,worktree_cleanup,worktree_git}.py\<close>).

  The bead store is a record of reads (\<^verbatim>\<open>BeadStateLookup\<close>); a read is a function, so one command sees
  one state of the store. A field of a bead that is missing, null or empty is the empty string: the
  code reads every field with \<^verbatim>\<open>or ""\<close> or a default. Git answers are functions in the record of a hive.
  Strings are byte strings in UTF-8.
\<close>

section \<open>The bead store\<close>

record dep_row =
  dp_type :: string
  dp_dependency_type :: string
  dp_depends_on_id :: string
  dp_id :: string

record bead_row =
  br_id :: string
  br_status :: string
  br_close_reason :: string
  br_parent :: string
  br_labels :: "string list"
  br_dependencies :: "dep_row option list"

record bead_lookup =
  bl_probe :: "string \<Rightarrow> bead_row option list option"
  bl_show :: "string \<Rightarrow> string \<Rightarrow> bead_row option"
  bl_all_issues :: "string \<Rightarrow> bead_row option list option"

definition em_dash :: string where
  "em_dash = [CHR 0xE2, CHR 0x80, CHR 0x94]"

definition store_reason :: "bead_lookup \<Rightarrow> string \<Rightarrow> string" where
  "store_reason lookup main =
     (case bl_probe lookup main of
        None \<Rightarrow>
          ''the bead store at '' @ main @ '' could not be READ (bd exited non-zero or returned no JSON) ''
          @ em_dash @ '' bd absent, a schema-fork guard refusing to open the database, or a store engine ''
          @ ''that is down; try `bh bd list` there to see bd's own error''
      | Some [] \<Rightarrow>
          ''the bead store at '' @ main @ '' answered with ZERO issues '' @ em_dash
          @ '' an empty hive, or a store bd is refusing to read (its schema-fork guard reports no issues ''
          @ ''rather than an error: `bd migrate schema --inspect` reports the real version skew)''
      | Some (i # is) \<Rightarrow> [])"

definition missing_reason :: "string \<Rightarrow> string" where
  "missing_reason bead_id =
     ''the store answers, but bead '' @ bead_id @ '' is not in it '' @ em_dash
     @ '' the branch names an id that no longer exists (a retired bead prefix leaves every worktree ''
     @ ''created under the old one unresolvable), or the bead was deleted''"

type_synonym states = "(string \<times> string) list \<times> (string \<times> string) list \<times> (string \<times> string) list"

definition bead_state_step :: "bead_lookup \<Rightarrow> string \<Rightarrow> string \<Rightarrow> string \<Rightarrow> states \<Rightarrow> states" where
  "bead_state_step lookup main reason bead_id st =
     (case st of (statuses, close_reasons, unknown) \<Rightarrow>
        if map_of statuses bead_id \<noteq> None then st
        else let bead = bl_show lookup bead_id main;
                 status = (case bead of None \<Rightarrow> [] | Some b \<Rightarrow> br_status b);
                 close_reason = (case bead of None \<Rightarrow> [] | Some b \<Rightarrow> br_close_reason b)
             in (AList.update bead_id status statuses, AList.update bead_id close_reason close_reasons,
                 if status = [] \<and> reason = [] then AList.update bead_id (missing_reason bead_id) unknown
                 else unknown))"

definition bead_states :: "bead_lookup \<Rightarrow> string \<Rightarrow> string list \<Rightarrow> string \<Rightarrow> states \<times> string" where
  "bead_states lookup main bead_ids reason =
     (fold (bead_state_step lookup main reason) bead_ids ([], [], []), reason)"

definition dispositions_needing_evidence :: "(string \<times> string) list \<Rightarrow> (string \<times> wt_disposition) list" where
  "dispositions_needing_evidence close_reasons =
     List.map_filter (\<lambda>(bead_id, close_reason).
       case parse_disposition close_reason of
         None \<Rightarrow> None
       | Some d \<Rightarrow> if d_state d \<noteq> ''stale'' then Some (bead_id, d) else None) close_reasons"

definition first_truthy :: "string \<Rightarrow> string \<Rightarrow> string" where
  "first_truthy a b = (if a \<noteq> [] then a else b)"

definition dep_matches :: "string \<Rightarrow> string \<Rightarrow> dep_row option \<Rightarrow> bool" where
  "dep_matches relation target dep =
     (case dep of
        None \<Rightarrow> False
      | Some d \<Rightarrow> first_truthy (dp_type d) (dp_dependency_type d) = relation \<and>
                   first_truthy (dp_depends_on_id d) (dp_id d) = target)"

definition relation_found :: "bead_lookup \<Rightarrow> string \<Rightarrow> string \<Rightarrow> wt_disposition \<Rightarrow> bool" where
  "relation_found lookup main bead_id d =
     (let (source, target, relation) =
            (if d_state d = ''retained'' then (bead_id, d_citing d, ''relates-to'')
             else (d_citing d, bead_id, ''supersedes''))
      in case bl_show lookup source main of
           None \<Rightarrow> False
         | Some b \<Rightarrow> list_ex (dep_matches relation target) (br_dependencies b))"

definition disposition_relations ::
  "bead_lookup \<Rightarrow> string \<Rightarrow> (string \<times> wt_disposition) list \<Rightarrow> (string \<times> (string \<times> string) set) list"
where
  "disposition_relations lookup main dispositions =
     map (\<lambda>(bead_id, d). (bead_id, {(d_state d, d_citing d)}))
       (filter (\<lambda>(bead_id, d). relation_found lookup main bead_id d) dispositions)"

section \<open>Batch evidence\<close>

text \<open>\<^verbatim>\<open>dict.fromkeys\<close>: the distinct elements in order of first appearance.\<close>

definition first_seen :: "'a list \<Rightarrow> 'a list" where
  "first_seen xs = rev (remdups (rev xs))"

definition batch_branches :: "managed_row list \<Rightarrow> string list" where
  "batch_branches rows =
     first_seen (filter (\<lambda>b. starts_with b batch_prefix \<and> removeprefix b batch_prefix \<noteq> [])
       (map (\<lambda>(prefix, path, branch). branch) rows))"

definition label_prefix :: string where
  "label_prefix = ''batch:''"

definition issue_groups :: "bead_row \<Rightarrow> string list" where
  "issue_groups issue =
     map (\<lambda>l. removeprefix l label_prefix) (filter (\<lambda>l. starts_with l label_prefix) (br_labels issue))"

type_synonym members = "(string \<times> (string \<times> string) list) list"

definition member_step ::
  "string list \<Rightarrow> bead_row option \<Rightarrow> members \<times> string list \<Rightarrow> members \<times> string list"
where
  "member_step requested issue st =
     (case (issue, st) of
        (None, _) \<Rightarrow> st
      | (Some i, (members, invalid)) \<Rightarrow>
          let matching = filter (\<lambda>g. g \<in> set requested) (issue_groups i)
          in (case matching of
                [] \<Rightarrow> st
              | grp # rest \<Rightarrow>
                  if br_id i = [] \<or> length (issue_groups i) \<noteq> 1 then (members, matching @ invalid)
                  else let found = get_or [] members grp
                       in if map_of found (br_id i) \<noteq> None \<and> map_of found (br_id i) \<noteq> Some (br_status i)
                          then (members, grp # invalid)
                          else (AList.update grp (AList.update (br_id i) (br_status i) found) members, invalid)))"

definition one_parent :: "(string \<Rightarrow> string option) \<Rightarrow> (string \<times> string) list \<Rightarrow> string option" where
  "one_parent base ms =
     (case those (map (\<lambda>m. base (fst m)) ms) of
        None \<Rightarrow> None
      | Some parents \<Rightarrow>
          (case remdups (filter (\<lambda>p. p \<noteq> []) parents) of [p] \<Rightarrow> Some p | _ \<Rightarrow> None))"

definition group_evidence ::
  "(string \<Rightarrow> string option) \<Rightarrow> members \<times> string list \<Rightarrow> string \<Rightarrow> (string \<times> batch_evidence) option"
where
  "group_evidence base st branch =
     (case st of (members, invalid) \<Rightarrow>
        let grp = removeprefix branch batch_prefix; ms = get_or [] members grp
        in if grp \<in> set invalid \<or> ms = [] then None
           else map_option (\<lambda>p. (branch, \<lparr>be_member_statuses = sort_key fst ms, be_parent = p\<rparr>))
                  (one_parent base ms))"

definition resolve_batch_evidence ::
  "bead_lookup \<Rightarrow> string \<Rightarrow> (string \<Rightarrow> string option) \<Rightarrow> managed_row list \<Rightarrow> (string \<times> batch_evidence) list"
where
  "resolve_batch_evidence lookup main base rows =
     (let branches = batch_branches rows;
          requested = map (\<lambda>b. removeprefix b batch_prefix) branches
      in if branches = [] then []
         else case bl_all_issues lookup main of
                None \<Rightarrow> []
              | Some issues \<Rightarrow>
                  List.map_filter
                    (group_evidence base (fold (member_step requested) issues (map (\<lambda>g. (g, [])) requested, [])))
                    branches)"

section \<open>Landed, and the arguments of one hive\<close>

definition line_breaks :: "char set" where
  "line_breaks = {CHR 0x0A, CHR 0x0B, CHR 0x0C, CHR 0x0D, CHR 0x1C, CHR 0x1D, CHR 0x1E}"

definition white :: "char set" where
  "white = insert (CHR '' '') (insert (CHR 0x09) (insert (CHR 0x1F) line_breaks))"

fun split_lines :: "string \<Rightarrow> string list" where
  "split_lines [] = [[]]"
| "split_lines (c # s) =
     (if c \<in> line_breaks then [] # split_lines s
      else (case split_lines s of [] \<Rightarrow> [[c]] | l # ls \<Rightarrow> (c # l) # ls))"

text \<open>The lines of an output that are not blank.\<close>

definition nonblank_lines :: "string \<Rightarrow> string list" where
  "nonblank_lines s = filter (list_ex (\<lambda>c. c \<notin> white)) (split_lines s)"

definition all_cherry_landed :: "int \<Rightarrow> string \<Rightarrow> bool" where
  "all_cherry_landed returncode out \<longleftrightarrow>
     returncode = 0 \<and> list_all (\<lambda>ln. starts_with ln ''- '') (nonblank_lines out)"

record 'p hive_env =
  he_prefix :: string
  he_main :: string
  he_integration :: string
  he_meta_branches :: "(string option \<times> bool) list"
  he_lookup :: bead_lookup
  he_branch_exists :: "string \<Rightarrow> bool"
  he_is_ancestor :: "string \<Rightarrow> string \<Rightarrow> bool"
  he_cherry :: "string \<Rightarrow> string \<Rightarrow> int \<times> string"
  he_merged_pr :: "string \<Rightarrow> bool"
  he_rel_parts :: "string \<Rightarrow> string list"
  he_dirty :: "string \<Rightarrow> bool"
  he_precious :: "string \<Rightarrow> 'p list"
  he_outside_root :: "string \<Rightarrow> bool"

definition is_landed :: "'p hive_env \<Rightarrow> string \<Rightarrow> string \<Rightarrow> string \<Rightarrow> bool" where
  "is_landed env branch parent close_reason \<longleftrightarrow>
     close_reason \<in> {''merged'', ''molecule landed''} \<or>
     (case he_cherry env parent branch of (rc, out) \<Rightarrow> all_cherry_landed rc out) \<or>
     he_merged_pr env branch"

text \<open>
  The parent link of a bead in this hive. A climb that never ends, which no finite store allows
  (\<open>link_climb_returns\<close>), is given the integration branch.
\<close>

definition store_parent :: "'p hive_env \<Rightarrow> unit parent_lookup" where
  "store_parent env bead =
     Inr (case bl_show (he_lookup env) bead (he_main env) of None \<Rightarrow> [] | Some b \<Rightarrow> br_parent b)"

definition hive_base :: "'p hive_env \<Rightarrow> string \<Rightarrow> string" where
  "hive_base env bead =
     (case integration_base (store_parent env) (he_branch_exists env) (he_integration env) None bead of
        None \<Rightarrow> he_integration env
      | Some b \<Rightarrow> b)"

definition leaf_bead :: "'p hive_env \<Rightarrow> string \<Rightarrow> string option" where
  "leaf_bead env path =
     (let parts = he_rel_parts env path
      in if length parts < 4 \<or> last parts = [] then None
         else if list_ex (\<lambda>t. he_branch_exists env (bead_branch t (last parts))) bead_kinds
         then Some (last parts) else None)"

definition bead_and_parent :: "'p hive_env \<Rightarrow> string \<Rightarrow> string \<Rightarrow> string \<Rightarrow> string option \<times> string" where
  "bead_and_parent env path integration branch =
     (let bead_id = (if branch \<noteq> [] then bead_id_from_branch branch else leaf_bead env path)
      in (bead_id, case bead_id of None \<Rightarrow> integration | Some i \<Rightarrow> hive_base env i))"

definition row_bead_ids :: "managed_row list \<Rightarrow> string list" where
  "row_bead_ids rows =
     first_seen (List.map_filter (\<lambda>(prefix, path, branch). bead_id_from_branch branch) rows)"

definition bead_statuses_for_entry :: "'p hive_env \<Rightarrow> managed_row list \<Rightarrow> states \<times> string" where
  "bead_statuses_for_entry env rows =
     bead_states (he_lookup env) (he_main env) (row_bead_ids rows) (store_reason (he_lookup env) (he_main env))"

definition relations_for_entry :: "'p hive_env \<Rightarrow> (string \<times> string) list \<Rightarrow> (string \<times> (string \<times> string) set) list" where
  "relations_for_entry env close_reasons =
     (let ds = dispositions_needing_evidence close_reasons
      in if ds = [] then [] else disposition_relations (he_lookup env) (he_main env) ds)"

definition batch_evidence_for_entry :: "'p hive_env \<Rightarrow> managed_row list \<Rightarrow> (string \<times> batch_evidence) list" where
  "batch_evidence_for_entry env rows =
     (if \<not> list_ex (\<lambda>(prefix, path, branch). starts_with branch batch_prefix \<and> removeprefix branch batch_prefix \<noteq> []) rows
      then []
      else resolve_batch_evidence (he_lookup env) (he_main env) (\<lambda>bead. Some (hive_base env bead)) rows)"

definition entry_args :: "'p hive_env \<Rightarrow> managed_row list \<Rightarrow> 'p classify_args" where
  "entry_args env rows =
     (case bead_statuses_for_entry env rows of ((statuses, close_reasons, unknown), reason) \<Rightarrow>
        \<lparr>ca_hive_prefix = he_prefix env, ca_meta_branches = he_meta_branches env,
         ca_bead_statuses = statuses,
         ca_dirty_by_path = map (\<lambda>(prefix, path, branch). (path, he_dirty env path)) rows,
         ca_is_merged = (\<lambda>prefix. he_is_ancestor env),
         ca_parent = (\<lambda>prefix. bead_and_parent env),
         ca_integration = he_integration env,
         ca_is_landed = Some (\<lambda>prefix. is_landed env),
         ca_close_reasons = close_reasons, ca_unknown_reasons = unknown, ca_store_unreadable = reason,
         ca_precious = map (\<lambda>(prefix, path, branch). (path, he_precious env path)) rows,
         ca_relations = relations_for_entry env close_reasons,
         ca_batches = batch_evidence_for_entry env rows\<rparr>)"

definition flag_legacy_root :: "(string \<Rightarrow> bool) \<Rightarrow> 'p wt_status list \<Rightarrow> 'p wt_status list" where
  "flag_legacy_root outside statuses = map (\<lambda>s. s\<lparr>ws_legacy_root := outside (ws_path s)\<rparr>) statuses"

definition classify_entry :: "'p hive_env \<Rightarrow> managed_row list \<Rightarrow> 'p wt_status list" where
  "classify_entry env rows = flag_legacy_root (he_outside_root env) (classify (entry_args env rows) rows)"

section \<open>All hives, and prune\<close>

text \<open>
  The hives are classified by a thread pool; \<open>finish\<close> is the order in which the jobs complete. The
  callback \<^verbatim>\<open>on_complete\<close> is the list of its calls.
\<close>

type_synonym ('e, 'p) job = "string \<times> 'e \<times> managed_row list"

definition jobs_of :: "('e \<Rightarrow> string) \<Rightarrow> 'e list \<Rightarrow> (string \<Rightarrow> managed_row list) \<Rightarrow> ('e, 'p) job list" where
  "jobs_of prefix_of entries rows_of =
     map (\<lambda>e. (prefix_of e, e, rows_of (prefix_of e))) (filter (\<lambda>e. rows_of (prefix_of e) \<noteq> []) entries)"

definition complete_job ::
  "('e \<Rightarrow> managed_row list \<Rightarrow> 'p wt_status list) \<Rightarrow> ('e, 'p) job
     \<Rightarrow> (string \<times> 'p wt_status list) list \<times> (string \<times> 'p wt_status list) list
     \<Rightarrow> (string \<times> 'p wt_status list) list \<times> (string \<times> 'p wt_status list) list"
where
  "complete_job one job st =
     (case (job, st) of ((prefix, e, rows), (results, calls)) \<Rightarrow>
        (AList.update prefix (one e rows) results, calls @ [(prefix, one e rows)]))"

definition classify_entries ::
  "(('e, 'p) job list \<Rightarrow> ('e, 'p) job list) \<Rightarrow> ('e \<Rightarrow> string) \<Rightarrow> ('e \<Rightarrow> managed_row list \<Rightarrow> 'p wt_status list)
     \<Rightarrow> 'e list \<Rightarrow> (string \<Rightarrow> managed_row list)
     \<Rightarrow> (string \<times> 'p wt_status list) list \<times> (string \<times> 'p wt_status list) list"
where
  "classify_entries finish prefix_of one entries rows_of =
     (case jobs_of prefix_of entries rows_of of
        [] \<Rightarrow> ([], [])
      | [job] \<Rightarrow> complete_job one job ([], [])
      | jobs \<Rightarrow> fold (complete_job one) (finish jobs) ([], []))"

definition ordered_statuses :: "('e \<Rightarrow> string) \<Rightarrow> 'e list \<Rightarrow> (string \<times> 'p wt_status list) list \<Rightarrow> 'p wt_status list" where
  "ordered_statuses prefix_of entries results = concat (map (\<lambda>e. get_or [] results (prefix_of e)) entries)"

definition split_safe_skipped :: "'p wt_status list \<Rightarrow> 'p wt_status list \<times> 'p wt_status list" where
  "split_safe_skipped statuses = (filter ws_safe statuses, filter (\<lambda>s. \<not> ws_safe s) statuses)"

definition withhold_untrustworthy ::
  "'p wt_status list \<Rightarrow> 'p wt_status list \<Rightarrow> 'p wt_status list \<times> 'p wt_status list \<times> string list"
where
  "withhold_untrustworthy safe_set skipped =
     (let tainted = first_seen (map ws_hive (untrustworthy (safe_set @ skipped)))
      in if tainted = [] then (safe_set, skipped, tainted)
         else (filter (\<lambda>s. ws_hive s \<notin> set tainted) safe_set,
               skipped @ filter (\<lambda>s. ws_hive s \<in> set tainted) safe_set, tainted))"

definition prune_classify ::
  "((('p hive_env), 'p) job list \<Rightarrow> ('p hive_env, 'p) job list) \<Rightarrow> (string \<times> 'p hive_env) list \<Rightarrow> managed_row list
     \<Rightarrow> 'p wt_status list \<times> 'p wt_status list"
where
  "prune_classify finish entries_by_prefix rows =
     (let prefixes = first_seen (map fst rows);
          entries = List.map_filter (map_of entries_by_prefix) prefixes;
          (results, calls) = classify_entries finish he_prefix classify_entry entries
                               (\<lambda>prefix. filter (\<lambda>r. fst r = prefix) rows)
      in split_safe_skipped (concat (map (get_or [] results) prefixes)))"

record 'p prune_result =
  pr_attempts :: "'p wt_status list"
  pr_removed :: nat
  pr_skipped :: "'p wt_status list"
  pr_exit :: nat

definition prune_remove_all ::
  "(string \<times> 'p hive_env) list \<Rightarrow> ('p wt_status \<Rightarrow> bool) \<Rightarrow> 'p wt_status list \<Rightarrow> 'p wt_status list \<times> nat"
where
  "prune_remove_all entries_by_prefix removes safe_set =
     (let attempts = filter (\<lambda>s. map_of entries_by_prefix (ws_hive s) \<noteq> None) safe_set
      in (attempts, length (filter removes attempts)))"

definition wt_prune ::
  "(('p hive_env, 'p) job list \<Rightarrow> ('p hive_env, 'p) job list) \<Rightarrow> (string \<times> 'p hive_env) list
     \<Rightarrow> ('p wt_status \<Rightarrow> bool) \<Rightarrow> string option \<Rightarrow> managed_row list \<Rightarrow> 'p prune_result"
where
  "wt_prune finish entries_by_prefix removes want all_rows =
     (let rows = filter (\<lambda>r. want = None \<or> want = Some (fst r)) all_rows;
          (safe0, skipped0) = prune_classify finish entries_by_prefix rows;
          (safe_set, skipped, tainted) = withhold_untrustworthy safe0 skipped0;
          (attempts, removed) =
            (if safe_set = [] then ([], 0) else prune_remove_all entries_by_prefix removes safe_set)
      in \<lparr>pr_attempts = attempts, pr_removed = removed, pr_skipped = skipped,
          pr_exit = (if tainted = [] then 0 else 1)\<rparr>)"

end
