(* ===== verification/Wt_Laws.thy ===== *)
theory Wt_Laws
  imports Wt_Evidence
begin

text \<open>
  Lemmas about the worktree classifier: the disposition codec is exact on its valid records, a row is
  safe exactly when the evidence for removal is there (\<open>removable\<close>), and a row is untrustworthy exactly
  when its bead did not resolve.
\<close>

section \<open>The codec\<close>

lemma keyed_value_found:
  "CHR ''='' \<notin> set key \<Longrightarrow> keyed_value key part = Some val \<longleftrightarrow> part = key @ CHR ''='' # val"
proof -
  assume "CHR ''='' \<notin> set key"
  then have "keyed_value key (key @ CHR ''='' # val) = Some val"
    by (simp add: keyed_value_def partition_at_append)
  moreover have "part = key @ CHR ''='' # val" if "keyed_value key part = Some val"
    using that by (cases "partition_at (CHR ''='') part")
      (auto simp: keyed_value_def split: if_splits dest: partition_at_found)
  ultimately show ?thesis by blast
qed

definition spelled :: "wt_disposition \<Rightarrow> string" where
  "spelled d = disposition_prefix @ '';state='' @ d_state d @ '';reason='' @ d_reason d @ '';citing='' @ d_citing d"

lemma split_spelled:
  assumes "CHR '';'' \<notin> set (d_state d)" "CHR '';'' \<notin> set (d_reason d)" "CHR '';'' \<notin> set (d_citing d)"
  shows "split_at (CHR '';'') (spelled d) =
    [disposition_prefix, ''state='' @ d_state d, ''reason='' @ d_reason d, ''citing='' @ d_citing d]"
proof -
  have "spelled d = disposition_prefix @ CHR '';'' # (''state='' @ d_state d) @ CHR '';'' #
      (''reason='' @ d_reason d) @ CHR '';'' # (''citing='' @ d_citing d)"
    by (simp add: spelled_def)
  moreover have "CHR '';'' \<notin> set disposition_prefix" by (simp add: disposition_prefix_def)
  ultimately show ?thesis
    using assms by (simp only: split_at_append split_at_no_sep) (simp add: split_at_append split_at_no_sep)
qed

definition valid_disposition :: "wt_disposition \<Rightarrow> bool" where
  "valid_disposition d \<longleftrightarrow>
     d_state d \<in> disposition_states \<and> d_reason d \<in> disposition_reasons \<and>
     (d_state d = ''stale'' \<longleftrightarrow> d_citing d = [])"

lemma stale_states: "s \<in> disposition_states \<Longrightarrow> s \<in> {''retained'', ''superseded''} \<longleftrightarrow> s \<noteq> ''stale''"
  by (auto simp: disposition_states_def)

lemma format_disposition_iff:
  "format_disposition (d_state d) (d_reason d) (d_citing d) = Inr t \<longleftrightarrow>
     valid_disposition d \<and> set (d_citing d) \<inter> reserved = {} \<and> t = spelled d"
  using stale_states [of "d_state d"]
  by (auto simp: format_disposition_def valid_disposition_def spelled_def list_ex_iff)

lemma checked_disposition_iff:
  "checked_disposition s r c = Some d \<longleftrightarrow> d = \<lparr>d_state = s, d_reason = r, d_citing = c\<rparr> \<and> valid_disposition d"
proof (cases "s \<in> disposition_states")
  case True
  then show ?thesis
    unfolding checked_disposition_def stale_states [OF True] valid_disposition_def by auto
next
  case False
  then show ?thesis unfolding checked_disposition_def valid_disposition_def by auto
qed

lemma parse_disposition_parts:
  "parse_disposition t = Some d \<longleftrightarrow>
     (\<exists>p1 p2 p3 s r c. split_at (CHR '';'') t = [disposition_prefix, p1, p2, p3] \<and>
        keyed_value ''state'' p1 = Some s \<and> keyed_value ''reason'' p2 = Some r \<and>
        keyed_value ''citing'' p3 = Some c \<and> checked_disposition s r c = Some d)"
  unfolding parse_disposition_def
  by (simp split: list.split option.split)

lemma parse_disposition_iff:
  "parse_disposition t = Some d \<longleftrightarrow>
     valid_disposition d \<and> CHR '';'' \<notin> set (d_citing d) \<and> t = spelled d"
proof
  assume "parse_disposition t = Some d"
  then obtain p1 p2 p3 s r c where parts: "split_at (CHR '';'') t = [disposition_prefix, p1, p2, p3]"
    and keys: "keyed_value ''state'' p1 = Some s" "keyed_value ''reason'' p2 = Some r" "keyed_value ''citing'' p3 = Some c"
    and d: "d = \<lparr>d_state = s, d_reason = r, d_citing = c\<rparr>" "valid_disposition d"
    unfolding parse_disposition_parts checked_disposition_iff by blast
  from keys have k: "p1 = ''state='' @ s" "p2 = ''reason='' @ r" "p3 = ''citing='' @ c"
    by (simp_all add: keyed_value_found)
  have "t = spelled d"
    using join_split_at [of "CHR '';''" t] unfolding parts k d spelled_def by simp
  moreover have "CHR '';'' \<notin> set p3"
    using split_at_parts [of p3 "CHR '';''" t] parts by simp
  ultimately show "valid_disposition d \<and> CHR '';'' \<notin> set (d_citing d) \<and> t = spelled d"
    using d k by simp
next
  assume d: "valid_disposition d \<and> CHR '';'' \<notin> set (d_citing d) \<and> t = spelled d"
  then have "CHR '';'' \<notin> set (d_state d)" "CHR '';'' \<notin> set (d_reason d)"
    by (auto simp: valid_disposition_def disposition_states_def disposition_reasons_def)
  with d have parts: "split_at (CHR '';'') t =
      [disposition_prefix, ''state='' @ d_state d, ''reason='' @ d_reason d, ''citing='' @ d_citing d]"
    using split_spelled by blast
  have keys: "keyed_value ''state'' (''state='' @ d_state d) = Some (d_state d)"
    "keyed_value ''reason'' (''reason='' @ d_reason d) = Some (d_reason d)"
    "keyed_value ''citing'' (''citing='' @ d_citing d) = Some (d_citing d)"
    by (simp_all add: keyed_value_found)
  have "checked_disposition (d_state d) (d_reason d) (d_citing d) = Some d"
    using d by (simp add: checked_disposition_iff)
  with parts keys show "parse_disposition t = Some d" unfolding parse_disposition_parts by blast
qed

section \<open>The classifier\<close>

lemma overlay_safe:
  "snd (snd (overlay detached dirty precious cls)) \<longleftrightarrow>
     prunable cls \<and> \<not> precious \<and> (dirty \<longrightarrow> detached)"
  by (auto simp: overlay_def Let_def prunable_def)

lemma overlay_unknown:
  "(case overlay detached dirty precious cls of
      (c, m, safe) \<Rightarrow> c = UNKNOWN \<or> m = Some UNKNOWN) \<longleftrightarrow> cls = UNKNOWN"
  by (auto simp: overlay_def Let_def prunable_def)

text \<open>What makes a row removable, from the evidence.\<close>

definition removable :: "'p classify_args \<Rightarrow> managed_row \<Rightarrow> bool" where
  "removable a row \<longleftrightarrow>
     (case row of (prefix, path, branch) \<Rightarrow>
        branch \<noteq> detached_name \<and> \<not> row_dirty a row \<and> get_or [] (ca_precious a) path = [] \<and>
        (case fst (row_parent a row) of
           None \<Rightarrow> (\<exists>b. row_batch a branch = Some b \<and> all_closed b) \<and> row_merged a row
         | Some i \<Rightarrow>
             bead_closed a (Some i) \<and> \<not> malformed_disposition a (Some i) \<and>
             (case disposition_of a (Some i) of
                None \<Rightarrow> row_merged a row \<or> row_landed a row
              | Some d \<Rightarrow> d_state d = ''superseded'' \<and> relation_matches a (Some i) \<and> row_landed a row)))"

lemma disposition_state:
  "disposition_of a i = Some d \<Longrightarrow> d_state d \<in> {''retained'', ''superseded'', ''stale''} \<and> bead_closed a i"
  by (auto simp: disposition_of_def parse_disposition_iff valid_disposition_def disposition_states_def
      split: if_splits)

lemma bead_class_prunable:
  "prunable (bead_class a row (Some i)) \<longleftrightarrow>
     bead_closed a (Some i) \<and> \<not> malformed_disposition a (Some i) \<and>
     (case disposition_of a (Some i) of
        None \<Rightarrow> row_merged a row \<or> row_landed a row
      | Some d \<Rightarrow> d_state d = ''superseded'' \<and> relation_matches a (Some i) \<and> row_landed a row)"
proof -
  have "bead_closed a (Some i) \<Longrightarrow> \<not> unresolved a (Some i)"
    by (simp add: bead_closed_def unresolved_def)
  then show ?thesis
    using disposition_state [of a "Some i"]
    by (auto simp: bead_class_def prunable_def split: option.splits)
qed

lemma no_bead_prunable:
  "prunable (no_bead_class a row) \<longleftrightarrow>
     (case row of (prefix, path, branch) \<Rightarrow>
        (\<exists>b. row_batch a branch = Some b \<and> all_closed b) \<and> row_merged a row)"
  by (auto simp: no_bead_class_def prunable_def row_batch_def Let_def split: option.splits prod.splits if_splits)

lemma classify_row_simps [simp]:
  "ws_safe (classify_row a (prefix, path, branch)) \<longleftrightarrow> removable a (prefix, path, branch)"
  "ws_hive (classify_row a row) = ca_hive_prefix a"
  "ws_path (classify_row a (prefix, path, branch)) = path"
  "ws_branch (classify_row a (prefix, path, branch)) = branch"
  "is_untrustworthy (classify_row a (prefix, path, branch)) \<longleftrightarrow> base_class a (prefix, path, branch) = UNKNOWN"
proof -
  let ?row = "(prefix, path, branch)"
  obtain c u s where o: "overlay (branch = detached_name) (row_dirty a ?row)
      (get_or [] (ca_precious a) path \<noteq> []) (base_class a ?row) = (c, u, s)"
    by (cases "overlay (branch = detached_name) (row_dirty a ?row)
      (get_or [] (ca_precious a) path \<noteq> []) (base_class a ?row)") auto
  have "s \<longleftrightarrow> removable a ?row"
    using overlay_safe [of "branch = detached_name" "row_dirty a ?row"
        "get_or [] (ca_precious a) path \<noteq> []" "base_class a ?row"] o
    by (auto simp: base_class_def removable_def bead_class_prunable no_bead_prunable prunable_def [of DETACHED]
        split: option.splits)
  with o show "ws_safe (classify_row a ?row) \<longleftrightarrow> removable a ?row"
    by (simp add: classify_row_def Let_def)
  show "is_untrustworthy (classify_row a ?row) \<longleftrightarrow> base_class a ?row = UNKNOWN"
    using overlay_unknown [of "branch = detached_name" "row_dirty a ?row"
        "get_or [] (ca_precious a) path \<noteq> []" "base_class a ?row"] o
    by (simp add: classify_row_def Let_def is_untrustworthy_def)
qed (auto simp: classify_row_def Let_def split: prod.splits)

lemma base_class_unknown:
  "base_class a (prefix, path, branch) = UNKNOWN \<longleftrightarrow>
     branch \<noteq> detached_name \<and> unresolved a (fst (row_parent a (prefix, path, branch)))"
proof -
  have "no_bead_class a row \<noteq> UNKNOWN" for row
    by (auto simp: no_bead_class_def Let_def split: prod.splits)
  moreover have "bead_class a row (Some i) = UNKNOWN \<longleftrightarrow> unresolved a (Some i)" for row i
    by (auto simp: bead_class_def split: option.splits)
  moreover have "\<not> unresolved a None" by (simp add: unresolved_def id_or_empty_def)
  ultimately show ?thesis by (auto simp: base_class_def split: option.splits)
qed

end
