(* ===== verification/Wt_Prune.thy ===== *)
theory Wt_Prune
  imports Wt_Laws "HOL-Library.Multiset"
begin

text \<open>
  Lemmas from the evidence to the prune: what \<^verbatim>\<open>bead_states\<close> and \<^verbatim>\<open>resolve_batch_evidence\<close> put in front of
  the classifier is what the store says, the results of the thread pool do not depend on the order
  its jobs finish in, and every worktree a prune attempts to remove has landed evidence in a hive
  whose beads all resolved.
\<close>

section \<open>Bead states\<close>

lemma first_seen_set [simp]: "set (first_seen xs) = set xs" "distinct (first_seen xs)"
  by (simp_all add: first_seen_def)

definition shown_status :: "bead_lookup \<Rightarrow> string \<Rightarrow> string \<Rightarrow> string" where
  "shown_status lookup main i = (case bl_show lookup i main of None \<Rightarrow> [] | Some b \<Rightarrow> br_status b)"

definition shown_close_reason :: "bead_lookup \<Rightarrow> string \<Rightarrow> string \<Rightarrow> string" where
  "shown_close_reason lookup main i = (case bl_show lookup i main of None \<Rightarrow> [] | Some b \<Rightarrow> br_close_reason b)"

definition known :: "bead_lookup \<Rightarrow> string \<Rightarrow> string set \<Rightarrow> states \<Rightarrow> bool" where
  "known lookup main ids st \<longleftrightarrow>
     map_of (fst st) = (\<lambda>i. if i \<in> ids then Some (shown_status lookup main i) else None) \<and>
     map_of (fst (snd st)) = (\<lambda>i. if i \<in> ids then Some (shown_close_reason lookup main i) else None)"

lemma bead_state_step_known:
  assumes "known lookup main ids st"
  shows "known lookup main (insert i ids) (bead_state_step lookup main reason i st)"
proof -
  obtain s c u where st: "st = (s, c, u)" by (cases st)
  show ?thesis
  proof (cases "i \<in> ids")
    case True
    with assms st show ?thesis by (simp add: known_def bead_state_step_def insert_absorb)
  next
    case False
    with assms st show ?thesis
      by (auto simp: known_def bead_state_step_def Let_def fun_eq_iff shown_status_def shown_close_reason_def)
  qed
qed

lemma bead_states_known:
  "known lookup main ids st \<Longrightarrow>
     known lookup main (ids \<union> set bead_ids) (fold (bead_state_step lookup main reason) bead_ids st)"
proof (induction bead_ids arbitrary: ids st)
  case (Cons i ids')
  from Cons.IH [OF bead_state_step_known [OF Cons.prems]] show ?case by simp
qed simp

lemma entry_statuses:
  assumes "bead_statuses_for_entry env rows = ((s, c, u), reason)"
  shows "map_of s = (\<lambda>i. if i \<in> set (row_bead_ids rows) then Some (shown_status (he_lookup env) (he_main env) i) else None)"
    and "map_of c = (\<lambda>i. if i \<in> set (row_bead_ids rows) then Some (shown_close_reason (he_lookup env) (he_main env) i) else None)"
proof -
  have "known (he_lookup env) (he_main env) {} ([], [], [])" by (simp add: known_def fun_eq_iff)
  note known = bead_states_known [OF this, of "row_bead_ids rows" "store_reason (he_lookup env) (he_main env)"]
  from assms [unfolded bead_statuses_for_entry_def bead_states_def prod.inject]
  have "fold (bead_state_step (he_lookup env) (he_main env) (store_reason (he_lookup env) (he_main env)))
      (row_bead_ids rows) ([], [], []) = (s, c, u)"
    by (rule conjunct1)
  from known [unfolded this] have "known (he_lookup env) (he_main env) (set (row_bead_ids rows)) (s, c, u)"
    by simp
  then show "map_of s = (\<lambda>i. if i \<in> set (row_bead_ids rows) then Some (shown_status (he_lookup env) (he_main env) i) else None)"
    and "map_of c = (\<lambda>i. if i \<in> set (row_bead_ids rows) then Some (shown_close_reason (he_lookup env) (he_main env) i) else None)"
    by (simp_all add: known_def)
qed

lemma in_row_bead_ids:
  "i \<in> set (row_bead_ids rows) \<longleftrightarrow> (\<exists>prefix path branch. (prefix, path, branch) \<in> set rows \<and> bead_id_from_branch branch = Some i)"
  by (force simp: row_bead_ids_def map_filter_def)

section \<open>The arguments of one hive\<close>

lemma entry_args_simps [simp]:
  "ca_hive_prefix (entry_args env rows) = he_prefix env"
  "ca_parent (entry_args env rows) prefix = bead_and_parent env"
  "ca_integration (entry_args env rows) = he_integration env"
  "ca_is_merged (entry_args env rows) prefix = he_is_ancestor env"
  "ca_is_landed (entry_args env rows) = Some (\<lambda>prefix. is_landed env)"
  "ca_batches (entry_args env rows) = batch_evidence_for_entry env rows"
  by (simp_all add: entry_args_def split: prod.splits)

lemma get_or_keyed:
  "(prefix, path, branch) \<in> set rows \<Longrightarrow> get_or v (map (\<lambda>(prefix, path, branch). (path, f path)) rows) path = f path"
  by (induction rows) (auto simp: get_or_def)

lemma entry_dirty:
  "(prefix, path, branch) \<in> set rows \<Longrightarrow> row_dirty (entry_args env rows) (prefix, path, branch) = he_dirty env path"
  by (simp add: row_dirty_def entry_args_def get_or_keyed split: prod.splits)

lemma entry_precious:
  "(prefix, path, branch) \<in> set rows \<Longrightarrow> get_or [] (ca_precious (entry_args env rows)) path = he_precious env path"
  by (simp add: entry_args_def get_or_keyed split: prod.splits)

lemma entry_status:
  "bead_status (entry_args env rows) (Some i) =
     (if i \<noteq> [] \<and> i \<in> set (row_bead_ids rows) then shown_status (he_lookup env) (he_main env) i else [])"
proof -
  obtain s c u reason where e: "bead_statuses_for_entry env rows = ((s, c, u), reason)"
    by (metis prod_cases3 surj_pair)
  from entry_statuses(1) [OF e] e show ?thesis
    by (simp add: bead_status_def entry_args_def id_or_empty_def get_or_def)
qed

lemma entry_close_reason:
  "i \<in> set (row_bead_ids rows) \<Longrightarrow>
     close_reason_of (entry_args env rows) (Some i) = shown_close_reason (he_lookup env) (he_main env) i"
proof -
  assume i: "i \<in> set (row_bead_ids rows)"
  obtain s c u reason where e: "bead_statuses_for_entry env rows = ((s, c, u), reason)"
    by (metis prod_cases3 surj_pair)
  from entry_statuses(2) [OF e] e i show ?thesis
    by (simp add: close_reason_of_def entry_args_def id_or_empty_def get_or_def)
qed

section \<open>Batch evidence\<close>

text \<open>Every issue seen so far that carries a requested group is a member with its status, or the group is invalid.\<close>

definition members_ok :: "string list \<Rightarrow> bead_row option list \<Rightarrow> members \<times> string list \<Rightarrow> bool" where
  "members_ok requested seen st \<longleftrightarrow>
     (\<forall>i grp. Some i \<in> set seen \<and> grp \<in> set requested \<and> grp \<in> set (issue_groups i) \<and> grp \<notin> set (snd st) \<longrightarrow>
        map_of (get_or [] (fst st) grp) (br_id i) = Some (br_status i))"

lemma get_or_update [simp]:
  "get_or v (AList.update k x d) j = (if j = k then x else get_or v d j)"
  by (simp add: get_or_def)

lemma member_step_ok:
  assumes "members_ok requested seen st"
  shows "members_ok requested (seen @ [issue]) (member_step requested issue st)"
proof (cases issue)
  case None
  with assms show ?thesis by (simp add: members_ok_def member_step_def)
next
  case (Some i)
  obtain ms inv where st: "st = (ms, inv)" by (cases st)
  let ?matching = "filter (\<lambda>g. g \<in> set requested) (issue_groups i)"
  show ?thesis
  proof (cases ?matching)
    case Nil
    then have "\<not> (grp \<in> set requested \<and> grp \<in> set (issue_groups i))" for grp
      by (auto simp: filter_empty_conv)
    moreover have "member_step requested issue st = st" using Nil Some st by (simp add: member_step_def)
    ultimately show ?thesis using assms Some unfolding members_ok_def by auto
  next
    case (Cons grp rest)
    then have m: "grp \<in> set (issue_groups i)" "grp \<in> set requested" "set ?matching = set requested \<inter> set (issue_groups i)"
      by (metis filter_eq_ConsD in_set_conv_decomp, metis filter_eq_ConsD) auto
    show ?thesis
    proof (cases "br_id i = [] \<or> length (issue_groups i) \<noteq> 1")
      case True
      then have "member_step requested issue st = (ms, ?matching @ inv)"
        using Cons Some st by (simp add: member_step_def Let_def)
      with assms Some st m(3) show ?thesis unfolding members_ok_def by auto
    next
      case one: False
      then have g: "issue_groups i = [grp]" using m(1) by (cases "issue_groups i") auto
      show ?thesis
      proof (cases "map_of (get_or [] ms grp) (br_id i) \<noteq> None \<and> map_of (get_or [] ms grp) (br_id i) \<noteq> Some (br_status i)")
        case True
        then have "member_step requested issue st = (ms, grp # inv)"
          using Cons Some st one by (simp add: member_step_def Let_def)
        with assms Some st g show ?thesis unfolding members_ok_def by auto
      next
        case False
        then have "member_step requested issue st =
            (AList.update grp (AList.update (br_id i) (br_status i) (get_or [] ms grp)) ms, inv)"
          using Cons Some st one by (auto simp: member_step_def Let_def)
        moreover have "map_of (get_or [] (AList.update grp (AList.update (br_id i) (br_status i) (get_or [] ms grp)) ms) h) (br_id j)
            = Some (br_status j)"
          if j: "Some j \<in> set (seen @ [issue])" "h \<in> set requested" "h \<in> set (issue_groups j)" "h \<notin> set inv" for j h
        proof (cases "Some j \<in> set seen")
          case True
          with assms st j have "map_of (get_or [] ms h) (br_id j) = Some (br_status j)"
            unfolding members_ok_def by simp
          then show ?thesis using False by auto
        next
          case new: False
          with j Some g have "j = i" "h = grp" by auto
          then show ?thesis by simp
        qed
        ultimately show ?thesis unfolding members_ok_def by simp
      qed
    qed
  qed
qed

lemma members_ok_fold:
  "members_ok requested seen st \<Longrightarrow> members_ok requested (seen @ issues) (fold (member_step requested) issues st)"
proof (induction issues arbitrary: seen st)
  case (Cons i rest)
  from Cons.IH [OF member_step_ok [OF Cons.prems]] show ?case by simp
qed simp

lemma one_parent_base:
  assumes "one_parent base ms = Some parent" "(m, s) \<in> set ms"
  shows "\<exists>p. base m = Some p \<and> (p = [] \<or> p = parent)"
proof -
  from assms(1) obtain ps where ps: "those (map (\<lambda>m. base (fst m)) ms) = Some ps"
      "remdups (filter (\<lambda>p. p \<noteq> []) ps) = [parent]"
    by (auto simp: one_parent_def split: option.splits list.splits)
  have "\<exists>p \<in> set ps. base m = Some p" using ps(1) assms(2)
    by (induction ms arbitrary: ps) (auto split: option.splits)
  moreover have "p = [] \<or> p = parent" if "p \<in> set ps" for p
    using arg_cong [OF ps(2), of set] that by auto
  ultimately show ?thesis by blast
qed

text \<open>Evidence for a batch branch names every issue that carries the batch's label.\<close>

lemma batch_evidence_complete:
  assumes ev: "map_of (resolve_batch_evidence lookup main base rows) branch = Some e"
  obtains issues where "bl_all_issues lookup main = Some issues"
    "\<And>i. Some i \<in> set issues \<Longrightarrow> label_prefix @ removeprefix branch batch_prefix \<in> set (br_labels i) \<Longrightarrow>
       (br_id i, br_status i) \<in> set (be_member_statuses e) \<and>
       (\<exists>p. base (br_id i) = Some p \<and> (p = [] \<or> p = be_parent e))"
    "starts_with branch batch_prefix"
proof -
  let ?branches = "batch_branches rows"
  let ?requested = "map (\<lambda>b. removeprefix b batch_prefix) ?branches"
  let ?start = "(map (\<lambda>g. (g, [])) ?requested, []) :: members \<times> string list"
  from ev obtain issues where issues: "bl_all_issues lookup main = Some issues"
    and "map_of (List.map_filter (group_evidence base (fold (member_step ?requested) issues ?start)) ?branches) branch = Some e"
    by (auto simp: resolve_batch_evidence_def Let_def split: if_splits option.splits)
  then obtain b where b: "b \<in> set ?branches"
      "group_evidence base (fold (member_step ?requested) issues ?start) b = Some (branch, e)"
    by (auto dest!: map_of_SomeD simp: map_filter_def split: option.splits)
  obtain ms inv where st: "fold (member_step ?requested) issues ?start = (ms, inv)" by (cases "fold (member_step ?requested) issues ?start")
  from b(2) st have bb: "b = branch" and grp: "removeprefix branch batch_prefix \<notin> set inv"
      and e: "be_member_statuses e = sort_key fst (get_or [] ms (removeprefix branch batch_prefix))"
      and one: "one_parent base (get_or [] ms (removeprefix branch batch_prefix)) = Some (be_parent e)"
    by (auto simp: group_evidence_def Let_def split: if_splits)
  have "members_ok ?requested [] ?start" by (simp add: members_ok_def)
  from members_ok_fold [OF this, of issues] st have ok: "members_ok ?requested issues (ms, inv)" by simp
  have sw: "starts_with branch batch_prefix" using b(1) bb by (simp add: batch_branches_def)
  show ?thesis
  proof (rule that [OF issues _ sw])
    fix i assume i: "Some i \<in> set issues" "label_prefix @ removeprefix branch batch_prefix \<in> set (br_labels i)"
    then have "removeprefix branch batch_prefix \<in> set (issue_groups i)"
      by (force simp: issue_groups_def removeprefix_def)
    moreover have "removeprefix branch batch_prefix \<in> set ?requested" using b(1) bb by simp
    ultimately have "map_of (get_or [] ms (removeprefix branch batch_prefix)) (br_id i) = Some (br_status i)"
      using ok i(1) grp unfolding members_ok_def by simp
    then have "(br_id i, br_status i) \<in> set (get_or [] ms (removeprefix branch batch_prefix))"
      by (rule map_of_SomeD)
    with one_parent_base [OF one this] show "(br_id i, br_status i) \<in> set (be_member_statuses e) \<and>
        (\<exists>p. base (br_id i) = Some p \<and> (p = [] \<or> p = be_parent e))"
      unfolding e by simp
  qed
qed

section \<open>One hive\<close>

text \<open>The evidence in the store, in git and on disk that a worktree of a hive may be removed.\<close>

definition landed_evidence :: "'p hive_env \<Rightarrow> managed_row \<Rightarrow> bool" where
  "landed_evidence env row \<longleftrightarrow>
     (case row of (prefix, path, branch) \<Rightarrow>
        (case fst (bead_and_parent env path (he_integration env) branch) of
          Some i \<Rightarrow>
            (\<exists>b. bl_show (he_lookup env) i (he_main env) = Some b \<and> br_status b = ''closed'' \<and>
               (he_is_ancestor env branch (hive_base env i) \<or> is_landed env branch (hive_base env i) (br_close_reason b)))
        | None \<Rightarrow>
            starts_with branch batch_prefix \<and>
            (\<exists>issues parent. bl_all_issues (he_lookup env) (he_main env) = Some issues \<and>
               (\<forall>i. Some i \<in> set issues \<and> label_prefix @ removeprefix branch batch_prefix \<in> set (br_labels i) \<longrightarrow>
                  br_status i = ''closed'' \<and> hive_base env (br_id i) \<in> {[], parent}) \<and>
               parent \<noteq> [] \<and> he_is_ancestor env branch parent)))"

lemma bead_not_batch: "bead_id_from_branch branch = Some i \<Longrightarrow> \<not> starts_with branch batch_prefix"
proof
  assume "bead_id_from_branch branch = Some i" "starts_with branch batch_prefix"
  then have "take 4 branch = ''wt/b''" "take 5 branch = ''wt/be''" "take 5 branch = ''wt/ba''"
    by (auto simp: bead_id_from_branch_def starts_with_iff bead_prefix_def batch_prefix_def split: if_splits)
  then show False by simp
qed

lemma entry_batch_none:
  assumes "fst (bead_and_parent env path integration branch) = Some i"
  shows "row_batch a branch = None"
proof -
  from assms have "branch = [] \<or> bead_id_from_branch branch = Some i"
    by (auto simp: bead_and_parent_def Let_def split: if_splits)
  then have "\<not> starts_with branch batch_prefix"
    using bead_not_batch by (auto simp: starts_with_def batch_prefix_def)
  then show ?thesis by (simp add: row_batch_def)
qed

lemma entry_row_parent:
  "fst (row_parent (entry_args env rows) (prefix, path, branch)) = fst (bead_and_parent env path (he_integration env) branch)"
  "fst (bead_and_parent env path (he_integration env) branch) = Some i \<Longrightarrow>
     snd (row_parent (entry_args env rows) (prefix, path, branch)) = hive_base env i"
  by (simp add: row_parent_def split: prod.splits)
    (auto simp: row_parent_def entry_batch_none bead_and_parent_def Let_def split: prod.splits option.splits)

lemma entry_closed:
  assumes "bead_closed (entry_args env rows) (Some i)"
  obtains b where "bl_show (he_lookup env) i (he_main env) = Some b" "br_status b = ''closed''"
    "close_reason_of (entry_args env rows) (Some i) = br_close_reason b"
proof -
  from assms have i: "i \<in> set (row_bead_ids rows)" "shown_status (he_lookup env) (he_main env) i = ''closed''"
    by (auto simp: bead_closed_def entry_status split: if_splits)
  with that show ?thesis
    by (auto simp: entry_close_reason shown_status_def shown_close_reason_def split: option.splits)
qed

lemma removable_bead:
  assumes "removable a (prefix, path, branch)" "fst (row_parent a (prefix, path, branch)) = Some i"
  shows "bead_closed a (Some i)" "row_merged a (prefix, path, branch) \<or> row_landed a (prefix, path, branch)"
  using assms by (auto simp: removable_def split: option.splits)

lemma entry_merged:
  "row_merged (entry_args env rows) (prefix, path, branch) \<Longrightarrow>
     he_is_ancestor env branch (snd (row_parent (entry_args env rows) (prefix, path, branch)))"
  by (simp add: row_merged_def split: if_splits)

lemma removable_bead_evidence:
  assumes rm: "removable (entry_args env rows) (prefix, path, branch)"
    and id: "fst (bead_and_parent env path (he_integration env) branch) = Some i"
  shows "landed_evidence env (prefix, path, branch)"
proof -
  let ?a = "entry_args env rows" and ?row = "(prefix, path, branch)"
  have rid: "fst (row_parent ?a ?row) = Some i" using id by (simp add: entry_row_parent)
  note base = entry_row_parent(2) [OF id, of rows prefix]
  from entry_closed [OF removable_bead(1) [OF rm rid]] obtain b where
    b: "bl_show (he_lookup env) i (he_main env) = Some b" "br_status b = ''closed''"
       "close_reason_of ?a (Some i) = br_close_reason b" .
  have "row_landed ?a ?row \<Longrightarrow> is_landed env branch (hive_base env i) (br_close_reason b)"
    using rid base b(3) by (simp add: row_landed_def)
  with removable_bead(2) [OF rm rid] entry_merged [of env rows prefix path branch] base
  have "he_is_ancestor env branch (hive_base env i) \<or> is_landed env branch (hive_base env i) (br_close_reason b)"
    by auto
  with id b show ?thesis by (auto simp: landed_evidence_def)
qed

lemma removable_batch_evidence:
  assumes rm: "removable (entry_args env rows) (prefix, path, branch)"
    and id: "fst (bead_and_parent env path (he_integration env) branch) = None"
  shows "landed_evidence env (prefix, path, branch)"
proof -
  let ?a = "entry_args env rows" and ?row = "(prefix, path, branch)"
  have rid: "fst (row_parent ?a ?row) = None" using id by (simp add: entry_row_parent)
  with rm obtain b where b: "row_batch ?a branch = Some b" "all_closed b" "row_merged ?a ?row"
    by (auto simp: removable_def)
  then have "map_of (batch_evidence_for_entry env rows) branch = Some b"
    by (simp add: row_batch_def split: if_splits)
  then have "map_of (resolve_batch_evidence (he_lookup env) (he_main env) (\<lambda>bead. Some (hive_base env bead)) rows) branch = Some b"
    by (simp add: batch_evidence_for_entry_def split: if_splits)
  then obtain issues where issues: "bl_all_issues (he_lookup env) (he_main env) = Some issues"
    and all: "\<And>i. Some i \<in> set issues \<Longrightarrow> label_prefix @ removeprefix branch batch_prefix \<in> set (br_labels i) \<Longrightarrow>
      (br_id i, br_status i) \<in> set (be_member_statuses b) \<and>
      (\<exists>p. Some (hive_base env (br_id i)) = Some p \<and> (p = [] \<or> p = be_parent b))"
    and sw: "starts_with branch batch_prefix"
    by (rule batch_evidence_complete) blast
  have "br_status i = ''closed'' \<and> hive_base env (br_id i) \<in> {[], be_parent b}"
    if "Some i \<in> set issues" "label_prefix @ removeprefix branch batch_prefix \<in> set (br_labels i)" for i
    using all [OF that] b(2) by (auto simp: all_closed_def)
  moreover have "snd (row_parent ?a ?row) = be_parent b"
    using b(1) by (simp add: row_parent_def split: prod.splits)
  with entry_merged [OF b(3)] have "he_is_ancestor env branch (be_parent b)" by simp
  moreover have "be_parent b \<noteq> []" using b(2) by (simp add: all_closed_def)
  ultimately show ?thesis using id issues sw by (auto simp: landed_evidence_def)
qed

lemma entry_removable:
  assumes row: "(prefix, path, branch) \<in> set rows" and rm: "removable (entry_args env rows) (prefix, path, branch)"
  shows "branch \<noteq> detached_name" "\<not> he_dirty env path" "he_precious env path = []"
    "landed_evidence env (prefix, path, branch)"
proof -
  from rm show "branch \<noteq> detached_name" "\<not> he_dirty env path" "he_precious env path = []"
    using entry_dirty [OF row, of env] entry_precious [OF row, of env] by (auto simp: removable_def)
  show "landed_evidence env (prefix, path, branch)"
    using removable_bead_evidence [OF rm] removable_batch_evidence [OF rm] by blast
qed

lemma entry_unresolved:
  assumes row: "(prefix, path, branch) \<in> set rows" "branch \<noteq> detached_name"
    and id: "bead_id_from_branch branch = Some i" and none: "shown_status (he_lookup env) (he_main env) i = []"
  shows "is_untrustworthy (classify_row (entry_args env rows) (prefix, path, branch))"
proof -
  from id have "branch \<noteq> []" by (auto simp: bead_id_from_branch_def starts_with_def bead_prefix_def split: if_splits)
  then have "fst (bead_and_parent env path (he_integration env) branch) = Some i"
    using id by (simp add: bead_and_parent_def Let_def)
  moreover from id have "i \<noteq> []"
    by (auto simp: bead_id_from_branch_def or_none_def Let_def split: if_splits prod.splits)
  ultimately show ?thesis
    using none row(2)
    by (simp add: base_class_unknown entry_row_parent unresolved_def id_or_empty_def entry_status)
qed

lemma classify_entry_rows:
  "classify_entry env rows = map (\<lambda>row. (classify_row (entry_args env rows) row)
     \<lparr>ws_legacy_root := he_outside_root env (ws_path (classify_row (entry_args env rows) row))\<rparr>) rows"
  by (simp add: classify_entry_def flag_legacy_root_def classify_def)

lemma classify_entry_member:
  assumes "s \<in> set (classify_entry env rows)"
  obtains prefix path branch where "(prefix, path, branch) \<in> set rows" "ws_path s = path" "ws_branch s = branch"
    "ws_hive s = he_prefix env" "ws_safe s \<longleftrightarrow> removable (entry_args env rows) (prefix, path, branch)"
  using assms by (auto simp: classify_entry_rows)

lemma classify_entry_hive: "s \<in> set (classify_entry env rows) \<Longrightarrow> ws_hive s = he_prefix env"
  by (auto simp: classify_entry_rows)

section \<open>The order of completion\<close>

lemma complete_jobs:
  assumes "distinct (map fst jobs)"
  shows "map_of (fst (fold (complete_job one) jobs st)) =
    (\<lambda>p. case map_of jobs p of None \<Rightarrow> map_of (fst st) p | Some (e, rows) \<Rightarrow> Some (one e rows))"
  using assms
proof (induction jobs arbitrary: st)
  case (Cons j jobs)
  obtain p e rows where j: "j = (p, e, rows)" by (cases j)
  from Cons.prems j have "map_of jobs p = None" by (simp add: map_of_eq_None_iff)
  with Cons j show ?case by (auto simp: fun_eq_iff complete_job_def split: prod.splits option.splits)
qed simp

lemma map_of_perm: "mset xs = mset ys \<Longrightarrow> distinct (map fst ys) \<Longrightarrow> map_of xs = map_of ys"
  by (metis map_of_inject_set mset_eq_imp_distinct_iff mset_eq_setD mset_map)

lemma complete_all_jobs:
  "distinct (map fst jobs) \<Longrightarrow>
     map_of (fst (fold (complete_job one) jobs ([], []))) = (\<lambda>p. map_option (\<lambda>(e, rows). one e rows) (map_of jobs p))"
  by (simp add: complete_jobs fun_eq_iff split: option.splits)

lemma classify_entries_map:
  assumes perm: "\<And>js. mset (finish js) = mset js" and d: "distinct (map prefix_of entries)"
  shows "map_of (fst (classify_entries finish prefix_of one entries rows_of)) =
    (\<lambda>p. map_option (\<lambda>(e, rows). one e rows) (map_of (jobs_of prefix_of entries rows_of :: ('e, 'p) job list) p))"
proof -
  let ?jobs = "jobs_of prefix_of entries rows_of :: ('e, 'p) job list"
  have dj: "distinct (map fst ?jobs)"
    using d by (simp add: jobs_of_def comp_def distinct_map_filter)
  have "mset (map fst (finish ?jobs)) = mset (map fst ?jobs)" by (simp add: perm)
  then have "distinct (map fst (finish ?jobs))" using dj mset_eq_imp_distinct_iff by blast
  moreover have "map_of (finish ?jobs) = map_of ?jobs" by (rule map_of_perm [OF perm dj])
  ultimately have same: "map_of (fst (fold (complete_job one) js ([], []))) = (\<lambda>p. map_option (\<lambda>(e, rows). one e rows) (map_of ?jobs p))"
    if "js = ?jobs \<or> js = finish ?jobs" for js
    using that complete_all_jobs [OF dj, of one] complete_all_jobs [of "finish ?jobs" one] by auto
  have "\<exists>js. (js = ?jobs \<or> js = finish ?jobs) \<and>
      fst (classify_entries finish prefix_of one entries rows_of) = fst (fold (complete_job one) js ([], []))"
    by (cases "\<exists>j j' js. ?jobs = j # j' # js") (auto simp: classify_entries_def split: list.splits)
  then obtain js where "js = ?jobs \<or> js = finish ?jobs"
      "fst (classify_entries finish prefix_of one entries rows_of) = fst (fold (complete_job one) js ([], []))"
    by blast
  with same [of js] show ?thesis by simp
qed

lemma job_of_entry:
  assumes "distinct (map prefix_of entries)" "e \<in> set entries"
  shows "map_of (jobs_of prefix_of entries rows_of) (prefix_of e) =
      (if rows_of (prefix_of e) = [] then None else Some (e, rows_of (prefix_of e)))"
  using assms by (induction entries) (auto simp: jobs_of_def image_iff map_of_eq_None_iff)

lemma classify_entries_entry:
  assumes "\<And>js. mset (finish js) = mset js" "distinct (map prefix_of entries)" "e \<in> set entries"
  shows "get_or [] (fst (classify_entries finish prefix_of one entries rows_of)) (prefix_of e) =
    (if rows_of (prefix_of e) = [] then [] else one e (rows_of (prefix_of e)))"
  using classify_entries_map [OF assms(1,2), of one rows_of] job_of_entry [OF assms(2,3), of rows_of]
  by (simp add: get_or_def)

lemma classify_entries_other:
  assumes "\<And>js. mset (finish js) = mset js" "distinct (map prefix_of entries)" "p \<notin> prefix_of ` set entries"
  shows "get_or [] (fst (classify_entries finish prefix_of one entries rows_of)) p = []"
proof -
  from assms(3) have "map_of (jobs_of prefix_of entries rows_of) p = None"
    by (auto simp: jobs_of_def map_of_eq_None_iff)
  with classify_entries_map [OF assms(1,2), of one rows_of] show ?thesis by (simp add: get_or_def)
qed

section \<open>Prune\<close>

definition keyed_envs :: "(string \<times> 'p hive_env) list \<Rightarrow> bool" where
  "keyed_envs envs \<longleftrightarrow> (\<forall>p env. map_of envs p = Some env \<longrightarrow> he_prefix env = p)"

definition hive_rows :: "string \<Rightarrow> managed_row list \<Rightarrow> managed_row list" where
  "hive_rows prefix rows = filter (\<lambda>r. fst r = prefix) rows"

text \<open>What the classification of all hives comes to, whatever order they finish in.\<close>

definition prune_statuses :: "(string \<times> 'p hive_env) list \<Rightarrow> managed_row list \<Rightarrow> 'p wt_status list" where
  "prune_statuses envs rows =
     concat (map (\<lambda>p. case map_of envs p of None \<Rightarrow> [] | Some env \<Rightarrow> classify_entry env (hive_rows p rows))
       (first_seen (map fst rows)))"

lemma keyed_prefixes:
  assumes "keyed_envs envs"
  shows "map he_prefix (List.map_filter (map_of envs) ps) = filter (\<lambda>p. map_of envs p \<noteq> None) ps"
  using assms by (induction ps) (auto simp: keyed_envs_def split: option.splits)

lemma prune_classify_eq:
  assumes perm: "\<And>js. mset (finish js) = mset js" and k: "keyed_envs envs"
  shows "prune_classify finish envs rows = split_safe_skipped (prune_statuses envs rows)"
proof -
  let ?ps = "first_seen (map fst rows)"
  let ?entries = "List.map_filter (map_of envs) ?ps"
  let ?res = "fst (classify_entries finish he_prefix classify_entry ?entries (\<lambda>p. hive_rows p rows))"
  have d: "distinct (map he_prefix ?entries)" by (simp add: keyed_prefixes [OF k])
  have "get_or [] ?res p = (case map_of envs p of None \<Rightarrow> [] | Some env \<Rightarrow> classify_entry env (hive_rows p rows))"
    if p: "p \<in> set ?ps" for p
  proof (cases "map_of envs p")
    case None
    then have "p \<notin> he_prefix ` set ?entries"
      using arg_cong [OF keyed_prefixes [OF k, of ?ps], of set] by auto
    from classify_entries_other [OF perm d this, of classify_entry "\<lambda>p. hive_rows p rows"] None
    show ?thesis by simp
  next
    case (Some env)
    then have env: "env \<in> set ?entries" "he_prefix env = p"
      using p k by (force simp: map_filter_def keyed_envs_def)+
    from p have "hive_rows p rows \<noteq> []" by (auto simp: hive_rows_def filter_empty_conv)
    with classify_entries_entry [OF perm d env(1), of classify_entry "\<lambda>p. hive_rows p rows"] env(2) Some
    show ?thesis by simp
  qed
  then have eq: "map (get_or [] ?res) ?ps =
      map (\<lambda>p. case map_of envs p of None \<Rightarrow> [] | Some env \<Rightarrow> classify_entry env (hive_rows p rows)) ?ps"
    by simp
  show ?thesis
    unfolding prune_classify_def prune_statuses_def hive_rows_def [symmetric] Let_def case_prod_beta eq ..
qed

lemma withhold_spec:
  assumes "withhold_untrustworthy safe_set skipped = (safe', skipped', tainted)"
  shows "set tainted = ws_hive ` {s \<in> set (safe_set @ skipped). is_untrustworthy s}"
    and "safe' = filter (\<lambda>s. ws_hive s \<notin> set tainted) safe_set"
    and "mset (safe' @ skipped') = mset (safe_set @ skipped)"
proof -
  define t where "t = first_seen (map ws_hive (untrustworthy (safe_set @ skipped)))"
  have parts: "safe' = filter (\<lambda>s. ws_hive s \<notin> set t) safe_set"
      "skipped' = skipped @ filter (\<lambda>s. ws_hive s \<in> set t) safe_set" "tainted = t"
    using assms unfolding withhold_untrustworthy_def t_def [symmetric] Let_def
    by (cases "t = []"; simp)+
  show "set tainted = ws_hive ` {s \<in> set (safe_set @ skipped). is_untrustworthy s}"
    unfolding parts t_def by (auto simp: untrustworthy_def)
  show "safe' = filter (\<lambda>s. ws_hive s \<notin> set tainted) safe_set" unfolding parts ..
  have "mset safe' + mset (filter (\<lambda>s. ws_hive s \<in> set t) safe_set) = mset safe_set"
    unfolding parts using multiset_partition [of "mset safe_set" "\<lambda>s. ws_hive s \<notin> set t"] by simp
  then show "mset (safe' @ skipped') = mset (safe_set @ skipped)"
    unfolding parts by (simp add: ac_simps)
qed

lemma split_withhold:
  assumes "split_safe_skipped statuses = (s0, k0)" "withhold_untrustworthy s0 k0 = (safe', skipped', tainted)"
  shows "set tainted = ws_hive ` {s \<in> set statuses. is_untrustworthy s}"
    and "safe' = filter (\<lambda>s. ws_safe s \<and> (\<forall>t \<in> set statuses. is_untrustworthy t \<longrightarrow> ws_hive t \<noteq> ws_hive s)) statuses"
    and "mset (safe' @ skipped') = mset statuses"
proof -
  from assms(1) have s0: "s0 = filter ws_safe statuses" "k0 = filter (\<lambda>s. \<not> ws_safe s) statuses"
    by (auto simp: split_safe_skipped_def)
  note w = withhold_spec [OF assms(2)]
  show t: "set tainted = ws_hive ` {s \<in> set statuses. is_untrustworthy s}"
    unfolding w(1) s0 by auto
  have "ws_hive s \<notin> set tainted \<longleftrightarrow> (\<forall>t \<in> set statuses. is_untrustworthy t \<longrightarrow> ws_hive t \<noteq> ws_hive s)" for s :: "'a wt_status"
    unfolding t by (auto simp: image_iff)
  then show "safe' = filter (\<lambda>s. ws_safe s \<and> (\<forall>t \<in> set statuses. is_untrustworthy t \<longrightarrow> ws_hive t \<noteq> ws_hive s)) statuses"
    unfolding w(2) s0 by (simp add: conj_commute)
  show "mset (safe' @ skipped') = mset statuses"
    unfolding w(3) s0 using multiset_partition [of "mset statuses" ws_safe] by simp
qed

lemma prune_statuses_member:
  assumes "s \<in> set (prune_statuses envs rows)"
  obtains prefix env where "prefix \<in> fst ` set rows" "map_of envs prefix = Some env"
    "s \<in> set (classify_entry env (hive_rows prefix rows))"
proof -
  from assms obtain p where "p \<in> fst ` set rows"
      "s \<in> set (case map_of envs p of None \<Rightarrow> [] | Some env \<Rightarrow> classify_entry env (hive_rows p rows))"
    by (auto simp: prune_statuses_def)
  with that show ?thesis by (cases "map_of envs p") auto
qed

lemma prune_statuses_rows:
  assumes "(prefix, path, branch) \<in> set rows" "map_of envs prefix = Some env"
  shows "(classify_row (entry_args env (hive_rows prefix rows)) (prefix, path, branch))
      \<lparr>ws_legacy_root := he_outside_root env path\<rparr> \<in> set (prune_statuses envs rows)"
  using assms by (force simp: prune_statuses_def classify_entry_rows hive_rows_def)

lemma wt_prune_split:
  assumes "\<And>js. mset (finish js) = mset js" "keyed_envs envs"
    and "rows = filter (\<lambda>r. want = None \<or> want = Some (fst r)) all_rows"
  obtains s0 k0 safe' tainted where "split_safe_skipped (prune_statuses envs rows) = (s0, k0)"
    "withhold_untrustworthy s0 k0 = (safe', pr_skipped (wt_prune finish envs removes want all_rows), tainted)"
    "pr_attempts (wt_prune finish envs removes want all_rows) = filter (\<lambda>s. map_of envs (ws_hive s) \<noteq> None) safe'"
    "pr_exit (wt_prune finish envs removes want all_rows) = (if tainted = [] then 0 else 1)"
proof -
  obtain s0 k0 where s: "split_safe_skipped (prune_statuses envs rows) = (s0, k0)" by (cases "split_safe_skipped (prune_statuses envs rows)")
  obtain a b c where w: "withhold_untrustworthy s0 k0 = (a, b, c)" by (cases "withhold_untrustworthy s0 k0")
  have "wt_prune finish envs removes want all_rows =
      \<lparr>pr_attempts = filter (\<lambda>s. map_of envs (ws_hive s) \<noteq> None) a,
       pr_removed = length (filter removes (filter (\<lambda>s. map_of envs (ws_hive s) \<noteq> None) a)),
       pr_skipped = b, pr_exit = (if c = [] then 0 else 1)\<rparr>"
    unfolding wt_prune_def prune_classify_eq [OF assms(1,2)] assms(3) [symmetric]
    by (simp add: s w prune_remove_all_def Let_def)
  with s w that show ?thesis by simp
qed

lemma update_legacy [simp]:
  "ws_safe (s\<lparr>ws_legacy_root := x\<rparr>) = ws_safe s" "ws_hive (s\<lparr>ws_legacy_root := x\<rparr>) = ws_hive s"
  "is_untrustworthy (s\<lparr>ws_legacy_root := x\<rparr>) = is_untrustworthy s"
  by (simp_all add: is_untrustworthy_def)

lemma prune_attempt:
  assumes perm: "\<And>js. mset (finish js) = mset js" and k: "keyed_envs envs"
    and s: "s \<in> set (pr_attempts (wt_prune finish envs removes want all_rows))"
  defines "rows \<equiv> filter (\<lambda>r. want = None \<or> want = Some (fst r)) all_rows"
  obtains prefix path branch env where "(prefix, path, branch) \<in> set rows" "map_of envs prefix = Some env"
    "ws_path s = path" "ws_branch s = branch" "ws_hive s = prefix"
    "removable (entry_args env (hive_rows prefix rows)) (prefix, path, branch)"
    "\<And>t. t \<in> set (prune_statuses envs rows) \<Longrightarrow> ws_hive t = prefix \<Longrightarrow> \<not> is_untrustworthy t"
proof -
  obtain s0 k0 safe' tainted skipped where sp: "split_safe_skipped (prune_statuses envs rows) = (s0, k0)"
    and w: "withhold_untrustworthy s0 k0 = (safe', skipped, tainted)"
    and "pr_attempts (wt_prune finish envs removes want all_rows) = filter (\<lambda>s. map_of envs (ws_hive s) \<noteq> None) safe'"
    using wt_prune_split [OF perm k rows_def [THEN meta_eq_to_obj_eq]] by metis
  with s have mem: "s \<in> set (prune_statuses envs rows)" "ws_safe s"
      and trust: "\<And>t. t \<in> set (prune_statuses envs rows) \<Longrightarrow> is_untrustworthy t \<Longrightarrow> ws_hive t \<noteq> ws_hive s"
    using split_withhold(2) [OF sp w] by auto
  from mem(1) obtain prefix env where env: "map_of envs prefix = Some env"
      "s \<in> set (classify_entry env (hive_rows prefix rows))"
    by (rule prune_statuses_member)
  from env(2) obtain p path branch where row: "(p, path, branch) \<in> set (hive_rows prefix rows)"
      "ws_path s = path" "ws_branch s = branch" "ws_hive s = he_prefix env"
      "ws_safe s \<longleftrightarrow> removable (entry_args env (hive_rows prefix rows)) (p, path, branch)"
    by (rule classify_entry_member)
  from row(1) have p: "p = prefix" "(prefix, path, branch) \<in> set rows" by (auto simp: hive_rows_def)
  moreover from k env(1) have "he_prefix env = prefix" by (auto simp: keyed_envs_def)
  ultimately show ?thesis using that [of prefix path branch env] env(1) row mem(2) trust by metis
qed

lemma prune_unresolved_status:
  assumes k: "keyed_envs envs" and row: "(prefix, path, branch) \<in> set rows" "map_of envs prefix = Some env"
    and b: "branch \<noteq> detached_name" "bead_id_from_branch branch = Some i"
    and none: "shown_status (he_lookup env) (he_main env) i = []"
  shows "\<exists>t \<in> set (prune_statuses envs rows). is_untrustworthy t \<and> ws_hive t = prefix"
proof -
  let ?t = "(classify_row (entry_args env (hive_rows prefix rows)) (prefix, path, branch))
      \<lparr>ws_legacy_root := he_outside_root env path\<rparr>"
  from row(1) have "(prefix, path, branch) \<in> set (hive_rows prefix rows)" by (simp add: hive_rows_def)
  from entry_unresolved [OF this b none] have "is_untrustworthy ?t" by simp
  moreover have "ws_hive ?t = prefix" using k row(2) by (simp add: keyed_envs_def)
  ultimately show ?thesis using prune_statuses_rows [OF row] by blast
qed

lemma prune_hive_resolved:
  assumes perm: "\<And>js. mset (finish js) = mset js" and k: "keyed_envs envs"
    and s: "s \<in> set (pr_attempts (wt_prune finish envs removes want rows))"
    and env: "map_of envs (ws_hive s) = Some env"
    and row: "(ws_hive s, path, branch) \<in> set rows" "branch \<noteq> detached_name" "bead_id_from_branch branch = Some i"
  shows "shown_status (he_lookup env) (he_main env) i \<noteq> []"
proof
  assume none: "shown_status (he_lookup env) (he_main env) i = []"
  let ?rows = "filter (\<lambda>r. want = None \<or> want = Some (fst r)) rows"
  obtain p path' branch' where "(p, path', branch') \<in> set ?rows" "ws_hive s = p"
    and trust: "\<And>t. t \<in> set (prune_statuses envs ?rows) \<Longrightarrow> ws_hive t = p \<Longrightarrow> \<not> is_untrustworthy t"
    by (rule prune_attempt [OF perm k s]) blast
  then have "(ws_hive s, path, branch) \<in> set ?rows" using row(1) by auto
  from prune_unresolved_status [OF k this env row(2,3) none] trust \<open>ws_hive s = p\<close> show False by blast
qed

lemma prune_attempt_landed:
  assumes perm: "\<And>js. mset (finish js) = mset js" and k: "keyed_envs envs"
    and s: "s \<in> set (pr_attempts (wt_prune finish envs removes want rows))"
  obtains env where "(ws_hive s, ws_path s, ws_branch s) \<in> set rows" "want = None \<or> want = Some (ws_hive s)"
    "map_of envs (ws_hive s) = Some env" "ws_branch s \<noteq> detached_name" "\<not> he_dirty env (ws_path s)"
    "he_precious env (ws_path s) = []" "landed_evidence env (ws_hive s, ws_path s, ws_branch s)"
proof -
  let ?rows = "filter (\<lambda>r. want = None \<or> want = Some (fst r)) rows"
  obtain p path branch env where row: "(p, path, branch) \<in> set ?rows" and env: "map_of envs p = Some env"
    and s: "ws_path s = path" "ws_branch s = branch" "ws_hive s = p"
    and rm: "removable (entry_args env (hive_rows p ?rows)) (p, path, branch)"
    by (rule prune_attempt [OF perm k s])
  from row have "(p, path, branch) \<in> set (hive_rows p ?rows)" by (simp add: hive_rows_def)
  from entry_removable [OF this rm] row env s that show ?thesis by auto
qed

end
