(* ===== verification/Wt_Properties.thy ===== *)
theory Wt_Properties
  imports Wt_Prune
begin

text \<open>
  The properties of the worktree classifier and of prune, each with a witness on a small fleet: two
  hives, one with a landed bead, an open bead and a landed batch, the other with a landed bead and a
  bead its store does not know.
\<close>

section \<open>A small fleet\<close>

text \<open>A hive with one closed and merged bead, one closed batch and one open bead.\<close>

definition example_bead :: "string \<Rightarrow> string \<Rightarrow> string list \<Rightarrow> bead_row" where
  "example_bead i status labels =
     \<lparr>br_id = i, br_status = status, br_close_reason = [], br_parent = [], br_labels = labels, br_dependencies = []\<rparr>"

definition example_lookup :: bead_lookup where
  "example_lookup =
     \<lparr>bl_probe = (\<lambda>main. Some [Some (example_bead ''hv-1'' ''closed'' [])]),
      bl_show = (\<lambda>i main. if i = ''hv-1'' then Some (example_bead i ''closed'' [])
                          else if i = ''hv-2'' then Some (example_bead i ''open'' []) else None),
      bl_all_issues = (\<lambda>main. Some [Some (example_bead ''hv-3'' ''closed'' [''batch:g''])])\<rparr>"

definition example_env :: "string \<Rightarrow> unit hive_env" where
  "example_env prefix =
     \<lparr>he_prefix = prefix, he_main = ''/main'', he_integration = ''main'', he_meta_branches = [],
      he_lookup = example_lookup, he_branch_exists = (\<lambda>b. False),
      he_is_ancestor = (\<lambda>branch base. base = ''main''), he_cherry = (\<lambda>p b. (1, [])), he_merged_pr = (\<lambda>b. False),
      he_rel_parts = (\<lambda>p. []), he_dirty = (\<lambda>p. False), he_precious = (\<lambda>p. []), he_outside_root = (\<lambda>p. False)\<rparr>"

definition example_envs :: "(string \<times> unit hive_env) list" where
  "example_envs = [(''hv'', example_env ''hv''), (''qq'', example_env ''qq'')]"

definition example_rows :: "managed_row list" where
  "example_rows =
     [(''hv'', ''/w/hv-1'', ''wt/bead/issue/hv-1''), (''qq'', ''/w/qq-1'', ''wt/bead/issue/hv-1''),
      (''hv'', ''/w/hv-2'', ''wt/bead/issue/hv-2''), (''hv'', ''/w/batch-g'', ''wt/batch/g''),
      (''qq'', ''/w/qq-9'', ''wt/bead/issue/qq-9'')]"

lemma example_keyed: "keyed_envs example_envs"
  by (auto simp: keyed_envs_def example_envs_def example_env_def)

section \<open>Properties\<close>

text \<open>
  C39: the close-reason codec is exact. What \<^verbatim>\<open>format_disposition\<close> writes, \<^verbatim>\<open>parse_disposition\<close> reads back as
  the same record, and a record it reads is written back to the same text unless the citing bead holds
  a character the writer refuses.
\<close>

theorem disposition_roundtrip:
  "(format_disposition state reason citing = Inr t \<longrightarrow>
      parse_disposition t = Some \<lparr>d_state = state, d_reason = reason, d_citing = citing\<rparr>) \<and>
   (parse_disposition t = Some d \<longrightarrow>
      format_disposition (d_state d) (d_reason d) (d_citing d) =
        (if set (d_citing d) \<inter> reserved = {} then Inr t else Inl Wt_ValueError))"
proof (intro conjI impI)
  let ?d = "\<lparr>d_state = state, d_reason = reason, d_citing = citing\<rparr>"
  assume "format_disposition state reason citing = Inr t"
  then show "parse_disposition t = Some ?d"
    using format_disposition_iff [of ?d t] by (auto simp: parse_disposition_iff reserved_def)
next
  assume "parse_disposition t = Some d"
  then have "valid_disposition d" "t = spelled d" by (simp_all add: parse_disposition_iff)
  then show "format_disposition (d_state d) (d_reason d) (d_citing d) =
        (if set (d_citing d) \<inter> reserved = {} then Inr t else Inl Wt_ValueError)"
    using format_disposition_iff [of d t]
      wt_error.exhaust [of "projl (format_disposition (d_state d) (d_reason d) (d_citing d))"]
    by (cases "format_disposition (d_state d) (d_reason d) (d_citing d)")
      (auto simp: format_disposition_iff)
qed

theorem disposition_roundtrip_witness:
  "parse_disposition ''bh:worktree-disposition:v1;state=superseded;reason=pivot;citing=hv-2'' =
     Some \<lparr>d_state = ''superseded'', d_reason = ''pivot'', d_citing = ''hv-2''\<rparr>"
proof -
  have "format_disposition ''superseded'' ''pivot'' ''hv-2'' =
      Inr ''bh:worktree-disposition:v1;state=superseded;reason=pivot;citing=hv-2''" by code_simp
  with disposition_roundtrip show ?thesis by blast
qed

text \<open>
  a row of \<^verbatim>\<open>classify\<close> is safe exactly when the evidence for removal is there: a branch is checked
  out, the worktree is clean and holds nothing precious, and either the bead is closed, its close
  reason is no malformed disposition and its branch is merged or landed (with a disposition: superseded,
  with the promised edge, and landed), or there is no bead and the batch is complete, closed and merged.
  The rows come in the order of the managed rows.
\<close>

theorem classify_safe_exact:
  "map ws_safe (classify a rows) = map (removable a) rows"
  by (auto simp: classify_def)



text \<open>
  a bead that does not resolve stops its hive. When a row in scope names, on a checked-out branch, a
  bead whose status the store does not give, prune attempts no removal in that hive and ends with a
  non-zero exit code.
\<close>

theorem prune_stops_on_unresolved:
  assumes "\<And>js. mset (finish js) = mset js" and "keyed_envs envs"
    and "(prefix, path, branch) \<in> set rows" "want = None \<or> want = Some prefix" "map_of envs prefix = Some env"
    and "branch \<noteq> detached_name" "bead_id_from_branch branch = Some i"
    and "shown_status (he_lookup env) (he_main env) i = []"
  shows "prefix \<notin> ws_hive ` set (pr_attempts (wt_prune finish envs removes want rows)) \<and>
    pr_exit (wt_prune finish envs removes want rows) = 1"
proof
  let ?rows = "filter (\<lambda>r. want = None \<or> want = Some (fst r)) rows"
  show "prefix \<notin> ws_hive ` set (pr_attempts (wt_prune finish envs removes want rows))"
    using prune_hive_resolved [OF assms(1,2)] assms(3,5-8) by blast
  have row: "(prefix, path, branch) \<in> set ?rows" using assms(3,4) by auto
  note bad = prune_unresolved_status [OF assms(2) row assms(5-8)]
  obtain s0 k0 safe' tainted where
    "split_safe_skipped (prune_statuses envs ?rows) = (s0, k0)"
    "withhold_untrustworthy s0 k0 = (safe', pr_skipped (wt_prune finish envs removes want rows), tainted)"
    and exit: "pr_exit (wt_prune finish envs removes want rows) = (if tainted = [] then 0 else 1)"
    by (rule wt_prune_split [OF assms(1,2) refl])
  from split_withhold(1) [OF this(1,2)] bad have "set tainted \<noteq> {}" by auto
  with exit show "pr_exit (wt_prune finish envs removes want rows) = 1" by simp
qed

theorem prune_stops_on_unresolved_witness:
  "''qq'' \<notin> ws_hive ` set (pr_attempts (wt_prune rev example_envs (\<lambda>s. True) None example_rows)) \<and>
   pr_exit (wt_prune rev example_envs (\<lambda>s. True) None example_rows) = 1"
proof (rule prune_stops_on_unresolved [OF _ example_keyed])
  show "(''qq'', ''/w/qq-9'', ''wt/bead/issue/qq-9'') \<in> set example_rows" by (simp add: example_rows_def)
  show "map_of example_envs ''qq'' = Some (example_env ''qq'')" by (simp add: example_envs_def)
  show "''wt/bead/issue/qq-9'' \<noteq> detached_name" by (simp add: detached_name_def)
  show "bead_id_from_branch ''wt/bead/issue/qq-9'' = Some ''qq-9''" by code_simp
  show "shown_status (he_lookup (example_env ''qq'')) (he_main (example_env ''qq'')) ''qq-9'' = []" by code_simp
qed simp_all

text \<open>
  prune accounts for every row, and the thread pool's order does not matter. Whatever order the hives
  finish in, the run is the same; each classified row is either attempted or skipped, and none twice.
\<close>

theorem prune_accounts_for_rows:
  assumes "\<And>js. mset (finish js) = mset js" and "keyed_envs envs"
  shows "wt_prune finish envs removes want rows = wt_prune id envs removes want rows \<and>
    mset (pr_attempts (wt_prune finish envs removes want rows) @ pr_skipped (wt_prune finish envs removes want rows)) =
      mset (concat (map (\<lambda>p. case map_of envs p of None \<Rightarrow> [] | Some env \<Rightarrow> classify_entry env (hive_rows p rows))
        (first_seen (filter (\<lambda>p. want = None \<or> want = Some p) (map fst rows)))))"
proof
  show "wt_prune finish envs removes want rows = wt_prune id envs removes want rows"
    unfolding wt_prune_def prune_classify_eq [OF assms] by (simp add: prune_classify_eq assms)
  let ?rows = "filter (\<lambda>r. want = None \<or> want = Some (fst r)) rows"
  obtain s0 k0 safe' tainted where
    parts: "split_safe_skipped (prune_statuses envs ?rows) = (s0, k0)"
    "withhold_untrustworthy s0 k0 = (safe', pr_skipped (wt_prune finish envs removes want rows), tainted)"
    and att: "pr_attempts (wt_prune finish envs removes want rows) = filter (\<lambda>s. map_of envs (ws_hive s) \<noteq> None) safe'"
    by (rule wt_prune_split [OF assms refl])
  note w = split_withhold [OF parts]
  have "map_of envs (ws_hive s) \<noteq> None" if "s \<in> set safe'" for s
  proof -
    from that w(2) have "s \<in> set (prune_statuses envs ?rows)" by simp
    then show ?thesis
      using assms(2) by (auto elim!: prune_statuses_member dest!: classify_entry_hive simp: keyed_envs_def)
  qed
  then have all: "pr_attempts (wt_prune finish envs removes want rows) = safe'" unfolding att by (simp add: filter_id_conv)
  have rows: "map fst ?rows = filter (\<lambda>p. want = None \<or> want = Some p) (map fst rows)"
    by (simp add: filter_map comp_def)
  have "hive_rows p ?rows = hive_rows p rows" if "want = None \<or> want = Some p" for p
    using that by (auto simp: hive_rows_def intro!: filter_cong)
  then have "prune_statuses envs ?rows =
      concat (map (\<lambda>p. case map_of envs p of None \<Rightarrow> [] | Some env \<Rightarrow> classify_entry env (hive_rows p rows))
        (first_seen (filter (\<lambda>p. want = None \<or> want = Some p) (map fst rows))))"
    unfolding prune_statuses_def rows
    by (intro arg_cong [where f = concat] map_cong refl) (simp split: option.split)
  with w(3) all show "mset (pr_attempts (wt_prune finish envs removes want rows) @ pr_skipped (wt_prune finish envs removes want rows)) =
      mset (concat (map (\<lambda>p. case map_of envs p of None \<Rightarrow> [] | Some env \<Rightarrow> classify_entry env (hive_rows p rows))
        (first_seen (filter (\<lambda>p. want = None \<or> want = Some p) (map fst rows)))))" by simp
qed

theorem prune_accounts_for_rows_witness:
  "wt_prune rev example_envs (\<lambda>s. True) None example_rows = wt_prune id example_envs (\<lambda>s. True) None example_rows"
  using prune_accounts_for_rows [OF _ example_keyed, of rev "\<lambda>s. True" None example_rows] by simp

text \<open>
  a bead lands on the nearest started container of its dotted id. \<^verbatim>\<open>_id_prefix_base\<close> gives the epic
  branch of the longest dotted ancestor that has one, or the integration branch when none has.
\<close>

theorem id_prefix_nearest:
  "if \<exists>p. dotted_ancestor bead p \<and> ex (bead_branch ''epic'' p)
   then \<exists>p. dotted_ancestor bead p \<and> ex (bead_branch ''epic'' p) \<and>
          id_prefix_base ex integration bead = bead_branch ''epic'' p \<and>
          (\<forall>q. dotted_ancestor bead q \<and> ex (bead_branch ''epic'' q) \<longrightarrow> length q \<le> length p)
   else id_prefix_base ex integration bead = integration"
  using id_prefix_base_nearest [of ex integration bead] unfolding nearest_base_def by auto

theorem id_prefix_nearest_witness:
  "id_prefix_base (\<lambda>b. b = ''wt/bead/epic/e.1'') ''main'' ''e.1.2.3'' = ''wt/bead/epic/e.1''"
proof -
  let ?ex = "\<lambda>b. b = ''wt/bead/epic/e.1''"
  have ex: "?ex (bead_branch ''epic'' q) \<longleftrightarrow> q = ''e.1''" for q by (simp add: bead_branch_def bead_prefix_def)
  have "dotted_ancestor ''e.1.2.3'' ''e.1''" by (auto simp: dotted_ancestor_def)
  with id_prefix_nearest [of "''e.1.2.3''" ?ex "''main''"] ex show ?thesis by auto
qed

text \<open>
  the integration base is always found. On a store where only finitely many beads have a parent the
  climb along parent links ends, also when the links form a cycle, and the base is the integration branch
  or the started container of a dotted ancestor or of a bead above along the links.
\<close>

theorem integration_base_found:
  assumes "finite {n. \<exists>p. linked par n p}"
  shows "\<exists>b. integration_base par ex integration None bead = Some b \<and>
    (b = integration \<or>
     (\<exists>p. b = bead_branch ''epic'' p \<and> ex b \<and> (dotted_ancestor bead p \<or> (linked par)\<^sup>+\<^sup>+ bead p)))"
proof -
  obtain l where l: "link_climb par ex integration [] bead = Some l"
    using link_climb_returns [OF assms] by blast
  from link_climb_container [OF l] id_prefix_base_nearest [of ex integration bead]
  show ?thesis
    by (auto simp: integration_base_def parent_link_base_def Let_def l nearest_base_def)
qed

theorem integration_base_found_witness:
  "\<exists>b. integration_base (\<lambda>i. Inr (if i = ''a'' then ''b'' else if i = ''b'' then ''a'' else []) :: unit + string)
      (\<lambda>b. False) ''main'' None ''a'' = Some b"
proof -
  let ?par = "\<lambda>i. Inr (if i = ''a'' then ''b'' else if i = ''b'' then ''a'' else []) :: unit + string"
  have "{n. \<exists>p. linked ?par n p} \<subseteq> {''a'', ''b''}" by (auto simp: linked_def split: if_splits)
  then have "finite {n. \<exists>p. linked ?par n p}" by (rule finite_subset) simp
  from integration_base_found [OF this, of "\<lambda>b. False" "''main''" "''a''"] show ?thesis by blast
qed

text \<open>
  every name of a managed worktree is one path segment. \<^verbatim>\<open>bind_worktree\<close> gives a branch below
  \<^verbatim>\<open>wt/\<close> and a leaf of lower-case letters, digits and dashes, and it is refused exactly when the leaf is
  empty; the branch of a bead of a known kind gives its id back.
\<close>

theorem worktree_names:
  "(case bind_worktree suffix of
      Inr b \<Rightarrow> wb_branch b = apply_prefix suffix \<and> starts_with (wb_branch b) ''wt/'' \<and>
               wb_leaf b = leaf_for_branch (wb_branch b) \<and> wb_leaf b \<noteq> [] \<and> list_all leaf_char (wb_leaf b)
    | Inl e \<Rightarrow> leaf_for_branch (apply_prefix suffix) = []) \<and>
   (kind \<in> {''epic'', ''issue''} \<and> bead \<noteq> [] \<longrightarrow> bead_id_from_branch (bead_branch kind bead) = Some bead)"
proof
  have shape: "starts_with (apply_prefix suffix) ''wt/''" "list_all leaf_char (leaf_for_branch b)" for b
    using leaf_for_branch_chars by (auto simp: apply_prefix_def wt_prefix_def starts_with_def list_all_iff)
  show "case bind_worktree suffix of
      Inr b \<Rightarrow> wb_branch b = apply_prefix suffix \<and> starts_with (wb_branch b) ''wt/'' \<and>
               wb_leaf b = leaf_for_branch (wb_branch b) \<and> wb_leaf b \<noteq> [] \<and> list_all leaf_char (wb_leaf b)
    | Inl e \<Rightarrow> leaf_for_branch (apply_prefix suffix) = []"
  proof (cases "bind_worktree suffix")
    case (Inr b)
    then have "b = \<lparr>wb_branch = apply_prefix suffix, wb_leaf = leaf_for_branch (apply_prefix suffix)\<rparr>"
        "leaf_for_branch (apply_prefix suffix) \<noteq> []"
      by (simp_all add: bind_worktree_iff)
    with Inr shape show ?thesis by simp
  next
    case (Inl e)
    then show ?thesis using bind_worktree_iff [of suffix] by fastforce
  qed
  show "kind \<in> {''epic'', ''issue''} \<and> bead \<noteq> [] \<longrightarrow> bead_id_from_branch (bead_branch kind bead) = Some bead"
    using bead_branch_id [of kind bead] by (simp add: bead_kinds_def)
qed

theorem worktree_names_witness:
  "bead_id_from_branch (bead_branch ''epic'' ''hv-1.2'') = Some ''hv-1.2''"
  using worktree_names [of "[]" "''epic''" "''hv-1.2''"] by simp

text \<open>
  the leaf is not collision-free. The branch of batch \<open>g\<close> and the branch of an issue whose id is
  \<^verbatim>\<open>batch-g\<close> share one directory.
\<close>

theorem batch_leaf_collides:
  "leaf_for_branch ''wt/batch/g'' = leaf_for_branch ''wt/bead/issue/batch-g'' \<and>
   bead_id_from_branch ''wt/bead/issue/batch-g'' = Some ''batch-g''"
  by code_simp

end
