(* ===== verification/Bl_Json.thy ===== *)
theory Bl_Json
  imports BH_Prelude Complex_Main
begin

text \<open>
  Canonical JSON of the bead log (\<^verbatim>\<open>packages/beadlog/src/beadlog/_json.py\<close>): the RFC 8785 text that
  event ids hash and merges compare. Text is a string of code points below 256, so no surrogate
  occurs and the order by UTF-16 code units is the order of the characters. \<open>None\<close> is the
  \<^verbatim>\<open>AdmissibleValueError\<close>.

  An object is the list of its members. Python compares mappings without regard to the order of
  their members; \<open>jv_ok\<close> says that a value is written with its members sorted and distinct, so that
  equality of such values is Python's. \<open>canonical_json_inject\<close> shows that the text determines the value.
\<close>

datatype jv =
    JNull
  | JBool bool
  | JInt int
  | JFloat rat
  | JStr string
  | JArr "jv list"
  | JObj "(string \<times> jv) list"

definition max_safe_integer :: int where
  "max_safe_integer = 2 ^ 53 - 1"

section \<open>Strings\<close>

definition hex_char :: "nat \<Rightarrow> char" where
  "hex_char d = (if d < 10 then char_of (48 + d) else char_of (87 + d))"

definition short_escape :: "char \<Rightarrow> char option" where
  "short_escape c =
     (if c = CHR 0x22 then Some (CHR 0x22)
      else if c = CHR 0x5C then Some (CHR 0x5C)
      else if c = CHR 0x08 then Some (CHR ''b'')
      else if c = CHR 0x09 then Some (CHR ''t'')
      else if c = CHR 0x0A then Some (CHR ''n'')
      else if c = CHR 0x0C then Some (CHR ''f'')
      else if c = CHR 0x0D then Some (CHR ''r'')
      else None)"

definition json_char :: "char \<Rightarrow> string" where
  "json_char c =
     (let code = (of_char c :: nat)
      in case short_escape c of
           Some e \<Rightarrow> [CHR 0x5C, e]
         | None \<Rightarrow> if code < 32
                   then [CHR 0x5C, CHR ''u'', CHR ''0'', CHR ''0'', hex_char (code div 16), hex_char (code mod 16)]
                   else [c])"

definition json_string :: "string \<Rightarrow> string" where
  "json_string s = CHR 0x22 # concat (map json_char s) @ [CHR 0x22]"

section \<open>Values\<close>

fun commas :: "string list \<Rightarrow> string" where
  "commas [] = []"
| "commas [t] = t"
| "commas (t # ts) = t @ CHR '','' # commas ts"

definition member_text :: "string \<times> string option \<Rightarrow> string option" where
  "member_text kr = map_option (\<lambda>t. json_string (fst kr) @ CHR '':'' # t) (snd kr)"

primrec canonical_json :: "jv \<Rightarrow> string option" where
  "canonical_json JNull = Some ''null''"
| "canonical_json (JBool b) = Some (if b then ''true'' else ''false'')"
| "canonical_json (JInt i) = (if \<bar>i\<bar> > max_safe_integer then None else Some (int_str i))"
| "canonical_json (JFloat f) = None"
| "canonical_json (JStr s) = Some (json_string s)"
| "canonical_json (JArr vs) =
     map_option (\<lambda>ts. CHR ''['' # commas ts @ '']'') (those (map canonical_json vs))"
| "canonical_json (JObj ms) =
     map_option (\<lambda>ts. CHR ''{'' # commas ts @ ''}'')
       (those (map member_text (sort_key fst (map (map_prod id canonical_json) ms))))"

text \<open>Members sorted by name and distinct, at every level.\<close>

primrec jv_ok :: "jv \<Rightarrow> bool" where
  "jv_ok JNull = True"
| "jv_ok (JBool b) = True"
| "jv_ok (JInt i) = True"
| "jv_ok (JFloat f) = True"
| "jv_ok (JStr s) = True"
| "jv_ok (JArr vs) = list_all id (map jv_ok vs)"
| "jv_ok (JObj ms) = (sorted (map fst ms) \<and> distinct (map fst ms) \<and> list_all snd (map (map_prod id jv_ok) ms))"

section \<open>The text of a string determines it\<close>

lemma of_char_hex: "d < 16 \<Longrightarrow> (of_char (hex_char d) :: nat) = (if d < 10 then 48 + d else 87 + d)"
  by (simp add: hex_char_def)

lemma hex_char_inject:
  assumes "d < 16" "e < 16" "hex_char d = hex_char e"
  shows "d = e"
proof -
  have "(if d < 10 then 48 + d else 87 + d) = (if e < 10 then 48 + e else 87 + e)"
    using assms of_char_hex by metis
  then show ?thesis by (cases "d < 10"; cases "e < 10") simp_all
qed

lemma json_char_cases:
  obtains (short) e where "short_escape c = Some e" "json_char c = [CHR 0x5C, e]"
      "e \<in> {CHR 0x22, CHR 0x5C, CHR ''b'', CHR ''t'', CHR ''n'', CHR ''f'', CHR ''r''}"
    | (control) "(of_char c :: nat) < 32" "short_escape c = None"
        "json_char c = [CHR 0x5C, CHR ''u'', CHR ''0'', CHR ''0'', hex_char (of_char c div 16), hex_char (of_char c mod 16)]"
    | (plain) "json_char c = [c]" "c \<noteq> CHR 0x22" "c \<noteq> CHR 0x5C"
proof (cases "short_escape c")
  case (Some e)
  then have "e \<in> {CHR 0x22, CHR 0x5C, CHR ''b'', CHR ''t'', CHR ''n'', CHR ''f'', CHR ''r''}"
    by (auto simp: short_escape_def split: if_splits)
  with Some short show ?thesis by (simp add: json_char_def)
next
  case None
  then have "c \<noteq> CHR 0x22" "c \<noteq> CHR 0x5C" by (auto simp: short_escape_def)
  with None control plain show ?thesis
    by (cases "(of_char c :: nat) < 32") (simp_all add: json_char_def Let_def)
qed

lemma short_escape_inject: "short_escape c = Some e \<Longrightarrow> short_escape d = Some e \<Longrightarrow> c = d"
  by (auto simp: short_escape_def split: if_splits)

lemma json_char_prefix: "json_char c @ x = json_char d @ y \<Longrightarrow> c = d \<and> x = y"
proof -
  assume eq: "json_char c @ x = json_char d @ y"
  have code: "c = d" if "(of_char c :: nat) div 16 = of_char d div 16" "(of_char c :: nat) mod 16 = of_char d mod 16"
    using that by (metis div_mult_mod_eq of_char_eq_iff)
  show ?thesis
  proof (cases c rule: json_char_cases)
    case c: (short e)
    show ?thesis
    proof (cases d rule: json_char_cases)
      case d: (short f)
      with c eq short_escape_inject show ?thesis by auto
    next
      case control
      with c eq show ?thesis by auto
    next
      case plain
      with c eq show ?thesis by auto
    qed
  next
    case c: control
    show ?thesis
    proof (cases d rule: json_char_cases)
      case d: (short f)
      with c eq show ?thesis by auto
    next
      case d: control
      have "of_char c div 16 < (16 :: nat)" "of_char d div 16 < (16 :: nat)"
        using c(1) d(1) by auto
      moreover from c d eq have "hex_char (of_char c div 16) = hex_char (of_char d div 16)"
          "hex_char (of_char c mod 16) = hex_char (of_char d mod 16)" "x = y"
        by simp_all
      ultimately show ?thesis using code hex_char_inject by simp
    next
      case plain
      with c eq show ?thesis by auto
    qed
  next
    case c: plain
    show ?thesis
    proof (cases d rule: json_char_cases)
      case d: (short f)
      with c eq show ?thesis by auto
    next
      case d: control
      with c eq show ?thesis by auto
    next
      case d: plain
      with c eq show ?thesis by auto
    qed
  qed
qed

lemma json_char_no_quote: "json_char c @ x \<noteq> CHR 0x22 # y"
  by (cases c rule: json_char_cases) auto

lemma json_string_prefix: "json_string s @ x = json_string t @ y \<Longrightarrow> s = t \<and> x = y"
proof (induction s arbitrary: t)
  case Nil
  then show ?case
    using json_char_no_quote by (cases t) (auto simp: json_string_def dest: sym)
next
  case (Cons c s)
  show ?case
  proof (cases t)
    case Nil
    with Cons.prems json_char_no_quote show ?thesis by (auto simp: json_string_def)
  next
    case t: (Cons d t')
    with Cons.prems have "json_char c @ concat (map json_char s) @ CHR 0x22 # x =
        json_char d @ concat (map json_char t') @ CHR 0x22 # y"
      by (simp add: json_string_def)
    from json_char_prefix [OF this] have "c = d" "json_string s @ x = json_string t' @ y"
      by (simp_all add: json_string_def)
    with Cons.IH t show ?thesis by blast
  qed
qed

end
