(* ===== verification/Bl_Canonical.thy ===== *)
theory Bl_Canonical
  imports Bl_Json
begin

text \<open>
  What the canonical text keeps of a value. A text is read back deterministically because after
  every value comes the end of the text, a comma, or a closing bracket (\<open>stops\<close>): \<open>unique_text\<close> is
  the induction statement, \<open>commas_unique\<close> its step for arrays and objects. Python mappings are
  equal whatever the order of their members: \<open>jv_norm\<close> sorts them at every level, and two values
  have the same canonical text exactly when their sorted forms are equal.
\<close>

section \<open>Reading a text from the left\<close>

definition stops :: "string \<Rightarrow> bool" where
  "stops x \<longleftrightarrow> x = [] \<or> hd x \<in> {CHR '','', CHR '']'', CHR ''}''}"

lemma stops_simps [simp]: "stops []" "stops (CHR '','' # x)" "stops (CHR '']'' # x)" "stops (CHR ''}'' # x)"
  by (simp_all add: stops_def)

definition is_digit :: "char \<Rightarrow> bool" where
  "is_digit c \<longleftrightarrow> 48 \<le> (of_char c :: nat) \<and> (of_char c :: nat) < 58"

lemma stops_digit: "stops x \<Longrightarrow> takeWhile is_digit x = []"
  by (cases x) (auto simp: stops_def is_digit_def)

lemma nat_str_prefix:
  assumes "nat_str m @ x = nat_str n @ y" "stops x" "stops y"
  shows "m = n \<and> x = y"
proof -
  have "takeWhile is_digit (nat_str k @ z) = nat_str k" if "stops z" for k z
    using that stops_digit nat_str_digits [of _ k] by (subst takeWhile_append2) (auto simp: is_digit_def)
  with assms have "nat_str m = nat_str n" by metis
  with assms(1) show ?thesis by simp
qed

lemma nat_str_minus: "nat_str n @ z \<noteq> CHR ''-'' # u"
  using nat_str_digits [of "CHR ''-''" n] by (cases "nat_str n") auto

lemma int_str_prefix:
  assumes "int_str i @ x = int_str j @ y" "stops x" "stops y"
  shows "i = j \<and> x = y"
proof (cases "i < 0 \<longleftrightarrow> j < 0")
  case True
  then show ?thesis
    using assms nat_str_prefix [of "nat i" x "nat j" y] nat_str_prefix [of "nat (- i)" x "nat (- j)" y]
    by (cases "j < 0") (auto simp: int_str_def)
next
  case False
  then show ?thesis
    using assms(1) nat_str_minus nat_str_minus [THEN not_sym]
    by (cases "j < 0") (simp_all add: int_str_def)
qed

lemma int_str_hd: "int_str i \<noteq> []" "hd (int_str i) = CHR ''-'' \<or> is_digit (hd (int_str i))"
  using nat_str_digits [of "hd (nat_str (nat i))" "nat i"] hd_in_set [OF nat_str_nonempty]
  by (auto simp: int_str_def is_digit_def)

text \<open>Lists of texts between commas.\<close>

definition separable :: "('a \<Rightarrow> string) \<Rightarrow> 'a \<Rightarrow> 'a \<Rightarrow> bool" where
  "separable f a b \<longleftrightarrow>
     (\<forall>x y. stops x \<and> stops y \<and> f a @ x = f b @ y \<longrightarrow> a = b \<and> x = y) \<and>
     \<not> stops (f a) \<and> \<not> stops (f b)"

lemma not_stops_append: "\<not> stops s \<Longrightarrow> \<not> stops (s @ x)"
  by (cases s) (auto simp: stops_def)

lemma commas_not_stops: "\<not> stops (f a) \<Longrightarrow> \<not> stops (commas (map f (a # as)) @ x)"
  using not_stops_append [of "f a"] by (cases as) auto

lemma commas_Cons: "\<exists>u. stops u \<and> commas (map f (a # as)) @ e # x = f a @ u \<and>
    (u = e # x \<and> as = [] \<or> as \<noteq> [] \<and> u = CHR '','' # commas (map f as) @ e # x)"
  if "e = CHR '']'' \<or> e = CHR ''}''"
  using that by (cases as) (auto simp: stops_def)

lemma commas_unique:
  assumes e: "e = CHR '']'' \<or> e = CHR ''}''"
    and "\<And>a b. a \<in> set as \<Longrightarrow> b \<in> set bs \<Longrightarrow> separable f a b"
    and "\<And>a. a \<in> set as \<Longrightarrow> \<not> stops (f a)" "\<And>b. b \<in> set bs \<Longrightarrow> \<not> stops (f b)"
    and "commas (map f as) @ e # x = commas (map f bs) @ e # y"
  shows "as = bs \<and> x = y"
  using assms(2-5)
proof (induction as arbitrary: bs)
  case Nil
  have "stops (e # x)" using e by (auto simp: stops_def)
  with Nil.prems(3,4) show ?case
    using commas_not_stops [of f "hd bs" "tl bs" "e # y"] by (cases bs) auto
next
  case (Cons a as)
  have "stops (e # y)" using e by (auto simp: stops_def)
  with Cons.prems(2,4) commas_not_stops [of f a as "e # x"] have "bs \<noteq> []" by auto
  then obtain b bs' where bs: "bs = b # bs'" by (cases bs) simp_all
  obtain u where u: "stops u" "commas (map f (a # as)) @ e # x = f a @ u"
      "u = e # x \<and> as = [] \<or> as \<noteq> [] \<and> u = CHR '','' # commas (map f as) @ e # x"
    using commas_Cons [OF e, of f a as x] by blast
  obtain v where v: "stops v" "commas (map f (b # bs')) @ e # y = f b @ v"
      "v = e # y \<and> bs' = [] \<or> bs' \<noteq> [] \<and> v = CHR '','' # commas (map f bs') @ e # y"
    using commas_Cons [OF e, of f b bs' y] by blast
  from Cons.prems(4) bs u(2) v(2) have "f a @ u = f b @ v" by simp
  moreover have "separable f a b" using Cons.prems(1) bs by simp
  ultimately have ab: "a = b" "u = v" using u(1) v(1) by (auto simp: separable_def)
  show ?case
  proof (cases "as = []")
    case True
    with u(3) v(3) ab e have "bs' = [] \<and> x = y" by auto
    with True ab bs show ?thesis by simp
  next
    case False
    with u(3) v(3) ab e have "commas (map f as) @ e # x = commas (map f bs') @ e # y" by auto
    with Cons.IH [of bs'] Cons.prems(1-3) bs have "as = bs' \<and> x = y" by simp
    with ab bs show ?thesis by simp
  qed
qed

lemma those_map: "those (map g xs) = Some ts \<Longrightarrow> (\<forall>x \<in> set xs. g x \<noteq> None) \<and> ts = map (the \<circ> g) xs"
  by (induction xs arbitrary: ts) (auto split: option.splits)

lemma canonical_hd:
  "canonical_json v = Some s \<Longrightarrow> s \<noteq> [] \<and>
     (case v of JNull \<Rightarrow> hd s = CHR ''n'' | JBool b \<Rightarrow> hd s = (if b then CHR ''t'' else CHR ''f'')
      | JInt i \<Rightarrow> hd s = CHR ''-'' \<or> is_digit (hd s) | JFloat f \<Rightarrow> False | JStr t \<Rightarrow> hd s = CHR 0x22
      | JArr vs \<Rightarrow> hd s = CHR ''['' | JObj ms \<Rightarrow> hd s = CHR ''{'')"
  using int_str_hd by (cases v) (auto simp: json_string_def split: if_splits)

lemma canonical_not_stops: "canonical_json v = Some s \<Longrightarrow> \<not> stops s"
  using canonical_hd [of v s] by (cases v) (auto simp: stops_def is_digit_def)

definition unique_text :: "jv \<Rightarrow> bool" where
  "unique_text v \<longleftrightarrow> (\<forall>w s t x y. jv_ok w \<and> canonical_json v = Some s \<and> canonical_json w = Some t \<and>
     stops x \<and> stops y \<and> s @ x = t @ y \<longrightarrow> v = w \<and> x = y)"

lemma unique_textI:
  assumes "\<And>w s t x y. jv_ok w \<Longrightarrow> canonical_json v = Some s \<Longrightarrow> canonical_json w = Some t \<Longrightarrow>
      stops x \<Longrightarrow> stops y \<Longrightarrow> s @ x = t @ y \<Longrightarrow> hd s = hd t \<Longrightarrow> v = w \<and> x = y"
  shows "unique_text v"
  unfolding unique_text_def using assms canonical_hd by (metis hd_append2)

lemma unique_arr:
  assumes "\<And>v. v \<in> set vs \<Longrightarrow> unique_text v"
  shows "unique_text (JArr vs)"
proof (rule unique_textI)
  fix w s t x y
  assume w: "jv_ok w" "canonical_json w = Some t" and v: "canonical_json (JArr vs) = Some s"
    and xy: "stops x" "stops y" "s @ x = t @ y" "hd s = hd t"
  from canonical_hd [OF v] canonical_hd [OF w(2)] xy(4) obtain ws where ws: "w = JArr ws"
    by (cases w) (auto simp: is_digit_def split: if_splits)
  let ?f = "the \<circ> canonical_json"
  from v obtain ts where ts: "those (map canonical_json vs) = Some ts" "s = CHR ''['' # commas ts @ '']''" by auto
  from w(2) ws obtain us where us: "those (map canonical_json ws) = Some us" "t = CHR ''['' # commas us @ '']''" by auto
  note T = those_map [OF ts(1)] and U = those_map [OF us(1)]
  have "separable ?f a b" if "a \<in> set vs" "b \<in> set ws" for a b
  proof -
    from T U that obtain p q where pq: "canonical_json a = Some p" "canonical_json b = Some q" by blast
    moreover have "jv_ok b" using w(1) ws that(2) by (auto simp: list_all_iff)
    ultimately show ?thesis
      using assms [OF that(1)] canonical_not_stops by (auto simp: separable_def unique_text_def)
  qed
  moreover have "\<not> stops (?f a)" if "a \<in> set vs \<union> set ws" for a
    using T U that canonical_not_stops by fastforce
  moreover have "commas (map ?f vs) @ CHR '']'' # x = commas (map ?f ws) @ CHR '']'' # y"
    using xy(3) ts(2) us(2) T U by simp
  ultimately show "JArr vs = w \<and> x = y"
    using commas_unique [of "CHR '']''" vs ws ?f x y] ws by simp
qed


definition entry_text :: "string \<times> jv \<Rightarrow> string" where
  "entry_text m = json_string (fst m) @ CHR '':'' # the (canonical_json (snd m))"

lemma object_text:
  assumes "jv_ok (JObj ms)" "canonical_json (JObj ms) = Some s"
  shows "s = CHR ''{'' # commas (map entry_text ms) @ ''}''" "\<forall>m \<in> set ms. canonical_json (snd m) \<noteq> None"
proof -
  from assms(1) have "sort_key fst (map (map_prod id canonical_json) ms) = map (map_prod id canonical_json) ms"
    by (intro sort_key_id_if_sorted) (simp add: comp_def)
  with assms(2) obtain ts where ts: "those (map (member_text \<circ> map_prod id canonical_json) ms) = Some ts"
      "s = CHR ''{'' # commas ts @ ''}''"
    by auto
  from those_map [OF ts(1)] show some: "\<forall>m \<in> set ms. canonical_json (snd m) \<noteq> None"
    by (auto simp: member_text_def)
  then have "map (the \<circ> (member_text \<circ> map_prod id canonical_json)) ms = map entry_text ms"
    by (auto simp: member_text_def entry_text_def)
  with those_map [OF ts(1)] ts(2) show "s = CHR ''{'' # commas (map entry_text ms) @ ''}''" by simp
qed

lemma entry_not_stops: "\<not> stops (entry_text m)"
  by (simp add: entry_text_def json_string_def stops_def)

lemma unique_obj:
  assumes "jv_ok (JObj ms)" "\<And>m. m \<in> set ms \<Longrightarrow> unique_text (snd m)"
  shows "unique_text (JObj ms)"
proof (rule unique_textI)
  fix w s t x y
  assume w: "jv_ok w" "canonical_json w = Some t" and v: "canonical_json (JObj ms) = Some s"
    and xy: "stops x" "stops y" "s @ x = t @ y" "hd s = hd t"
  from canonical_hd [OF v] canonical_hd [OF w(2)] xy(4) obtain ns where ns: "w = JObj ns"
    by (cases w) (auto simp: is_digit_def split: if_splits)
  note S = object_text [OF assms(1) v] and T = object_text [OF w(1) [unfolded ns] w(2) [unfolded ns]]
  have "separable entry_text a b" if "a \<in> set ms" "b \<in> set ns" for a b
  proof -
    from S(2) T(2) that obtain p q where pq: "canonical_json (snd a) = Some p" "canonical_json (snd b) = Some q"
      by blast
    have "jv_ok (snd b)" using w(1) ns that(2) by (auto simp: list_all_iff)
    then have "a = b \<and> u = z" if "stops u" "stops z" "entry_text a @ u = entry_text b @ z" for u z
      using assms(2) [OF \<open>a \<in> set ms\<close>] pq that
        json_string_prefix [of "fst a" "CHR '':'' # p @ u" "fst b" "CHR '':'' # q @ z"]
      by (auto simp: entry_text_def unique_text_def prod_eq_iff)
    then show ?thesis by (auto simp: separable_def entry_not_stops)
  qed
  moreover have "commas (map entry_text ms) @ CHR ''}'' # x = commas (map entry_text ns) @ CHR ''}'' # y"
    using xy(3) S(1) T(1) by simp
  ultimately show "JObj ms = w \<and> x = y"
    using commas_unique [of "CHR ''}''" ms ns entry_text x y] ns by (simp add: entry_not_stops)
qed

lemma canonical_hd_same:
  assumes "canonical_json v = Some s" "canonical_json w = Some t" "hd s = hd t"
  shows "case v of JNull \<Rightarrow> w = JNull | JBool b \<Rightarrow> w = JBool b | JInt i \<Rightarrow> (\<exists>j. w = JInt j) | JFloat f \<Rightarrow> False
    | JStr r \<Rightarrow> (\<exists>r'. w = JStr r') | JArr vs \<Rightarrow> (\<exists>ws. w = JArr ws) | JObj ms \<Rightarrow> (\<exists>ns. w = JObj ns)"
  using canonical_hd [OF assms(1)] canonical_hd [OF assms(2)] assms(3)
  by (cases v; cases w) (auto simp: is_digit_def split: if_splits)

lemma unique_text: "jv_ok v \<Longrightarrow> unique_text v"
proof (induction v)
  case (JArr vs)
  then show ?case by (intro unique_arr) (auto simp: list_all_iff)
next
  case (JObj ms)
  have "unique_text (snd m)" if "m \<in> set ms" for m
    using JObj that by (cases m) (auto simp: list_all_iff)
  with JObj.prems show ?case by (intro unique_obj)
next
  case (JStr r)
  have "JStr r = w \<and> x = y"
    if "canonical_json (JStr r) = Some s" "canonical_json w = Some t" "s @ x = t @ y" "hd s = hd t" for w s t x y
    using that canonical_hd_same [OF that(1,2,4)] json_string_prefix [of r x _ y] by auto
  then show ?case by (intro unique_textI)
next
  case (JInt i)
  have "JInt i = w \<and> x = y"
    if "canonical_json (JInt i) = Some s" "canonical_json w = Some t" "s @ x = t @ y" "hd s = hd t"
      "stops x" "stops y" for w s t x y
    using that canonical_hd_same [OF that(1,2,4)] int_str_prefix [of i x _ y] by (auto split: if_splits)
  then show ?case by (intro unique_textI)
next
  case (JBool b)
  have "JBool b = w \<and> x = y"
    if "canonical_json (JBool b) = Some s" "canonical_json w = Some t" "s @ x = t @ y" "hd s = hd t" for w s t x y
    using that canonical_hd_same [OF that(1,2,4)] by auto
  then show ?case by (intro unique_textI)
next
  case JNull
  have "JNull = w \<and> x = y"
    if "canonical_json JNull = Some s" "canonical_json w = Some t" "s @ x = t @ y" "hd s = hd t" for w s t x y
    using that canonical_hd_same [OF that(1,2,4)] by auto
  then show ?case by (intro unique_textI)
qed (simp add: unique_text_def)

lemma canonical_json_unique:
  "jv_ok v \<Longrightarrow> jv_ok w \<Longrightarrow> canonical_json v = Some s \<Longrightarrow> canonical_json w = Some s \<Longrightarrow> v = w"
  using unique_text [of v] unfolding unique_text_def by (metis stops_simps(1))

section \<open>Values up to the order of their members\<close>

primrec jv_dict :: "jv \<Rightarrow> bool" where
  "jv_dict JNull = True"
| "jv_dict (JBool b) = True"
| "jv_dict (JInt i) = True"
| "jv_dict (JFloat f) = True"
| "jv_dict (JStr s) = True"
| "jv_dict (JArr vs) = list_all id (map jv_dict vs)"
| "jv_dict (JObj ms) = (distinct (map fst ms) \<and> list_all snd (map (map_prod id jv_dict) ms))"

primrec jv_norm :: "jv \<Rightarrow> jv" where
  "jv_norm JNull = JNull"
| "jv_norm (JBool b) = JBool b"
| "jv_norm (JInt i) = JInt i"
| "jv_norm (JFloat f) = JFloat f"
| "jv_norm (JStr s) = JStr s"
| "jv_norm (JArr vs) = JArr (map jv_norm vs)"
| "jv_norm (JObj ms) = JObj (sort_key fst (map (map_prod id jv_norm) ms))"

lemma insort_fst_map: "map (map_prod id g) (insort_key fst a xs) = insort_key fst (map_prod id g a) (map (map_prod id g) xs)"
  by (induction xs) simp_all

lemma sort_fst_map: "sort_key fst (map (map_prod id g) xs) = map (map_prod id g) (sort_key fst xs)"
  by (induction xs) (simp_all add: insort_fst_map [unfolded id_def])

lemma map_fst_map_prod [simp]: "map fst (map (map_prod id g) xs) = map fst xs"
  by simp

lemma canonical_norm: "canonical_json (jv_norm v) = canonical_json v"
proof (induction v)
  case (JArr vs)
  then have "map (canonical_json \<circ> jv_norm) vs = map canonical_json vs" by simp
  then show ?case by (simp del: map_eq_conv)
next
  case (JObj ms)
  have "map_prod id canonical_json (map_prod id jv_norm m) = map_prod id canonical_json m" if "m \<in> set ms" for m
    using JObj that by (cases m) auto
  then have "map (map_prod id canonical_json) (map (map_prod id jv_norm) (sort_key fst ms)) =
      map (map_prod id canonical_json) (sort_key fst ms)"
    unfolding map_map by (intro map_cong) simp_all
  then show ?case
    by (simp add: sort_fst_map sort_key_id_if_sorted del: map_map map_eq_conv)
qed simp_all

lemma jv_ok_norm: "jv_dict v \<Longrightarrow> jv_ok (jv_norm v)"
proof (induction v)
  case (JArr vs)
  then show ?case by (auto simp: list_all_iff)
next
  case (JObj ms)
  have "jv_ok (jv_norm (snd m))" if "m \<in> set ms" for m
    using JObj that by (cases m) (auto simp: list_all_iff)
  with JObj.prems show ?case
    by (auto simp: list_all_iff sort_fst_map comp_def distinct_map)
qed simp_all

primrec admissible :: "jv \<Rightarrow> bool" where
  "admissible JNull = True"
| "admissible (JBool b) = True"
| "admissible (JInt i) = (\<bar>i\<bar> \<le> max_safe_integer)"
| "admissible (JFloat f) = False"
| "admissible (JStr s) = True"
| "admissible (JArr vs) = list_all id (map admissible vs)"
| "admissible (JObj ms) = list_all snd (map (map_prod id admissible) ms)"

lemma those_None_iff: "those (map g xs) = None \<longleftrightarrow> (\<exists>x \<in> set xs. g x = None)"
  by (induction xs) (auto split: option.splits)

lemma canonical_None_iff: "canonical_json v = None \<longleftrightarrow> \<not> admissible v"
proof (induction v)
  case (JArr vs)
  then show ?case by (auto simp: those_None_iff list_all_iff)
next
  case (JObj ms)
  have "canonical_json (snd m) = None \<longleftrightarrow> \<not> admissible (snd m)" if "m \<in> set ms" for m
    using JObj that by (cases m) auto
  then show ?case
    by (auto simp: those_None_iff list_all_iff sort_fst_map member_text_def comp_def)
qed auto

end
