(* ===== verification/Bl_Mapping.thy ===== *)
theory Bl_Mapping
  imports Bl_Canonical
begin

text \<open>
  Mappings of the bead log. A Python \<^verbatim>\<open>dict\<close> whose order of insertion nobody observes is the list of
  its members sorted by key, without duplicates: \<open>dict_ok\<close>. Assignment \<open>dict_put\<close> and removal
  \<open>dict_pop\<close> keep that form, and two such lists are equal as soon as they answer every lookup alike
  (\<open>dict_ext\<close>), so equality of values is Python's \<^verbatim>\<open>==\<close> on mappings.
\<close>

type_synonym ('k, 'v) dict = "('k \<times> 'v) list"

definition dict_ok :: "('k :: linorder, 'v) dict \<Rightarrow> bool" where
  "dict_ok d \<longleftrightarrow> sorted (map fst d) \<and> distinct (map fst d)"

definition dict_pop :: "'k \<Rightarrow> ('k :: linorder, 'v) dict \<Rightarrow> ('k, 'v) dict" where
  "dict_pop k d = filter (\<lambda>m. fst m \<noteq> k) d"

definition dict_put :: "'k \<Rightarrow> 'v \<Rightarrow> ('k :: linorder, 'v) dict \<Rightarrow> ('k, 'v) dict" where
  "dict_put k v d = insort_key fst (k, v) (dict_pop k d)"

definition dict_of :: "('k :: linorder \<times> 'v) list \<Rightarrow> ('k, 'v) dict" where
  "dict_of ms = fold (\<lambda>(k, v) d. dict_put k v d) ms []"

lemma option_eqI: "(\<And>v. x = Some v \<longleftrightarrow> y = Some v) \<Longrightarrow> x = y"
  by (cases x; cases y) auto

lemma dict_ok_Nil [simp]: "dict_ok []"
  by (simp add: dict_ok_def)

lemma dict_ok_pop [simp]: "dict_ok d \<Longrightarrow> dict_ok (dict_pop k d)"
  by (auto simp: dict_ok_def dict_pop_def sorted_filter distinct_map_filter)

lemma dict_pop_keys: "fst ` set (dict_pop k d) = fst ` set d - {k}"
  by (auto simp: dict_pop_def)

lemma dict_ok_put [simp]: "dict_ok d \<Longrightarrow> dict_ok (dict_put k v d)"
  using dict_ok_pop [of d k] dict_pop_keys [of k d]
  by (auto simp: dict_ok_def dict_put_def sorted_insort_key distinct_insort_key)

lemma map_of_insort: "k \<notin> fst ` set d \<Longrightarrow> map_of (insort_key fst (k, v) d) = (map_of d)(k \<mapsto> v)"
  by (induction d) (auto simp: fun_eq_iff)

lemma map_of_pop [simp]: "map_of (dict_pop k d) = (map_of d)(k := None)"
  by (induction d) (auto simp: dict_pop_def fun_eq_iff)

lemma map_of_put [simp]: "map_of (dict_put k v d) = (map_of d)(k \<mapsto> v)"
  using map_of_insort [of k "dict_pop k d" v] by (simp add: dict_put_def dict_pop_keys)

lemma dict_of_Nil [simp]: "dict_of [] = []"
  by (simp add: dict_of_def)

lemma dict_of_append: "dict_of (ms @ [m]) = dict_put (fst m) (snd m) (dict_of ms)"
  by (simp add: dict_of_def split_beta)

lemma dict_ok_of [simp]: "dict_ok (dict_of ms)"
  by (induction ms rule: rev_induct) (simp_all add: dict_of_append)

lemma map_of_dict_of: "map_of (dict_of ms) = map_of (rev ms)"
  by (induction ms rule: rev_induct) (simp_all add: dict_of_append)

lemma map_of_dict_of_distinct [simp]: "distinct (map fst ms) \<Longrightarrow> map_of (dict_of ms) = map_of ms"
  unfolding map_of_dict_of by (subst map_of_inject_set) (simp_all add: rev_map [symmetric])

lemma dict_ext:
  assumes "dict_ok d" "dict_ok e" "\<And>k. map_of d k = map_of e k"
  shows "d = e"
proof (rule map_sorted_distinct_set_unique [of fst])
  have "map_of d = map_of e" using assms(3) by blast
  then show "set d = set e" using assms(1,2) by (simp add: map_of_inject_set dict_ok_def)
  with assms(1) show "inj_on fst (set d \<union> set e)" by (simp add: dict_ok_def distinct_map)
qed (use assms in \<open>simp_all add: dict_ok_def\<close>)

lemma dict_put_same: "dict_ok d \<Longrightarrow> map_of d k = Some v \<Longrightarrow> dict_put k v d = d"
  by (rule dict_ext) auto

lemma dict_pop_absent: "map_of d k = None \<Longrightarrow> dict_pop k d = d"
  by (force simp: dict_pop_def filter_id_conv map_of_eq_None_iff)

section \<open>JSON objects\<close>

lemma jv_ok_obj: "jv_ok (JObj ms) \<longleftrightarrow> dict_ok ms \<and> (\<forall>v \<in> snd ` set ms. jv_ok v)"
  by (auto simp: dict_ok_def list_all_iff)

lemma admissible_obj: "admissible (JObj ms) \<longleftrightarrow> (\<forall>v \<in> snd ` set ms. admissible v)"
  by (auto simp: list_all_iff)

lemma jv_ok_arr: "jv_ok (JArr vs) \<longleftrightarrow> (\<forall>v \<in> set vs. jv_ok v)"
  by (auto simp: list_all_iff)

lemma set_dict_put: "set (dict_put k v d) = insert (k, v) {m \<in> set d. fst m \<noteq> k}"
  by (auto simp: dict_put_def dict_pop_def set_insort_key)

lemma snd_dict_of: "snd ` set (dict_of ms) \<subseteq> snd ` set ms"
  by (induction ms rule: rev_induct) (auto simp: dict_of_append set_dict_put)

end
