(* ===== verification/Bl_Time.thy ===== *)
theory Bl_Time
  imports Bl_Mapping "HOL-Library.Product_Lexorder"
begin

text \<open>
  Canonical timestamps (\<^verbatim>\<open>packages/beadlog/src/beadlog/_time.py\<close>): the regular expression
  \<^verbatim>\<open>_TIMESTAMP\<close> as a test of each position, and the instant a timestamp stands for, a tuple compared
  lexicographically. Fractions are nanoseconds, so the order of instants is the order of times where
  the order of texts is not; the spelling is unique, so equal instants are equal texts
  (\<open>instant_inject\<close>).
\<close>

type_synonym instant = "nat \<times> string \<times> nat"

definition infinity :: instant where
  "infinity = (1, [], 0)"

definition in_range :: "char \<Rightarrow> char \<Rightarrow> char \<Rightarrow> bool" where
  "in_range lo hi c \<longleftrightarrow> (of_char lo :: nat) \<le> of_char c \<and> (of_char c :: nat) \<le> of_char hi"

abbreviation digit :: "char \<Rightarrow> bool" where
  "digit \<equiv> in_range (CHR ''0'') (CHR ''9'')"

fun month_pair :: "char \<Rightarrow> char \<Rightarrow> bool" where
  "month_pair a b = (a = CHR ''0'' \<and> in_range (CHR ''1'') (CHR ''9'') b \<or> a = CHR ''1'' \<and> in_range (CHR ''0'') (CHR ''2'') b)"

fun day_pair :: "char \<Rightarrow> char \<Rightarrow> bool" where
  "day_pair a b =
     (a = CHR ''0'' \<and> in_range (CHR ''1'') (CHR ''9'') b \<or> in_range (CHR ''1'') (CHR ''2'') a \<and> digit b \<or>
      a = CHR ''3'' \<and> in_range (CHR ''0'') (CHR ''1'') b)"

fun hour_pair :: "char \<Rightarrow> char \<Rightarrow> bool" where
  "hour_pair a b = (in_range (CHR ''0'') (CHR ''1'') a \<and> digit b \<or> a = CHR ''2'' \<and> in_range (CHR ''0'') (CHR ''3'') b)"

fun sixty_pair :: "char \<Rightarrow> char \<Rightarrow> bool" where
  "sixty_pair a b = (in_range (CHR ''0'') (CHR ''5'') a \<and> digit b)"

text \<open>The fixed nineteen characters, and the rest: \<^verbatim>\<open>(\.[0-9]{0,8}[1-9])?Z\<close>.\<close>

fun seconds_text :: "string \<Rightarrow> bool" where
  "seconds_text [y1, y2, y3, y4, s1, m1, m2, s2, d1, d2, t, h1, h2, s3, n1, n2, s4, c1, c2] =
     (digit y1 \<and> digit y2 \<and> digit y3 \<and> digit y4 \<and> s1 = CHR ''-'' \<and> month_pair m1 m2 \<and> s2 = CHR ''-'' \<and>
      day_pair d1 d2 \<and> t = CHR ''T'' \<and> hour_pair h1 h2 \<and> s3 = CHR '':'' \<and> sixty_pair n1 n2 \<and>
      s4 = CHR '':'' \<and> sixty_pair c1 c2)"
| "seconds_text _ = False"

definition fraction_text :: "string \<Rightarrow> bool" where
  "fraction_text f \<longleftrightarrow>
     f \<noteq> [] \<and> length f \<le> 9 \<and> list_all digit (butlast f) \<and> in_range (CHR ''1'') (CHR ''9'') (last f)"

definition is_timestamp :: "string \<Rightarrow> bool" where
  "is_timestamp v \<longleftrightarrow>
     seconds_text (take 19 v) \<and>
     (drop 19 v = ''Z'' \<or>
      drop 19 v \<noteq> [] \<and> hd (drop 19 v) = CHR ''.'' \<and> last v = CHR ''Z'' \<and> 2 \<le> length (drop 19 v) \<and>
      fraction_text (butlast (drop 20 v)))"

definition check_timestamp :: "jv \<Rightarrow> string option" where
  "check_timestamp v = (case v of JStr s \<Rightarrow> if is_timestamp s then Some s else None | _ \<Rightarrow> None)"

definition ljust :: "nat \<Rightarrow> char \<Rightarrow> string \<Rightarrow> string" where
  "ljust n c s = s @ replicate (n - length s) c"

definition instant :: "string option \<Rightarrow> instant option" where
  "instant v =
     (case v of
        None \<Rightarrow> Some infinity
      | Some s \<Rightarrow>
          if is_timestamp s
          then (let fraction = (if s ! 19 = CHR ''.'' then butlast (drop 20 s) else [])
                in Some (0, take 19 s, if fraction = [] then 0 else str_nat (ljust 9 (CHR ''0'') fraction)))
          else None)"

section \<open>Equal instants are equal texts\<close>

lemma str_nat_snoc: "str_nat (s @ [c]) = 10 * str_nat s + (of_char c - 48)"
  by (simp add: str_nat_def)

lemma str_nat_zeros: "str_nat (replicate n (CHR ''0'')) = 0"
  by (induction n) (simp_all add: str_nat_def)

lemma str_nat_inject:
  assumes "length s = length t" "list_all digit s" "list_all digit t" "str_nat s = str_nat t"
  shows "s = t"
  using assms
proof (induction s t rule: rev_induct2)
  case (4 c s d t)
  define u where "u = (of_char c :: nat) - 48"
  define w where "w = (of_char d :: nat) - 48"
  have digits: "48 \<le> (of_char c :: nat)" "48 \<le> (of_char d :: nat)" "u < 10" "w < 10"
    using "4.prems"(2,3) by (auto simp: in_range_def u_def w_def)
  have "10 * str_nat s + u = 10 * str_nat t + w"
    using "4.prems"(4) by (simp add: str_nat_snoc u_def w_def)
  then have "(10 * str_nat s + u) div 10 = (10 * str_nat t + w) div 10"
      "(10 * str_nat s + u) mod 10 = (10 * str_nat t + w) mod 10" by simp_all
  with digits(3,4) have st: "str_nat s = str_nat t" and "u = w" by simp_all
  with digits(1,2) have "(of_char c :: nat) = of_char d" unfolding u_def w_def by linarith
  then have "c = d" by simp
  moreover have "s = t" using "4.IH" "4.prems"(1-3) st by simp
  ultimately show ?case by simp
qed auto

definition fraction_of :: "string \<Rightarrow> string" where
  "fraction_of s = (if s ! 19 = CHR ''.'' then butlast (drop 20 s) else [])"

lemma timestamp_length: "is_timestamp s \<Longrightarrow> 20 \<le> length s"
proof -
  assume "is_timestamp s"
  then have "1 \<le> length (drop 19 s)" by (auto simp: is_timestamp_def simp del: length_drop)
  then show ?thesis by simp
qed

lemma timestamp_spelling:
  assumes "is_timestamp s"
  shows "s = take 19 s @ (if fraction_of s = [] then ''Z'' else CHR ''.'' # fraction_of s @ ''Z'')"
    "fraction_of s \<noteq> [] \<Longrightarrow> fraction_text (fraction_of s)"
proof -
  from timestamp_length [OF assms] have d: "drop 19 s = s ! 19 # drop 20 s"
    using Cons_nth_drop_Suc [of 19 s] by simp
  consider (whole) "drop 19 s = ''Z''"
    | (frac) "s ! 19 = CHR ''.''" "last s = CHR ''Z''" "drop 20 s \<noteq> []" "fraction_text (butlast (drop 20 s))"
    using assms d by (fastforce simp: is_timestamp_def)
  then have D: "drop 19 s = (if fraction_of s = [] then ''Z'' else CHR ''.'' # fraction_of s @ ''Z'') \<and>
      (fraction_of s \<noteq> [] \<longrightarrow> fraction_text (fraction_of s))"
  proof cases
    case whole
    with d show ?thesis by (simp add: fraction_of_def)
  next
    case frac
    then have "drop 20 s = butlast (drop 20 s) @ ''Z''"
      using append_butlast_last_id [of "drop 20 s"] by simp
    moreover have "butlast (drop 20 s) \<noteq> []" using frac(4) by (simp add: fraction_text_def)
    ultimately show ?thesis using frac d by (simp add: fraction_of_def)
  qed
  show "s = take 19 s @ (if fraction_of s = [] then ''Z'' else CHR ''.'' # fraction_of s @ ''Z'')"
    unfolding conjunct1 [OF D, symmetric] by simp
  show "fraction_of s \<noteq> [] \<Longrightarrow> fraction_text (fraction_of s)" using D by blast
qed

definition nanoseconds :: "string \<Rightarrow> nat" where
  "nanoseconds f = (if f = [] then 0 else str_nat (ljust 9 (CHR ''0'') f))"

lemma instant_timestamp: "is_timestamp s \<Longrightarrow> instant (Some s) = Some (0, take 19 s, nanoseconds (fraction_of s))"
  by (simp add: instant_def fraction_of_def nanoseconds_def Let_def)

lemma fraction_digits: "fraction_text f \<Longrightarrow> list_all digit f"
  by (cases f rule: rev_cases) (auto simp: fraction_text_def in_range_def)

lemma ljust_digits: "list_all digit f \<Longrightarrow> list_all digit (ljust n (CHR ''0'') f)"
  by (auto simp: ljust_def list_all_iff in_range_def)

lemma ljust_inject:
  assumes "fraction_text f" "fraction_text g" "ljust 9 (CHR ''0'') f = ljust 9 (CHR ''0'') g"
  shows "f = g"
proof -
  have strip: "dropWhile (\<lambda>c. c = CHR ''0'') (rev (ljust 9 (CHR ''0'') h)) = rev h" if "fraction_text h" for h
    using that by (cases h rule: rev_cases)
      (auto simp: ljust_def fraction_text_def dropWhile_append in_range_def)
  from assms strip have "rev f = rev g" by metis
  then show ?thesis by simp
qed

lemma nanoseconds_inject:
  assumes "f \<noteq> [] \<Longrightarrow> fraction_text f" "g \<noteq> [] \<Longrightarrow> fraction_text g" "nanoseconds f = nanoseconds g"
  shows "f = g"
proof -
  let ?z = "replicate 9 (CHR ''0'')"
  define pad where "pad h = ljust 9 (CHR ''0'') h" for h
  have zero: "nanoseconds h = str_nat (pad h)" for h
    using str_nat_zeros [of 9] by (simp add: nanoseconds_def pad_def ljust_def)
  have pads: "length (pad h) = 9 \<and> list_all digit (pad h)" if "h \<noteq> [] \<Longrightarrow> fraction_text h" for h
    using that fraction_digits [of h] ljust_digits [of h 9]
    by (cases "h = []") (auto simp: pad_def ljust_def fraction_text_def list_all_iff in_range_def)
  have same: "pad f = pad g"
    using assms pads [of f] pads [of g] str_nat_inject [of "pad f" "pad g"] by (simp add: zero)
  have nonzero: "pad h \<noteq> pad []" if "fraction_text h" for h
  proof -
    from that have "last h \<in> set (pad h)" "last h \<noteq> CHR ''0''"
      by (auto simp: pad_def ljust_def fraction_text_def in_range_def)
    moreover have "set (pad []) = {CHR ''0''}" by (simp add: pad_def ljust_def)
    ultimately show ?thesis by (metis singletonD)
  qed
  show ?thesis
    using same assms(1,2) nonzero [of f] nonzero [of g] ljust_inject [of f g]
    by (cases "f = []"; cases "g = []") (auto simp: pad_def)
qed

lemma instant_unique:
  assumes "instant v = Some i" "instant w = Some i"
  shows "v = w"
proof (cases v)
  case None
  with assms show ?thesis by (cases w) (auto simp: instant_def infinity_def Let_def split: if_splits)
next
  case v: (Some s)
  with assms(1) have s: "is_timestamp s" by (auto simp: instant_def split: if_splits)
  show ?thesis
  proof (cases w)
    case None
    with assms v s show ?thesis by (auto simp: instant_timestamp) (simp add: instant_def infinity_def)
  next
    case w: (Some t)
    with assms(2) have t: "is_timestamp t" by (auto simp: instant_def split: if_splits)
    from assms v w instant_timestamp [OF s] instant_timestamp [OF t]
    have "take 19 s = take 19 t" "nanoseconds (fraction_of s) = nanoseconds (fraction_of t)" by auto
    moreover have "fraction_of s = fraction_of t"
      using calculation(2) timestamp_spelling(2) [OF s] timestamp_spelling(2) [OF t] by (rule nanoseconds_inject [rotated 2])
    ultimately have "s = t" using timestamp_spelling(1) [OF s] timestamp_spelling(1) [OF t] by metis
    with v w show ?thesis by simp
  qed
qed

end
