(* ===== verification/Bl_Model.thy ===== *)
theory Bl_Model
  imports Bl_Time
begin

text \<open>
  The event envelope (\<^verbatim>\<open>packages/beadlog/src/beadlog/_model.py\<close>): bead references, edges,
  evidence, sources and events, with \<^verbatim>\<open>to_json\<close> and \<^verbatim>\<open>from_json\<close>. \<open>bl_error\<close> has one constructor per
  exception class the package raises or lets through. A decoded JSON value is a \<open>jv\<close>; \<open>JNull\<close> is
  Python's \<^verbatim>\<open>None\<close>. \<open>event_args\<close> are the arguments of the \<^verbatim>\<open>BeadEvent\<close> constructor before
  \<^verbatim>\<open>__post_init__\<close> checks and converts them. Confidence is the number it stands for, as Python
  compares integers and floats by value.
\<close>

datatype bl_error =
    EventFormatError
  | TimestampError
  | AdmissibleValueError
  | IdCollisionError string
  | NotAPointer
  | NoSource
  | TypeError
  | AttributeError
  | KeyError string
  | IndexError
  | ValueError
  | NoCheckpoint

section \<open>Python values\<close>

definition jget :: "string \<Rightarrow> (string, jv) dict \<Rightarrow> jv" where
  "jget k d = (case map_of d k of None \<Rightarrow> JNull | Some v \<Rightarrow> v)"

fun truthy :: "jv \<Rightarrow> bool" where
  "truthy JNull = False"
| "truthy (JBool b) = b"
| "truthy (JInt i) = (i \<noteq> 0)"
| "truthy (JFloat f) = (f \<noteq> 0)"
| "truthy (JStr s) = (s \<noteq> [])"
| "truthy (JArr vs) = (vs \<noteq> [])"
| "truthy (JObj ms) = (ms \<noteq> [])"

fun items_of :: "jv \<Rightarrow> bl_error + jv list" where
  "items_of (JArr vs) = Inr vs"
| "items_of (JStr s) = Inr (map (\<lambda>c. JStr [c]) s)"
| "items_of (JObj ms) = Inr (map (JStr \<circ> fst) ms)"
| "items_of _ = Inl TypeError"

primrec traverse :: "('a \<Rightarrow> 'e + 'b) \<Rightarrow> 'a list \<Rightarrow> 'e + 'b list" where
  "traverse f [] = Inr []"
| "traverse f (x # xs) = and_then (f x) (\<lambda>y. and_then (traverse f xs) (\<lambda>ys. Inr (y # ys)))"

lemma traverse_ok: "(\<And>x. x \<in> set xs \<Longrightarrow> f x = Inr (g x)) \<Longrightarrow> traverse f xs = Inr (map g xs)"
  by (induction xs) simp_all

lemma traverse_map_id: "(\<And>x. x \<in> set xs \<Longrightarrow> f (g x) = Inr x) \<Longrightarrow> traverse f (map g xs) = Inr xs"
  by (induction xs) simp_all

section \<open>Enumerations\<close>

datatype event_kind =
    Create | Set | Label_add | Label_remove | Edge_add | Edge_remove | Comment | Phase | Retire | Delete
  | Tombstone | Checkpoint

fun kind_str :: "event_kind \<Rightarrow> string" where
  "kind_str Create = ''create''"
| "kind_str Set = ''set''"
| "kind_str Label_add = ''label_add''"
| "kind_str Label_remove = ''label_remove''"
| "kind_str Edge_add = ''edge_add''"
| "kind_str Edge_remove = ''edge_remove''"
| "kind_str Comment = ''comment''"
| "kind_str Phase = ''phase''"
| "kind_str Retire = ''retire''"
| "kind_str Delete = ''delete''"
| "kind_str Tombstone = ''tombstone''"
| "kind_str Checkpoint = ''checkpoint''"

definition all_kinds :: "event_kind list" where
  "all_kinds =
     [Create, Set, Label_add, Label_remove, Edge_add, Edge_remove, Comment, Phase, Retire, Delete,
      Tombstone, Checkpoint]"

datatype provenance = Observed | Derived | Inferred

fun provenance_str :: "provenance \<Rightarrow> string" where
  "provenance_str Observed = ''observed''"
| "provenance_str Derived = ''derived''"
| "provenance_str Inferred = ''inferred''"

datatype precision = Second | Minute | Hour | Day | Month | Year

fun precision_str :: "precision \<Rightarrow> string" where
  "precision_str Second = ''second''"
| "precision_str Minute = ''minute''"
| "precision_str Hour = ''hour''"
| "precision_str Day = ''day''"
| "precision_str Month = ''month''"
| "precision_str Year = ''year''"

text \<open>\<^verbatim>\<open>EventKind(value)\<close> and the like: the member whose text is the value.\<close>

definition enum_of :: "('a \<Rightarrow> string) \<Rightarrow> 'a list \<Rightarrow> jv \<Rightarrow> bl_error + 'a" where
  "enum_of str members v =
     (case find (\<lambda>m. v = JStr (str m)) members of None \<Rightarrow> Inl EventFormatError | Some m \<Rightarrow> Inr m)"

lemma enum_kind [simp]: "enum_of kind_str all_kinds (JStr (kind_str k)) = Inr k"
  by (cases k) (simp_all add: enum_of_def all_kinds_def)

lemma enum_provenance [simp]:
  "enum_of provenance_str [Observed, Derived, Inferred] (JStr (provenance_str p)) = Inr p"
  by (cases p) (simp_all add: enum_of_def)

lemma enum_precision [simp]:
  "enum_of precision_str [Second, Minute, Hour, Day, Month, Year] (JStr (precision_str p)) = Inr p"
  by (cases p) (simp_all add: enum_of_def)

section \<open>References, edges, evidence, sources\<close>

datatype bead_ref = BeadRef (ref_group: string) (ref_id: string)

definition bead_ref_to_json :: "bead_ref \<Rightarrow> jv" where
  "bead_ref_to_json r = JObj (dict_of [(''group'', JStr (ref_group r)), (''id'', JStr (ref_id r))])"

definition bead_ref_from_json :: "jv \<Rightarrow> bl_error + bead_ref" where
  "bead_ref_from_json v =
     (case v of
        JObj ms \<Rightarrow>
          (case (jget ''group'' ms, jget ''id'' ms) of
             (JStr g, JStr i) \<Rightarrow> if g = [] \<or> i = [] then Inl EventFormatError else Inr (BeadRef g i)
           | _ \<Rightarrow> Inl EventFormatError)
      | _ \<Rightarrow> Inl EventFormatError)"

datatype edge = Edge (edge_type: string) (edge_target: bead_ref)

definition edge_to_json :: "edge \<Rightarrow> jv" where
  "edge_to_json e = JObj (dict_of [(''target'', bead_ref_to_json (edge_target e)), (''type'', JStr (edge_type e))])"

definition edge_from_json :: "jv \<Rightarrow> bl_error + edge" where
  "edge_from_json v =
     (case v of
        JObj ms \<Rightarrow>
          (case jget ''type'' ms of
             JStr t \<Rightarrow> and_then (bead_ref_from_json (jget ''target'' ms)) (\<lambda>r. Inr (Edge t r))
           | _ \<Rightarrow> Inl EventFormatError)
      | _ \<Rightarrow> Inl EventFormatError)"

record evidence =
  evd_type :: string
  evd_ref :: string
  evd_note :: "string option"

definition opt_member :: "string \<Rightarrow> ('a \<Rightarrow> jv) \<Rightarrow> 'a option \<Rightarrow> (string \<times> jv) list" where
  "opt_member name f x = (case x of None \<Rightarrow> [] | Some y \<Rightarrow> [(name, f y)])"

definition evidence_members :: "evidence \<Rightarrow> (string, jv) dict" where
  "evidence_members e =
     dict_of ([(''type'', JStr (evd_type e)), (''ref'', JStr (evd_ref e))] @ opt_member ''note'' JStr (evd_note e))"

definition evidence_to_json :: "evidence \<Rightarrow> jv" where
  "evidence_to_json e = JObj (evidence_members e)"

definition evidence_from_json :: "jv \<Rightarrow> bl_error + evidence" where
  "evidence_from_json v =
     (case v of
        JObj ms \<Rightarrow>
          (case (jget ''type'' ms, jget ''ref'' ms) of
             (JStr t, JStr r) \<Rightarrow>
               (case jget ''note'' ms of
                  JNull \<Rightarrow> Inr \<lparr>evd_type = t, evd_ref = r, evd_note = None\<rparr>
                | JStr n \<Rightarrow> Inr \<lparr>evd_type = t, evd_ref = r, evd_note = Some n\<rparr>
                | _ \<Rightarrow> Inl EventFormatError)
           | _ \<Rightarrow> Inl EventFormatError)
      | _ \<Rightarrow> Inl EventFormatError)"

record source =
  src_system :: string
  src_ref :: string
  src_evidence :: "evidence list"

definition source_members :: "source \<Rightarrow> (string, jv) dict" where
  "source_members s =
     dict_of ([(''system'', JStr (src_system s)), (''ref'', JStr (src_ref s))] @
       (if src_evidence s = [] then [] else [(''evidence'', JArr (map evidence_to_json (src_evidence s)))]))"

definition source_to_json :: "source \<Rightarrow> jv" where
  "source_to_json s = JObj (source_members s)"

definition source_from_json :: "jv \<Rightarrow> bl_error + source" where
  "source_from_json v =
     (case v of
        JObj ms \<Rightarrow>
          (case (jget ''system'' ms, jget ''ref'' ms) of
             (JStr system, JStr r) \<Rightarrow>
               if r = [] then Inl EventFormatError
               else and_then (if truthy (jget ''evidence'' ms) then items_of (jget ''evidence'' ms) else Inr [])
                 (\<lambda>items. and_then (traverse evidence_from_json items)
                   (\<lambda>es. Inr \<lparr>src_system = system, src_ref = r, src_evidence = es\<rparr>))
           | _ \<Rightarrow> Inl EventFormatError)
      | _ \<Rightarrow> Inl EventFormatError)"

section \<open>Events\<close>

record bead_event =
  ev_id :: string
  ev_kind :: event_kind
  ev_bead :: bead_ref
  occurred_at :: "string option"
  recorded_at :: "string option"
  extracted_at :: string
  ev_source :: source
  ev_provenance :: provenance
  ev_data :: "(string, jv) dict"
  occurred_precision :: "precision option"
  confidence :: "rat option"
  actor :: "string option"
  lamport :: "int option"
  ev_prev :: "jv list option"
  redacted :: "jv list option"
  annotations :: "jv option"

record event_args =
  arg_id :: jv
  arg_kind :: jv
  arg_bead :: bead_ref
  arg_occurred_at :: "string option"
  arg_recorded_at :: "string option"
  arg_extracted_at :: jv
  arg_source :: source
  arg_provenance :: jv
  arg_data :: jv
  arg_precision :: jv
  arg_confidence :: "rat option"
  arg_actor :: "string option"
  arg_lamport :: "int option"
  arg_prev :: "jv list option"
  arg_redacted :: "jv list option"
  arg_annotations :: "jv option"

definition is_event_id :: "string \<Rightarrow> bool" where
  "is_event_id s \<longleftrightarrow>
     take 7 s = ''sha256:'' \<and> length s = 71 \<and>
     list_all (\<lambda>c. digit c \<or> in_range (CHR ''a'') (CHR ''f'') c) (drop 7 s)"

definition optional_timestamp :: "string option \<Rightarrow> bl_error + unit" where
  "optional_timestamp t =
     (case t of None \<Rightarrow> Inr () | Some s \<Rightarrow> if is_timestamp s then Inr () else Inl TimestampError)"

definition optional_precision :: "jv \<Rightarrow> bl_error + precision option" where
  "optional_precision v =
     (if v = JNull then Inr None
      else and_then (enum_of precision_str [Second, Minute, Hour, Day, Month, Year] v) (Inr \<circ> Some))"

definition post_init :: "event_args \<Rightarrow> bl_error + bead_event" where
  "post_init a =
     and_then (case arg_id a of JStr s \<Rightarrow> if is_event_id s then Inr s else Inl EventFormatError | _ \<Rightarrow> Inl EventFormatError)
       (\<lambda>ident. and_then (enum_of kind_str all_kinds (arg_kind a))
       (\<lambda>kind. and_then (enum_of provenance_str [Observed, Derived, Inferred] (arg_provenance a))
       (\<lambda>prov. and_then (optional_precision (arg_precision a))
       (\<lambda>prec. and_then (optional_timestamp (arg_occurred_at a))
       (\<lambda>_. and_then (optional_timestamp (arg_recorded_at a))
       (\<lambda>_. and_then (case check_timestamp (arg_extracted_at a) of None \<Rightarrow> Inl TimestampError | Some s \<Rightarrow> Inr s)
       (\<lambda>extracted. and_then (case arg_data a of JObj ms \<Rightarrow> Inr ms | _ \<Rightarrow> Inl EventFormatError)
       (\<lambda>data. Inr
          \<lparr>ev_id = ident, ev_kind = kind, ev_bead = arg_bead a, occurred_at = arg_occurred_at a,
           recorded_at = arg_recorded_at a, extracted_at = extracted, ev_source = arg_source a,
           ev_provenance = prov, ev_data = data, occurred_precision = prec, confidence = arg_confidence a,
           actor = arg_actor a, lamport = arg_lamport a, ev_prev = arg_prev a, redacted = arg_redacted a,
           annotations = arg_annotations a\<rparr>))))))))"

definition optional_json :: "string option \<Rightarrow> jv" where
  "optional_json t = (case t of None \<Rightarrow> JNull | Some s \<Rightarrow> JStr s)"

definition event_members :: "bead_event \<Rightarrow> (string, jv) dict" where
  "event_members e =
     dict_of
       ([(''id'', JStr (ev_id e)), (''kind'', JStr (kind_str (ev_kind e))), (''bead'', bead_ref_to_json (ev_bead e)),
         (''occurred_at'', optional_json (occurred_at e)), (''recorded_at'', optional_json (recorded_at e)),
         (''extracted_at'', JStr (extracted_at e)), (''source'', source_to_json (ev_source e)),
         (''provenance'', JStr (provenance_str (ev_provenance e))), (''data'', JObj (ev_data e))] @
        opt_member ''occurred_precision'' (JStr \<circ> precision_str) (occurred_precision e) @
        opt_member ''confidence'' JFloat (confidence e) @
        opt_member ''actor'' JStr (actor e) @
        opt_member ''lamport'' JInt (lamport e) @
        opt_member ''prev'' JArr (ev_prev e) @
        opt_member ''redacted'' JArr (redacted e) @
        opt_member ''annotations'' id (annotations e))"

definition event_to_json :: "bead_event \<Rightarrow> jv" where
  "event_to_json e = JObj (event_members e)"

definition optional_str :: "jv \<Rightarrow> bl_error + string option" where
  "optional_str v = (case v of JNull \<Rightarrow> Inr None | JStr s \<Rightarrow> Inr (Some s) | _ \<Rightarrow> Inl EventFormatError)"

definition optional_items :: "jv \<Rightarrow> bl_error + jv list option" where
  "optional_items v = (if v = JNull then Inr None else and_then (items_of v) (Inr \<circ> Some))"

definition required_members :: "string list" where
  "required_members =
     [''id'', ''kind'', ''bead'', ''occurred_at'', ''recorded_at'', ''extracted_at'', ''source'', ''provenance'', ''data'']"

definition confidence_of :: "jv \<Rightarrow> bl_error + rat option" where
  "confidence_of v =
     (case v of JNull \<Rightarrow> Inr None | JInt i \<Rightarrow> Inr (Some (of_int i)) | JFloat f \<Rightarrow> Inr (Some f) | _ \<Rightarrow> Inl EventFormatError)"

definition lamport_of :: "jv \<Rightarrow> bl_error + int option" where
  "lamport_of v = (case v of JNull \<Rightarrow> Inr None | JInt i \<Rightarrow> Inr (Some i) | _ \<Rightarrow> Inl EventFormatError)"

definition event_from_members :: "(string, jv) dict \<Rightarrow> bl_error + bead_event" where
  "event_from_members ms =
     (if \<not> list_all (\<lambda>name. map_of ms name \<noteq> None) required_members then Inl EventFormatError
      else
        and_then (confidence_of (jget ''confidence'' ms))
          (\<lambda>conf. and_then (lamport_of (jget ''lamport'' ms))
          (\<lambda>clock. and_then (bead_ref_from_json (jget ''bead'' ms))
          (\<lambda>bead. and_then (optional_str (jget ''occurred_at'' ms))
          (\<lambda>occurred. and_then (optional_str (jget ''recorded_at'' ms))
          (\<lambda>recorded. and_then (source_from_json (jget ''source'' ms))
          (\<lambda>source. and_then (optional_str (jget ''actor'' ms))
          (\<lambda>who. and_then (optional_items (jget ''prev'' ms))
          (\<lambda>prev. and_then (optional_items (jget ''redacted'' ms))
          (\<lambda>withheld. post_init
             \<lparr>arg_id = jget ''id'' ms, arg_kind = jget ''kind'' ms, arg_bead = bead, arg_occurred_at = occurred,
              arg_recorded_at = recorded, arg_extracted_at = jget ''extracted_at'' ms, arg_source = source,
              arg_provenance = jget ''provenance'' ms, arg_data = jget ''data'' ms,
              arg_precision = jget ''occurred_precision'' ms, arg_confidence = conf, arg_actor = who,
              arg_lamport = clock, arg_prev = prev, arg_redacted = withheld,
              arg_annotations = (case jget ''annotations'' ms of JNull \<Rightarrow> None | v \<Rightarrow> Some v)\<rparr>))))))))))"

definition event_from_json :: "jv \<Rightarrow> bl_error + bead_event" where
  "event_from_json v = (case v of JObj ms \<Rightarrow> event_from_members ms | _ \<Rightarrow> Inl EventFormatError)"

section \<open>Well-formed events\<close>

definition bead_ok :: "bead_ref \<Rightarrow> bool" where
  "bead_ok r \<longleftrightarrow> ref_group r \<noteq> [] \<and> ref_id r \<noteq> []"

lemma pred_option_code [code]: "pred_option P x = (case x of None \<Rightarrow> True | Some y \<Rightarrow> P y)"
  by (cases x) simp_all

definition event_wf :: "bead_event \<Rightarrow> bool" where
  "event_wf e \<longleftrightarrow>
     is_event_id (ev_id e) \<and> bead_ok (ev_bead e) \<and> src_ref (ev_source e) \<noteq> [] \<and>
     pred_option is_timestamp (occurred_at e) \<and> pred_option is_timestamp (recorded_at e) \<and>
     is_timestamp (extracted_at e) \<and> annotations e \<noteq> Some JNull"

lemma map_of_opt_member [simp]:
  "map_of (opt_member name f x) k = (if k = name then map_option f x else None)"
  by (cases x) (auto simp: opt_member_def)

lemma map_of_rev_opt [simp]: "map_of (rev (opt_member name f x)) = map_of (opt_member name f x)"
  by (cases x) (auto simp: opt_member_def)

lemma bead_ref_roundtrip [simp]: "bead_ok r \<Longrightarrow> bead_ref_from_json (bead_ref_to_json r) = Inr r"
  by (cases r) (simp add: bead_ref_from_json_def bead_ref_to_json_def jget_def bead_ok_def)

lemma edge_roundtrip [simp]: "bead_ok (edge_target e) \<Longrightarrow> edge_from_json (edge_to_json e) = Inr e"
  by (cases e) (simp add: edge_from_json_def edge_to_json_def jget_def)

lemma evidence_get:
  "jget ''type'' (evidence_members e) = JStr (evd_type e)"
  "jget ''ref'' (evidence_members e) = JStr (evd_ref e)"
  "jget ''note'' (evidence_members e) = optional_json (evd_note e)"
  by (simp_all add: jget_def evidence_members_def map_of_dict_of map_add_def optional_json_def split: option.split)

lemma evidence_roundtrip [simp]: "evidence_from_json (evidence_to_json e) = Inr e"
  by (cases "evd_note e") (simp_all add: evidence_from_json_def evidence_to_json_def evidence_get optional_json_def)

lemma source_get:
  "jget ''system'' (source_members s) = JStr (src_system s)"
  "jget ''ref'' (source_members s) = JStr (src_ref s)"
  "jget ''evidence'' (source_members s) =
     (if src_evidence s = [] then JNull else JArr (map evidence_to_json (src_evidence s)))"
  by (simp_all add: jget_def source_members_def map_of_dict_of map_add_def)

lemma source_roundtrip [simp]:
  "src_ref s \<noteq> [] \<Longrightarrow> source_from_json (source_to_json s) = Inr s"
  by (auto simp: source_from_json_def source_to_json_def source_get traverse_map_id)

lemma map_of_event_members:
  "map_of (event_members e) k =
     (if k = ''id'' then Some (JStr (ev_id e))
      else if k = ''kind'' then Some (JStr (kind_str (ev_kind e)))
      else if k = ''bead'' then Some (bead_ref_to_json (ev_bead e))
      else if k = ''occurred_at'' then Some (optional_json (occurred_at e))
      else if k = ''recorded_at'' then Some (optional_json (recorded_at e))
      else if k = ''extracted_at'' then Some (JStr (extracted_at e))
      else if k = ''source'' then Some (source_to_json (ev_source e))
      else if k = ''provenance'' then Some (JStr (provenance_str (ev_provenance e)))
      else if k = ''data'' then Some (JObj (ev_data e))
      else if k = ''occurred_precision'' then map_option (JStr \<circ> precision_str) (occurred_precision e)
      else if k = ''confidence'' then map_option JFloat (confidence e)
      else if k = ''actor'' then map_option JStr (actor e)
      else if k = ''lamport'' then map_option JInt (lamport e)
      else if k = ''prev'' then map_option JArr (ev_prev e)
      else if k = ''redacted'' then map_option JArr (redacted e)
      else if k = ''annotations'' then annotations e
      else None)"
  unfolding event_members_def map_of_dict_of
  by (simp add: map_add_def option.map_id split: option.split)

lemma dict_ok_event_members [simp]: "dict_ok (event_members e)"
  by (simp add: event_members_def)

lemma jget_event:
  "jget ''id'' (event_members e) = JStr (ev_id e)"
  "jget ''kind'' (event_members e) = JStr (kind_str (ev_kind e))"
  "jget ''bead'' (event_members e) = bead_ref_to_json (ev_bead e)"
  "jget ''occurred_at'' (event_members e) = optional_json (occurred_at e)"
  "jget ''recorded_at'' (event_members e) = optional_json (recorded_at e)"
  "jget ''extracted_at'' (event_members e) = JStr (extracted_at e)"
  "jget ''source'' (event_members e) = source_to_json (ev_source e)"
  "jget ''provenance'' (event_members e) = JStr (provenance_str (ev_provenance e))"
  "jget ''data'' (event_members e) = JObj (ev_data e)"
  "jget ''occurred_precision'' (event_members e) = (case occurred_precision e of None \<Rightarrow> JNull | Some p \<Rightarrow> JStr (precision_str p))"
  "jget ''confidence'' (event_members e) = (case confidence e of None \<Rightarrow> JNull | Some c \<Rightarrow> JFloat c)"
  "jget ''actor'' (event_members e) = optional_json (actor e)"
  "jget ''lamport'' (event_members e) = (case lamport e of None \<Rightarrow> JNull | Some i \<Rightarrow> JInt i)"
  "jget ''prev'' (event_members e) = (case ev_prev e of None \<Rightarrow> JNull | Some p \<Rightarrow> JArr p)"
  "jget ''redacted'' (event_members e) = (case redacted e of None \<Rightarrow> JNull | Some p \<Rightarrow> JArr p)"
  "jget ''annotations'' (event_members e) = (case annotations e of None \<Rightarrow> JNull | Some v \<Rightarrow> v)"
  by (simp_all add: jget_def map_of_event_members optional_json_def split: option.split)

lemma optional_str_json [simp]: "optional_str (optional_json t) = Inr t"
  by (cases t) (simp_all add: optional_str_def optional_json_def)

lemma optional_timestamp_ok [simp]: "pred_option is_timestamp t \<Longrightarrow> optional_timestamp t = Inr ()"
  by (cases t) (simp_all add: optional_timestamp_def)

lemma required_present: "list_all (\<lambda>name. map_of (event_members e) name \<noteq> None) required_members"
  by (simp add: required_members_def map_of_event_members)

lemma optional_parts:
  "confidence_of (case c of None \<Rightarrow> JNull | Some r \<Rightarrow> JFloat r) = Inr c"
  "lamport_of (case l of None \<Rightarrow> JNull | Some i \<Rightarrow> JInt i) = Inr l"
  "optional_items (case p of None \<Rightarrow> JNull | Some vs \<Rightarrow> JArr vs) = Inr p"
  "optional_precision (case q of None \<Rightarrow> JNull | Some p \<Rightarrow> JStr (precision_str p)) = Inr q"
  by (simp_all add: confidence_of_def lamport_of_def optional_items_def optional_precision_def split: option.split)

lemma event_members_roundtrip:
  assumes "event_wf e"
  shows "event_from_members (event_members e) = Inr e"
proof -
  have "(case (case annotations e of None \<Rightarrow> JNull | Some v \<Rightarrow> v) of JNull \<Rightarrow> None | v \<Rightarrow> Some v) = annotations e"
    using assms by (auto simp: event_wf_def split: option.split jv.split)
  then show ?thesis
    using assms required_present [of e]
    by (simp add: event_from_members_def jget_event optional_parts post_init_def event_wf_def check_timestamp_def)
qed

end
