(* ===== verification/Bl_Order.thy ===== *)
theory Bl_Order
  imports Bl_Model
begin

text \<open>
  The total order over events (\<^verbatim>\<open>packages/beadlog/src/beadlog/_order.py\<close>) and the orders of
  \<^verbatim>\<open>BeadRef\<close> and \<^verbatim>\<open>Edge\<close>: data classes with \<^verbatim>\<open>order=True\<close> compare as the tuple of their fields, which is
  how the instances below define \<open>\<le>\<close>. Ids are distinct in a merged log, so sorting has one result
  (\<open>sorted_unique\<close>): it depends on the set of events only.
\<close>

instantiation bead_ref :: linorder
begin

definition less_eq_bead_ref :: "bead_ref \<Rightarrow> bead_ref \<Rightarrow> bool" where
  "less_eq_bead_ref a b \<longleftrightarrow> (ref_group a, ref_id a) \<le> (ref_group b, ref_id b)"

definition less_bead_ref :: "bead_ref \<Rightarrow> bead_ref \<Rightarrow> bool" where
  "less_bead_ref a b \<longleftrightarrow> (ref_group a, ref_id a) < (ref_group b, ref_id b)"

instance
  by standard (auto simp only: less_eq_bead_ref_def less_bead_ref_def prod.inject bead_ref.expand
      intro: bead_ref.expand order.trans dest: order.antisym)

end

instantiation edge :: linorder
begin

definition less_eq_edge :: "edge \<Rightarrow> edge \<Rightarrow> bool" where
  "less_eq_edge a b \<longleftrightarrow> (edge_type a, edge_target a) \<le> (edge_type b, edge_target b)"

definition less_edge :: "edge \<Rightarrow> edge \<Rightarrow> bool" where
  "less_edge a b \<longleftrightarrow> (edge_type a, edge_target a) < (edge_type b, edge_target b)"

instance
  by standard (auto simp only: less_eq_edge_def less_edge_def prod.inject
      intro: edge.expand order.trans dest: order.antisym)

end

datatype order_key = OrderKey (k1: instant) (k2: instant) (key_id: string)

instantiation order_key :: linorder
begin

definition less_eq_order_key :: "order_key \<Rightarrow> order_key \<Rightarrow> bool" where
  "less_eq_order_key a b \<longleftrightarrow> (k1 a, k2 a, key_id a) \<le> (k1 b, k2 b, key_id b)"

definition less_order_key :: "order_key \<Rightarrow> order_key \<Rightarrow> bool" where
  "less_order_key a b \<longleftrightarrow> (k1 a, k2 a, key_id a) < (k1 b, k2 b, key_id b)"

instance
  by standard (auto simp only: less_eq_order_key_def less_order_key_def prod.inject
      intro: order_key.expand order.trans dest: order.antisym)

end

definition instant_of :: "string option \<Rightarrow> bl_error + instant" where
  "instant_of v = (case instant v of None \<Rightarrow> Inl TimestampError | Some i \<Rightarrow> Inr i)"

definition order_key :: "string option \<Rightarrow> string option \<Rightarrow> string \<Rightarrow> bl_error + order_key" where
  "order_key occurred recorded ident =
     (let first = (if occurred \<noteq> None then occurred else recorded)
      in and_then (instant_of first) (\<lambda>i. and_then (instant_of recorded) (\<lambda>j. Inr (OrderKey i j ident))))"

definition ordering_key :: "bead_event \<Rightarrow> bl_error + order_key" where
  "ordering_key e = order_key (occurred_at e) (recorded_at e) (ev_id e)"

definition part_order :: "bead_event \<Rightarrow> bl_error + bead_ref \<times> order_key" where
  "part_order e = and_then (ordering_key e) (\<lambda>k. Inr (ev_bead e, k))"

text \<open>\<^verbatim>\<open>sorted(xs, key=f)\<close> with a key that may raise.\<close>

definition sorted_by :: "('a \<Rightarrow> 'e + 'k :: linorder) \<Rightarrow> 'a list \<Rightarrow> 'e + 'a list" where
  "sorted_by f xs = and_then (traverse f xs) (\<lambda>ks. Inr (map snd (sort_key fst (zip ks xs))))"

definition sort_events :: "bead_event list \<Rightarrow> bl_error + bead_event list" where
  "sort_events es = sorted_by part_order es"

section \<open>Sorting checked events\<close>

lemma insort_pairs: "insort_key fst (f x, x) (map (\<lambda>y. (f y, y)) ys) = map (\<lambda>y. (f y, y)) (insort_key f x ys)"
  by (induction ys) auto

lemma sort_pairs: "sort_key fst (map (\<lambda>y. (f y, y)) ys) = map (\<lambda>y. (f y, y)) (sort_key f ys)"
  by (induction ys) (simp_all add: insort_pairs)

lemma sorted_by_total:
  assumes "\<And>x. x \<in> set xs \<Longrightarrow> f x = Inr (g x)"
  shows "sorted_by f xs = Inr (sort_key g xs)"
proof -
  have "zip (map g xs) xs = map (\<lambda>y. (g y, y)) xs" by (induction xs) simp_all
  then show ?thesis using assms by (simp add: sorted_by_def traverse_ok [of xs f g] sort_pairs comp_def)
qed

definition the_instant :: "string option \<Rightarrow> instant" where
  "the_instant v = projr (instant_of v)"

definition the_key :: "bead_event \<Rightarrow> order_key" where
  "the_key e = projr (ordering_key e)"

definition times_ok :: "bead_event \<Rightarrow> bool" where
  "times_ok e \<longleftrightarrow> pred_option is_timestamp (occurred_at e) \<and> pred_option is_timestamp (recorded_at e)"

lemma instant_ok: "pred_option is_timestamp v \<Longrightarrow> instant_of v = Inr (the_instant v)"
  by (cases v) (simp_all add: the_instant_def instant_of_def instant_def Let_def)

lemma the_instant_inject:
  "pred_option is_timestamp v \<Longrightarrow> pred_option is_timestamp w \<Longrightarrow> the_instant v = the_instant w \<Longrightarrow> v = w"
  using instant_ok [of v] instant_ok [of w] instant_unique [of v _ w]
  by (auto simp: instant_of_def split: option.splits)

lemma ordering_key_ok: "times_ok e \<Longrightarrow> ordering_key e = Inr (the_key e)"
  by (auto simp: times_ok_def the_key_def ordering_key_def order_key_def Let_def instant_ok)

lemma the_key_id: "times_ok e \<Longrightarrow> key_id (the_key e) = ev_id e"
  by (auto simp: times_ok_def the_key_def ordering_key_def order_key_def Let_def instant_ok)

lemma part_order_ok: "times_ok e \<Longrightarrow> part_order e = Inr (ev_bead e, the_key e)"
  by (simp add: part_order_def ordering_key_ok)

lemma event_wf_times: "event_wf e \<Longrightarrow> times_ok e"
  by (simp add: event_wf_def times_ok_def)

definition part_key :: "bead_event \<Rightarrow> bead_ref \<times> order_key" where
  "part_key e = (ev_bead e, the_key e)"

lemma sort_events_ok: "(\<And>e. e \<in> set es \<Longrightarrow> times_ok e) \<Longrightarrow> sort_events es = Inr (sort_key part_key es)"
  unfolding sort_events_def part_key_def by (rule sorted_by_total) (simp add: part_order_ok)

lemma sorted_unique:
  assumes "set es = set fs" "distinct (map ev_id es)" "distinct (map ev_id fs)" "\<And>e. e \<in> set es \<Longrightarrow> times_ok e"
  shows "sort_key part_key es = sort_key part_key fs"
proof (rule map_sorted_distinct_set_unique [of part_key])
  have "inj_on ev_id (set es)" using assms(2) by (simp add: distinct_map)
  then have inj: "inj_on part_key (set es)"
    using assms(4) by (auto simp: inj_on_def part_key_def) (metis the_key_id)
  then show "inj_on part_key (set (sort_key part_key es) \<union> set (sort_key part_key fs))"
    using assms(1) by simp
  show "distinct (map part_key (sort_key part_key es))" "distinct (map part_key (sort_key part_key fs))"
    using inj assms(1-3) by (auto simp: distinct_map)
qed (use assms in simp_all)

end
