(* ===== verification/Bl_Ids.thy ===== *)
theory Bl_Ids
  imports Bl_Order
begin

text \<open>
  Event ids (\<^verbatim>\<open>packages/beadlog/src/beadlog/_ids.py\<close>). The SHA-256 of the standard library is the
  parameter \<open>sha\<close>, from the text that is hashed to its hexadecimal digest. \<open>same_identity\<close> compares
  the members that the id hashes; \<open>view_same\<close> shows that the projection keeps exactly those.
\<close>

definition identity_members :: "string list" where
  "identity_members =
     [''kind'', ''bead'', ''occurred_at'', ''occurred_precision'', ''recorded_at'', ''provenance'', ''actor'',
      ''lamport'', ''prev'', ''data'']"

definition present_members :: "(string, jv) dict \<Rightarrow> (string \<times> jv) list" where
  "present_members raw =
     map (\<lambda>name. (name, jget name raw)) (filter (\<lambda>name. jget name raw \<noteq> JNull) identity_members)"

definition identity_projection :: "(string, jv) dict \<Rightarrow> bl_error + (string, jv) dict" where
  "identity_projection raw =
     (case jget ''source'' raw of
        JObj source \<Rightarrow>
          (case (map_of source ''system'', map_of source ''ref'') of
             (Some system, Some r) \<Rightarrow>
               Inr (dict_put ''source'' (JObj (dict_of [(''system'', system), (''ref'', r)])) (dict_of (present_members raw)))
           | _ \<Rightarrow> Inl NoSource)
      | _ \<Rightarrow> Inl NoSource)"

definition canonical_bytes :: "jv \<Rightarrow> bl_error + string" where
  "canonical_bytes v = (case canonical_json v of None \<Rightarrow> Inl AdmissibleValueError | Some t \<Rightarrow> Inr t)"

definition event_id :: "(string \<Rightarrow> string) \<Rightarrow> (string, jv) dict \<Rightarrow> bl_error + string" where
  "event_id sha raw =
     and_then (identity_projection raw)
       (\<lambda>p. and_then (canonical_bytes (JObj p)) (\<lambda>t. Inr (''sha256:'' @ sha t)))"

definition mint_source :: "source + string \<times> string \<Rightarrow> evidence list \<Rightarrow> source" where
  "mint_source src es =
     (case src of Inl s \<Rightarrow> s | Inr (system, r) \<Rightarrow> \<lparr>src_system = system, src_ref = r, src_evidence = es\<rparr>)"

definition mint_event ::
  "(string \<Rightarrow> string) \<Rightarrow> event_args \<Rightarrow> source + string \<times> string \<Rightarrow> evidence list \<Rightarrow> string list option \<Rightarrow> bl_error + bead_event" where
  "mint_event sha a src es prev =
     and_then
       (post_init
          (a\<lparr>arg_id := JStr (''sha256:'' @ replicate 64 (CHR ''0'')),
             arg_source := mint_source src es,
             arg_prev := map_option (\<lambda>ps. map JStr (sort (remdups ps))) prev,
             arg_redacted := None\<rparr>))
       (\<lambda>draft.
          let raw = event_members draft
          in and_then (event_id sha raw) (\<lambda>i. event_from_members (dict_put ''id'' (JStr i) raw)))"

section \<open>What the projection keeps\<close>

definition same_identity :: "bead_event \<Rightarrow> bead_event \<Rightarrow> bool" where
  "same_identity a b \<longleftrightarrow>
     ev_kind a = ev_kind b \<and> ev_bead a = ev_bead b \<and> occurred_at a = occurred_at b \<and>
     occurred_precision a = occurred_precision b \<and> recorded_at a = recorded_at b \<and>
     ev_provenance a = ev_provenance b \<and> actor a = actor b \<and> lamport a = lamport b \<and>
     ev_prev a = ev_prev b \<and> ev_data a = ev_data b \<and>
     src_system (ev_source a) = src_system (ev_source b) \<and> src_ref (ev_source a) = src_ref (ev_source b)"

definition view_of :: "bead_event \<Rightarrow> (string, jv) dict" where
  "view_of e =
     dict_put ''source'' (JObj (dict_of [(''system'', JStr (src_system (ev_source e))), (''ref'', JStr (src_ref (ev_source e)))]))
       (dict_of (present_members (event_members e)))"

lemma source_members_get:
  "map_of (source_members s) ''system'' = Some (JStr (src_system s))"
  "map_of (source_members s) ''ref'' = Some (JStr (src_ref s))"
  by (simp_all add: source_members_def map_of_dict_of map_add_def)

lemma identity_projection_event: "identity_projection (event_members e) = Inr (view_of e)"
  by (simp add: identity_projection_def jget_event source_to_json_def source_members_get view_of_def)

lemma map_of_present:
  "map_of (present_members raw) k =
     (if k \<in> set identity_members \<and> jget k raw \<noteq> JNull then Some (jget k raw) else None)"
proof -
  have "map_of (map (\<lambda>n. (n, jget n raw)) (filter (\<lambda>n. jget n raw \<noteq> JNull) ns)) k =
      (if k \<in> set ns \<and> jget k raw \<noteq> JNull then Some (jget k raw) else None)" for ns
    by (induction ns) auto
  then show ?thesis by (simp add: present_members_def)
qed

lemma distinct_present: "distinct (map fst (present_members raw))"
  by (simp add: present_members_def comp_def identity_members_def)

lemma map_of_view:
  "map_of (view_of e) k =
     (if k = ''source''
      then Some (JObj (dict_of [(''system'', JStr (src_system (ev_source e))), (''ref'', JStr (src_ref (ev_source e)))]))
      else if k \<in> set identity_members \<and> jget k (event_members e) \<noteq> JNull then Some (jget k (event_members e))
      else None)"
  by (simp add: view_of_def distinct_present map_of_present)

lemma dict_ok_view [simp]: "dict_ok (view_of e)"
  by (simp add: view_of_def)

lemma same_identity_view: "same_identity a b \<Longrightarrow> view_of a = view_of b"
  by (rule dict_ext) (auto simp: map_of_view identity_members_def same_identity_def jget_event)

lemma json_inject:
  "optional_json s = optional_json t \<longleftrightarrow> s = t"
  "bead_ref_to_json r = bead_ref_to_json q \<longleftrightarrow> r = q"
  "kind_str k = kind_str l \<longleftrightarrow> k = l"
  "provenance_str p = provenance_str o' \<longleftrightarrow> p = o'"
  "precision_str x = precision_str y \<longleftrightarrow> x = y"
proof -
  show "optional_json s = optional_json t \<longleftrightarrow> s = t" by (auto simp: optional_json_def split: option.splits)
  show "bead_ref_to_json r = bead_ref_to_json q \<longleftrightarrow> r = q"
    by (auto simp: bead_ref_to_json_def dict_of_def dict_put_def dict_pop_def bead_ref.expand)
  show "kind_str k = kind_str l \<longleftrightarrow> k = l" by (metis enum_kind sum.inject(2))
  show "provenance_str p = provenance_str o' \<longleftrightarrow> p = o'" by (metis enum_provenance sum.inject(2))
  show "precision_str x = precision_str y \<longleftrightarrow> x = y" by (metis enum_precision sum.inject(2))
qed

lemma view_get: "k \<in> set identity_members \<Longrightarrow> jget k (view_of e) = jget k (event_members e)"
  by (auto simp: jget_def [of k "view_of e"] map_of_view identity_members_def)

lemma view_same:
  assumes "view_of a = view_of b"
  shows "same_identity a b"
proof -
  have *: "jget k (event_members a) = jget k (event_members b)" if "k \<in> set identity_members" for k
    using that assms view_get by metis
  have "map_of (view_of a) ''source'' = map_of (view_of b) ''source''" using assms by simp
  then have "src_system (ev_source a) = src_system (ev_source b)" "src_ref (ev_source a) = src_ref (ev_source b)"
    by (simp_all add: map_of_view dict_of_def dict_put_def dict_pop_def)
  then show ?thesis
    using * [of "''kind''"] * [of "''bead''"] * [of "''occurred_at''"] * [of "''occurred_precision''"]
      * [of "''recorded_at''"] * [of "''provenance''"] * [of "''actor''"] * [of "''lamport''"]
      * [of "''prev''"] * [of "''data''"]
    by (simp add: same_identity_def identity_members_def jget_event json_inject split: option.splits)
qed

lemma view_iff: "view_of a = view_of b \<longleftrightarrow> same_identity a b"
  using view_same same_identity_view by blast

lemma event_id_event:
  "event_id sha (event_members e) = and_then (canonical_bytes (JObj (view_of e))) (\<lambda>t. Inr (''sha256:'' @ sha t))"
  by (simp add: event_id_def identity_projection_event)

lemma put_id: "dict_put ''id'' (JStr i) (event_members e) = event_members (e\<lparr>ev_id := i\<rparr>)"
  by (rule dict_ext) (simp_all add: map_of_event_members)

lemma view_ev_id [simp]: "view_of (e\<lparr>ev_id := i\<rparr>) = view_of e"
  by (rule same_identity_view) (simp add: same_identity_def)

lemma from_members_same:
  assumes "event_from_members (event_members d) = Inr e"
  shows "same_identity d e" "ev_id e = ev_id d"
proof -
  have ref: "bead_ref_from_json (bead_ref_to_json r) = Inr q \<Longrightarrow> q = r" for r q
    by (auto simp: bead_ref_from_json_def bead_ref_to_json_def jget_def bead_ref.expand split: if_splits)
  have src: "source_from_json (source_to_json s) = Inr t \<Longrightarrow> t = s" for s t
    using source_roundtrip [of s]
    by (cases "src_ref s = []") (simp_all add: source_from_json_def source_to_json_def source_get)
  from assms show "same_identity d e" "ev_id e = ev_id d"
    by (auto simp: event_from_members_def jget_event optional_parts post_init_def and_then_eq_Inr
        same_identity_def dest!: ref src split: if_splits)
qed

end
