(* ===== verification/Bl_Merge.thy ===== *)
theory Bl_Merge
  imports Bl_Ids
begin

text \<open>
  Union merge and tombstones (\<^verbatim>\<open>packages/beadlog/src/beadlog/_merge.py\<close>), definitions only. A
  Python set of pointers is the sorted list of its elements: the code sorts pointers by length, and
  pointers of one length are never a prefix of one another, so the order among them does not
  matter. \<^verbatim>\<open>merged = a\<close> shares the dictionary: after the restoring loop the code reads the members
  of \<open>a\<close> from the dictionary it has changed, and so does \<open>combine\<close>. An index is spelled in decimal
  digits with an optional sign.
\<close>

primrec fold_result :: "('a \<Rightarrow> 's \<Rightarrow> 'e + 's) \<Rightarrow> 'a list \<Rightarrow> 's \<Rightarrow> 'e + 's" where
  "fold_result f [] s = Inr s"
| "fold_result f (x # xs) s = and_then (f x s) (fold_result f xs)"

primrec filter_result :: "('a \<Rightarrow> 'e + bool) \<Rightarrow> 'a list \<Rightarrow> 'e + 'a list" where
  "filter_result f [] = Inr []"
| "filter_result f (x # xs) =
     and_then (f x) (\<lambda>b. and_then (filter_result f xs) (\<lambda>ys. Inr (if b then x # ys else ys)))"

section \<open>JSON pointers\<close>

fun replace_pair :: "char \<Rightarrow> char \<Rightarrow> char \<Rightarrow> string \<Rightarrow> string" where
  "replace_pair a b c (x # y # s) =
     (if x = a \<and> y = b then c # replace_pair a b c s else x # replace_pair a b c (y # s))"
| "replace_pair a b c s = s"

definition pointer_tokens :: "string \<Rightarrow> bl_error + string list" where
  "pointer_tokens pointer =
     (if \<not> starts_with pointer ''/'' then Inl NotAPointer
      else Inr (map (\<lambda>token. replace_pair (CHR ''~'') (CHR ''0'') (CHR ''~'')
                                (replace_pair (CHR ''~'') (CHR ''1'') (CHR ''/'') token))
                 (split_at (CHR ''/'') (tl pointer))))"

text \<open>\<^verbatim>\<open>str.isdigit\<close> also holds of the superscripts one, two and three, which \<^verbatim>\<open>int\<close> refuses.\<close>

definition py_isdigit :: "string \<Rightarrow> bool" where
  "py_isdigit s \<longleftrightarrow> s \<noteq> [] \<and> list_all (\<lambda>c. digit c \<or> c \<in> {CHR 0xB2, CHR 0xB3, CHR 0xB9}) s"

definition py_int :: "string \<Rightarrow> bl_error + int" where
  "py_int s =
     (let (sign, ds) = (case s of CHR ''-'' # r \<Rightarrow> (- 1, r) | CHR ''+'' # r \<Rightarrow> (1, r) | _ \<Rightarrow> (1, s))
      in if ds \<noteq> [] \<and> list_all digit ds then Inr (sign * int (str_nat ds)) else Inl ValueError)"

text \<open>\<^verbatim>\<open>node[int(token)]\<close>: negative indices count from the end.\<close>

definition list_index :: "string \<Rightarrow> nat \<Rightarrow> bl_error + nat" where
  "list_index token n =
     and_then (py_int token)
       (\<lambda>i. if 0 \<le> i \<and> i < int n then Inr (nat i)
            else if i < 0 \<and> - int n \<le> i then Inr (nat (int n + i))
            else Inl IndexError)"

fun walk :: "jv \<Rightarrow> string list \<Rightarrow> bl_error + jv option" where
  "walk node [] = Inr (Some node)"
| "walk (JObj ms) (t # ts) = (case map_of ms t of Some v \<Rightarrow> walk v ts | None \<Rightarrow> Inr None)"
| "walk (JArr vs) (t # ts) =
     (if py_isdigit t
      then and_then (py_int t) (\<lambda>i. if i < int (length vs) then walk (vs ! nat i) ts else Inr None)
      else Inr None)"
| "walk _ _ = Inr None"

definition pointer_get :: "(string, jv) dict \<Rightarrow> string \<Rightarrow> bl_error + jv option" where
  "pointer_get document pointer = and_then (pointer_tokens pointer) (walk (JObj document))"

fun put_at :: "jv \<Rightarrow> string list \<Rightarrow> jv \<Rightarrow> bl_error + jv" where
  "put_at node [] v = Inr v"
| "put_at (JArr vs) (t # ts) v =
     and_then (list_index t (length vs))
       (\<lambda>i. and_then (put_at (vs ! i) ts v) (\<lambda>c. Inr (JArr (vs[i := c]))))"
| "put_at (JObj ms) (t # ts) v =
     (let child = (case map_of ms t of Some c \<Rightarrow> c | None \<Rightarrow> JObj [])
      in and_then (put_at child ts v) (\<lambda>c. Inr (JObj (dict_put t c ms))))"
| "put_at _ [t] v = Inl TypeError"
| "put_at _ (t # ts) v = Inl AttributeError"

definition pointer_put :: "(string, jv) dict \<Rightarrow> string \<Rightarrow> jv \<Rightarrow> bl_error + (string, jv) dict" where
  "pointer_put document pointer v =
     and_then (pointer_tokens pointer)
       (\<lambda>tokens. and_then (put_at (JObj document) tokens v)
          (\<lambda>d. case d of JObj ms \<Rightarrow> Inr ms | _ \<Rightarrow> Inl TypeError))"

fun remove_at :: "jv \<Rightarrow> string list \<Rightarrow> jv" where
  "remove_at (JObj ms) [t] = JObj (dict_pop t ms)"
| "remove_at (JObj ms) (t # u # ts) =
     (case map_of ms t of None \<Rightarrow> JObj ms | Some c \<Rightarrow> JObj (dict_put t (remove_at c (u # ts)) ms))"
| "remove_at v ts = v"

definition pointer_remove :: "string \<Rightarrow> jv \<Rightarrow> bl_error + jv" where
  "pointer_remove pointer document = and_then (pointer_tokens pointer) (\<lambda>tokens. Inr (remove_at document tokens))"

section \<open>Joining two copies of one event\<close>

definition withheld :: "jv list option \<Rightarrow> bl_error + string list" where
  "withheld r =
     (case r of
        None \<Rightarrow> Inr []
      | Some vs \<Rightarrow> and_then (traverse (\<lambda>v. case v of JStr s \<Rightarrow> Inr s | _ \<Rightarrow> Inl TypeError) vs)
                      (\<lambda>ps. Inr (sort (remdups ps))))"

definition identity_without :: "(string, jv) dict \<Rightarrow> string list \<Rightarrow> bl_error + string" where
  "identity_without raw hidden =
     and_then (identity_projection raw)
       (\<lambda>p. and_then (fold_result pointer_remove (sort_key (\<lambda>q. - int (length q)) hidden) (JObj p)) canonical_bytes)"

definition restore :: "(string, jv) dict \<Rightarrow> string \<Rightarrow> (string, jv) dict \<Rightarrow> bl_error + (string, jv) dict" where
  "restore b pointer merged =
     and_then (pointer_get b pointer)
       (\<lambda>found. case found of
          None \<Rightarrow> Inr merged
        | Some v \<Rightarrow>
            and_then (pointer_get merged pointer)
              (\<lambda>held. if held = None then pointer_put merged pointer v else Inr merged))"

definition merge_redacted :: "string list \<Rightarrow> (string, jv) dict \<Rightarrow> bl_error + (string, jv) dict" where
  "merge_redacted hidden merged =
     and_then (filter_result (\<lambda>p. and_then (pointer_get merged p) (\<lambda>v. Inr (v = None))) hidden)
       (\<lambda>still. Inr (if still \<noteq> [] then dict_put ''redacted'' (JArr (map JStr still)) merged
                     else dict_pop ''redacted'' merged))"

definition instant_json :: "jv \<Rightarrow> bl_error + instant" where
  "instant_json v = (case v of JStr s \<Rightarrow> instant_of (Some s) | JNull \<Rightarrow> Inr infinity | _ \<Rightarrow> Inl TimestampError)"

definition merge_extracted :: "(string, jv) dict \<Rightarrow> (string, jv) dict \<Rightarrow> bl_error + (string, jv) dict" where
  "merge_extracted b merged =
     and_then (instant_json (jget ''extracted_at'' merged))
       (\<lambda>i. and_then (instant_json (jget ''extracted_at'' b))
          (\<lambda>j. Inr (dict_put ''extracted_at''
                      (if j < i then jget ''extracted_at'' b else jget ''extracted_at'' merged) merged)))"

definition merge_confidence :: "(string, jv) dict \<Rightarrow> (string, jv) dict \<Rightarrow> bl_error + (string, jv) dict" where
  "merge_confidence b merged =
     and_then (confidence_of (jget ''confidence'' merged))
       (\<lambda>c. and_then (confidence_of (jget ''confidence'' b))
          (\<lambda>d. case (c, d) of
                 (None, None) \<Rightarrow> Inr merged
               | (Some x, None) \<Rightarrow> Inr (dict_put ''confidence'' (JFloat x) merged)
               | (None, Some y) \<Rightarrow> Inr (dict_put ''confidence'' (JFloat y) merged)
               | (Some x, Some y) \<Rightarrow> Inr (dict_put ''confidence'' (JFloat (max x y)) merged)))"

definition evidence_items :: "(string, jv) dict \<Rightarrow> bl_error + jv list" where
  "evidence_items raw =
     (case jget ''source'' raw of
        JObj s \<Rightarrow> (case map_of s ''evidence'' of None \<Rightarrow> Inr [] | Some v \<Rightarrow> items_of v)
      | _ \<Rightarrow> Inl AttributeError)"

definition add_evidence :: "jv \<Rightarrow> (string, jv) dict \<Rightarrow> bl_error + (string, jv) dict" where
  "add_evidence item d = and_then (canonical_bytes item) (\<lambda>key. Inr (dict_put key item d))"

definition merge_evidence :: "(string, jv) dict \<Rightarrow> (string, jv) dict \<Rightarrow> bl_error + (string, jv) dict" where
  "merge_evidence b merged =
     and_then (evidence_items merged)
       (\<lambda>xs. and_then (evidence_items b)
          (\<lambda>ys. and_then (fold_result add_evidence (xs @ ys) [])
             (\<lambda>evidence.
                if evidence = [] then Inr merged
                else (case jget ''source'' merged of
                        JObj s \<Rightarrow> Inr (dict_put ''source'' (JObj (dict_put ''evidence'' (JArr (map snd evidence)) s)) merged)
                      | _ \<Rightarrow> Inl TypeError))))"

definition annotation_members :: "(string, jv) dict \<Rightarrow> bl_error + (string, jv) dict" where
  "annotation_members raw =
     (let v = jget ''annotations'' raw
      in if \<not> truthy v then Inr [] else (case v of JObj ms \<Rightarrow> Inr ms | _ \<Rightarrow> Inl AttributeError))"

definition add_annotation :: "string \<times> jv \<Rightarrow> (string, jv) dict \<Rightarrow> bl_error + (string, jv) dict" where
  "add_annotation m d =
     (case map_of d (fst m) of
        None \<Rightarrow> Inr (dict_put (fst m) (snd m) d)
      | Some w \<Rightarrow>
          and_then (canonical_bytes (snd m))
            (\<lambda>s. and_then (canonical_bytes w) (\<lambda>t. Inr (if s < t then dict_put (fst m) (snd m) d else d))))"

definition merge_annotations :: "(string, jv) dict \<Rightarrow> (string, jv) dict \<Rightarrow> bl_error + (string, jv) dict" where
  "merge_annotations b merged =
     and_then (annotation_members merged)
       (\<lambda>xs. and_then (annotation_members b)
          (\<lambda>ys. and_then (fold_result add_annotation (xs @ ys) [])
             (\<lambda>d. Inr (if d = [] then merged else dict_put ''annotations'' (JObj d) merged))))"

definition combine :: "bead_event \<Rightarrow> bead_event \<Rightarrow> bl_error + bead_event" where
  "combine left right =
     (let a = event_members left; b = event_members right
      in and_then (withheld (redacted left))
        (\<lambda>withheld_a. and_then (withheld (redacted right))
        (\<lambda>withheld_b.
           let hidden = sort (remdups (withheld_a @ withheld_b))
           in and_then (identity_without a hidden)
             (\<lambda>s. and_then (identity_without b hidden)
             (\<lambda>t. if s \<noteq> t then Inl (IdCollisionError (ev_id left))
                  else and_then (fold_result (restore b) (sort_key length withheld_a) a)
                    (\<lambda>m. and_then (merge_redacted hidden m)
                    (\<lambda>m. and_then (merge_extracted b m)
                    (\<lambda>m. and_then (merge_confidence b m)
                    (\<lambda>m. and_then (merge_evidence b m)
                    (\<lambda>m. and_then (merge_annotations b m) event_from_members))))))))))"

definition normalize :: "bead_event \<Rightarrow> bl_error + bead_event" where
  "normalize e = (if length (src_evidence (ev_source e)) < 2 then Inr e else combine e e)"

section \<open>Tombstones and the merge\<close>

primrec hashable :: "jv \<Rightarrow> bool" where
  "hashable JNull = True"
| "hashable (JBool b) = True"
| "hashable (JInt i) = True"
| "hashable (JFloat f) = True"
| "hashable (JStr s) = True"
| "hashable (JArr vs) = list_all id (map hashable vs)"
| "hashable (JObj ms) = False"

definition erased_by :: "bead_event \<Rightarrow> jv list \<times> bead_ref list \<Rightarrow> bl_error + jv list \<times> bead_ref list" where
  "erased_by e acc =
     (if ev_kind e \<noteq> Tombstone then Inr acc
      else if jget ''scope'' (ev_data e) = JStr ''bead'' then Inr (fst acc, snd acc @ [ev_bead e])
      else
        let events = jget ''events'' (ev_data e)
        in and_then (if truthy events then items_of events else Inr [])
             (\<lambda>ids. if list_all hashable ids then Inr (fst acc @ ids, snd acc) else Inl TypeError))"

definition erasure :: "bead_event list \<Rightarrow> bl_error + jv list \<times> bead_ref list" where
  "erasure es = fold_result erased_by es ([], [])"

definition apply_tombstones :: "bead_event list \<Rightarrow> bl_error + bead_event list" where
  "apply_tombstones es =
     and_then (erasure es)
       (\<lambda>(erased_ids, erased_beads).
          Inr (filter (\<lambda>e. ev_kind e = Tombstone \<or>
                           JStr (ev_id e) \<notin> set erased_ids \<and> ev_bead e \<notin> set erased_beads) es))"

definition hold_event ::
  "bead_event \<Rightarrow> (string \<times> bead_event) list \<Rightarrow> bl_error + (string \<times> bead_event) list" where
  "hold_event e by_id =
     and_then (case map_of by_id (ev_id e) of None \<Rightarrow> normalize e | Some held \<Rightarrow> combine held e)
       (\<lambda>joined. Inr (AList.update (ev_id e) joined by_id))"

definition union_merge :: "bead_event list list \<Rightarrow> bl_error + bead_event list" where
  "union_merge logs =
     and_then (fold_result hold_event (concat logs) [])
       (\<lambda>by_id. and_then (apply_tombstones (map snd by_id)) sort_events)"

end
