(* ===== verification/Bl_Join.thy ===== *)
theory Bl_Join
  imports Bl_Merge
begin

text \<open>
  The join behind the merge. The locale \<open>join_class\<close> states what a merge of copies needs of a
  combining operation on one class of copies: closure, commutativity, associativity and
  absorption. Joining a list of copies then depends on the set of copies only
  (\<open>join_all_set\<close>). Idempotence is not asked: a copy that was never normalised is not its own join.

  \<open>join_event\<close> is the join of two copies as records, field by field, and the copies of one event
  (\<open>copies_of\<close>: unredacted, admissible, one id and one identity) form such a class.
\<close>

definition join_all :: "('a \<Rightarrow> 'a \<Rightarrow> 'a) \<Rightarrow> 'a \<Rightarrow> 'a list \<Rightarrow> 'a" where
  "join_all f e es = foldl f (f e e) es"

lemma join_all_snoc [simp]: "join_all f e (es @ [x]) = f (join_all f e es) x"
  by (simp add: join_all_def)

lemma join_all_Nil [simp]: "join_all f e [] = f e e"
  by (simp add: join_all_def)

locale join_class =
  fixes A :: "'a set" and join :: "'a \<Rightarrow> 'a \<Rightarrow> 'a"
  assumes closed: "a \<in> A \<Longrightarrow> b \<in> A \<Longrightarrow> join a b \<in> A"
    and comm: "a \<in> A \<Longrightarrow> b \<in> A \<Longrightarrow> join a b = join b a"
    and assoc: "a \<in> A \<Longrightarrow> b \<in> A \<Longrightarrow> c \<in> A \<Longrightarrow> join (join a b) c = join a (join b c)"
    and absorb: "a \<in> A \<Longrightarrow> b \<in> A \<Longrightarrow> join a (join a b) = join a b"
begin

lemma join_all_closed: "e \<in> A \<Longrightarrow> set es \<subseteq> A \<Longrightarrow> join_all join e es \<in> A"
  by (induction es rule: rev_induct) (auto intro: closed)

lemma join_all_upper:
  "e \<in> A \<Longrightarrow> set es \<subseteq> A \<Longrightarrow> x \<in> set (e # es) \<Longrightarrow> join x (join_all join e es) = join_all join e es"
proof (induction es rule: rev_induct)
  case Nil
  then show ?case by (auto intro: absorb)
next
  case (snoc y es)
  let ?u = "join_all join e es"
  have u: "?u \<in> A" "y \<in> A" "x \<in> A" using snoc.prems join_all_closed [of e es] by auto
  show ?case
  proof (cases "x \<in> set (e # es)")
    case True
    with snoc have "join x ?u = ?u" by simp
    with u show ?thesis using assoc [of x ?u y] by simp
  next
    case False
    with snoc.prems have "x = y" by simp
    with u show ?thesis using comm [of ?u y] absorb [of y ?u] by simp
  qed
qed

lemma join_all_least:
  assumes "e \<in> A" "set es \<subseteq> A" "u \<in> A" "\<And>x. x \<in> set (e # es) \<Longrightarrow> join x u = u"
  shows "join (join_all join e es) u = u"
  using assms
proof (induction es rule: rev_induct)
  case Nil
  then show ?case using assoc [of e e u] by simp
next
  case (snoc y es)
  have "join (join_all join e es) u = u"
  proof (rule snoc.IH)
    show "join x u = u" if "x \<in> set (e # es)" for x using that by (intro snoc.prems(4)) auto
  qed (use snoc.prems in auto)
  moreover have "join y u = u" by (rule snoc.prems(4)) simp
  ultimately show ?case using snoc.prems join_all_closed [of e es] assoc [of "join_all join e es" y u] by simp
qed

lemma join_all_set:
  assumes "e \<in> A" "set es \<subseteq> A" "set (e # es) = set (f # fs)"
  shows "join_all join e es = join_all join f fs"
proof -
  let ?u = "join_all join e es" and ?v = "join_all join f fs"
  have f: "f \<in> A" "set fs \<subseteq> A" using assms by auto
  then have A: "?u \<in> A" "?v \<in> A" using assms join_all_closed by auto
  have "join ?u ?v = ?v"
    using assms f A join_all_upper [OF f] by (intro join_all_least) auto
  moreover have "join ?v ?u = ?u"
    using assms f A join_all_upper [OF assms(1,2)] by (intro join_all_least) auto
  ultimately show ?thesis using comm [OF A] by simp
qed

lemma join_all_idem: "e \<in> A \<Longrightarrow> set es \<subseteq> A \<Longrightarrow> join (join_all join e es) (join_all join e es) = join_all join e es"
  using join_all_closed join_all_upper by (intro join_all_least) auto

lemma join_all_merge:
  assumes "e \<in> A" "set es \<subseteq> A" "set fs \<subseteq> A"
  shows "join_all join (join_all join e es) fs = join_all join e (es @ fs)"
  using assms join_all_idem by (simp add: join_all_def)

end

section \<open>Fields\<close>

definition earlier :: "string \<Rightarrow> string \<Rightarrow> string" where
  "earlier s t = (if the_instant (Some t) < the_instant (Some s) then t else s)"

definition opt_max :: "rat option \<Rightarrow> rat option \<Rightarrow> rat option" where
  "opt_max c d = (case (c, d) of (None, _) \<Rightarrow> d | (_, None) \<Rightarrow> c | (Some x, Some y) \<Rightarrow> Some (max x y))"

definition evd_text :: "evidence \<Rightarrow> string" where
  "evd_text e = the (canonical_json (evidence_to_json e))"

definition evidence_union :: "evidence list \<Rightarrow> evidence list \<Rightarrow> evidence list" where
  "evidence_union es fs = map snd (dict_of (map (\<lambda>e. (evd_text e, e)) (es @ fs)))"

definition jv_text :: "jv \<Rightarrow> string" where
  "jv_text v = the (canonical_json v)"

definition least_text :: "jv option \<Rightarrow> jv option \<Rightarrow> jv option" where
  "least_text v w =
     (case (v, w) of (None, _) \<Rightarrow> w | (_, None) \<Rightarrow> v | (Some x, Some y) \<Rightarrow> Some (if jv_text y < jv_text x then y else x))"

definition ann_add :: "string \<times> jv \<Rightarrow> (string, jv) dict \<Rightarrow> (string, jv) dict" where
  "ann_add m d =
     (case map_of d (fst m) of
        None \<Rightarrow> dict_put (fst m) (snd m) d
      | Some w \<Rightarrow> if jv_text (snd m) < jv_text w then dict_put (fst m) (snd m) d else d)"

fun ann_dict :: "jv option \<Rightarrow> (string, jv) dict" where
  "ann_dict (Some (JObj ms)) = ms"
| "ann_dict _ = []"

definition ann_union :: "jv option \<Rightarrow> jv option \<Rightarrow> jv option" where
  "ann_union x y = (let d = fold ann_add (ann_dict x @ ann_dict y) [] in if d = [] then x else Some (JObj d))"

definition ann_ok :: "jv option \<Rightarrow> bool" where
  "ann_ok x \<longleftrightarrow> x = None \<or> (\<exists>ms. x = Some (JObj ms) \<and> ms \<noteq> [] \<and> jv_ok (JObj ms) \<and> admissible (JObj ms))"

subsection \<open>Extraction time and confidence\<close>

lemma earlier_laws:
  assumes "is_timestamp s" "is_timestamp t"
  shows "is_timestamp (earlier s t)" "earlier s t = earlier t s" "earlier s s = s"
    "earlier s (earlier s t) = earlier s t"
  using assms the_instant_inject [of "Some s" "Some t"]
  by (auto simp: earlier_def not_less_iff_gr_or_eq)

lemma earlier_assoc: "earlier (earlier s t) u = earlier s (earlier t u)"
  by (auto simp: earlier_def)

lemma opt_max_laws:
  "opt_max c d = opt_max d c" "opt_max (opt_max c d) e = opt_max c (opt_max d e)" "opt_max c c = c"
  "opt_max c (opt_max c d) = opt_max c d"
proof -
  show "opt_max c d = opt_max d c" by (cases c; cases d) (simp_all add: opt_max_def max.commute)
  show "opt_max (opt_max c d) e = opt_max c (opt_max d e)"
    by (cases c; cases d; cases e) (simp_all add: opt_max_def max.assoc)
  show "opt_max c c = c" by (cases c) (simp_all add: opt_max_def)
  show "opt_max c (opt_max c d) = opt_max c d" by (cases c; cases d) (simp_all add: opt_max_def)
qed

subsection \<open>Evidence\<close>

lemma evidence_strings: "v \<in> snd ` set (evidence_members e) \<Longrightarrow> \<exists>s. v = JStr s"
proof -
  assume "v \<in> snd ` set (evidence_members e)"
  from subsetD [OF snd_dict_of this [unfolded evidence_members_def]] show ?thesis
    by (cases "evd_note e") (auto simp: opt_member_def)
qed

lemma evidence_text_some: "canonical_json (evidence_to_json e) = Some (evd_text e)"
proof -
  have "admissible (evidence_to_json e)"
    unfolding evidence_to_json_def admissible_obj using evidence_strings [of _ e] by force
  then show ?thesis using canonical_None_iff [of "evidence_to_json e"] by (auto simp: evd_text_def)
qed

lemma evidence_jv_ok: "jv_ok (evidence_to_json e)"
proof -
  have "dict_ok (evidence_members e)" by (simp add: evidence_members_def)
  then show ?thesis unfolding evidence_to_json_def jv_ok_obj using evidence_strings [of _ e] by force
qed

lemma evd_text_inject: "evd_text e = evd_text f \<Longrightarrow> e = f"
  using canonical_json_unique [OF evidence_jv_ok evidence_jv_ok evidence_text_some]
  by (metis evidence_roundtrip evidence_text_some sum.inject(2))

lemma map_of_keyed: "map_of (map (\<lambda>e. (evd_text e, e)) es) (evd_text e) = (if e \<in> set es then Some e else None)"
  by (induction es) (auto dest: evd_text_inject)

lemma map_of_keyed_iff:
  "map_of (map (\<lambda>e. (evd_text e, e)) es) k = Some e \<longleftrightarrow> e \<in> set es \<and> k = evd_text e"
  using map_of_keyed by (induction es) (auto dest: evd_text_inject)

lemma keyed_set:
  assumes "set es = set fs"
  shows "dict_of (map (\<lambda>e. (evd_text e, e)) es) = dict_of (map (\<lambda>e. (evd_text e, e)) fs)"
proof (rule dict_ext)
  fix k
  have "map_of (map (\<lambda>e. (evd_text e, e)) (rev es)) k = Some e \<longleftrightarrow> map_of (map (\<lambda>e. (evd_text e, e)) (rev fs)) k = Some e" for e
    unfolding map_of_keyed_iff using assms by simp
  then have "map_of (map (\<lambda>e. (evd_text e, e)) (rev es)) k = map_of (map (\<lambda>e. (evd_text e, e)) (rev fs)) k"
    by (rule option_eqI)
  then show "map_of (dict_of (map (\<lambda>e. (evd_text e, e)) es)) k = map_of (dict_of (map (\<lambda>e. (evd_text e, e)) fs)) k"
    by (simp add: map_of_dict_of rev_map)
qed simp_all

lemma keyed_members: "(k, e) \<in> set (dict_of (map (\<lambda>e. (evd_text e, e)) es)) \<longleftrightarrow> e \<in> set es \<and> k = evd_text e"
proof -
  let ?d = "dict_of (map (\<lambda>e. (evd_text e, e)) es)"
  have "distinct (map fst ?d)" using dict_ok_of [of "map (\<lambda>e. (evd_text e, e)) es"] by (simp add: dict_ok_def)
  then have "(k, e) \<in> set ?d \<longleftrightarrow> map_of ?d k = Some e" by simp
  also have "\<dots> \<longleftrightarrow> map_of (map (\<lambda>e. (evd_text e, e)) (rev es)) k = Some e"
    unfolding map_of_dict_of rev_map ..
  finally show ?thesis unfolding map_of_keyed_iff by simp
qed

lemma set_evidence_union: "set (evidence_union es fs) = set es \<union> set fs"
proof -
  have "e \<in> snd ` set d \<longleftrightarrow> (\<exists>k. (k, e) \<in> set d)" for e and d :: "(string \<times> evidence) list" by force
  then show ?thesis unfolding evidence_union_def set_map by (auto simp: keyed_members simp del: map_append)
qed

lemma evidence_union_set:
  "set es \<union> set fs = set es' \<union> set fs' \<Longrightarrow> evidence_union es fs = evidence_union es' fs'"
  unfolding evidence_union_def using keyed_set [of "es @ fs" "es' @ fs'"] by simp

lemma evidence_union_laws:
  "evidence_union es fs = evidence_union fs es"
  "evidence_union (evidence_union es fs) gs = evidence_union es (evidence_union fs gs)"
  "evidence_union es (evidence_union es fs) = evidence_union es fs"
  by (rule evidence_union_set; auto simp: set_evidence_union)+

subsection \<open>Annotations\<close>

definition text_ok :: "jv \<Rightarrow> bool" where
  "text_ok v \<longleftrightarrow> jv_ok v \<and> admissible v"

lemma text_ok_some: "text_ok v \<Longrightarrow> canonical_json v = Some (jv_text v)"
  using canonical_None_iff [of v] by (auto simp: text_ok_def jv_text_def)

lemma jv_text_inject: "text_ok v \<Longrightarrow> text_ok w \<Longrightarrow> jv_text v = jv_text w \<Longrightarrow> v = w"
  using canonical_json_unique [of v w] text_ok_some [of v] text_ok_some [of w] by (auto simp: text_ok_def)

lemma least_text_laws:
  assumes "pred_option text_ok v" "pred_option text_ok w"
  shows "pred_option text_ok (least_text v w)" "least_text v w = least_text w v" "least_text v v = v"
    "least_text v (least_text v w) = least_text v w"
  using assms jv_text_inject [of "the v" "the w"]
  by (cases v; cases w; auto simp: least_text_def not_less_iff_gr_or_eq)+

lemma least_text_assoc: "least_text (least_text v w) x = least_text v (least_text w x)"
  by (cases v; cases w; cases x) (auto simp: least_text_def)

definition ann_dict_ok :: "(string, jv) dict \<Rightarrow> bool" where
  "ann_dict_ok d \<longleftrightarrow> dict_ok d \<and> (\<forall>v \<in> snd ` set d. text_ok v)"

lemma ann_dict_ok_get: "ann_dict_ok d \<Longrightarrow> pred_option text_ok (map_of d k)"
  by (cases "map_of d k") (auto simp: ann_dict_ok_def dest!: map_of_SomeD)

lemma ann_add_get: "map_of (ann_add m d) k = (if k = fst m then least_text (map_of d k) (Some (snd m)) else map_of d k)"
  by (auto simp: ann_add_def least_text_def split: option.splits)

lemma ann_add_ok: "ann_dict_ok d \<Longrightarrow> text_ok (snd m) \<Longrightarrow> ann_dict_ok (ann_add m d)"
  by (auto simp: ann_dict_ok_def ann_add_def set_dict_put split: option.splits)

lemma ann_fold_ok: "ann_dict_ok d \<Longrightarrow> (\<And>m. m \<in> set ms \<Longrightarrow> text_ok (snd m)) \<Longrightarrow> ann_dict_ok (fold ann_add ms d)"
  by (induction ms arbitrary: d) (auto intro: ann_add_ok)

lemma ann_fold_get:
  "distinct (map fst ms) \<Longrightarrow> map_of (fold ann_add ms d) k = least_text (map_of d k) (map_of ms k)"
proof (induction ms arbitrary: d)
  case Nil
  then show ?case by (cases "map_of d k") (simp_all add: least_text_def)
next
  case (Cons m ms)
  then have "map_of (fold ann_add (m # ms) d) k = least_text (map_of (ann_add m d) k) (map_of ms k)" by simp
  moreover have "map_of ms k = None" if "k = fst m"
    using that Cons.prems by (simp add: map_of_eq_None_iff)
  moreover have "least_text v None = v" for v by (cases v) (simp_all add: least_text_def)
  ultimately show ?case by (cases m) (simp add: ann_add_get)
qed

definition ann_join :: "(string, jv) dict \<Rightarrow> (string, jv) dict \<Rightarrow> (string, jv) dict" where
  "ann_join d e = fold ann_add (d @ e) []"

lemma ann_join_ok: "ann_dict_ok d \<Longrightarrow> ann_dict_ok e \<Longrightarrow> ann_dict_ok (ann_join d e)"
  unfolding ann_join_def by (rule ann_fold_ok) (auto simp: ann_dict_ok_def)

lemma ann_join_get:
  assumes "ann_dict_ok d" "ann_dict_ok e"
  shows "map_of (ann_join d e) k = least_text (map_of d k) (map_of e k)"
proof -
  have "least_text None v = v" for v by (simp add: least_text_def)
  with assms show ?thesis by (simp add: ann_join_def ann_fold_get ann_dict_ok_def dict_ok_def)
qed

lemma ann_join_laws:
  assumes "ann_dict_ok d" "ann_dict_ok e" "ann_dict_ok f"
  shows "ann_join d e = ann_join e d" "ann_join (ann_join d e) f = ann_join d (ann_join e f)"
    "ann_join d d = d" "ann_join d (ann_join d e) = ann_join d e"
  using assms ann_join_ok [of d e] ann_join_ok [of e f] ann_join_ok [of e d] ann_join_ok [of d d]
    ann_join_ok [of "ann_join d e" f] ann_join_ok [of d "ann_join e f"] ann_join_ok [of d "ann_join d e"]
  by (intro dict_ext; simp add: ann_dict_ok_def [of "_ :: (string, jv) dict"] ann_join_get least_text_assoc
      least_text_laws [OF ann_dict_ok_get ann_dict_ok_get])+

lemma ann_union_join: "ann_union x y = (let d = ann_join (ann_dict x) (ann_dict y) in if d = [] then x else Some (JObj d))"
  by (simp add: ann_union_def ann_join_def)

lemma ann_ok_dict: "ann_ok x \<Longrightarrow> ann_dict_ok (ann_dict x)"
  by (auto simp: ann_ok_def ann_dict_ok_def text_ok_def jv_ok_obj admissible_obj simp del: jv_ok.simps admissible.simps)

definition ann_wrap :: "(string, jv) dict \<Rightarrow> jv option" where
  "ann_wrap d = (if d = [] then None else Some (JObj d))"

lemma ann_wrap_dict: "ann_ok x \<Longrightarrow> ann_wrap (ann_dict x) = x" "ann_dict (ann_wrap d) = d"
  by (auto simp: ann_wrap_def ann_ok_def)

lemma ann_ok_wrap: "ann_dict_ok d \<Longrightarrow> ann_ok (ann_wrap d)"
  by (auto simp: ann_wrap_def ann_ok_def ann_dict_ok_def text_ok_def jv_ok_obj admissible_obj simp del: jv_ok.simps admissible.simps)

lemma ann_join_empty:
  assumes "ann_dict_ok d" "ann_dict_ok e" "ann_join d e = []"
  shows "d = []"
proof (rule dict_ext)
  show "map_of d k = map_of [] k" for k
    using ann_join_get [OF assms(1,2), of k] assms(3) by (auto simp: least_text_def split: option.splits)
qed (use assms(1) in \<open>simp_all add: ann_dict_ok_def\<close>)

lemma ann_union_wrap:
  assumes "ann_ok x" "ann_ok y"
  shows "ann_union x y = ann_wrap (ann_join (ann_dict x) (ann_dict y))"
proof (cases "ann_join (ann_dict x) (ann_dict y) = []")
  case True
  then have "ann_dict x = []" using ann_join_empty ann_ok_dict assms by blast
  then have "x = None" using ann_wrap_dict(1) [OF assms(1)] by (simp add: ann_wrap_def)
  with True show ?thesis by (simp add: ann_union_join ann_wrap_def)
next
  case False
  then show ?thesis by (simp add: ann_union_join ann_wrap_def Let_def)
qed

lemma ann_union_laws:
  assumes "ann_ok x" "ann_ok y" "ann_ok z"
  shows "ann_ok (ann_union x y)" "ann_union x y = ann_union y x"
    "ann_union (ann_union x y) z = ann_union x (ann_union y z)"
    "ann_union x x = x" "ann_union x (ann_union x y) = ann_union x y"
proof -
  note ok = ann_ok_dict [OF assms(1)] ann_ok_dict [OF assms(2)] ann_ok_dict [OF assms(3)]
  show closed: "ann_ok (ann_union x y)"
    using ok assms by (simp add: ann_union_wrap ann_ok_wrap ann_join_ok)
  have yz: "ann_ok (ann_union y z)"
    using ok assms by (simp add: ann_union_wrap ann_ok_wrap ann_join_ok)
  show "ann_union x y = ann_union y x"
    using ok assms by (simp add: ann_union_wrap ann_join_laws(1) [of "ann_dict x" "ann_dict y" "ann_dict z"])
  show "ann_union (ann_union x y) z = ann_union x (ann_union y z)"
    using ok assms ann_union_wrap [OF closed assms(3)] ann_union_wrap [OF assms(1) yz]
    by (simp add: ann_union_wrap ann_wrap_dict(2) ann_join_laws(2))
  show "ann_union x x = x"
    using ok assms ann_wrap_dict(1) by (simp add: ann_union_wrap ann_join_laws(3) [of "ann_dict x" "ann_dict y" "ann_dict z"])
  show "ann_union x (ann_union x y) = ann_union x y"
    using ok assms ann_union_wrap [OF assms(1) closed]
    by (simp add: ann_union_wrap ann_wrap_dict(2) ann_join_laws(4) [of "ann_dict x" "ann_dict y" "ann_dict z"])
qed

lemma ann_ok_None: "ann_ok None"
  by (simp add: ann_ok_def)

lemmas ann_union_pair = ann_union_laws(1,2,4,5) [OF _ _ ann_ok_None]

lemma ann_ok_code [code]:
  "ann_ok x =
     (case x of
        None \<Rightarrow> True
      | Some v \<Rightarrow> (case v of JObj ms \<Rightarrow> ms \<noteq> [] \<and> jv_ok (JObj ms) \<and> admissible (JObj ms) | _ \<Rightarrow> False))"
  by (auto simp: ann_ok_def split: option.splits jv.splits)

end
