(* ===== verification/Bl_Copies.thy ===== *)
theory Bl_Copies
  imports Bl_Join
begin

text \<open>
  Copies of one event. \<open>event_ok\<close> holds of an event that passed \<^verbatim>\<open>from_json\<close>, is not redacted, and
  whose JSON members are admissible; \<open>combine_join\<close> shows that the dictionary merge of
  \<^verbatim>\<open>_combine\<close> computes the record join \<open>join_event\<close> on two such copies of one identity, and
  \<open>combine_collision\<close> that it refuses two copies of different identity.
\<close>

definition join_event :: "bead_event \<Rightarrow> bead_event \<Rightarrow> bead_event" where
  "join_event a b =
     a\<lparr>extracted_at := earlier (extracted_at a) (extracted_at b),
       confidence := opt_max (confidence a) (confidence b),
       ev_source := (ev_source a)\<lparr>src_evidence := evidence_union (src_evidence (ev_source a)) (src_evidence (ev_source b))\<rparr>,
       annotations := ann_union (annotations a) (annotations b)\<rparr>"

text \<open>The payload of a tombstone that erases events can be iterated and hashed.\<close>

definition erasing_ok :: "bead_event \<Rightarrow> bool" where
  "erasing_ok e \<longleftrightarrow> is_ok (erased_by e ([], []))"

definition event_ok :: "bead_event \<Rightarrow> bool" where
  "event_ok e \<longleftrightarrow>
     event_wf e \<and> redacted e = None \<and> ann_ok (annotations e) \<and>
     jv_ok (JObj (ev_data e)) \<and> admissible (JObj (ev_data e)) \<and>
     pred_option (list_all text_ok) (ev_prev e) \<and>
     pred_option (\<lambda>i. \<bar>i\<bar> \<le> max_safe_integer) (lamport e) \<and> erasing_ok e"

definition copies_of :: "string \<times> (string, jv) dict \<Rightarrow> bead_event set" where
  "copies_of i = {e. event_ok e \<and> ev_id e = fst i \<and> view_of e = snd i}"

definition copy_key :: "bead_event \<Rightarrow> string \<times> (string, jv) dict" where
  "copy_key e = (ev_id e, view_of e)"

lemma event_eqI:
  assumes "same_identity a b" "ev_id a = ev_id b" "extracted_at a = extracted_at b" "confidence a = confidence b"
    "src_evidence (ev_source a) = src_evidence (ev_source b)" "redacted a = redacted b" "annotations a = annotations b"
  shows "a = (b :: bead_event)"
proof -
  have "ev_source a = ev_source b" using assms by (intro source.equality) (simp_all add: same_identity_def)
  with assms show ?thesis by (intro bead_event.equality) (simp_all add: same_identity_def)
qed

lemma same_identity_join: "same_identity (join_event a b) a"
  by (simp add: same_identity_def join_event_def)

lemma erased_by_same:
  "ev_kind a = ev_kind b \<Longrightarrow> ev_bead a = ev_bead b \<Longrightarrow> ev_data a = ev_data b \<Longrightarrow> erased_by a = erased_by b"
  by (simp add: erased_by_def fun_eq_iff)

lemma join_event_ok:
  assumes "event_ok a" "event_ok b"
  shows "event_ok (join_event a b)"
proof -
  have "erased_by (join_event a b) = erased_by a"
    by (rule erased_by_same) (simp_all add: join_event_def)
  moreover have "ann_ok (ann_union (annotations a) (annotations b))"
    using assms by (simp add: event_ok_def ann_union_pair(1))
  moreover have "is_timestamp (earlier (extracted_at a) (extracted_at b))"
    using assms by (simp add: event_ok_def event_wf_def earlier_laws(1))
  ultimately show ?thesis
    using assms by (auto simp: event_ok_def event_wf_def erasing_ok_def join_event_def ann_ok_def)
qed

interpretation copies: join_class "copies_of i" join_event for i
proof
  fix a b c
  assume "a \<in> copies_of i" "b \<in> copies_of i"
  then have ok: "event_ok a" "event_ok b" and same: "same_identity a b" "ev_id a = ev_id b"
    and key: "ev_id a = fst i" "view_of a = snd i"
    using view_same by (auto simp: copies_of_def)
  have ts: "is_timestamp (extracted_at a)" "is_timestamp (extracted_at b)" and ann: "ann_ok (annotations a)" "ann_ok (annotations b)"
    and red: "redacted a = None" "redacted b = None"
    using ok by (auto simp: event_ok_def event_wf_def)
  show "join_event a b \<in> copies_of i"
    using ok key join_event_ok same_identity_view [OF same_identity_join [of a b]]
    by (simp add: copies_of_def) (simp add: join_event_def)
  have "same_identity (join_event a b) (join_event b a)"
    using same same_identity_join by (simp add: same_identity_def)
  then show "join_event a b = join_event b a"
    using same red ts ann by (intro event_eqI)
      (simp_all add: join_event_def earlier_laws(2) opt_max_laws(1) evidence_union_laws(1) ann_union_pair(2))
  show "join_event a (join_event a b) = join_event a b"
    using ts ann by (simp add: join_event_def earlier_laws(4) opt_max_laws(4) evidence_union_laws(3) ann_union_pair(4))
  assume "c \<in> copies_of i"
  then have "ann_ok (annotations c)" by (auto simp: copies_of_def event_ok_def)
  with ann show "join_event (join_event a b) c = join_event a (join_event b c)"
    by (simp add: join_event_def earlier_assoc opt_max_laws(2) evidence_union_laws(2) ann_union_laws(3))
qed

section \<open>The dictionary merge is the join\<close>

lemma view_text_ok:
  assumes "event_ok e"
  shows "text_ok (JObj (view_of e))"
proof -
  have "jv_ok v \<and> admissible v" if "map_of (view_of e) k = Some v" for k v
  proof (cases "k = ''source''")
    case True
    with that show ?thesis by (auto simp: map_of_view dict_of_def dict_put_def dict_pop_def)
  next
    case False
    with that have "k \<in> set identity_members" "v = jget k (event_members e)"
      by (auto simp: map_of_view split: if_splits)
    moreover have "jv_ok (bead_ref_to_json r) \<and> admissible (bead_ref_to_json r)" for r
      by (simp add: bead_ref_to_json_def dict_of_def dict_put_def dict_pop_def)
    moreover have "jv_ok (optional_json t) \<and> admissible (optional_json t)" for t
      by (cases t) (simp_all add: optional_json_def)
    ultimately show ?thesis using assms
      by (auto simp: identity_members_def jget_event event_ok_def text_ok_def list_all_iff split: option.splits)
  qed
  then have "jv_ok v \<and> admissible v" if "v \<in> snd ` set (view_of e)" for v
    using that dict_ok_view [of e] by (auto simp: dict_ok_def)
  then show ?thesis unfolding text_ok_def jv_ok_obj admissible_obj by simp
qed

lemma identity_without_none:
  "event_ok e \<Longrightarrow> identity_without (event_members e) [] = Inr (jv_text (JObj (view_of e)))"
  using text_ok_some [OF view_text_ok [of e]]
  by (simp add: identity_without_def identity_projection_event canonical_bytes_def del: canonical_json.simps)

lemma put_members:
  "dict_put ''extracted_at'' (JStr t) (event_members e) = event_members (e\<lparr>extracted_at := t\<rparr>)"
  "dict_put ''confidence'' (JFloat c) (event_members e) = event_members (e\<lparr>confidence := Some c\<rparr>)"
  "dict_put ''source'' (source_to_json s) (event_members e) = event_members (e\<lparr>ev_source := s\<rparr>)"
  "dict_put ''annotations'' v (event_members e) = event_members (e\<lparr>annotations := Some v\<rparr>)"
  by (rule dict_ext; simp add: map_of_event_members)+

lemma merge_redacted_none: "redacted e = None \<Longrightarrow> merge_redacted [] (event_members e) = Inr (event_members e)"
  by (simp add: merge_redacted_def dict_pop_absent map_of_event_members)

lemma merge_extracted_members:
  assumes "is_timestamp (extracted_at a)" "is_timestamp (extracted_at b)"
  shows "merge_extracted (event_members b) (event_members a) =
    Inr (event_members (a\<lparr>extracted_at := earlier (extracted_at a) (extracted_at b)\<rparr>))"
  using assms by (simp add: merge_extracted_def jget_event instant_json_def instant_ok earlier_def put_members)

lemma confidence_same: "confidence e = None \<Longrightarrow> e\<lparr>confidence := None\<rparr> = e"
  by (cases e) simp

lemma merge_confidence_members:
  "merge_confidence (event_members b) (event_members a) =
     Inr (event_members (a\<lparr>confidence := opt_max (confidence a) (confidence b)\<rparr>))"
  by (cases "confidence a"; cases "confidence b")
    (simp_all add: merge_confidence_def jget_event confidence_of_def opt_max_def put_members confidence_same)

lemma evidence_items_members: "evidence_items (event_members e) = Inr (map evidence_to_json (src_evidence (ev_source e)))"
  by (simp add: evidence_items_def jget_event source_to_json_def source_members_def map_of_dict_of map_add_def)

lemma dict_put_map: "dict_put k (g v) (map (map_prod id g) d) = map (map_prod id g) (dict_put k v d)"
  by (simp add: dict_put_def dict_pop_def filter_map comp_def insort_fst_map)

lemma dict_of_map: "dict_of (map (map_prod id g) ms) = map (map_prod id g) (dict_of ms)"
  by (induction ms rule: rev_induct) (simp_all add: dict_of_append dict_put_map [unfolded id_def])

lemma add_evidence_fold:
  "fold_result add_evidence (map evidence_to_json es) d =
     Inr (fold (\<lambda>(k, v). dict_put k v) (map (map_prod id evidence_to_json) (map (\<lambda>e. (evd_text e, e)) es)) d)"
  by (induction es arbitrary: d) (simp_all add: add_evidence_def canonical_bytes_def evidence_text_some)

lemma put_evidence:
  "es \<noteq> [] \<Longrightarrow> dict_put ''evidence'' (JArr (map evidence_to_json es)) (source_members s) = source_members (s\<lparr>src_evidence := es\<rparr>)"
  by (rule dict_ext) (simp_all add: source_members_def map_of_dict_of map_add_def)

lemma merge_evidence_members:
  "merge_evidence (event_members b) (event_members a) =
     Inr (event_members (a\<lparr>ev_source := (ev_source a)\<lparr>src_evidence :=
       evidence_union (src_evidence (ev_source a)) (src_evidence (ev_source b))\<rparr>\<rparr>))"
proof -
  let ?es = "src_evidence (ev_source a)" and ?fs = "src_evidence (ev_source b)"
  let ?d = "dict_of (map (\<lambda>e. (evd_text e, e)) (?es @ ?fs))"
  have fold: "fold_result add_evidence (map evidence_to_json ?es @ map evidence_to_json ?fs) [] =
      Inr (map (map_prod id evidence_to_json) ?d)"
    using add_evidence_fold [of "?es @ ?fs" "[]"] dict_of_map [of evidence_to_json "map (\<lambda>e. (evd_text e, e)) (?es @ ?fs)"]
    by (simp add: dict_of_def)
  have union: "evidence_union ?es ?fs = map snd ?d" by (simp add: evidence_union_def)
  show ?thesis
  proof (cases "?d = []")
    case True
    with union set_evidence_union [of ?es ?fs] have "?es = []" "evidence_union ?es ?fs = []" by simp_all
    then have "a\<lparr>ev_source := (ev_source a)\<lparr>src_evidence := evidence_union ?es ?fs\<rparr>\<rparr> = a" by simp
    with True fold show ?thesis by (simp add: merge_evidence_def evidence_items_members)
  next
    case False
    then have "map snd (map (map_prod id evidence_to_json) ?d) = map evidence_to_json (evidence_union ?es ?fs)"
        "evidence_union ?es ?fs \<noteq> []"
      by (simp_all add: union)
    with False fold put_evidence [of "evidence_union ?es ?fs" "ev_source a"] show ?thesis
      by (simp add: merge_evidence_def evidence_items_members jget_event source_to_json_def
          put_members(3) [unfolded source_to_json_def] del: map_map)
  qed
qed

lemma annotation_members_event: "ann_ok (annotations e) \<Longrightarrow> annotation_members (event_members e) = Inr (ann_dict (annotations e))"
  by (auto simp: annotation_members_def jget_event ann_ok_def)

lemma add_annotation_fold:
  assumes "ann_dict_ok d" "\<And>m. m \<in> set ms \<Longrightarrow> text_ok (snd m)"
  shows "fold_result add_annotation ms d = Inr (fold ann_add ms d)"
  using assms
proof (induction ms arbitrary: d)
  case (Cons m ms)
  have "add_annotation m d = Inr (ann_add m d)"
    using Cons.prems ann_dict_ok_get [OF Cons.prems(1), of "fst m"] text_ok_some
    by (auto simp: add_annotation_def ann_add_def canonical_bytes_def split: option.splits)
  with Cons show ?case using ann_add_ok by simp
qed simp

lemma merge_annotations_members:
  assumes "ann_ok (annotations a)" "ann_ok (annotations b)"
  shows "merge_annotations (event_members b) (event_members a) =
    Inr (event_members (a\<lparr>annotations := ann_union (annotations a) (annotations b)\<rparr>))"
proof -
  let ?ms = "ann_dict (annotations a) @ ann_dict (annotations b)"
  have "fold_result add_annotation ?ms [] = Inr (fold ann_add ?ms [])"
    using assms [THEN ann_ok_dict] by (intro add_annotation_fold) (auto simp: ann_dict_ok_def)
  then show ?thesis
    using assms by (simp add: merge_annotations_def annotation_members_event ann_union_def Let_def put_members)
qed

lemma combine_join:
  assumes "event_ok a" "event_ok b" "same_identity a b"
  shows "combine a b = Inr (join_event a b)"
proof -
  have wf: "event_wf (join_event a b)" using join_event_ok [OF assms(1,2)] by (simp add: event_ok_def)
  have red: "redacted a = None" "redacted b = None" and ts: "is_timestamp (extracted_at a)" "is_timestamp (extracted_at b)"
    and ann: "ann_ok (annotations a)" "ann_ok (annotations b)"
    using assms by (auto simp: event_ok_def event_wf_def)
  have "view_of a = view_of b" using assms(3) by (rule same_identity_view)
  with red ts ann show ?thesis
    using event_members_roundtrip [OF wf] assms(1,2)
    by (simp add: combine_def withheld_def identity_without_none merge_redacted_none merge_extracted_members
        merge_confidence_members merge_evidence_members merge_annotations_members join_event_def)
qed

lemma combine_collision:
  assumes "event_ok a" "event_ok b" "\<not> same_identity a b"
  shows "combine a b = Inl (IdCollisionError (ev_id a))"
proof -
  have "JObj (view_of a) \<noteq> JObj (view_of b)" using assms(3) view_same by blast
  then have "jv_text (JObj (view_of a)) \<noteq> jv_text (JObj (view_of b))"
    using jv_text_inject view_text_ok assms(1,2) by blast
  moreover have "redacted a = None" "redacted b = None" using assms by (auto simp: event_ok_def)
  ultimately show ?thesis using assms(1,2) by (simp add: combine_def withheld_def identity_without_none)
qed

lemma join_self_short:
  assumes "event_ok e" "length (src_evidence (ev_source e)) < 2"
  shows "join_event e e = e"
proof -
  let ?es = "src_evidence (ev_source e)"
  from assms(2) have "evidence_union ?es ?es = ?es"
    by (cases ?es) (auto simp: evidence_union_def dict_of_def dict_put_def dict_pop_def)
  moreover have "ann_ok (annotations e)" "is_timestamp (extracted_at e)"
    using assms(1) by (auto simp: event_ok_def event_wf_def)
  ultimately show ?thesis
    by (simp add: join_event_def earlier_laws(3) opt_max_laws(3) ann_union_pair(3) [of "annotations e" None] ann_ok_None)
qed

lemma normalize_join: "event_ok e \<Longrightarrow> normalize e = Inr (join_event e e)"
  using join_self_short combine_join [of e e] by (simp add: normalize_def same_identity_def)

end
