(* ===== verification/Bl_Union.thy ===== *)
theory Bl_Union
  imports Bl_Copies
begin

text \<open>
  The result of \<^verbatim>\<open>union_merge\<close> as a set. \<open>joined es i\<close> is the join of all copies of the event \<open>i\<close>,
  \<open>survivors es\<close> the joined events that no tombstone erases: the specification of the merge, which
  mentions no order. \<open>merge_result\<close> shows that the code returns exactly the survivors, sorted, when
  no two copies of one id disagree, and \<open>merge_collides\<close> that it raises otherwise.
\<close>

definition consistent :: "bead_event list \<Rightarrow> bool" where
  "consistent es \<longleftrightarrow> (\<forall>a \<in> set es. \<forall>b \<in> set es. ev_id a = ev_id b \<longrightarrow> same_identity a b)"

definition joined :: "bead_event list \<Rightarrow> string \<Rightarrow> bead_event option" where
  "joined es i =
     (case filter (\<lambda>e. ev_id e = i) es of [] \<Rightarrow> None | e # r \<Rightarrow> Some (join_all join_event e r))"

definition erases :: "bead_event \<Rightarrow> bead_event \<Rightarrow> bool" where
  "erases t e \<longleftrightarrow>
     JStr (ev_id e) \<in> set (fst (projr (erased_by t ([], [])))) \<or>
     ev_bead e \<in> set (snd (projr (erased_by t ([], []))))"

definition erased_in :: "bead_event list \<Rightarrow> bead_event \<Rightarrow> bool" where
  "erased_in es e \<longleftrightarrow> ev_kind e \<noteq> Tombstone \<and> (\<exists>t \<in> set es. erases t e)"

definition survivors :: "bead_event list \<Rightarrow> bead_event set" where
  "survivors es = {e. \<exists>i. joined es i = Some e \<and> \<not> erased_in es e}"

abbreviation events_ok :: "bead_event list \<Rightarrow> bool" where
  "events_ok es \<equiv> \<forall>e \<in> set es. event_ok e"

section \<open>Joined copies\<close>

lemma fold_result_append: "fold_result f (xs @ ys) s = and_then (fold_result f xs s) (fold_result f ys)"
proof (induction xs arbitrary: s)
  case (Cons x xs)
  then show ?case by (cases "f x s") simp_all
qed simp

lemma same_identity_refl [simp]: "same_identity a a"
  by (simp add: same_identity_def)

lemma same_identity_sym: "same_identity a b \<Longrightarrow> same_identity b a"
  by (simp add: same_identity_def)

lemma same_identity_trans: "same_identity a b \<Longrightarrow> same_identity b c \<Longrightarrow> same_identity a c"
  by (simp add: same_identity_def)

lemma copies_of_iff: "e \<in> copies_of (copy_key a) \<longleftrightarrow> event_ok e \<and> ev_id e = ev_id a \<and> same_identity e a"
  by (auto simp: copies_of_def copy_key_def view_iff)

lemma copies_members:
  assumes "events_ok es" "consistent es" "a \<in> set es"
  shows "set (filter (\<lambda>e. ev_id e = ev_id a) es) \<subseteq> copies_of (copy_key a)"
  using assms by (auto simp: copies_of_iff consistent_def)

lemma joined_cases:
  assumes "events_ok es" "consistent es"
  obtains (absent) "joined es i = None" "\<And>e. e \<in> set es \<Longrightarrow> ev_id e \<noteq> i"
    | (copies) a r where "filter (\<lambda>e. ev_id e = i) es = a # r" "joined es i = Some (join_all join_event a r)"
        "a \<in> set es" "ev_id a = i" "a \<in> copies_of (copy_key a)" "set r \<subseteq> copies_of (copy_key a)"
proof (cases "filter (\<lambda>e. ev_id e = i) es")
  case Nil
  with absent show ?thesis by (auto simp: joined_def filter_empty_conv)
next
  case (Cons a r)
  then have "a \<in> set (filter (\<lambda>e. ev_id e = i) es)" by simp
  then have a: "a \<in> set es" "ev_id a = i" by simp_all
  from copies_members [OF assms a(1)] Cons a(2) have "a \<in> copies_of (copy_key a)" "set r \<subseteq> copies_of (copy_key a)"
    by auto
  with Cons a copies show ?thesis by (simp add: joined_def)
qed

lemma joined_copy:
  assumes "events_ok es" "consistent es" "joined es i = Some e"
  shows "event_ok e" "ev_id e = i" "\<And>a. a \<in> set es \<Longrightarrow> ev_id a = i \<Longrightarrow> same_identity e a" "\<exists>a \<in> set es. ev_id a = i"
proof -
  have "\<exists>a \<in> set es. ev_id a = i \<and> e \<in> copies_of (copy_key a)"
    using assms(1,2)
  proof (cases rule: joined_cases [where i = i])
    case (copies a r)
    with copies.join_all_closed [OF copies(5,6)] assms(3) show ?thesis by auto
  qed (use assms(3) in simp)
  then obtain a where a: "a \<in> set es" "ev_id a = i" "event_ok e" "ev_id e = i" "same_identity e a"
    by (auto simp: copies_of_iff)
  then show "event_ok e" "ev_id e = i" "\<exists>a \<in> set es. ev_id a = i" by auto
  show "same_identity e b" if "b \<in> set es" "ev_id b = i" for b
    using a that assms(2) same_identity_trans [of e a b] by (auto simp: consistent_def)
qed

lemma joined_present: "events_ok es \<Longrightarrow> consistent es \<Longrightarrow> a \<in> set es \<Longrightarrow> \<exists>e. joined es (ev_id a) = Some e"
  by (rule joined_cases [of es "ev_id a"]) auto

lemma joined_set:
  assumes "events_ok es" "consistent es" "set es = set fs"
  shows "joined es i = joined fs i"
  using assms(1,2)
proof (cases rule: joined_cases [where i = i])
  case absent
  with assms(3) have "filter (\<lambda>e. ev_id e = i) fs = []" by (auto simp: filter_empty_conv)
  with absent show ?thesis by (simp add: joined_def)
next
  case (copies a r)
  have set: "set (filter (\<lambda>e. ev_id e = i) es) = set (filter (\<lambda>e. ev_id e = i) fs)" using assms(3) by simp
  with copies(1) obtain b q where b: "filter (\<lambda>e. ev_id e = i) fs = b # q" by (cases "filter (\<lambda>e. ev_id e = i) fs") auto
  with set copies(1) have "set (a # r) = set (b # q)" by simp
  then have "join_all join_event a r = join_all join_event b q" by (rule copies.join_all_set [OF copies(5,6)])
  with copies(2) b show ?thesis by (simp add: joined_def)
qed

lemma joined_snoc:
  assumes "ev_id e = i"
  shows "joined (es @ [e]) i = Some (case joined es i of None \<Rightarrow> join_event e e | Some h \<Rightarrow> join_event h e)"
    "j \<noteq> i \<Longrightarrow> joined (es @ [e]) j = joined es j"
  using assms by (auto simp: joined_def join_all_def split: list.splits)

lemma consistent_snoc:
  "consistent (es @ [e]) \<longleftrightarrow> consistent es \<and> (\<forall>a \<in> set es. ev_id a = ev_id e \<longrightarrow> same_identity a e)"
  by (auto simp: consistent_def intro: same_identity_sym)

lemma consistent_append: "consistent (es @ fs) \<Longrightarrow> consistent es \<and> consistent fs"
  by (auto simp: consistent_def)

section \<open>The held copies\<close>

lemma hold_joined:
  assumes "events_ok es" "consistent es"
  shows "\<exists>d. fold_result hold_event es [] = Inr d \<and> distinct (map fst d) \<and> (\<forall>i. map_of d i = joined es i)"
  using assms
proof (induction es rule: rev_induct)
  case Nil
  then show ?case by (simp add: joined_def)
next
  case (snoc e es)
  have ok: "events_ok es" "consistent es" "event_ok e" using snoc.prems consistent_append [of es "[e]"] by auto
  with snoc.IH obtain d where d: "fold_result hold_event es [] = Inr d" "distinct (map fst d)" "\<And>i. map_of d i = joined es i"
    by auto
  have "hold_event e d = Inr (AList.update (ev_id e) (the (joined (es @ [e]) (ev_id e))) d)"
  proof (cases "joined es (ev_id e)")
    case None
    with d ok(3) show ?thesis by (simp add: hold_event_def normalize_join joined_snoc)
  next
    case (Some h)
    note h = joined_copy [OF ok(1,2) Some]
    from h(4) obtain a where a: "a \<in> set es" "ev_id a = ev_id e" by blast
    with snoc.prems(2) have "same_identity a e" by (auto simp: consistent_def)
    with h(3) [OF a] have "same_identity h e" by (rule same_identity_trans)
    with Some d h(1) ok(3) show ?thesis by (simp add: hold_event_def combine_join joined_snoc)
  qed
  with d show ?case
    using distinct_update [OF d(2)] joined_snoc(1) [of e "ev_id e" es] joined_snoc(2) [of e "ev_id e" _ es]
    by (simp add: fold_result_append)
qed

lemma hold_collides:
  assumes "events_ok es" "\<not> consistent es"
  shows "\<exists>i a b. fold_result hold_event es [] = Inl (IdCollisionError i) \<and> a \<in> set es \<and> b \<in> set es \<and>
    ev_id a = i \<and> ev_id b = i \<and> \<not> same_identity a b"
  using assms
proof (induction es rule: rev_induct)
  case Nil
  then show ?case by (simp add: consistent_def)
next
  case (snoc e es)
  then have ok: "events_ok es" "event_ok e" by simp_all
  show ?case
  proof (cases "consistent es")
    case False
    with snoc.IH ok show ?thesis by (auto simp: fold_result_append) metis
  next
    case True
    with snoc.prems(2) obtain a where a: "a \<in> set es" "ev_id a = ev_id e" "\<not> same_identity a e"
      by (auto simp: consistent_snoc)
    obtain d where d: "fold_result hold_event es [] = Inr d" "\<And>i. map_of d i = joined es i"
      using hold_joined [OF ok(1) True] by blast
    from joined_present [OF ok(1) True a(1)] a(2) obtain h where h: "joined es (ev_id e) = Some h" by auto
    note H = joined_copy [OF ok(1) True h]
    from H(3) [OF a(1,2)] a(3) have "\<not> same_identity h e" using same_identity_sym same_identity_trans by blast
    with H(1,2) ok(2) h d have "hold_event e d = Inl (IdCollisionError (ev_id e))"
      by (simp add: hold_event_def combine_collision)
    with d a show ?thesis by (intro exI [of _ "ev_id e"] exI [of _ a] exI [of _ e]) (simp add: fold_result_append)
  qed
qed

section \<open>Tombstones\<close>

definition erased_ids :: "bead_event \<Rightarrow> jv list" where
  "erased_ids t = fst (projr (erased_by t ([], [])))"

definition erased_beads :: "bead_event \<Rightarrow> bead_ref list" where
  "erased_beads t = snd (projr (erased_by t ([], [])))"

lemma erased_by_ok:
  assumes "erasing_ok t"
  shows "erased_by t acc = Inr (fst acc @ erased_ids t, snd acc @ erased_beads t)"
proof (cases "ev_kind t = Tombstone \<and> jget ''scope'' (ev_data t) \<noteq> JStr ''bead''")
  case True
  let ?items = "if truthy (jget ''events'' (ev_data t)) then items_of (jget ''events'' (ev_data t)) else Inr []"
  from assms True obtain ids where "?items = Inr ids" "list_all hashable ids"
    by (cases ?items) (auto simp: erasing_ok_def erased_by_def split: if_splits)
  with True show ?thesis by (simp add: erased_by_def erased_ids_def erased_beads_def Let_def)
next
  case False
  then show ?thesis by (auto simp: erased_by_def erased_ids_def erased_beads_def prod_eq_iff)
qed

lemma erasure_ok:
  "(\<And>t. t \<in> set es \<Longrightarrow> erasing_ok t) \<Longrightarrow>
     fold_result erased_by es acc = Inr (fst acc @ concat (map erased_ids es), snd acc @ concat (map erased_beads es))"
  by (induction es arbitrary: acc) (simp_all add: erased_by_ok)

lemma apply_tombstones_ok:
  assumes "events_ok es"
  shows "apply_tombstones es = Inr (filter (\<lambda>e. \<not> erased_in es e) es)"
proof -
  have "erasing_ok t" if "t \<in> set es" for t using assms that by (simp add: event_ok_def)
  then have "apply_tombstones es = Inr (filter (\<lambda>e. ev_kind e = Tombstone \<or>
      JStr (ev_id e) \<notin> set (concat (map erased_ids es)) \<and> ev_bead e \<notin> set (concat (map erased_beads es))) es)"
    by (simp add: apply_tombstones_def erasure_def erasure_ok)
  also have "(\<lambda>e. ev_kind e = Tombstone \<or>
      JStr (ev_id e) \<notin> set (concat (map erased_ids es)) \<and> ev_bead e \<notin> set (concat (map erased_beads es))) =
      (\<lambda>e. \<not> erased_in es e)"
    by (auto simp: fun_eq_iff erased_in_def erases_def erased_ids_def erased_beads_def)
  finally show ?thesis .
qed

lemma erases_same:
  assumes "same_identity t u" "ev_id e = ev_id f" "ev_bead e = ev_bead f"
  shows "erases t e \<longleftrightarrow> erases u f"
proof -
  have "erased_by t = erased_by u" using assms(1) by (intro erased_by_same) (simp_all add: same_identity_def)
  with assms(2,3) show ?thesis by (simp add: erases_def)
qed

lemma erased_in_cong:
  assumes "\<And>t. t \<in> set es \<Longrightarrow> \<exists>u \<in> set fs. same_identity t u" "\<And>u. u \<in> set fs \<Longrightarrow> \<exists>t \<in> set es. same_identity u t"
  shows "erased_in es e \<longleftrightarrow> erased_in fs e"
  using assms erases_same [of _ _ e e] unfolding erased_in_def by meson

section \<open>The merge returns the survivors\<close>

definition is_merge :: "bead_event list \<Rightarrow> bead_event set \<Rightarrow> bool" where
  "is_merge r S \<longleftrightarrow>
     set r = S \<and> sorted (map part_key r) \<and> distinct (map ev_id r) \<and> (\<forall>e \<in> S. event_ok e)"

lemma is_merge_unique:
  assumes "is_merge r S" "is_merge q S"
  shows "r = q"
proof -
  have "sort_key part_key r = sort_key part_key q"
    using assms by (intro sorted_unique) (auto simp: is_merge_def event_ok_def intro: event_wf_times)
  with assms show ?thesis by (simp add: is_merge_def sort_key_id_if_sorted)
qed

lemma is_merge_sort:
  "distinct (map ev_id ws) \<Longrightarrow> events_ok ws \<Longrightarrow> is_merge (sort_key part_key ws) (set ws)"
  by (simp add: is_merge_def distinct_map)

lemma filter_single:
  assumes "distinct xs" "j \<in> set xs" "P j" "\<And>x. x \<in> set xs \<Longrightarrow> P x \<Longrightarrow> x = j"
  shows "filter P xs = [j]"
proof -
  have "set (filter P xs) = {j}" unfolding set_filter using assms(2-4) by blast
  with assms(1) show ?thesis using distinct_filter [of xs P] by (cases "filter P xs" rule: remdups_adj.cases) auto
qed

lemma merge_result:
  assumes "events_ok (concat logs)" "consistent (concat logs)"
  obtains r where "union_merge logs = Inr r" "is_merge r (survivors (concat logs))"
proof -
  let ?es = "concat logs"
  obtain d where d: "fold_result hold_event ?es [] = Inr d" "distinct (map fst d)" "\<And>i. map_of d i = joined ?es i"
    using hold_joined [OF assms] by blast
  let ?vs = "map snd d"
  have member: "(i, e) \<in> set d \<longleftrightarrow> joined ?es i = Some e" for i e
    using d(2,3) by (metis map_of_eq_Some_iff)
  note J = joined_copy [OF assms]
  have vals: "e \<in> set ?vs \<longleftrightarrow> (\<exists>i. joined ?es i = Some e)" for e
    using member by force
  have ok: "events_ok ?vs" using vals J(1) by blast
  have "map ev_id ?vs = map fst d"
    using member J(2) by (auto simp: comp_def)
  with d(2) have dist: "distinct (map ev_id ?vs)" by (simp only:)
  have erased: "erased_in ?vs e \<longleftrightarrow> erased_in ?es e" for e
  proof (rule erased_in_cong)
    show "\<exists>u \<in> set ?es. same_identity t u" if "t \<in> set ?vs" for t
      using that vals J(3,4) by metis
    show "\<exists>t \<in> set ?vs. same_identity u t" if "u \<in> set ?es" for u
      using that vals joined_present [OF assms that] J(3) same_identity_sym by metis
  qed
  let ?r = "sort_key part_key (filter (\<lambda>e. \<not> erased_in ?es e) ?vs)"
  have "sort_events (filter (\<lambda>e. \<not> erased_in ?es e) ?vs) = Inr ?r"
    using ok by (intro sort_events_ok) (auto simp: event_ok_def intro: event_wf_times)
  then have run: "union_merge logs = Inr ?r"
    using d(1) apply_tombstones_ok [OF ok] erased by (simp add: union_merge_def)
  moreover have "set (filter (\<lambda>e. \<not> erased_in ?es e) ?vs) = survivors ?es"
    using vals unfolding survivors_def by (simp only: set_filter) blast
  moreover have "is_merge ?r (set (filter (\<lambda>e. \<not> erased_in ?es e) ?vs))"
    using ok by (intro is_merge_sort distinct_map_filter dist) auto
  ultimately show ?thesis using that by metis
qed

lemma merge_collides:
  assumes "events_ok (concat logs)" "\<not> consistent (concat logs)"
  obtains i a b where "union_merge logs = Inl (IdCollisionError i)" "a \<in> set (concat logs)" "b \<in> set (concat logs)"
    "ev_id a = i" "ev_id b = i" "\<not> same_identity a b"
proof -
  from hold_collides [OF assms] obtain i a b where c: "fold_result hold_event (concat logs) [] = Inl (IdCollisionError i)"
      "a \<in> set (concat logs)" "b \<in> set (concat logs)" "ev_id a = i" "ev_id b = i" "\<not> same_identity a b"
    by blast
  then have "union_merge logs = Inl (IdCollisionError i)" by (simp add: union_merge_def)
  from that [OF this c(2-6)] show ?thesis .
qed

section \<open>Order and grouping do not matter\<close>

lemma survivors_set:
  assumes "events_ok es" "consistent es" "set es = set fs"
  shows "survivors es = survivors fs"
  using joined_set [OF assms] assms(3) by (simp add: survivors_def erased_in_def)

lemma consistent_set: "set es = set fs \<Longrightarrow> consistent es = consistent fs"
  by (simp add: consistent_def)

lemma joined_regroup:
  assumes ok: "events_ok (es @ fs)" "consistent (es @ fs)" and r: "is_merge r (survivors es)"
    and kept: "joined es i \<noteq> None \<Longrightarrow> the (joined es i) \<in> set r"
  shows "joined (r @ fs) i = joined (es @ fs) i"
proof -
  have es: "events_ok es" "consistent es" using ok consistent_append [of es fs] by auto
  have only: "x = e" if "x \<in> set r" "e \<in> set r" "ev_id x = ev_id e" for x e
    using that r by (auto simp: is_merge_def distinct_map inj_on_def)
  from es show ?thesis
  proof (cases rule: joined_cases [where i = i])
    case absent
    then have none: "filter (\<lambda>e. ev_id e = i) es = []" by (auto simp: filter_empty_conv)
    have "ev_id e \<noteq> i" if "e \<in> set r" for e
    proof -
      from that r obtain k where k: "joined es k = Some e" by (auto simp: is_merge_def survivors_def)
      from joined_copy(2) [OF es k] joined_copy(4) [OF es k] absent(2) show ?thesis by blast
    qed
    then have "filter (\<lambda>e. ev_id e = i) r = []" by (auto simp: filter_empty_conv)
    with none show ?thesis by (simp add: joined_def)
  next
    case (copies a q)
    let ?j = "join_all join_event a q"
    have j: "?j \<in> set r" "ev_id ?j = i" using kept copies(2) joined_copy(2) [OF es] by auto
    have "distinct r" using r by (auto simp: is_merge_def distinct_map)
    then have "filter (\<lambda>e. ev_id e = i) r = [?j]"
    proof (rule filter_single)
      show "x = ?j" if "x \<in> set r" "ev_id x = i" for x using only [OF that(1) j(1)] that(2) j(2) by simp
    qed (use j in simp_all)
    then have "joined (r @ fs) i = Some (join_all join_event ?j (filter (\<lambda>e. ev_id e = i) fs))"
      by (simp add: joined_def)
    moreover have "set (filter (\<lambda>e. ev_id e = i) fs) \<subseteq> copies_of (copy_key a)"
      using copies_members [OF ok, of a] copies(3,4) by auto
    then have "join_all join_event ?j (filter (\<lambda>e. ev_id e = i) fs) = join_all join_event a (q @ filter (\<lambda>e. ev_id e = i) fs)"
      by (rule copies.join_all_merge [OF copies(5,6)])
    ultimately show ?thesis using copies(1) by (simp add: joined_def)
  qed
qed

end
