(* ===== verification/Bl_Group.thy ===== *)
theory Bl_Group
  imports Bl_Union
begin

text \<open>
  Merging a merge. A merged log replaced by its events and the original copies it was merged from
  have the same survivors: a surviving event is the join of its copies, and an erased one stays
  erased, because the tombstone that erased it is never erased itself.
\<close>

lemma erases_tombstone: "erases t e \<Longrightarrow> ev_kind t = Tombstone"
  by (rule ccontr) (simp add: erases_def erased_by_def)

lemma erased_in_tombstones:
  assumes "\<And>t. t \<in> set es \<Longrightarrow> ev_kind t = Tombstone \<Longrightarrow> \<exists>u \<in> set fs. same_identity t u" "erased_in es e"
  shows "erased_in fs e"
proof -
  from assms(2) obtain t where t: "t \<in> set es" "erases t e" and kind: "ev_kind e \<noteq> Tombstone"
    by (auto simp: erased_in_def)
  from assms(1) [OF t(1) erases_tombstone [OF t(2)]] obtain u where "u \<in> set fs" "same_identity t u" by blast
  with t(2) kind erases_same [of t u e e] show ?thesis by (auto simp: erased_in_def)
qed

lemma erased_in_same: "erased_in es e \<Longrightarrow> ev_id e = ev_id f \<Longrightarrow> same_identity e f \<Longrightarrow> erased_in es f"
  using erases_same [of _ _ e f] by (auto simp: erased_in_def same_identity_def)

lemma survivor_copy:
  assumes "events_ok es" "consistent es" "e \<in> survivors es"
  obtains a where "a \<in> set es" "ev_id a = ev_id e" "same_identity e a" "event_ok e" "joined es (ev_id e) = Some e"
proof -
  from assms(3) obtain i where "joined es i = Some e" by (auto simp: survivors_def)
  with joined_copy [OF assms(1,2) this] that show ?thesis by metis
qed

lemma tombstone_survives:
  assumes "events_ok es" "consistent es" "t \<in> set es" "ev_kind t = Tombstone"
  obtains j where "j \<in> survivors es" "same_identity j t" "ev_id j = ev_id t"
proof -
  from joined_present [OF assms(1-3)] obtain j where j: "joined es (ev_id t) = Some j" by blast
  have "same_identity j t" using joined_copy(3) [OF assms(1,2) j assms(3)] by simp
  moreover from this have "j \<in> survivors es"
    using j assms(4) by (auto simp: survivors_def erased_in_def same_identity_def)
  ultimately show ?thesis using that joined_copy(2) [OF assms(1,2) j] by blast
qed

lemma regroup_ok:
  assumes "events_ok (es @ fs)" "consistent (es @ fs)" "is_merge r (survivors es)"
  shows "events_ok (r @ fs)" "consistent (r @ fs)"
proof -
  have es: "events_ok es" "consistent es" using assms consistent_append [of es fs] by auto
  have copy: "\<exists>a \<in> set (es @ fs). ev_id a = ev_id e \<and> same_identity e a" if "e \<in> set (r @ fs)" for e
  proof (cases "e \<in> set r")
    case True
    then have "e \<in> survivors es" using assms(3) by (simp add: is_merge_def)
    from survivor_copy [OF es this] show ?thesis by (metis Un_iff set_append)
  next
    case False
    with that show ?thesis by (intro bexI [of _ e]) auto
  qed
  show "events_ok (r @ fs)" using assms(1,3) by (auto simp: is_merge_def)
  show "consistent (r @ fs)"
    unfolding consistent_def
  proof (intro ballI impI)
    fix a b assume ab: "a \<in> set (r @ fs)" "b \<in> set (r @ fs)" "ev_id a = ev_id b"
    from copy [OF ab(1)] obtain x where x: "x \<in> set (es @ fs)" "ev_id x = ev_id a" "same_identity a x" by blast
    from copy [OF ab(2)] obtain y where y: "y \<in> set (es @ fs)" "ev_id y = ev_id b" "same_identity b y" by blast
    have "same_identity x y" using assms(2) x(1,2) y(1,2) ab(3) by (simp add: consistent_def)
    with x(3) y(3) show "same_identity a b" using same_identity_trans same_identity_sym by blast
  qed
qed

lemma regroup_erased:
  assumes "events_ok (es @ fs)" "consistent (es @ fs)" "is_merge r (survivors es)"
  shows "erased_in (r @ fs) e \<longleftrightarrow> erased_in (es @ fs) e"
proof -
  have es: "events_ok es" "consistent es" using assms consistent_append [of es fs] by auto
  have r: "set r = survivors es" using assms(3) by (simp add: is_merge_def)
  show ?thesis
  proof
    show "erased_in (es @ fs) e" if "erased_in (r @ fs) e"
    proof (rule erased_in_tombstones [OF _ that])
      fix t assume "t \<in> set (r @ fs)"
      then show "\<exists>u \<in> set (es @ fs). same_identity t u"
        using survivor_copy [OF es, of t] r same_identity_refl [of t] by (metis Un_iff set_append)
    qed
    show "erased_in (r @ fs) e" if "erased_in (es @ fs) e"
    proof (rule erased_in_tombstones [OF _ that])
      fix t assume "t \<in> set (es @ fs)" "ev_kind t = Tombstone"
      then show "\<exists>u \<in> set (r @ fs). same_identity t u"
        using tombstone_survives [OF es, of t] r same_identity_refl [of t] same_identity_sym by (metis Un_iff set_append)
    qed
  qed
qed

lemma regroup_joined:
  assumes "events_ok (es @ fs)" "consistent (es @ fs)" "is_merge r (survivors es)"
  shows "joined (r @ fs) i = joined (es @ fs) i \<or>
    (\<forall>x. joined (es @ fs) i = Some x \<longrightarrow> erased_in (es @ fs) x) \<and> (\<forall>y. joined (r @ fs) i = Some y \<longrightarrow> erased_in (es @ fs) y)"
proof (cases "joined es i \<noteq> None \<longrightarrow> the (joined es i) \<in> set r")
  case True
  then show ?thesis using joined_regroup [OF assms, of i] by blast
next
  case False
  have es: "events_ok es" "consistent es" using assms consistent_append [of es fs] by auto
  from False obtain j where j: "joined es i = Some j" "j \<notin> set r" by auto
  then have "erased_in es j" using assms(3) by (auto simp: is_merge_def survivors_def)
  then have dead: "erased_in (es @ fs) j" by (auto simp: erased_in_def)
  note J = joined_copy [OF es j(1)]
  from J(4) obtain a where a: "a \<in> set es" "ev_id a = i" by blast
  have same: "same_identity j x" if "x \<in> set (es @ fs)" "ev_id x = i" for x
  proof -
    have "same_identity a x" using assms(2) a that by (simp add: consistent_def)
    with J(3) [OF a] show ?thesis by (rule same_identity_trans)
  qed
  have "erased_in (es @ fs) x" if "joined (es @ fs) i = Some x" for x
  proof -
    note X = joined_copy [OF assms(1,2) that]
    have "same_identity x a" using X(3) [of a] a by simp
    then have "same_identity j x" using J(3) [OF a] same_identity_trans same_identity_sym by blast
    with J(2) X(2) show ?thesis by (intro erased_in_same [OF dead]) simp_all
  qed
  moreover have "erased_in (es @ fs) y" if "joined (r @ fs) i = Some y" for y
  proof -
    note Y = joined_copy [OF regroup_ok [OF assms] that]
    from Y(4) obtain b where b: "b \<in> set (r @ fs)" "ev_id b = i" by blast
    have "same_identity j b"
    proof (cases "b \<in> set r")
      case True
      with assms(3) have "b \<in> survivors es" by (simp add: is_merge_def)
      with es obtain x where x: "x \<in> set es" "ev_id x = ev_id b" "same_identity b x" by (rule survivor_copy)
      then have "same_identity j x" using b(2) by (intro same) simp_all
      then show ?thesis using same_identity_sym [OF x(3)] by (rule same_identity_trans)
    next
      case False
      with b show ?thesis by (intro same) simp_all
    qed
    then have "same_identity j y" using Y(3) [OF b] same_identity_trans same_identity_sym by blast
    with J(2) Y(2) show ?thesis by (intro erased_in_same [OF dead]) simp_all
  qed
  ultimately show ?thesis by blast
qed

lemma survivors_regroup:
  assumes "events_ok (es @ fs)" "consistent (es @ fs)" "is_merge r (survivors es)"
  shows "survivors (r @ fs) = survivors (es @ fs)"
proof -
  have "joined (r @ fs) i = Some e \<and> \<not> erased_in (es @ fs) e \<longleftrightarrow> joined (es @ fs) i = Some e \<and> \<not> erased_in (es @ fs) e" for i e
    using regroup_joined [OF assms, of i] by auto
  then show ?thesis by (simp add: survivors_def regroup_erased [OF assms])
qed

end
