(* ===== verification/Bl_Fold.thy ===== *)
theory Bl_Fold
  imports Bl_Group
begin

text \<open>
  The fold of a log into one state per bead (\<^verbatim>\<open>packages/beadlog/src/beadlog/_fold.py\<close>),
  definitions only. \<open>builder\<close> is \<^verbatim>\<open>_Builder\<close>, its dictionaries kept sorted; an absent type, phase or
  retirement is \<open>JNull\<close>. Labels and field names are strings, as the event schema has them, and
  \<open>fields\<close> is an object: other JSON there is refused with the exception Python's dictionary gives
  for most of it.
\<close>

record comment =
  cm_id :: string
  cm_actor :: "string option"
  cm_body :: jv
  cm_occurred_at :: "string option"
  cm_recorded_at :: "string option"

record bead_state =
  st_bead :: bead_ref
  st_exists :: bool
  st_deleted :: bool
  st_erased :: bool
  st_type :: jv
  st_phase :: jv
  st_fields :: "(string, jv) dict"
  st_labels :: "string list"
  st_edges :: "edge list"
  st_retired :: jv
  st_comments :: "comment list"

definition new_state :: "bead_ref \<Rightarrow> bead_state" where
  "new_state bead =
     \<lparr>st_bead = bead, st_exists = False, st_deleted = False, st_erased = False, st_type = JNull, st_phase = JNull,
      st_fields = [], st_labels = [], st_edges = [], st_retired = JNull, st_comments = []\<rparr>"

definition to_checkpoint_state :: "bead_state \<Rightarrow> bl_error + (string, jv) dict" where
  "to_checkpoint_state s =
     (if st_type s = JNull \<or> st_phase s = JNull then Inl NoCheckpoint
      else Inr (dict_of
        ([(''type'', st_type s), (''phase'', st_phase s), (''fields'', JObj (st_fields s)),
          (''labels'', JArr (map JStr (st_labels s))), (''edges'', JArr (map edge_to_json (st_edges s))),
          (''deleted'', JBool (st_deleted s))] @
         (if st_retired s = JNull then [] else [(''retired'', st_retired s)]))))"

fun needed :: "event_kind \<Rightarrow> string list" where
  "needed Create = [''type'', ''fields'']"
| "needed Set = [''field'', ''value'']"
| "needed Label_add = [''label'']"
| "needed Label_remove = [''label'']"
| "needed Edge_add = [''type'', ''target'']"
| "needed Edge_remove = [''type'', ''target'']"
| "needed Phase = [''phase'']"
| "needed _ = []"

section \<open>The builder\<close>

record builder =
  b_bead :: bead_ref
  existence :: "bool option"
  b_type :: jv
  b_phase :: jv
  b_retired :: jv
  b_fields :: "(string, jv) dict"
  b_labels :: "(string, bool) dict"
  b_edges :: "(edge, bool) dict"
  b_comments :: "comment list"

definition new_builder :: "bead_ref \<Rightarrow> builder" where
  "new_builder bead =
     \<lparr>b_bead = bead, existence = None, b_type = JNull, b_phase = JNull, b_retired = JNull, b_fields = [],
      b_labels = [], b_edges = [], b_comments = []\<rparr>"

definition dict_update :: "('k :: linorder, 'v) dict \<Rightarrow> ('k \<times> 'v) list \<Rightarrow> ('k, 'v) dict" where
  "dict_update d ms = fold (\<lambda>(k, v). dict_put k v) ms d"

definition fields_of :: "jv \<Rightarrow> bl_error + (string, jv) dict" where
  "fields_of v =
     (if \<not> truthy v then Inr []
      else (case v of JObj ms \<Rightarrow> Inr ms | JStr _ \<Rightarrow> Inl ValueError | JArr _ \<Rightarrow> Inl ValueError | _ \<Rightarrow> Inl TypeError))"

definition text_of :: "jv \<Rightarrow> bl_error + string" where
  "text_of v = (case v of JStr s \<Rightarrow> Inr s | _ \<Rightarrow> Inl TypeError)"

definition item :: "string \<Rightarrow> (string, jv) dict \<Rightarrow> bl_error + jv" where
  "item k d = (case map_of d k of None \<Rightarrow> Inl (KeyError k) | Some v \<Rightarrow> Inr v)"

definition seed :: "bead_event \<Rightarrow> builder \<Rightarrow> bl_error + builder" where
  "seed checkpoint b =
     and_then (item ''state'' (ev_data checkpoint))
       (\<lambda>v. case v of
          JObj state \<Rightarrow>
            and_then (fields_of (jget ''fields'' state))
              (\<lambda>fields. and_then (if truthy (jget ''labels'' state) then items_of (jget ''labels'' state) else Inr [])
              (\<lambda>labels. and_then (traverse text_of labels)
              (\<lambda>labels. and_then (if truthy (jget ''edges'' state) then items_of (jget ''edges'' state) else Inr [])
              (\<lambda>edges. and_then (traverse edge_from_json edges)
              (\<lambda>edges. Inr
                 (b\<lparr>existence := Some (\<not> truthy (jget ''deleted'' state)),
                    b_type := jget ''type'' state, b_phase := jget ''phase'' state, b_retired := jget ''retired'' state,
                    b_fields := dict_update (b_fields b) fields,
                    b_labels := dict_update (b_labels b) (map (\<lambda>l. (l, True)) labels),
                    b_edges := dict_update (b_edges b) (map (\<lambda>e. (e, True)) edges)\<rparr>))))))
        | _ \<Rightarrow> Inl AttributeError)"

definition withheld_change :: "bead_event \<Rightarrow> bool" where
  "withheld_change e \<longleftrightarrow>
     redacted e \<noteq> None \<and> redacted e \<noteq> Some [] \<and>
     \<not> list_all (\<lambda>name. map_of (ev_data e) name \<noteq> None) (needed (ev_kind e))"

definition apply_set :: "bead_event \<Rightarrow> builder \<Rightarrow> bl_error + builder" where
  "apply_set e b =
     and_then (item ''field'' (ev_data e))
       (\<lambda>field. and_then (item ''value'' (ev_data e))
       (\<lambda>v. if field = JStr ''type'' then Inr (b\<lparr>b_type := v\<rparr>)
            else and_then (text_of field) (\<lambda>name. Inr (b\<lparr>b_fields := dict_put name v (b_fields b)\<rparr>))))"

definition comment_of :: "bead_event \<Rightarrow> comment" where
  "comment_of e =
     \<lparr>cm_id = ev_id e, cm_actor = actor e, cm_body = jget ''body'' (ev_data e),
      cm_occurred_at = occurred_at e, cm_recorded_at = recorded_at e\<rparr>"

definition apply_event :: "bead_event \<Rightarrow> builder \<Rightarrow> bl_error + builder" where
  "apply_event e b =
     (if withheld_change e then Inr b
      else (case ev_kind e of
         Create \<Rightarrow>
           and_then (fields_of (jget ''fields'' (ev_data e)))
             (\<lambda>fields. Inr (b\<lparr>existence := Some True, b_type := jget ''type'' (ev_data e), b_phase := JStr ''open'',
                              b_retired := JNull, b_fields := dict_update (b_fields b) fields\<rparr>))
       | Set \<Rightarrow> apply_set e b
       | Label_add \<Rightarrow>
           and_then (item ''label'' (ev_data e))
             (\<lambda>v. and_then (text_of v) (\<lambda>l. Inr (b\<lparr>b_labels := dict_put l True (b_labels b)\<rparr>)))
       | Label_remove \<Rightarrow>
           and_then (item ''label'' (ev_data e))
             (\<lambda>v. and_then (text_of v) (\<lambda>l. Inr (b\<lparr>b_labels := dict_put l False (b_labels b)\<rparr>)))
       | Edge_add \<Rightarrow>
           and_then (edge_from_json (JObj (ev_data e))) (\<lambda>x. Inr (b\<lparr>b_edges := dict_put x True (b_edges b)\<rparr>))
       | Edge_remove \<Rightarrow>
           and_then (edge_from_json (JObj (ev_data e))) (\<lambda>x. Inr (b\<lparr>b_edges := dict_put x False (b_edges b)\<rparr>))
       | Comment \<Rightarrow> Inr (b\<lparr>b_comments := b_comments b @ [comment_of e]\<rparr>)
       | Phase \<Rightarrow> and_then (item ''phase'' (ev_data e)) (\<lambda>v. Inr (b\<lparr>b_phase := v, b_retired := JNull\<rparr>))
       | Retire \<Rightarrow> Inr (b\<lparr>b_phase := JStr ''retired'', b_retired := JObj (ev_data e)\<rparr>)
       | Delete \<Rightarrow> Inr (b\<lparr>existence := Some False\<rparr>)
       | Tombstone \<Rightarrow> Inr b
       | Checkpoint \<Rightarrow> Inr b))"

definition edge_sort_key :: "edge \<Rightarrow> string" where
  "edge_sort_key e = jv_text (edge_to_json e)"

definition build :: "builder \<Rightarrow> bead_state" where
  "build b =
     \<lparr>st_bead = b_bead b, st_exists = (existence b = Some True), st_deleted = (existence b = Some False),
      st_erased = False, st_type = b_type b, st_phase = b_phase b,
      st_fields = filter (\<lambda>m. snd m \<noteq> JNull) (b_fields b),
      st_labels = map fst (filter snd (b_labels b)),
      st_edges = sort_key edge_sort_key (map fst (filter snd (b_edges b))),
      st_retired = b_retired b, st_comments = b_comments b\<rparr>"

section \<open>The fold\<close>

definition time_json :: "jv \<Rightarrow> bl_error + string option" where
  "time_json v = (case v of JNull \<Rightarrow> Inr None | JStr s \<Rightarrow> Inr (Some s) | _ \<Rightarrow> Inl TimestampError)"

definition checkpoint_key :: "bead_event \<Rightarrow> bl_error + order_key" where
  "checkpoint_key checkpoint =
     and_then (item ''covers_through'' (ev_data checkpoint))
       (\<lambda>v. case v of
          JObj covers \<Rightarrow>
            and_then (item ''occurred_at'' covers)
              (\<lambda>o'. and_then (item ''recorded_at'' covers)
              (\<lambda>r. and_then (item ''id'' covers)
              (\<lambda>i. and_then (time_json o')
              (\<lambda>o'. and_then (time_json r)
              (\<lambda>r. and_then (text_of i) (order_key o' r))))))
        | _ \<Rightarrow> Inl TypeError)"

datatype cut = Now | At_time string | At_key order_key

definition within_cut :: "cut \<Rightarrow> bl_error + (order_key \<Rightarrow> bool)" where
  "within_cut c =
     (case c of
        Now \<Rightarrow> Inr (\<lambda>key. True)
      | At_key k \<Rightarrow> Inr (\<lambda>key. key \<le> k)
      | At_time s \<Rightarrow> and_then (instant_of (Some s)) (\<lambda>i. Inr (\<lambda>key. k1 key \<le> i)))"

fun apply_inside :: "(order_key \<Rightarrow> bool) \<Rightarrow> bead_event list \<Rightarrow> builder \<times> bool \<Rightarrow> bl_error + builder \<times> bool" where
  "apply_inside inside [] s = Inr s"
| "apply_inside inside (e # es) (b, touched) =
     and_then (ordering_key e)
       (\<lambda>key. if \<not> inside key then Inr (b, touched)
              else and_then (apply_event e b) (\<lambda>b'. apply_inside inside es (b', True)))"

fun latest :: "(order_key \<times> bead_event) \<Rightarrow> (order_key \<times> bead_event) list \<Rightarrow> order_key \<times> bead_event" where
  "latest m [] = m"
| "latest m (x # xs) = latest (if fst m < fst x then x else m) xs"

definition can_seed :: "bead_event list \<Rightarrow> bead_event \<Rightarrow> bl_error + bool" where
  "can_seed changes checkpoint =
     (case changes of
        [] \<Rightarrow> Inr True
      | first # _ \<Rightarrow> and_then (ordering_key first) (\<lambda>k. and_then (checkpoint_key checkpoint) (\<lambda>c. Inr (c < k))))"

definition seed_bead :: "(order_key \<Rightarrow> bool) \<Rightarrow> bead_event list \<Rightarrow> builder \<Rightarrow> bl_error + builder \<times> bool" where
  "seed_bead inside seeds b =
     (case seeds of
        [] \<Rightarrow> Inr (b, False)
      | _ \<Rightarrow>
          and_then (traverse checkpoint_key seeds)
            (\<lambda>keys.
               let chosen = latest (hd keys, hd seeds) (tl (zip keys seeds))
               in if inside (fst chosen) then and_then (seed (snd chosen) b) (\<lambda>b'. Inr (b', True)) else Inr (b, False)))"

definition fold_bead :: "(order_key \<Rightarrow> bool) \<Rightarrow> bead_ref \<Rightarrow> bead_event list \<Rightarrow> bl_error + bead_state option" where
  "fold_bead inside bead events =
     and_then (sorted_by ordering_key events)
       (\<lambda>history.
          let changes = filter (\<lambda>e. ev_kind e \<noteq> Checkpoint) history;
              checkpoints = filter (\<lambda>e. ev_kind e = Checkpoint) history
          in and_then (filter_result (can_seed changes) checkpoints)
            (\<lambda>seeds. and_then (seed_bead inside seeds (new_builder bead))
            (\<lambda>start. and_then (apply_inside inside changes start)
            (\<lambda>(b, touched). Inr (if touched then Some (build b) else None)))))"

definition recorded_by :: "string option \<Rightarrow> bead_event list \<Rightarrow> bl_error + bead_event list" where
  "recorded_by as_of es =
     (case as_of of
        None \<Rightarrow> Inr es
      | Some r \<Rightarrow>
          and_then (instant_of (Some r))
            (\<lambda>horizon. filter_result
               (\<lambda>e. if recorded_at e = None then Inr False
                    else and_then (instant_of (recorded_at e)) (\<lambda>i. Inr (i \<le> horizon))) es))"

definition fold_beads ::
  "(order_key \<Rightarrow> bool) \<Rightarrow> bead_ref set \<Rightarrow> bead_event list \<Rightarrow> bead_ref \<Rightarrow> (bead_ref, bead_state) dict \<Rightarrow>
   bl_error + (bead_ref, bead_state) dict" where
  "fold_beads inside erased es bead states =
     (if bead \<in> erased then Inr (dict_put bead ((new_state bead)\<lparr>st_erased := True\<rparr>) states)
      else and_then (fold_bead inside bead (filter (\<lambda>e. ev_bead e = bead) es))
        (\<lambda>s. Inr (case s of None \<Rightarrow> states | Some st \<Rightarrow> dict_put bead st states)))"

definition fold_log ::
  "bead_event list \<Rightarrow> cut \<Rightarrow> string option \<Rightarrow> bl_error + (bead_ref, bead_state) dict" where
  "fold_log events c as_of =
     and_then (union_merge [events])
       (\<lambda>merged. and_then (erasure merged)
       (\<lambda>(_, erased). and_then (recorded_by as_of merged)
       (\<lambda>kept. and_then (within_cut c)
       (\<lambda>inside. fold_result (fold_beads inside (set erased) kept) (sort (remdups (map ev_bead kept @ erased))) []))))"

end
