(* ===== verification/Bl_Fold_Laws.thy ===== *)
theory Bl_Fold_Laws
  imports Bl_Fold
begin

text \<open>
  Laws of the fold. \<open>apply_inside_filter\<close>: stopping at the first event outside the cut is filtering
  by the cut, because cuts are downward closed in the order of keys. \<open>sim\<close> relates the builder of a
  whole history to the builder seeded from its checkpoint: the two agree on everything a state
  shows, except the comments before the checkpoint, and every event keeps them related.
\<close>

section \<open>Cuts\<close>

definition down_closed :: "(order_key \<Rightarrow> bool) \<Rightarrow> bool" where
  "down_closed inside \<longleftrightarrow> (\<forall>k l. k \<le> l \<longrightarrow> inside l \<longrightarrow> inside k)"

lemma within_cut_down: "within_cut c = Inr inside \<Longrightarrow> down_closed inside"
proof (cases c)
  case (At_time s)
  assume "within_cut c = Inr inside"
  with At_time obtain i where "inside = (\<lambda>key. k1 key \<le> i)" by (auto simp: within_cut_def and_then_eq_Inr)
  moreover have "k1 a \<le> k1 b" if "a \<le> b" for a b :: order_key
    using that by (auto simp: less_eq_order_key_def)
  ultimately show ?thesis using order_trans by (fastforce simp: down_closed_def)
qed (auto simp: within_cut_def down_closed_def)

lemma apply_inside_filter:
  assumes "down_closed inside" "sorted (map the_key es)" "\<And>e. e \<in> set es \<Longrightarrow> times_ok e"
  shows "apply_inside inside es (b, touched) =
    and_then (fold_result apply_event (filter (\<lambda>e. inside (the_key e)) es) b)
      (\<lambda>b'. Inr (b', touched \<or> filter (\<lambda>e. inside (the_key e)) es \<noteq> []))"
  using assms(2,3)
proof (induction es arbitrary: b touched)
  case (Cons e es)
  show ?case
  proof (cases "inside (the_key e)")
    case True
    with Cons show ?thesis by (cases "apply_event e b") (simp_all add: ordering_key_ok)
  next
    case False
    then have "\<not> inside (the_key x)" if "x \<in> set es" for x
      using that assms(1) Cons.prems(1) by (auto simp: down_closed_def)
    with False Cons.prems(2) [of e] show ?thesis by (simp add: ordering_key_ok filter_empty_conv)
  qed
qed simp

section \<open>Well-formed builders\<close>

definition edges_ok :: "(edge, bool) dict \<Rightarrow> bool" where
  "edges_ok d \<longleftrightarrow> (\<forall>m \<in> set d. bead_ok (edge_target (fst m)))"

definition builder_ok :: "builder \<Rightarrow> bool" where
  "builder_ok b \<longleftrightarrow>
     dict_ok (b_fields b) \<and> dict_ok (b_labels b) \<and> dict_ok (b_edges b) \<and>
     edges_ok (b_edges b)"

lemma dict_update_ok [simp]: "dict_ok d \<Longrightarrow> dict_ok (dict_update d ms)"
  by (induction ms arbitrary: d) (auto simp: dict_update_def)

lemma map_of_dict_update: "map_of (dict_update d ms) = map_of d ++ map_of (rev ms)"
  by (induction ms rule: rev_induct) (auto simp: dict_update_def fun_eq_iff map_add_def)

lemma edge_from_json_ok: "edge_from_json v = Inr x \<Longrightarrow> bead_ok (edge_target x)"
  by (auto simp: edge_from_json_def bead_ref_from_json_def bead_ok_def and_then_eq_Inr split: jv.splits if_splits)

lemma edges_ok_put: "bead_ok (edge_target x) \<Longrightarrow> edges_ok d \<Longrightarrow> edges_ok (dict_put x t d)"
  by (auto simp: edges_ok_def set_dict_put)

lemma new_builder_ok: "builder_ok (new_builder r)"
  by (simp add: builder_ok_def new_builder_def edges_ok_def)

lemma apply_event_ok: "builder_ok b \<Longrightarrow> apply_event e b = Inr c \<Longrightarrow> builder_ok c \<and> b_bead c = b_bead b"
  by (auto simp: apply_event_def apply_set_def builder_ok_def and_then_eq_Inr
      intro!: edges_ok_put intro: edge_from_json_ok split: if_splits event_kind.splits)

lemma apply_events_ok: "builder_ok b \<Longrightarrow> fold_result apply_event es b = Inr c \<Longrightarrow> builder_ok c \<and> b_bead c = b_bead b"
  by (induction es arbitrary: b) (auto simp: and_then_eq_Inr dest: apply_event_ok)

section \<open>What a state shows of a builder\<close>

definition shown :: "jv option \<Rightarrow> jv option" where
  "shown v = (if v = Some JNull then None else v)"

definition sim :: "comment list \<Rightarrow> builder \<Rightarrow> builder \<Rightarrow> bool" where
  "sim cs b b' \<longleftrightarrow>
     builder_ok b \<and> builder_ok b' \<and> b_bead b = b_bead b' \<and> existence b = existence b' \<and>
     b_type b = b_type b' \<and> b_phase b = b_phase b' \<and> b_retired b = b_retired b' \<and>
     (\<forall>k. shown (map_of (b_fields b) k) = shown (map_of (b_fields b') k)) \<and>
     (\<forall>l. map_of (b_labels b) l = Some True \<longleftrightarrow> map_of (b_labels b') l = Some True) \<and>
     (\<forall>x. map_of (b_edges b) x = Some True \<longleftrightarrow> map_of (b_edges b') x = Some True) \<and>
     b_comments b = cs @ b_comments b'"

definition sim_results :: "comment list \<Rightarrow> bl_error + builder \<Rightarrow> bl_error + builder \<Rightarrow> bool" where
  "sim_results cs r r' \<longleftrightarrow> (\<exists>x. r = Inl x \<and> r' = Inl x) \<or> (\<exists>c c'. r = Inr c \<and> r' = Inr c' \<and> sim cs c c')"

lemma sim_results_Inr [simp]: "sim_results cs (Inr c) (Inr c') \<longleftrightarrow> sim cs c c'"
  by (auto simp: sim_results_def)

lemma sim_results_then:
  "(\<And>v. sim_results cs (k v) (k' v)) \<Longrightarrow> sim_results cs (and_then r k) (and_then r k')"
  by (cases r) (auto simp: sim_results_def)

lemma sim_fields:
  assumes "sim cs b b'"
  shows "sim cs (b\<lparr>b_fields := dict_update (b_fields b) ms\<rparr>) (b'\<lparr>b_fields := dict_update (b_fields b') ms\<rparr>)"
proof -
  have "shown (map_of (dict_update (b_fields b) ms) k) = shown (map_of (dict_update (b_fields b') ms) k)" for k
    using assms by (cases "map_of (rev ms) k") (simp_all add: sim_def map_of_dict_update map_add_def)
  with assms show ?thesis by (simp add: sim_def builder_ok_def)
qed

lemma sim_put:
  assumes "sim cs b b'"
  shows "sim cs (b\<lparr>b_fields := dict_put k v (b_fields b)\<rparr>) (b'\<lparr>b_fields := dict_put k v (b_fields b')\<rparr>)"
    "sim cs (b\<lparr>b_labels := dict_put l t (b_labels b)\<rparr>) (b'\<lparr>b_labels := dict_put l t (b_labels b')\<rparr>)"
    "bead_ok (edge_target x) \<Longrightarrow> sim cs (b\<lparr>b_edges := dict_put x t (b_edges b)\<rparr>) (b'\<lparr>b_edges := dict_put x t (b_edges b')\<rparr>)"
  using assms by (simp_all add: sim_def builder_ok_def edges_ok_put)

lemma sim_facets:
  assumes "sim cs b b'"
  shows "sim cs (b\<lparr>existence := x\<rparr>) (b'\<lparr>existence := x\<rparr>)" "sim cs (b\<lparr>b_type := t\<rparr>) (b'\<lparr>b_type := t\<rparr>)"
    "sim cs (b\<lparr>b_phase := p, b_retired := q\<rparr>) (b'\<lparr>b_phase := p, b_retired := q\<rparr>)"
    "sim cs (b\<lparr>b_comments := b_comments b @ ds\<rparr>) (b'\<lparr>b_comments := b_comments b' @ ds\<rparr>)"
    "sim cs (b\<lparr>existence := x, b_type := t, b_phase := p, b_retired := q\<rparr>) (b'\<lparr>existence := x, b_type := t, b_phase := p, b_retired := q\<rparr>)"
  using assms by (simp_all add: sim_def builder_ok_def)

lemma sim_edge:
  assumes "sim cs b b'"
  shows "sim_results cs (and_then (edge_from_json v) (\<lambda>x. Inr (b\<lparr>b_edges := dict_put x t (b_edges b)\<rparr>)))
    (and_then (edge_from_json v) (\<lambda>x. Inr (b'\<lparr>b_edges := dict_put x t (b_edges b')\<rparr>)))"
  using sim_put(3) [OF assms edge_from_json_ok] by (cases "edge_from_json v") (auto simp: sim_results_def)

lemma sim_create:
  assumes "sim cs b b'"
  shows "sim cs (b\<lparr>existence := x, b_type := t, b_phase := p, b_retired := q, b_fields := dict_update (b_fields b) ms\<rparr>)
    (b'\<lparr>existence := x, b_type := t, b_phase := p, b_retired := q, b_fields := dict_update (b_fields b') ms\<rparr>)"
  using sim_fields [OF sim_facets(5) [OF assms]] by simp

lemma sim_apply: "sim cs b b' \<Longrightarrow> sim_results cs (apply_event e b) (apply_event e b')"
  unfolding apply_event_def apply_set_def
  by (cases "ev_kind e")
    (auto intro!: sim_results_then sim_edge simp: sim_put sim_facets sim_create)

lemma sim_events: "sim cs b b' \<Longrightarrow> sim_results cs (fold_result apply_event es b) (fold_result apply_event es b')"
proof (induction es arbitrary: b b')
  case (Cons e es)
  from sim_apply [OF Cons.prems, of e] show ?case
  proof (cases "apply_event e b")
    case (Inl x)
    with sim_apply [OF Cons.prems, of e] show ?thesis by (auto simp: sim_results_def)
  next
    case (Inr c)
    with sim_apply [OF Cons.prems, of e] obtain c' where "apply_event e b' = Inr c'" "sim cs c c'"
      by (auto simp: sim_results_def)
    with Inr Cons.IH show ?thesis by simp
  qed
qed simp

lemma map_of_shown: "distinct (map fst d) \<Longrightarrow> map_of (filter (\<lambda>m. snd m \<noteq> JNull) d) k = shown (map_of d k)"
  by (induction d) (auto simp: shown_def map_of_eq_None_iff image_iff)

lemma dict_ok_filter: "dict_ok d \<Longrightarrow> dict_ok (filter P d)"
  by (auto simp: dict_ok_def sorted_filter distinct_map_filter)

lemma present_keys: "dict_ok d \<Longrightarrow> set (map fst (filter snd d)) = {k. map_of d k = Some True}"
  by (force simp: dict_ok_def)

lemma present_same:
  assumes "dict_ok d" "dict_ok e" "\<And>k. map_of d k = Some True \<longleftrightarrow> map_of e k = Some True"
  shows "map fst (filter snd d) = map fst (filter snd e)"
proof (rule sorted_distinct_set_unique)
  show "set (map fst (filter snd d)) = set (map fst (filter snd e))"
    using assms(3) by (simp only: present_keys [OF assms(1)] present_keys [OF assms(2)])
qed (use assms(1,2) dict_ok_filter [of d snd] dict_ok_filter [of e snd] in \<open>simp_all add: dict_ok_def\<close>)

lemma sim_build:
  assumes "sim cs b b'"
  shows "build b = (build b')\<lparr>st_comments := cs @ st_comments (build b')\<rparr>"
proof -
  have ok: "dict_ok (b_fields b)" "dict_ok (b_fields b')" "dict_ok (b_labels b)" "dict_ok (b_labels b')"
      "dict_ok (b_edges b)" "dict_ok (b_edges b')"
    using assms by (auto simp: sim_def builder_ok_def)
  have "filter (\<lambda>m. snd m \<noteq> JNull) (b_fields b) = filter (\<lambda>m. snd m \<noteq> JNull) (b_fields b')"
    using ok(1,2) assms by (intro dict_ext dict_ok_filter) (simp_all add: map_of_shown dict_ok_def sim_def)
  moreover have "map fst (filter snd (b_labels b)) = map fst (filter snd (b_labels b'))"
    using ok(3,4) by (rule present_same) (use assms in \<open>simp add: sim_def\<close>)
  moreover have "map fst (filter snd (b_edges b)) = map fst (filter snd (b_edges b'))"
    using ok(5,6) by (rule present_same) (use assms in \<open>simp add: sim_def\<close>)
  ultimately show ?thesis using assms by (simp add: build_def sim_def)
qed

section \<open>Seeding from a checkpoint\<close>

lemma map_of_members: "map_of (map (\<lambda>x. (x, True)) xs) k = (if k \<in> set xs then Some True else None)"
  by (induction xs) auto

lemma dict_update_members:
  "map_of (dict_update [] (map (\<lambda>x. (x, True)) xs)) k = Some True \<longleftrightarrow> k \<in> set xs"
  by (simp add: map_of_dict_update rev_map map_of_members)

lemma edges_ok_update:
  "(\<And>x. x \<in> set xs \<Longrightarrow> bead_ok (edge_target x)) \<Longrightarrow> edges_ok (dict_update [] (map (\<lambda>x. (x, True)) xs))"
  by (induction xs rule: rev_induct) (auto simp: dict_update_def edges_ok_put, simp add: edges_ok_def)

lemma checkpoint_members:
  assumes "to_checkpoint_state s = Inr st"
  shows "jget ''type'' st = st_type s" "jget ''phase'' st = st_phase s" "jget ''fields'' st = JObj (st_fields s)"
    "jget ''labels'' st = JArr (map JStr (st_labels s))" "jget ''edges'' st = JArr (map edge_to_json (st_edges s))"
    "jget ''deleted'' st = JBool (st_deleted s)" "jget ''retired'' st = st_retired s"
  using assms by (auto simp: to_checkpoint_state_def jget_def map_of_dict_of map_add_def split: if_splits)

lemma items_or_empty: "(if truthy (JArr vs) then items_of (JArr vs) else Inr []) = Inr vs"
  by simp

lemma sim_seed:
  assumes "builder_ok b" "existence b \<noteq> None" "to_checkpoint_state (build b) = Inr st"
    "map_of (ev_data ck) ''state'' = Some (JObj st)"
  obtains b' where "seed ck (new_builder (b_bead b)) = Inr b'" "sim (b_comments b) b b'"
proof -
  note M = checkpoint_members [OF assms(3)]
  let ?fs = "filter (\<lambda>m. snd m \<noteq> JNull) (b_fields b)" and ?ls = "map fst (filter snd (b_labels b))"
  let ?es = "sort_key edge_sort_key (map fst (filter snd (b_edges b)))"
  let ?b' = "(new_builder (b_bead b))\<lparr>existence := Some (\<not> (existence b = Some False)), b_type := b_type b,
    b_phase := b_phase b, b_retired := b_retired b, b_fields := dict_update [] ?fs,
    b_labels := dict_update [] (map (\<lambda>l. (l, True)) ?ls), b_edges := dict_update [] (map (\<lambda>e. (e, True)) ?es)\<rparr>"
  have ok: "dict_ok (b_fields b)" "dict_ok (b_labels b)" "dict_ok (b_edges b)" "edges_ok (b_edges b)"
    using assms(1) by (auto simp: builder_ok_def)
  have edges: "bead_ok (edge_target x)" if "x \<in> set ?es" for x
    using that ok(4) by (auto simp: edges_ok_def)
  have fields: "fields_of (JObj ?fs) = Inr ?fs" by (simp add: fields_of_def)
  have labels: "traverse text_of (map JStr ?ls) = Inr ?ls" by (rule traverse_map_id) (simp add: text_of_def)
  have edge_list: "traverse edge_from_json (map edge_to_json ?es) = Inr ?es"
    by (rule traverse_map_id) (rule edge_roundtrip, rule edges)
  have run: "seed ck (new_builder (b_bead b)) = Inr ?b'"
    unfolding seed_def item_def assms(4) using M fields labels edge_list
    by (simp add: build_def items_or_empty del: truthy.simps items_of.simps) (simp add: new_builder_def)
  have "map_of (dict_update [] ?fs) k = map_of ?fs k" for k
    using dict_ok_filter [OF ok(1), of "\<lambda>m. snd m \<noteq> JNull"] map_of_dict_of_distinct [of ?fs]
    by (simp add: dict_ok_def dict_update_def dict_of_def)
  then have "shown (map_of (dict_update [] ?fs) k) = shown (map_of (b_fields b) k)" for k
    using ok(1) by (simp add: map_of_shown dict_ok_def) (simp add: shown_def)
  moreover have "map_of (dict_update [] (map (\<lambda>l. (l, True)) ?ls)) l = Some True \<longleftrightarrow> map_of (b_labels b) l = Some True" for l
    using present_keys [OF ok(2)] dict_update_members [of ?ls l] by (simp del: map_map)
  moreover have "map_of (dict_update [] (map (\<lambda>e. (e, True)) ?es)) x = Some True \<longleftrightarrow> map_of (b_edges b) x = Some True" for x
    using present_keys [OF ok(3)] dict_update_members [of ?es x] by (simp del: map_map)
  moreover have "edges_ok (dict_update [] (map (\<lambda>e. (e, True)) ?es))" using edges by (rule edges_ok_update)
  ultimately have "sim (b_comments b) b ?b'"
    using assms(1,2) by (auto simp: sim_def builder_ok_def new_builder_def)
  with run that show ?thesis by blast
qed

section \<open>The last writer of a label\<close>

definition labels_event :: "bead_event \<Rightarrow> string \<Rightarrow> bool option" where
  "labels_event e l =
     (if \<not> withheld_change e \<and> map_of (ev_data e) ''label'' = Some (JStr l)
      then (case ev_kind e of Label_add \<Rightarrow> Some True | Label_remove \<Rightarrow> Some False | _ \<Rightarrow> None)
      else None)"

lemma apply_label:
  "apply_event e b = Inr c \<Longrightarrow>
     map_of (b_labels c) l = (case labels_event e l of None \<Rightarrow> map_of (b_labels b) l | Some t \<Rightarrow> Some t)"
  by (auto simp: apply_event_def apply_set_def labels_event_def and_then_eq_Inr item_def text_of_def
      split: if_splits event_kind.splits option.splits jv.splits)

lemma fold_label:
  "fold_result apply_event es b = Inr c \<Longrightarrow>
     map_of (b_labels c) l =
       (let ts = filter (\<lambda>e. labels_event e l \<noteq> None) es
        in if ts = [] then map_of (b_labels b) l else labels_event (last ts) l)"
proof (induction es arbitrary: c rule: rev_induct)
  case (snoc e es)
  from snoc.prems obtain d where "fold_result apply_event es b = Inr d" "apply_event e d = Inr c"
    by (auto simp: fold_result_append and_then_eq_Inr)
  with snoc.IH apply_label [of e d c l] show ?case by (cases "labels_event e l") auto
qed simp

lemma state_label:
  assumes "builder_ok b"
  shows "l \<in> set (st_labels (build b)) \<longleftrightarrow> map_of (b_labels b) l = Some True"
  using assms present_keys [of "b_labels b"] by (auto simp: build_def builder_ok_def simp del: set_map)

end
