(* ===== verification/Bl_Diff.thy ===== *)
theory Bl_Diff
  imports Bl_Fold_Laws
begin

text \<open>
  The difference of two logs (\<^verbatim>\<open>packages/beadlog/src/beadlog/_diff.py\<close>): the events the baseline
  lacks, and per bead what merging them changes. A set that is sorted before use is the list of its
  distinct elements.
\<close>

definition edge_facet :: "edge \<Rightarrow> string" where
  "edge_facet e = ''edge:'' @ edge_type e @ '':'' @ ref_group (edge_target e) @ ''/'' @ ref_id (edge_target e)"

text \<open>The elements in one of two lists but not in both: \<^verbatim>\<open>set(a) ^ set(b)\<close>.\<close>

definition sym_diff :: "'a list \<Rightarrow> 'a list \<Rightarrow> 'a list" where
  "sym_diff xs ys = filter (\<lambda>x. x \<notin> set ys) xs @ filter (\<lambda>y. y \<notin> set xs) ys"

definition scalar_facets :: "bead_state \<Rightarrow> bead_state \<Rightarrow> string list" where
  "scalar_facets old new =
     (if st_exists old \<noteq> st_exists new then [''exists''] else []) @
     (if st_deleted old \<noteq> st_deleted new then [''deleted''] else []) @
     (if st_erased old \<noteq> st_erased new then [''erased''] else []) @
     (if st_type old \<noteq> st_type new then [''type''] else []) @
     (if st_phase old \<noteq> st_phase new then [''phase''] else []) @
     (if st_retired old \<noteq> st_retired new then [''retired''] else [])"

definition field_facets :: "bead_state \<Rightarrow> bead_state \<Rightarrow> string list" where
  "field_facets old new =
     map (\<lambda>name. ''fields.'' @ name)
       (filter (\<lambda>name. jget name (st_fields old) \<noteq> jget name (st_fields new))
          (map fst (st_fields old) @ map fst (st_fields new)))"

definition changed_between :: "bead_state \<Rightarrow> bead_state \<Rightarrow> string list" where
  "changed_between old new =
     sort (remdups
       (scalar_facets old new @ field_facets old new @
        map (\<lambda>l. ''label:'' @ l) (sym_diff (st_labels old) (st_labels new)) @
        map edge_facet (sym_diff (st_edges old) (st_edges new)) @
        map (\<lambda>c. ''comment:'' @ cm_id c) (sym_diff (st_comments old) (st_comments new))))"

definition changed_facets :: "bead_state option \<Rightarrow> bead_state option \<Rightarrow> string list" where
  "changed_facets before after =
     (case (before, after) of
        (None, None) \<Rightarrow> []
      | (Some old, None) \<Rightarrow> changed_between old (new_state (st_bead old))
      | (None, Some new) \<Rightarrow> changed_between (new_state (st_bead new)) new
      | (Some old, Some new) \<Rightarrow> changed_between old new)"

record bead_delta =
  dl_bead :: bead_ref
  dl_events :: "bead_event list"
  dl_baseline :: "bead_state option"
  dl_proposed :: "bead_state option"
  dl_merged :: "bead_state option"
  dl_changed :: "string list"

record log_diff =
  df_missing :: "bead_event list"
  df_deltas :: "bead_delta list"

definition diff_empty :: "log_diff \<Rightarrow> bool" where
  "diff_empty d \<longleftrightarrow> df_missing d = [] \<and> df_deltas d = []"

definition missing_events :: "bead_event list \<Rightarrow> bead_event list \<Rightarrow> bead_event list \<Rightarrow> bl_error + bead_event list" where
  "missing_events proposed baseline merged =
     (let known = set (map ev_id baseline);
          surviving = map (\<lambda>e. (ev_id e, e)) (rev merged)
      in sort_events
           (List.map_filter (map_of surviving) (filter (\<lambda>i. i \<notin> known) (remdups (map ev_id proposed)))))"

definition deltas ::
  "bead_event list \<Rightarrow> (bead_ref, bead_state) dict \<Rightarrow> (bead_ref, bead_state) dict \<Rightarrow> (bead_ref, bead_state) dict \<Rightarrow> bead_delta list" where
  "deltas missing before offered after =
     (let touched = (\<lambda>bead. filter (\<lambda>e. ev_bead e = bead) missing);
          beads = sort (remdups (map fst before @ map fst after @ map ev_bead missing))
      in map (\<lambda>bead. \<lparr>dl_bead = bead, dl_events = touched bead, dl_baseline = map_of before bead,
                       dl_proposed = map_of offered bead, dl_merged = map_of after bead,
                       dl_changed = changed_facets (map_of before bead) (map_of after bead)\<rparr>)
           (filter (\<lambda>bead. changed_facets (map_of before bead) (map_of after bead) \<noteq> [] \<or> touched bead \<noteq> []) beads))"

definition diff :: "bead_event list \<Rightarrow> bead_event list \<Rightarrow> cut \<Rightarrow> bl_error + log_diff" where
  "diff proposed baseline c =
     and_then (union_merge [baseline, proposed])
       (\<lambda>merged. and_then (missing_events proposed baseline merged)
       (\<lambda>missing. and_then (fold_log baseline c None)
       (\<lambda>before. and_then (fold_log proposed c None)
       (\<lambda>offered. and_then (fold_log merged c None)
       (\<lambda>after. Inr \<lparr>df_missing = missing, df_deltas = deltas missing before offered after\<rparr>)))))"

section \<open>Laws\<close>

lemma changed_same [simp]: "changed_facets s s = []"
  by (cases s) (simp_all add: changed_facets_def changed_between_def scalar_facets_def field_facets_def sym_diff_def)

text \<open>Facets name what differs: no facet changed means the states show the same.\<close>

lemma sym_diff_empty: "sym_diff xs ys = [] \<longleftrightarrow> set xs = set ys"
  by (auto simp: sym_diff_def filter_empty_conv)

lemma sort_eq_Nil [simp]: "sort xs = [] \<longleftrightarrow> xs = []"
  by (metis set_empty set_sort)

lemma changed_none:
  assumes "changed_between old new = []"
  shows "st_exists old = st_exists new \<and> st_deleted old = st_deleted new \<and> st_erased old = st_erased new \<and>
    st_type old = st_type new \<and> st_phase old = st_phase new \<and> st_retired old = st_retired new \<and>
    (\<forall>k. jget k (st_fields old) = jget k (st_fields new)) \<and> set (st_labels old) = set (st_labels new) \<and>
    set (st_edges old) = set (st_edges new) \<and> set (st_comments old) = set (st_comments new)"
proof -
  from assms have parts: "scalar_facets old new = []" "field_facets old new = []"
      "sym_diff (st_labels old) (st_labels new) = []" "sym_diff (st_edges old) (st_edges new) = []"
      "sym_diff (st_comments old) (st_comments new) = []"
    by (auto simp: changed_between_def)
  have "jget k (st_fields old) = jget k (st_fields new)" for k
  proof (cases "k \<in> set (map fst (st_fields old) @ map fst (st_fields new))")
    case True
    with parts(2) show ?thesis by (simp only: field_facets_def map_is_Nil_conv filter_empty_conv) blast
  next
    case False
    then have "map_of (st_fields old) k = None" "map_of (st_fields new) k = None"
      by (auto simp: map_of_eq_None_iff)
    then show ?thesis by (simp add: jget_def)
  qed
  with parts show ?thesis by (auto simp: sym_diff_empty scalar_facets_def split: if_splits)
qed

end
