(* ===== verification/Bl_Properties.thy ===== *)
theory Bl_Properties
  imports Bl_Diff
begin

text \<open>
  The properties of the bead log: canonical text, event round trip and ids, the union merge as a
  join of copies, tombstones, the fold and the diff. The witnesses use the sample events below.
\<close>

section \<open>Sample events\<close>

definition sample_event :: "char \<Rightarrow> event_kind \<Rightarrow> (string, jv) dict \<Rightarrow> bead_event" where
  "sample_event c kind data =
     \<lparr>ev_id = ''sha256:'' @ replicate 64 c, ev_kind = kind, ev_bead = BeadRef ''g'' ''b-1'',
      occurred_at = Some ''2026-08-08T14:30:00Z'', recorded_at = None, extracted_at = ''2026-08-09T00:00:00Z'',
      ev_source = \<lparr>src_system = ''bd'', src_ref = ''bd:events/1'', src_evidence = []\<rparr>,
      ev_provenance = Observed, ev_data = data, occurred_precision = None, confidence = None, actor = None,
      lamport = None, ev_prev = None, redacted = None, annotations = None\<rparr>"

definition sample_create :: bead_event where
  "sample_create = sample_event (CHR ''a'') Create [(''fields'', JObj [(''title'', JStr ''t'')]), (''type'', JStr ''task'')]"

definition sample_label :: bead_event where
  "sample_label = sample_event (CHR ''b'') Label_add [(''label'', JStr ''red'')]"

definition sample_later :: bead_event where
  "sample_later = sample_label\<lparr>extracted_at := ''2026-08-10T00:00:00.5Z'', annotations := Some (JObj [(''k'', JInt 1)])\<rparr>"

definition sample_tombstone :: bead_event where
  "sample_tombstone =
     sample_event (CHR ''c'') Tombstone
       [(''events'', JArr [JStr (ev_id sample_label)]), (''reason'', JStr ''secret''), (''scope'', JStr ''events'')]"

lemmas sample_defs = sample_create_def sample_label_def sample_later_def sample_tombstone_def

lemma samples_ok: "event_ok sample_create" "event_ok sample_label" "event_ok sample_later" "event_ok sample_tombstone"
  by code_simp+

lemma samples_consistent: "consistent [sample_create, sample_label, sample_later, sample_tombstone]"
  by code_simp

section \<open>Text, events and ids\<close>

text \<open>C33: Two JSON values have the same canonical text exactly when they are equal up to the order of the members
  of their objects; so comparing canonical bytes, as event ids and merges do, compares values.\<close>

theorem canonical_json_inject:
  assumes "jv_dict v" "jv_dict w" "canonical_json v = Some s"
  shows "canonical_json w = Some s \<longleftrightarrow> jv_norm v = jv_norm w"
proof
  show "jv_norm v = jv_norm w" if "canonical_json w = Some s"
    using that assms by (intro canonical_json_unique [of _ _ s]) (simp_all add: jv_ok_norm canonical_norm)
  show "canonical_json w = Some s" if "jv_norm v = jv_norm w"
    using that assms(3) canonical_norm [of v] canonical_norm [of w] by simp
qed

theorem canonical_json_inject_witness:
  "canonical_json (JObj [(''b'', JInt 1), (''a'', JArr [JNull, JStr [CHR 0x0A]])]) =
     canonical_json (JObj [(''a'', JArr [JNull, JStr [CHR 0x0A]]), (''b'', JInt 1)])"
  using canonical_json_inject [of "JObj [(''a'', JArr [JNull, JStr [CHR 0x0A]]), (''b'', JInt 1)]"
      "JObj [(''b'', JInt 1), (''a'', JArr [JNull, JStr [CHR 0x0A]])]"
      "the (canonical_json (JObj [(''a'', JArr [JNull, JStr [CHR 0x0A]]), (''b'', JInt 1)]))"]
  by code_simp

text \<open>C40: An event written as JSON reads back as the same event, every optional member included.\<close>

theorem event_json_roundtrip:
  assumes "event_wf e"
  shows "event_from_json (event_to_json e) = Inr e"
  using event_members_roundtrip [OF assms] by (simp add: event_from_json_def event_to_json_def)

theorem event_json_roundtrip_witness: "event_from_json (event_to_json sample_later) = Inr sample_later"
  using samples_ok(3) by (intro event_json_roundtrip) (simp add: event_ok_def)

text \<open>A minted event verifies: recomputing the id from the event that \<^verbatim>\<open>mint_event\<close> returned gives the id it carries,
  whatever the hash function.\<close>

theorem minted_id_verifies:
  assumes "mint_event sha a src es prev = Inr e"
  shows "event_id sha (event_members e) = Inr (ev_id e)"
proof -
  from assms obtain d i where d: "event_id sha (event_members d) = Inr i"
      "event_from_members (event_members (d\<lparr>ev_id := i\<rparr>)) = Inr e"
    by (auto simp: mint_event_def and_then_eq_Inr Let_def put_id)
  note S = from_members_same [OF d(2)]
  have "view_of e = view_of d" using same_identity_view [OF S(1)] by simp
  with d(1) S(2) show ?thesis by (simp add: event_id_event)
qed

definition sample_args :: event_args where
  "sample_args =
     \<lparr>arg_id = JNull, arg_kind = JStr ''comment'', arg_bead = BeadRef ''g'' ''b-1'', arg_occurred_at = None,
      arg_recorded_at = None, arg_extracted_at = JStr ''2026-08-09T00:00:00Z'',
      arg_source = \<lparr>src_system = [], src_ref = [], src_evidence = []\<rparr>, arg_provenance = JStr ''derived'',
      arg_data = JObj [(''body'', JStr ''hi'')], arg_precision = JNull, arg_confidence = None, arg_actor = None,
      arg_lamport = None, arg_prev = None, arg_redacted = None, arg_annotations = None\<rparr>"

theorem minted_id_verifies_witness:
  "\<exists>e. mint_event (\<lambda>t. replicate 64 (CHR ''a'')) sample_args (Inr (''bd'', ''r'')) [] (Some [''y'', ''x'', ''y'']) = Inr e \<and>
     ev_prev e = Some [JStr ''x'', JStr ''y''] \<and> event_id (\<lambda>t. replicate 64 (CHR ''a'')) (event_members e) = Inr (ev_id e)"
proof -
  have "case mint_event (\<lambda>t. replicate 64 (CHR ''a'')) sample_args (Inr (''bd'', ''r'')) [] (Some [''y'', ''x'', ''y'']) of
      Inl x \<Rightarrow> False | Inr e \<Rightarrow> ev_prev e = Some [JStr ''x'', JStr ''y'']"
    by code_simp
  with minted_id_verifies show ?thesis by (auto split: sum.splits)
qed

text \<open>The id of an event depends on its identity members only, and on all of them: two events hash to the same id
  exactly when they agree on every identity member, unless the hash collides on their two texts.\<close>

theorem event_id_identity:
  assumes "event_ok a" "event_ok b"
    and "sha (jv_text (JObj (view_of a))) = sha (jv_text (JObj (view_of b))) \<Longrightarrow>
         jv_text (JObj (view_of a)) = jv_text (JObj (view_of b))"
  shows "event_id sha (event_members a) = event_id sha (event_members b) \<longleftrightarrow> same_identity a b"
proof -
  note A = view_text_ok [OF assms(1)] and B = view_text_ok [OF assms(2)]
  have "event_id sha (event_members a) = Inr (''sha256:'' @ sha (jv_text (JObj (view_of a))))"
      "event_id sha (event_members b) = Inr (''sha256:'' @ sha (jv_text (JObj (view_of b))))"
    using text_ok_some [OF A] text_ok_some [OF B] by (simp_all add: event_id_event canonical_bytes_def del: canonical_json.simps)
  then show ?thesis using assms(3) jv_text_inject [OF A B] view_iff [of a b] by auto
qed

theorem event_id_identity_witness:
  "event_id (\<lambda>t. t) (event_members sample_label) = event_id (\<lambda>t. t) (event_members sample_later)"
  using event_id_identity [of sample_label sample_later "\<lambda>t. t"] samples_ok
  by (simp add: same_identity_def sample_later_def)

end
