(* ===== verification/Bl_Merge_Properties.thy ===== *)
theory Bl_Merge_Properties
  imports Bl_Properties
begin

text \<open>
  The properties of the merge, the fold and the diff.
\<close>

section \<open>The union merge\<close>










text \<open>An erased event hides a collision, so grouping decides whether a merge is refused: merging three logs at once
  raises, merging two of them first and then the third succeeds.\<close>

theorem grouping_hides_collision:
  "union_merge [[sample_tombstone], [sample_label], [sample_label\<lparr>actor := Some ''x''\<rparr>]] =
     Inl (IdCollisionError (ev_id sample_label)) \<and>
   (\<exists>r. union_merge [[sample_tombstone], [sample_label]] = Inr r \<and>
     union_merge [r, [sample_label\<lparr>actor := Some ''x''\<rparr>]] = Inr r)"
proof -
  have "case union_merge [[sample_tombstone], [sample_label]] of Inl x \<Rightarrow> False
      | Inr r \<Rightarrow> union_merge [r, [sample_label\<lparr>actor := Some ''x''\<rparr>]] = Inr r"
    by code_simp
  moreover have "union_merge [[sample_tombstone], [sample_label], [sample_label\<lparr>actor := Some ''x''\<rparr>]] =
      Inl (IdCollisionError (ev_id sample_label))"
    by code_simp
  ultimately show ?thesis by (auto split: sum.splits)
qed

end
