(* ===== verification/Bl_Fold_Properties.thy ===== *)
theory Bl_Fold_Properties
  imports Bl_Merge_Properties
begin

text \<open>
  The properties of the fold and the diff.
\<close>

section \<open>The fold\<close>




text \<open>Stopping the fold at the first event outside the cut is the same as folding exactly the events inside it, for
  each kind of cut: the loop's \<^verbatim>\<open>break\<close> never skips an event that the cut admits.\<close>

theorem cut_is_filter:
  assumes "within_cut c = Inr inside" "sorted (map the_key es)" "\<forall>e \<in> set es. times_ok e"
  shows "apply_inside inside es (b, touched) =
    and_then (fold_result apply_event (filter (\<lambda>e. inside (the_key e)) es) b)
      (\<lambda>b'. Inr (b', touched \<or> filter (\<lambda>e. inside (the_key e)) es \<noteq> []))"
  using apply_inside_filter [OF within_cut_down [OF assms(1)] assms(2)] assms(3) by blast

theorem cut_is_filter_witness:
  "\<exists>inside. within_cut (At_time ''2026-08-08T14:30:00Z'') = Inr inside \<and>
     apply_inside inside [sample_create, sample_label] (new_builder (BeadRef ''g'' ''b-1''), False) =
       and_then (fold_result apply_event (filter (\<lambda>e. inside (the_key e)) [sample_create, sample_label]) (new_builder (BeadRef ''g'' ''b-1'')))
         (\<lambda>b'. Inr (b', False \<or> filter (\<lambda>e. inside (the_key e)) [sample_create, sample_label] \<noteq> []))"
proof -
  have "is_timestamp ''2026-08-08T14:30:00Z''" by code_simp
  then obtain inside where "within_cut (At_time ''2026-08-08T14:30:00Z'') = Inr inside"
    by (simp add: within_cut_def instant_ok)
  moreover have "sorted (map the_key [sample_create, sample_label])" "\<forall>e \<in> set [sample_create, sample_label]. times_ok e"
    by code_simp+
  ultimately show ?thesis using cut_is_filter by blast
qed

text \<open>The last writer wins: a label is on the folded state exactly when the last event about that label, in the order
  the events are applied, adds it.\<close>

theorem label_last_writer:
  assumes "fold_result apply_event es (new_builder r) = Inr b"
  shows "l \<in> set (st_labels (build b)) \<longleftrightarrow>
    (\<exists>e. e = last (filter (\<lambda>e. labels_event e l \<noteq> None) es) \<and> filter (\<lambda>e. labels_event e l \<noteq> None) es \<noteq> [] \<and>
       labels_event e l = Some True)"
proof -
  have "builder_ok b" using apply_events_ok [OF new_builder_ok assms] by simp
  from state_label [OF this] fold_label [OF assms, of l] show ?thesis by (simp add: Let_def new_builder_def)
qed

theorem label_last_writer_witness:
  "\<exists>b. fold_result apply_event [sample_label, sample_label\<lparr>ev_kind := Label_remove\<rparr>, sample_label] (new_builder (BeadRef ''g'' ''b-1'')) = Inr b \<and>
     ''red'' \<in> set (st_labels (build b))"
proof -
  let ?es = "[sample_label, sample_label\<lparr>ev_kind := Label_remove\<rparr>, sample_label]"
  have "is_ok (fold_result apply_event ?es (new_builder (BeadRef ''g'' ''b-1'')))" by code_simp
  then obtain b where b: "fold_result apply_event ?es (new_builder (BeadRef ''g'' ''b-1'')) = Inr b"
    by (auto simp: is_ok_iff)
  have "filter (\<lambda>e. labels_event e ''red'' \<noteq> None) ?es = ?es" "labels_event sample_label ''red'' = Some True" by code_simp+
  with label_last_writer [OF b, of "''red''"] b show ?thesis by simp
qed

section \<open>The diff\<close>

lemma merge_again:
  assumes "events_ok (concat logs)" "consistent (concat logs)" "union_merge logs = Inr r"
  shows "union_merge [r] = Inr r"
proof -
  have ok: "events_ok (concat logs @ [])" "consistent (concat logs @ [])" using assms(1,2) by simp_all
  obtain r' where "union_merge logs = Inr r'" "is_merge r' (survivors (concat logs))" using assms(1,2) by (rule merge_result)
  with assms(3) have r: "is_merge r (survivors (concat logs))" by simp
  have "events_ok (concat [r])" "consistent (concat [r])" using regroup_ok [OF ok r] by simp_all
  then obtain p where p: "union_merge [r] = Inr p" "is_merge p (survivors (concat [r]))" by (rule merge_result)
  have "survivors (concat [r]) = survivors (concat logs)" using survivors_regroup [OF ok r] by simp
  with p r is_merge_unique show ?thesis by metis
qed

text \<open>A log proposes nothing its baseline already holds: the diff of a sublog against the log is empty, at every cut.\<close>

theorem diff_of_known_empty:
  assumes "\<forall>e \<in> set baseline. event_ok e" "consistent baseline" "set proposed \<subseteq> set baseline"
    and "fold_log baseline c None = Inr before" "fold_log proposed c None = Inr offered"
  shows "\<exists>d. diff proposed baseline c = Inr d \<and> diff_empty d"
proof -
  have set: "set (concat [baseline, proposed]) = set (concat [baseline])" using assms(3) by auto
  have ok: "events_ok (concat [baseline, proposed])" "consistent (concat [baseline, proposed])"
    using assms(1,2) set consistent_set [OF set] by simp_all
  obtain m where m: "union_merge [baseline, proposed] = Inr m" "is_merge m (survivors (concat [baseline, proposed]))"
    using ok by (rule merge_result)
  obtain n where n: "union_merge [baseline] = Inr n" "is_merge n (survivors (concat [baseline]))"
    using merge_result [of "[baseline]"] assms(1,2) by auto
  have "m = n" using m(2) n(2) unfolding survivors_set [OF ok set] by (rule is_merge_unique)
  then have "union_merge [m] = union_merge [baseline]" using merge_again [OF ok m(1)] n(1) by simp
  then have after: "fold_log m c None = Inr before" using assms(4) by (simp add: fold_log_def)
  have "filter (\<lambda>i. i \<notin> set (map ev_id baseline)) (remdups (map ev_id proposed)) = []"
    using assms(3) by (auto simp: filter_empty_conv)
  then have "missing_events proposed baseline m = Inr []"
    unfolding missing_events_def Let_def by (simp only: map_filter_simps) (simp add: sort_events_def sorted_by_def)
  with m(1) assms(4,5) after show ?thesis by (simp add: diff_def diff_empty_def deltas_def)
qed

theorem diff_of_known_empty_witness:
  "\<exists>d. diff [sample_label] [sample_create, sample_label] Now = Inr d \<and> diff_empty d"
proof -
  have "consistent [sample_create, sample_label]" by code_simp
  moreover have "is_ok (fold_log [sample_create, sample_label] Now None)" "is_ok (fold_log [sample_label] Now None)"
    by code_simp+
  ultimately show ?thesis
    using diff_of_known_empty [of "[sample_create, sample_label]" "[sample_label]" Now] samples_ok
    by (auto simp: is_ok_iff)
qed

lemma set_map_filter: "set (List.map_filter f xs) = {y. \<exists>x \<in> set xs. f x = Some y}"
  by (force simp: map_filter_def)

text \<open>What a diff calls missing is exactly the events of the merged log whose id the proposal has and the baseline has
  not: an erased event is never proposed again.\<close>

theorem diff_missing_exact:
  assumes "\<forall>e \<in> set (baseline @ proposed). event_ok e" "diff proposed baseline c = Inr d"
  shows "set (df_missing d) =
    {e \<in> survivors (baseline @ proposed). ev_id e \<in> ev_id ` set proposed \<and> ev_id e \<notin> ev_id ` set baseline}"
proof -
  from assms(2) obtain m where m: "union_merge [baseline, proposed] = Inr m"
      "missing_events proposed baseline m = Inr (df_missing d)"
    by (auto simp: diff_def and_then_eq_Inr)
  have ok: "events_ok (concat [baseline, proposed])" using assms(1) by simp
  have con: "consistent (concat [baseline, proposed])"
  proof (rule ccontr)
    assume "\<not> consistent (concat [baseline, proposed])"
    with ok obtain i where "union_merge [baseline, proposed] = Inl (IdCollisionError i)" by (rule merge_collides)
    with m(1) show False by simp
  qed
  with ok obtain m' where "union_merge [baseline, proposed] = Inr m'" "is_merge m' (survivors (concat [baseline, proposed]))"
    by (rule merge_result)
  with m(1) have im: "set m = survivors (baseline @ proposed)" "distinct (map ev_id m)" "events_ok m"
    by (simp_all add: is_merge_def)
  let ?ids = "filter (\<lambda>i. i \<notin> set (map ev_id baseline)) (remdups (map ev_id proposed))"
  let ?get = "map_of (map (\<lambda>e. (ev_id e, e)) (rev m))"
  have get: "?get i = Some e \<longleftrightarrow> e \<in> set m \<and> ev_id e = i" for i e
  proof -
    have "distinct (map fst (map (\<lambda>e. (ev_id e, e)) (rev m)))"
      using im(2) by (simp add: comp_def distinct_map)
    then show ?thesis by (subst map_of_eq_Some_iff) auto
  qed
  have members: "set (List.map_filter ?get ?ids) = {e \<in> set m. ev_id e \<in> set ?ids}"
    unfolding set_map_filter get by blast
  have "times_ok e" if "e \<in> set (List.map_filter ?get ?ids)" for e
  proof -
    from that have "e \<in> set m" unfolding members by simp
    with im(3) show ?thesis by (auto simp: event_ok_def intro: event_wf_times)
  qed
  then have "missing_events proposed baseline m = Inr (sort_key part_key (List.map_filter ?get ?ids))"
    unfolding missing_events_def Let_def by (rule sort_events_ok)
  with m(2) have "df_missing d = sort_key part_key (List.map_filter ?get ?ids)" by (simp only: sum.inject)
  then have "set (df_missing d) = set (List.map_filter ?get ?ids)" by (simp only: set_sort)
  also have "\<dots> = {e \<in> survivors (baseline @ proposed). ev_id e \<in> set ?ids}" by (simp only: members im(1))
  finally show ?thesis by auto
qed

theorem diff_missing_exact_witness:
  "\<exists>d. diff [sample_label, sample_create] [sample_tombstone] Now = Inr d \<and> sample_label \<notin> set (df_missing d)"
proof -
  have "is_ok (diff [sample_label, sample_create] [sample_tombstone] Now)" by code_simp
  then obtain d where d: "diff [sample_label, sample_create] [sample_tombstone] Now = Inr d" by (auto simp: is_ok_iff)
  have "erases sample_tombstone sample_label" "ev_kind sample_label \<noteq> Tombstone" by code_simp+
  then have "sample_label \<notin> survivors ([sample_tombstone] @ [sample_label, sample_create])"
    by (auto simp: survivors_def erased_in_def)
  with diff_missing_exact [OF _ d] d samples_ok show ?thesis by auto
qed

end
