(* ===== verification/Br_Types.thy ===== *)
theory Br_Types
  imports Complex_Main BH_Prelude "HOL-Library.Product_Lexorder"
begin

text \<open>
  The values of the validation broker (\<^verbatim>\<open>beadhive_validation_broker/_types.py\<close> and
  \<^verbatim>\<open>_errors.py\<close>): capacities with their arithmetic and the \<open>fits\<close> test, reservations with the
  checks of their constructor, jobs, grants, events and the four broker errors.

  A \<^verbatim>\<open>float\<close> is an exact rational here: rounding of the additions is not modelled, the tolerance
  \<open>eps\<close> of \<open>fits\<close> is. A pool table is a \<^verbatim>\<open>dict\<close>: an association list with distinct names.
\<close>

section \<open>Capacities\<close>

type_synonym pools = "(string \<times> int) list"

record capacity =
  cap_cpu :: rat
  cap_memory :: int
  cap_pools :: pools

definition eps :: rat where
  "eps = 1 / 10 ^ 9"

definition pool_get :: "pools \<Rightarrow> string \<Rightarrow> int" where
  "pool_get ps name = (case map_of ps name of None \<Rightarrow> 0 | Some amount \<Rightarrow> amount)"

definition fits :: "capacity \<Rightarrow> capacity \<Rightarrow> bool" where
  "fits self other \<longleftrightarrow>
     (if cap_cpu other > cap_cpu self + eps \<or> cap_memory other > cap_memory self then False
      else list_all (\<lambda>(name, amount). amount \<le> pool_get (cap_pools self) name) (cap_pools other))"

definition pools_add :: "pools \<Rightarrow> pools \<Rightarrow> pools" where
  "pools_add ps qs =
     foldl (\<lambda>acc (name, amount). AList.update name (pool_get acc name + amount) acc) ps qs"

definition pools_sub :: "pools \<Rightarrow> pools \<Rightarrow> pools" where
  "pools_sub ps qs =
     foldl (\<lambda>acc (name, amount). AList.update name (pool_get acc name - amount) acc) ps qs"

definition cap_add :: "capacity \<Rightarrow> capacity \<Rightarrow> capacity" where
  "cap_add a b = \<lparr>cap_cpu = cap_cpu a + cap_cpu b, cap_memory = cap_memory a + cap_memory b,
     cap_pools = pools_add (cap_pools a) (cap_pools b)\<rparr>"

definition cap_sub :: "capacity \<Rightarrow> capacity \<Rightarrow> capacity" where
  "cap_sub a b = \<lparr>cap_cpu = cap_cpu a - cap_cpu b, cap_memory = cap_memory a - cap_memory b,
     cap_pools = pools_sub (cap_pools a) (cap_pools b)\<rparr>"

definition ZERO :: capacity where
  "ZERO = \<lparr>cap_cpu = 0, cap_memory = 0, cap_pools = []\<rparr>"

section \<open>Jobs\<close>

datatype priority_class = CRITICAL_PATH | CHECK_SUBMIT | MERGE_LAND | BACKGROUND

fun priority_int :: "priority_class \<Rightarrow> nat" where
  "priority_int CRITICAL_PATH = 0"
| "priority_int CHECK_SUBMIT = 1"
| "priority_int MERGE_LAND = 2"
| "priority_int BACKGROUND = 3"

record reservation =
  res_cpu_min :: rat
  res_cpu_max :: rat
  res_memory :: int
  res_pools :: pools
  res_disk :: int

datatype broker_error =
    BrokerUnavailable string
  | GrantRefused string
  | LeaseLost string
  | GrantTimeout string
  | BadValue string
  | MissingKey string
  | RecursionLimit
  | NoItem string

definition mk_reservation ::
  "rat \<Rightarrow> rat \<Rightarrow> int \<Rightarrow> pools \<Rightarrow> int \<Rightarrow> broker_error + reservation" where
  "mk_reservation cpu_min cpu_max memory ps disk =
     (if cpu_min < 0 \<or> cpu_max < cpu_min
      then Inl (BadValue ''a reservation needs 0 <= cpu_min <= cpu_max'')
      else if memory < 0 \<or> disk < 0 \<or> list_ex (\<lambda>(name, amount). amount < 0) ps
      then Inl (BadValue ''a reservation's memory, disk and pool amounts must be non-negative'')
      else Inr \<lparr>res_cpu_min = cpu_min, res_cpu_max = cpu_max, res_memory = memory,
        res_pools = ps, res_disk = disk\<rparr>)"

definition minimum :: "reservation \<Rightarrow> capacity" where
  "minimum r = \<lparr>cap_cpu = res_cpu_min r, cap_memory = res_memory r, cap_pools = res_pools r\<rparr>"

record br_owner =
  ow_pid :: int
  ow_start_token :: "string option"
  ow_host :: "string option"

record job_spec =
  js_job_id :: string
  js_command :: "string list"
  js_reservation :: reservation
  js_priority :: priority_class
  js_expected_duration :: rat
  js_group :: string
  js_owner :: br_owner
  js_parent_lease :: "string option"
  js_key :: "string option"
  js_cwd :: "string option"
  js_env :: "(string \<times> string) list"

record job_handle =
  jh_job_id :: string
  jh_backend :: string
  jh_token :: string

record grant =
  gr_lease_id :: string
  gr_job_id :: string
  gr_amounts :: capacity
  gr_parent_lease :: "string option"
  gr_granted_at :: rat
  gr_root :: "string option"

record job_outcome =
  oc_exit_code :: int
  oc_signal :: "int option"

record job_usage =
  us_wall :: rat
  us_cpu :: "rat option"
  us_peak_memory :: "int option"

datatype brake_level = GREEN | AMBER | RED | KILL

fun brake_int :: "brake_level \<Rightarrow> nat" where
  "brake_int GREEN = 0"
| "brake_int AMBER = 1"
| "brake_int RED = 2"
| "brake_int KILL = 3"

record broker_status =
  bs_backend :: string
  bs_budget :: capacity
  bs_in_use :: capacity
  bs_queued :: nat
  bs_running :: nat
  bs_brake :: brake_level
  bs_signals :: "(string \<times> rat) list"

datatype br_event_kind =
  SUBMITTED | ADMITTED | FINISHED | CANCELLED | BRAKED | STALLED | ORPHAN_RECLAIMED

datatype detail_value = DInt int | DStr string | DRat rat

record broker_event =
  be_seq :: nat
  be_kind :: br_event_kind
  be_at :: rat
  be_job_id :: "string option"
  be_detail :: "(string \<times> detail_value) list"

section \<open>Well-formed values\<close>

definition pools_ok :: "pools \<Rightarrow> bool" where
  "pools_ok ps \<longleftrightarrow> distinct (map fst ps) \<and> list_all (\<lambda>(name, amount). 0 \<le> amount) ps"

definition reservation_ok :: "reservation \<Rightarrow> bool" where
  "reservation_ok r \<longleftrightarrow> 0 \<le> res_cpu_min r \<and> res_cpu_min r \<le> res_cpu_max r \<and> 0 \<le> res_memory r \<and>
     0 \<le> res_disk r \<and> pools_ok (res_pools r)"

definition capacity_ok :: "capacity \<Rightarrow> bool" where
  "capacity_ok c \<longleftrightarrow> 0 \<le> cap_cpu c \<and> 0 \<le> cap_memory c \<and> pools_ok (cap_pools c)"

lemma eps_pos: "0 < eps"
  by (simp add: eps_def)

lemma mk_reservation_ok:
  assumes "distinct (map fst ps)" "mk_reservation lo hi mem ps disk = Inr r"
  shows "reservation_ok r"
  using assms
  by (auto simp: mk_reservation_def reservation_ok_def pools_ok_def list_all_iff list_ex_iff
    case_prod_unfold not_less split: if_splits)

lemma pool_get_Nil [simp]: "pool_get [] name = 0"
  by (simp add: pool_get_def)

lemma pool_get_update [simp]:
  "pool_get (AList.update k v ps) name = (if name = k then v else pool_get ps name)"
  by (simp add: pool_get_def)

lemma pool_get_nonneg: "pools_ok ps \<Longrightarrow> 0 \<le> pool_get ps name"
  by (auto simp: pool_get_def pools_ok_def list_all_iff split: option.splits dest: map_of_SomeD)

lemma pool_get_Cons: "pool_get ((k, v) # ps) name = (if name = k then v else pool_get ps name)"
  by (simp add: pool_get_def)

lemma pool_get_absent: "name \<notin> fst ` set ps \<Longrightarrow> pool_get ps name = 0"
  by (simp add: pool_get_def map_of_eq_None_iff [THEN iffD2])

lemma pool_get_pools_add:
  "distinct (map fst qs) \<Longrightarrow> pool_get (pools_add ps qs) name = pool_get ps name + pool_get qs name"
proof (induction qs arbitrary: ps)
  case Nil
  then show ?case by (simp add: pools_add_def)
next
  case (Cons q qs)
  obtain k v where q: "q = (k, v)" by force
  have "pool_get (pools_add ps (q # qs)) name =
    pool_get (AList.update k (pool_get ps k + v) ps) name + pool_get qs name"
    using Cons unfolding q by (simp add: pools_add_def)
  then show ?case
    using Cons.prems unfolding q by (simp add: pool_get_Cons pool_get_absent)
qed

lemma pool_get_pools_sub:
  "distinct (map fst qs) \<Longrightarrow> pool_get (pools_sub ps qs) name = pool_get ps name - pool_get qs name"
proof (induction qs arbitrary: ps)
  case Nil
  then show ?case by (simp add: pools_sub_def)
next
  case (Cons q qs)
  obtain k v where q: "q = (k, v)" by force
  have "pool_get (pools_sub ps (q # qs)) name =
    pool_get (AList.update k (pool_get ps k - v) ps) name - pool_get qs name"
    using Cons unfolding q by (simp add: pools_sub_def)
  then show ?case
    using Cons.prems unfolding q by (simp add: pool_get_Cons pool_get_absent)
qed

lemma pools_add_distinct:
  "distinct (map fst ps) \<Longrightarrow> distinct (map fst (pools_add ps qs))"
  unfolding pools_add_def
  by (induction qs arbitrary: ps) (auto simp: AList.distinct_update)

lemma fitsD:
  assumes "fits self other"
  shows "cap_cpu other \<le> cap_cpu self + eps" "cap_memory other \<le> cap_memory self"
    and "(name, amount) \<in> set (cap_pools other) \<Longrightarrow> amount \<le> pool_get (cap_pools self) name"
  using assms by (auto simp: fits_def list_all_iff split: if_splits)

text \<open>Room that only shrinks never starts to fit what did not fit.\<close>

lemma fits_antimono:
  assumes "fits a c" "cap_cpu a \<le> cap_cpu b" "cap_memory a \<le> cap_memory b"
    and "\<And>name. pool_get (cap_pools a) name \<le> pool_get (cap_pools b) name"
  shows "fits b c"
proof -
  have "amount \<le> pool_get (cap_pools b) name" if "(name, amount) \<in> set (cap_pools c)" for name amount
    using fitsD(3) [OF assms(1) that] assms(4) [of name] by linarith
  then show ?thesis
    using fitsD(1,2) [OF assms(1)] assms(2,3)
    by (auto simp: fits_def list_all_iff)
qed

end
