(* ===== verification/Br_Memory.thy ===== *)
theory Br_Memory
  imports Br_Types
begin

text \<open>
  The in-memory broker engine (\<^verbatim>\<open>beadhive_validation_broker/_fake.py\<close>, class \<^verbatim>\<open>InMemoryBroker\<close>),
  method by method and in the order of the file. It is the reference for the port's safety contract.

  A method is a function from the broker to its result and the broker after it: an exception keeps
  the changes made before it. An entry is an object that the code mutates through references; here
  it is named by its job id and changed in place by \<open>modify\<close>. The injected clock is the
  parameter \<open>clk\<close>, the sequence of its readings; \<open>bk_ticks\<close> counts the readings taken. The
  liveness probe is the parameter \<open>alive\<close>. The lock makes every method one step, so it has no
  counterpart. \<^verbatim>\<open>_end\<close> recurses over the children of an entry: \<open>end_job\<close> takes fuel, one unit per
  entry, and reports a deeper recursion as \<open>RecursionLimit\<close>.
\<close>

datatype entry_state = Queued | Running | Finished | Cancelled | Lost

fun state_name :: "entry_state \<Rightarrow> string" where
  "state_name Queued = ''queued''"
| "state_name Running = ''running''"
| "state_name Finished = ''done''"
| "state_name Cancelled = ''cancelled''"
| "state_name Lost = ''lost''"

definition is_live :: "entry_state \<Rightarrow> bool" where
  "is_live st \<longleftrightarrow> st = Queued \<or> st = Running"

record br_entry =
  en_spec :: job_spec
  en_handle :: job_handle
  en_arrival :: nat
  en_state :: entry_state
  en_grant :: "grant option"
  en_children :: "string list"

record recorded_report =
  rr_job_id :: string
  rr_outcome :: job_outcome
  rr_usage :: job_usage

record broker =
  bk_budget :: capacity
  bk_entries :: "(string \<times> br_entry) list"
  bk_events :: "broker_event list"
  bk_arrivals :: nat
  bk_available :: bool
  bk_brake :: brake_level
  bk_reports :: "recorded_report list"
  bk_ticks :: nat

type_synonym 'a br_outcome = "(broker_error + 'a) \<times> broker"
type_synonym br_clock = "nat \<Rightarrow> rat"

definition init_broker :: "capacity \<Rightarrow> broker" where
  "init_broker budget = \<lparr>bk_budget = budget, bk_entries = [], bk_events = [], bk_arrivals = 0,
     bk_available = True, bk_brake = GREEN, bk_reports = [], bk_ticks = 0\<rparr>"

definition broker_name :: string where
  "broker_name = ''memory''"

section \<open>Internals\<close>

definition find_entry :: "broker \<Rightarrow> string \<Rightarrow> br_entry option" where
  "find_entry b = map_of (bk_entries b)"

definition br_entries :: "broker \<Rightarrow> br_entry list" where
  "br_entries b = map snd (bk_entries b)"

definition modify :: "string \<Rightarrow> (br_entry \<Rightarrow> br_entry) \<Rightarrow> broker \<Rightarrow> broker" where
  "modify jid f b = b\<lparr>bk_entries := map (\<lambda>(k, e). (k, if k = jid then f e else e)) (bk_entries b)\<rparr>"

definition require_up :: "broker \<Rightarrow> broker_error + unit" where
  "require_up b =
     (if bk_available b then Inr () else Inl (BrokerUnavailable ''the in-memory broker is marked down''))"

definition entry_of :: "broker \<Rightarrow> job_handle \<Rightarrow> broker_error + br_entry" where
  "entry_of b h = (case find_entry b (jh_job_id h) of
     None \<Rightarrow> Inl (LeaseLost (jh_job_id h @ '': unknown job''))
   | Some e \<Rightarrow> Inr e)"

definition emit ::
  "br_clock \<Rightarrow> br_event_kind \<Rightarrow> string option \<Rightarrow> (string \<times> detail_value) list \<Rightarrow> broker \<Rightarrow> broker" where
  "emit clk kind jid detail b = b\<lparr>bk_events := bk_events b @
     [\<lparr>be_seq = length (bk_events b) + 1, be_kind = kind, be_at = clk (bk_ticks b),
       be_job_id = jid, be_detail = detail\<rparr>],
     bk_ticks := bk_ticks b + 1\<rparr>"

definition add_grant :: "capacity \<Rightarrow> br_entry \<Rightarrow> capacity" where
  "add_grant used e = (case en_grant e of None \<Rightarrow> used | Some g \<Rightarrow> cap_add used (gr_amounts g))"

definition host_running :: "br_entry \<Rightarrow> bool" where
  "host_running e \<longleftrightarrow>
     en_state e = Running \<and> js_parent_lease (en_spec e) = None \<and> en_grant e \<noteq> None"

definition in_use :: "broker \<Rightarrow> capacity" where
  "in_use b = foldl add_grant ZERO (filter host_running (br_entries b))"

definition holds_lease :: "string option \<Rightarrow> br_entry \<Rightarrow> bool" where
  "holds_lease l e \<longleftrightarrow> (case en_grant e of None \<Rightarrow> False | Some g \<Rightarrow> Some (gr_lease_id g) = l)"

definition lease_text :: "job_spec \<Rightarrow> string" where
  "lease_text job = js_job_id job @ '': parent lease '' @
     (case js_parent_lease job of None \<Rightarrow> ''None'' | Some l \<Rightarrow> l)"

definition lease_parent :: "broker \<Rightarrow> job_spec \<Rightarrow> broker_error + br_entry" where
  "lease_parent b job = (case find (holds_lease (js_parent_lease job)) (br_entries b) of
     Some e \<Rightarrow> Inr e
   | None \<Rightarrow> Inl (LeaseLost (lease_text job @ '' is gone'')))"

definition check_nested :: "broker \<Rightarrow> job_spec \<Rightarrow> broker_error + unit" where
  "check_nested b job = and_then (lease_parent b job) (\<lambda>parent.
     case en_grant parent of
       None \<Rightarrow> Inl (LeaseLost (lease_text job @ '' is not running''))
     | Some g \<Rightarrow>
         (if en_state parent \<noteq> Running
          then Inl (LeaseLost (lease_text job @ '' is not running''))
          else if \<not> fits (gr_amounts g) (minimum (js_reservation job))
          then Inl (GrantRefused (js_job_id job @ '': reservation can never fit its parent's grant''))
          else Inr ()))"

fun children_in_use_from :: "broker \<Rightarrow> capacity \<Rightarrow> string list \<Rightarrow> broker_error + capacity" where
  "children_in_use_from b used [] = Inr used"
| "children_in_use_from b used (c # cs) = (case find_entry b c of
     None \<Rightarrow> Inl (MissingKey c)
   | Some child \<Rightarrow> children_in_use_from b
       (if en_state child = Running then add_grant used child else used) cs)"

definition children_in_use :: "broker \<Rightarrow> br_entry \<Rightarrow> broker_error + capacity" where
  "children_in_use b parent = children_in_use_from b ZERO (en_children parent)"

definition granted :: "br_clock \<Rightarrow> broker \<Rightarrow> br_entry \<Rightarrow> rat \<Rightarrow> string option \<Rightarrow> grant" where
  "granted clk b e cpu parent_lease = \<lparr>
     gr_lease_id = ''lease-'' @ nat_str (en_arrival e),
     gr_job_id = js_job_id (en_spec e),
     gr_amounts = \<lparr>cap_cpu = cpu, cap_memory = res_memory (js_reservation (en_spec e)),
       cap_pools = res_pools (js_reservation (en_spec e))\<rparr>,
     gr_parent_lease = parent_lease,
     gr_granted_at = clk (bk_ticks b),
     gr_root = None\<rparr>"

definition admit :: "br_clock \<Rightarrow> br_entry \<Rightarrow> rat \<Rightarrow> string option \<Rightarrow> broker \<Rightarrow> broker" where
  "admit clk e cpu parent_lease b =
     (let g = granted clk b e cpu parent_lease; jid = js_job_id (en_spec e)
      in emit clk ADMITTED (Some jid) [(''lease'', DStr (gr_lease_id g))]
           (modify jid (\<lambda>x. x\<lparr>en_grant := Some g, en_state := Running\<rparr>)
             (b\<lparr>bk_ticks := bk_ticks b + 1\<rparr>)))"

definition admit_nested :: "br_clock \<Rightarrow> br_entry \<Rightarrow> broker \<Rightarrow> unit br_outcome" where
  "admit_nested clk e b = attempt b (lease_parent b (en_spec e)) (\<lambda>parent.
     case en_grant parent of
       None \<Rightarrow> (Inr (), b)
     | Some g \<Rightarrow> attempt b (children_in_use b parent) (\<lambda>used.
         let free = cap_sub (gr_amounts g) used; r = js_reservation (en_spec e)
         in (Inr (), if fits free (minimum r)
                     then admit clk e (min (res_cpu_max r) (cap_cpu free)) (Some (gr_lease_id g)) b
                     else b)))"

definition admit_host :: "br_clock \<Rightarrow> br_entry \<Rightarrow> broker \<Rightarrow> broker" where
  "admit_host clk e b =
     (if brake_int (bk_brake b) \<ge> brake_int RED then b
      else if bk_brake b = AMBER \<and> js_priority (en_spec e) \<noteq> CRITICAL_PATH then b
      else let free = cap_sub (bk_budget b) (in_use b); r = js_reservation (en_spec e)
        in if \<not> fits free (minimum r) then b
           else admit clk e
             (if bk_brake b = GREEN then min (res_cpu_max r) (cap_cpu free) else res_cpu_min r)
             None b)"

definition try_admit :: "br_clock \<Rightarrow> br_entry \<Rightarrow> broker \<Rightarrow> unit br_outcome" where
  "try_admit clk e b =
     (if js_parent_lease (en_spec e) \<noteq> None then admit_nested clk e b
      else (Inr (), admit_host clk e b))"

definition pump_key :: "br_entry \<Rightarrow> bool \<times> nat \<times> nat" where
  "pump_key e = (js_parent_lease (en_spec e) = None, priority_int (js_priority (en_spec e)),
     en_arrival e)"

definition pump_queue :: "broker \<Rightarrow> br_entry list" where
  "pump_queue b = sort_key pump_key (filter (\<lambda>e. en_state e = Queued) (br_entries b))"

fun pump_from :: "br_clock \<Rightarrow> br_entry list \<Rightarrow> broker \<Rightarrow> unit br_outcome" where
  "pump_from clk [] b = (Inr (), b)"
| "pump_from clk (e # es) b = (case try_admit clk e b of
     (Inl err, b1) \<Rightarrow> (Inl err, b1)
   | (Inr _, b1) \<Rightarrow> pump_from clk es b1)"

definition pump :: "br_clock \<Rightarrow> broker \<Rightarrow> unit br_outcome" where
  "pump clk b = pump_from clk (pump_queue b) b"

definition pump_then :: "br_clock \<Rightarrow> broker \<Rightarrow> 'a \<Rightarrow> 'a br_outcome" where
  "pump_then clk b x = (case pump clk b of (Inl err, b1) \<Rightarrow> (Inl err, b1) | (Inr _, b1) \<Rightarrow> (Inr x, b1))"

fun child_state :: "entry_state \<Rightarrow> entry_state" where
  "child_state st = (if st = Lost then Lost else Cancelled)"

fun child_kind :: "entry_state \<Rightarrow> br_event_kind" where
  "child_kind st = (if st = Lost then ORPHAN_RECLAIMED else CANCELLED)"

fun child_reason :: "entry_state \<Rightarrow> string" where
  "child_reason st = (if st = Lost then ''parent reclaimed'' else ''parent released'')"

fun end_job :: "br_clock \<Rightarrow> nat \<Rightarrow> string \<Rightarrow> entry_state \<Rightarrow> br_event_kind \<Rightarrow>
    (string \<times> detail_value) list \<Rightarrow> broker \<Rightarrow> unit br_outcome"
  and end_children :: "br_clock \<Rightarrow> nat \<Rightarrow> entry_state \<Rightarrow> string list \<Rightarrow> broker \<Rightarrow> unit br_outcome" where
  "end_job clk 0 jid st kind detail b = (Inl RecursionLimit, b)"
| "end_job clk (Suc n) jid st kind detail b = (case find_entry b jid of
     None \<Rightarrow> (Inl (MissingKey jid), b)
   | Some e \<Rightarrow> (case end_children clk n st (en_children e) b of
       (Inl err, b1) \<Rightarrow> (Inl err, b1)
     | (Inr _, b1) \<Rightarrow>
         (Inr (), emit clk kind (Some jid) detail (modify jid (\<lambda>x. x\<lparr>en_state := st\<rparr>) b1))))"
| "end_children clk n st [] b = (Inr (), b)"
| "end_children clk n st (c # cs) b = (case find_entry b c of
     None \<Rightarrow> (Inl (MissingKey c), b)
   | Some child \<Rightarrow>
       (if is_live (en_state child)
        then (case end_job clk n c (child_state st) (child_kind st)
            [(''reason'', DStr (child_reason st))] b of
          (Inl err, b1) \<Rightarrow> (Inl err, b1)
        | (Inr _, b1) \<Rightarrow> end_children clk n st cs b1)
        else end_children clk n st cs b))"

definition end_entry :: "br_clock \<Rightarrow> string \<Rightarrow> entry_state \<Rightarrow> br_event_kind \<Rightarrow>
    (string \<times> detail_value) list \<Rightarrow> broker \<Rightarrow> unit br_outcome" where
  "end_entry clk jid st kind detail b = end_job clk (length (bk_entries b)) jid st kind detail b"

definition reclaim_entry ::
  "br_clock \<Rightarrow> string \<Rightarrow> br_event_kind \<Rightarrow> string \<Rightarrow> broker \<Rightarrow> unit br_outcome" where
  "reclaim_entry clk jid kind reason b = end_entry clk jid Lost kind [(''reason'', DStr reason)] b"

section \<open>Test controls\<close>

definition set_available :: "bool \<Rightarrow> broker \<Rightarrow> broker" where
  "set_available up b = b\<lparr>bk_available := up\<rparr>"

definition set_brake :: "br_clock \<Rightarrow> brake_level \<Rightarrow> string \<Rightarrow> broker \<Rightarrow> unit br_outcome" where
  "set_brake clk level reason b =
     pump clk (emit clk BRAKED None
       [(''level'', DInt (int (brake_int level))), (''reason'', DStr reason)]
       (b\<lparr>bk_brake := level\<rparr>))"

definition is_orphan :: "(br_owner \<Rightarrow> bool) \<Rightarrow> br_entry \<Rightarrow> bool" where
  "is_orphan alive e \<longleftrightarrow> js_parent_lease (en_spec e) = None \<and> is_live (en_state e) \<and>
     \<not> alive (js_owner (en_spec e))"

fun reap_from :: "br_clock \<Rightarrow> (br_owner \<Rightarrow> bool) \<Rightarrow> string list \<Rightarrow> broker \<Rightarrow> unit br_outcome" where
  "reap_from clk alive [] b = (Inr (), b)"
| "reap_from clk alive (jid # js) b = (case find_entry b jid of
     None \<Rightarrow> (Inl (MissingKey jid), b)
   | Some e \<Rightarrow>
       (if is_orphan alive e
        then (case reclaim_entry clk jid ORPHAN_RECLAIMED ''owner dead'' b of
          (Inl err, b1) \<Rightarrow> (Inl err, b1)
        | (Inr _, b1) \<Rightarrow> reap_from clk alive js b1)
        else reap_from clk alive js b))"

definition reap :: "br_clock \<Rightarrow> (br_owner \<Rightarrow> bool) \<Rightarrow> broker \<Rightarrow> unit br_outcome" where
  "reap clk alive b = (case reap_from clk alive (map fst (bk_entries b)) b of
     (Inl err, b1) \<Rightarrow> (Inl err, b1)
   | (Inr _, b1) \<Rightarrow> pump clk b1)"

section \<open>The port\<close>

definition check_submit :: "broker \<Rightarrow> job_spec \<Rightarrow> broker_error + unit" where
  "check_submit b job =
     (if js_parent_lease job \<noteq> None then check_nested b job
      else if \<not> fits (bk_budget b) (minimum (js_reservation job))
      then Inl (GrantRefused (js_job_id job @ '': reservation exceeds the host budget''))
      else Inr ())"

definition new_handle :: "string \<Rightarrow> nat \<Rightarrow> job_spec \<Rightarrow> job_handle" where
  "new_handle name n job = \<lparr>jh_job_id = js_job_id job, jh_backend = name, jh_token = nat_str n\<rparr>"

definition queued_entry :: "string \<Rightarrow> nat \<Rightarrow> job_spec \<Rightarrow> br_entry" where
  "queued_entry name n job = \<lparr>en_spec = job, en_handle = new_handle name n job, en_arrival = n,
     en_state = Queued, en_grant = None, en_children = []\<rparr>"

definition enqueue :: "string \<Rightarrow> job_spec \<Rightarrow> broker \<Rightarrow> broker" where
  "enqueue name job b = (let n = bk_arrivals b + 1 in
     b\<lparr>bk_arrivals := n, bk_entries := AList.update (js_job_id job) (queued_entry name n job) (bk_entries b)\<rparr>)"

definition adopt_child :: "job_spec \<Rightarrow> broker \<Rightarrow> unit br_outcome" where
  "adopt_child job b =
     (if js_parent_lease job = None then (Inr (), b)
      else attempt b (lease_parent b job) (\<lambda>parent.
        (Inr (), modify (js_job_id (en_spec parent))
           (\<lambda>x. x\<lparr>en_children := en_children x @ [js_job_id job]\<rparr>) b)))"

definition submit :: "br_clock \<Rightarrow> job_spec \<Rightarrow> broker \<Rightarrow> job_handle br_outcome" where
  "submit clk job b = attempt b (require_up b) (\<lambda>_.
     case find_entry b (js_job_id job) of
       Some existing \<Rightarrow> (Inr (en_handle existing), b)
     | None \<Rightarrow> attempt b (check_submit b job) (\<lambda>_.
         case adopt_child job (enqueue broker_name job b) of
           (Inl err, b1) \<Rightarrow> (Inl err, b1)
         | (Inr _, b1) \<Rightarrow> pump_then clk
             (emit clk SUBMITTED (Some (js_job_id job)) [(''group'', DStr (js_group job))] b1)
             (new_handle broker_name (bk_arrivals b + 1) job)))"

definition lost_message :: "job_handle \<Rightarrow> br_entry \<Rightarrow> string" where
  "lost_message h e = jh_job_id h @ '': lease is '' @ state_name (en_state e)"

definition wait_grant :: "job_handle \<Rightarrow> broker \<Rightarrow> broker_error + grant" where
  "wait_grant h b = and_then (require_up b) (\<lambda>_. and_then (entry_of b h) (\<lambda>e.
     if (en_state e = Running \<or> en_state e = Finished) \<and> en_grant e \<noteq> None
     then Inr (the (en_grant e))
     else if en_state e = Queued then Inl (GrantTimeout (jh_job_id h @ '': still queued''))
     else Inl (LeaseLost (lost_message h e))))"

definition report :: "br_clock \<Rightarrow> job_handle \<Rightarrow> job_outcome \<Rightarrow> job_usage \<Rightarrow> broker \<Rightarrow> unit br_outcome" where
  "report clk h oc us b = attempt b (require_up b) (\<lambda>_. attempt b (entry_of b h) (\<lambda>e.
     if en_state e = Finished then (Inr (), b)
     else if en_state e \<noteq> Running then (Inl (LeaseLost (lost_message h e)), b)
     else (case end_entry clk (jh_job_id h) Finished FINISHED [(''exit_code'', DInt (oc_exit_code oc))]
         (b\<lparr>bk_reports := bk_reports b @
           [\<lparr>rr_job_id = jh_job_id h, rr_outcome = oc, rr_usage = us\<rparr>]\<rparr>) of
       (Inl err, b1) \<Rightarrow> (Inl err, b1)
     | (Inr _, b1) \<Rightarrow> pump clk b1)))"

definition cancel :: "br_clock \<Rightarrow> job_handle \<Rightarrow> string \<Rightarrow> broker \<Rightarrow> unit br_outcome" where
  "cancel clk h reason b = attempt b (require_up b) (\<lambda>_.
     case find_entry b (jh_job_id h) of
       None \<Rightarrow> (Inr (), b)
     | Some e \<Rightarrow>
         (if \<not> is_live (en_state e) then (Inr (), b)
          else (case end_entry clk (jh_job_id h) Cancelled CANCELLED [(''reason'', DStr reason)] b of
            (Inl err, b1) \<Rightarrow> (Inl err, b1)
          | (Inr _, b1) \<Rightarrow> pump clk b1)))"

definition status :: "broker \<Rightarrow> broker_error + broker_status" where
  "status b = and_then (require_up b) (\<lambda>_. Inr \<lparr>
     bs_backend = broker_name, bs_budget = bk_budget b, bs_in_use = in_use b,
     bs_queued = count_list (map en_state (br_entries b)) Queued,
     bs_running = count_list (map en_state (br_entries b)) Running,
     bs_brake = bk_brake b, bs_signals = []\<rparr>)"

definition events_since :: "int \<Rightarrow> broker \<Rightarrow> broker_error + broker_event list" where
  "events_since since b = and_then (require_up b) (\<lambda>_.
     Inr (filter (\<lambda>e. int (be_seq e) > since) (bk_events b)))"

end
