(* ===== verification/Br_Ledger.thy ===== *)
theory Br_Ledger
  imports Br_Types
begin

text \<open>
  The abstract specification of an admission account: a set of members, each holding nothing or a
  capacity, and a total they draw from. A member may enrol, take a capacity when all of it fits
  what is left (the CPU within the tolerance \<open>tol\<close>), and drop what it holds. Whatever the order of
  these steps, the holdings never exceed the total (\<open>carved\<close>): exactly in memory and in every
  pool, and in CPU up to \<open>tol\<close> per member ever enrolled.

  The slack is per member because a grant can be negative by up to \<open>tol\<close>: after an admission that
  used the tolerance the room left is below zero, a job that needs no CPU still fits it, and its
  grant is that negative room.
\<close>

type_synonym account = "string set \<times> (string \<Rightarrow> capacity option)"

definition pool_in :: "string \<Rightarrow> capacity \<Rightarrow> int" where
  "pool_in name c = pool_get (cap_pools c) name"

definition held :: "(capacity \<Rightarrow> 'a::comm_monoid_add) \<Rightarrow> account \<Rightarrow> string \<Rightarrow> 'a" where
  "held f a k = (case snd a k of None \<Rightarrow> 0 | Some c \<Rightarrow> f c)"

definition used :: "(capacity \<Rightarrow> 'a::comm_monoid_add) \<Rightarrow> account \<Rightarrow> 'a" where
  "used f a = (\<Sum>k\<in>fst a. held f a k)"

inductive ledger_step :: "rat \<Rightarrow> capacity \<Rightarrow> account \<Rightarrow> account \<Rightarrow> bool" for tol tot where
  enrol: "k \<notin> S \<Longrightarrow> h k = None \<Longrightarrow> ledger_step tol tot (S, h) (insert k S, h)"
| take_all: "k \<in> S \<Longrightarrow> h k = None \<Longrightarrow>
    - tol \<le> cap_cpu c \<Longrightarrow> used cap_cpu (S, h) + cap_cpu c \<le> cap_cpu tot + tol \<Longrightarrow>
    0 \<le> cap_memory c \<Longrightarrow> used cap_memory (S, h) + cap_memory c \<le> cap_memory tot \<Longrightarrow>
    (\<And>name. 0 \<le> pool_in name c) \<Longrightarrow>
    (\<And>name. pool_in name c = 0 \<or> used (pool_in name) (S, h) + pool_in name c \<le> pool_in name tot) \<Longrightarrow>
    ledger_step tol tot (S, h) (S, h(k \<mapsto> c))"
| drop_all: "ledger_step tol tot (S, h) (S, h(k := None))"

text \<open>What every holding looks like, and the bounds on their sums.\<close>

definition holdings_ok :: "rat \<Rightarrow> account \<Rightarrow> bool" where
  "holdings_ok tol a \<longleftrightarrow> finite (fst a) \<and> (\<forall>k c. snd a k = Some c \<longrightarrow>
     - tol \<le> cap_cpu c \<and> 0 \<le> cap_memory c \<and> (\<forall>name. 0 \<le> pool_in name c))"

definition carved :: "rat \<Rightarrow> capacity \<Rightarrow> account \<Rightarrow> bool" where
  "carved tol tot a \<longleftrightarrow> holdings_ok tol a \<and>
     (\<Sum>k\<in>fst a. max 0 (held cap_cpu a k)) \<le> max 0 (cap_cpu tot) + tol * of_nat (card (fst a)) \<and>
     used cap_memory a \<le> cap_memory tot \<and>
     (\<forall>name. used (pool_in name) a \<le> pool_in name tot)"

section \<open>Sums over the members\<close>

lemma held_upd [simp]:
  "held f (S, h(k := v)) j = (if j = k then (case v of None \<Rightarrow> 0 | Some c \<Rightarrow> f c) else held f (S, h) j)"
  by (simp add: held_def)

lemma held_None [simp]: "h k = None \<Longrightarrow> held f (S, h) k = 0"
  by (simp add: held_def)

lemma held_members: "held f (S, h) = held f (T, h)"
  by (auto simp: held_def fun_eq_iff)

lemma sum_one_changed:
  fixes g g' :: "'k \<Rightarrow> 'a::ab_group_add"
  assumes "finite S" "k \<in> S" "\<And>j. j \<noteq> k \<Longrightarrow> g' j = g j"
  shows "sum g' S = sum g S - g k + g' k"
proof -
  have "sum g' (S - {k}) = sum g (S - {k})"
    by (rule sum.cong) (auto simp: assms(3))
  then show ?thesis
    using assms(1,2) by (simp add: sum.remove [of S k])
qed

lemma used_take:
  fixes f :: "capacity \<Rightarrow> 'a::ab_group_add"
  assumes "finite S" "k \<in> S" "h k = None"
  shows "used f (S, h(k \<mapsto> c)) = used f (S, h) + f c"
  using sum_one_changed [of S k "held f (S, h(k \<mapsto> c))" "held f (S, h)"] assms
  by (simp add: used_def)

lemma used_enrol:
  assumes "finite S" "k \<notin> S" "h k = None"
  shows "used f (insert k S, h) = used f (S, h)"
  using assms by (simp add: used_def held_members [of f "insert k S" h S])

lemma used_drop_le:
  fixes f :: "capacity \<Rightarrow> 'a::ordered_comm_monoid_add"
  assumes "\<And>j. 0 \<le> held f (S, h) j"
  shows "used f (S, h(k := None)) \<le> used f (S, h)"
  unfolding used_def fst_conv by (rule sum_mono) (simp add: assms)

text \<open>The laws of an account whose tolerance is not negative.\<close>

locale ledger =
  fixes tol :: rat
  assumes tol_nonneg: "0 \<le> tol"
begin

lemma holdings_ok_held:
  assumes "holdings_ok tol a"
  shows "- tol \<le> held cap_cpu a k" "0 \<le> held cap_memory a k" "0 \<le> held (pool_in name) a k"
  using assms tol_nonneg
  by (auto simp: holdings_ok_def held_def split: option.splits intro: order_trans [of _ 0])

lemma holdings_ok_step:
  assumes "ledger_step tol tot a a'" "holdings_ok tol a"
  shows "holdings_ok tol a'"
  using assms by cases (auto simp: holdings_ok_def)


text \<open>
  The positive holdings are the plain sum plus what the negative ones take off it, and each of the
  other members takes off at most \<open>tol\<close>.
\<close>

lemma positive_part_bound:
  fixes g :: "string \<Rightarrow> rat"
  assumes "finite S" "k \<in> S" "\<And>j. - tol \<le> g j" "0 \<le> g k" "sum g S \<le> t + tol"
  shows "(\<Sum>j\<in>S. max 0 (g j)) \<le> t + tol * of_nat (card S)"
proof -
  have "(\<Sum>j\<in>S. max 0 (g j)) = sum g S + (\<Sum>j\<in>S. max 0 (- g j))"
    by (subst sum.distrib [symmetric]) (rule sum.cong, auto)
  also have "(\<Sum>j\<in>S. max 0 (- g j)) = (\<Sum>j\<in>S - {k}. max 0 (- g j))"
    using assms(1,2,4) by (simp add: sum.remove [of S k])
  also have "\<dots> \<le> of_nat (card (S - {k})) * tol"
    by (rule sum_bounded_above) (use assms(3) tol_nonneg in \<open>auto intro: minus_le_iff [THEN iffD1]\<close>)
  finally have "(\<Sum>j\<in>S. max 0 (g j)) \<le> t + tol + tol * of_nat (card (S - {k}))"
    using assms(5) by (simp add: algebra_simps)
  moreover have "card S = Suc (card (S - {k}))"
    using assms(1,2) by (rule card.remove)
  ultimately show ?thesis
    by (simp add: algebra_simps)
qed

lemma cpu_take:
  assumes "holdings_ok tol (S, h)" "k \<in> S" "h k = None" "- tol \<le> cap_cpu c"
    and "used cap_cpu (S, h) + cap_cpu c \<le> cap_cpu tot + tol"
    and "(\<Sum>j\<in>S. max 0 (held cap_cpu (S, h) j)) \<le> max 0 (cap_cpu tot) + tol * of_nat (card S)"
  shows "(\<Sum>j\<in>S. max 0 (held cap_cpu (S, h(k \<mapsto> c)) j)) \<le>
    max 0 (cap_cpu tot) + tol * of_nat (card S)"
proof (cases "0 \<le> cap_cpu c")
  case True
  have fin: "finite S" using assms(1) by (simp add: holdings_ok_def)
  show ?thesis
  proof (rule positive_part_bound [OF fin assms(2)])
    show "- tol \<le> held cap_cpu (S, h(k \<mapsto> c)) j" for j
      using holdings_ok_held(1) [OF assms(1)] assms(4) by simp
    show "0 \<le> held cap_cpu (S, h(k \<mapsto> c)) k"
      using True by simp
    have "used cap_cpu (S, h(k \<mapsto> c)) \<le> cap_cpu tot + tol"
      using assms(5) used_take [where h = h, OF fin assms(2,3), of cap_cpu c] by simp
    then show "sum (held cap_cpu (S, h(k \<mapsto> c))) S \<le> max 0 (cap_cpu tot) + tol"
      by (simp add: used_def)
  qed
next
  case False
  have "(\<Sum>j\<in>S. max 0 (held cap_cpu (S, h(k \<mapsto> c)) j)) = (\<Sum>j\<in>S. max 0 (held cap_cpu (S, h) j))"
    by (rule sum.cong) (use False assms(3) in auto)
  then show ?thesis using assms(6) by simp
qed

text \<open>No order of steps overdraws the account.\<close>

lemma carved_enrol:
  assumes "carved tol tot (S, h)" "k \<notin> S" "h k = None"
  shows "carved tol tot (insert k S, h)"
proof -
  have fin: "finite S" and ok: "holdings_ok tol (insert k S, h)"
    using assms(1) by (auto simp: carved_def holdings_ok_def)
  have "(\<Sum>j\<in>insert k S. max 0 (held cap_cpu (insert k S, h) j)) =
    (\<Sum>j\<in>S. max 0 (held cap_cpu (S, h) j))"
    using fin assms(2,3) by (simp add: held_members [of _ "insert k S" h S])
  also have "\<dots> \<le> max 0 (cap_cpu tot) + tol * of_nat (card S)"
    using assms(1) by (simp add: carved_def)
  also have "\<dots> \<le> max 0 (cap_cpu tot) + tol * of_nat (card (insert k S))"
    using fin assms(2) tol_nonneg by (simp add: algebra_simps)
  finally show ?thesis
    using assms ok by (simp add: carved_def used_enrol [where h = h, OF fin assms(2,3)])
qed

lemma carved_drop:
  assumes "carved tol tot (S, h)"
  shows "carved tol tot (S, h(k := None))"
proof -
  have ok: "holdings_ok tol (S, h)" using assms by (simp add: carved_def)
  have ok': "holdings_ok tol (S, h(k := None))"
    using ledger_step.drop_all ok by (rule holdings_ok_step)
  have "(\<Sum>j\<in>S. max 0 (held cap_cpu (S, h(k := None)) j)) \<le> (\<Sum>j\<in>S. max 0 (held cap_cpu (S, h) j))"
    by (rule sum_mono) simp
  moreover have "used cap_memory (S, h(k := None)) \<le> used cap_memory (S, h)"
    by (rule used_drop_le) (rule holdings_ok_held [OF ok])
  moreover have "used (pool_in name) (S, h(k := None)) \<le> used (pool_in name) (S, h)" for name
    by (rule used_drop_le) (rule holdings_ok_held [OF ok])
  ultimately show ?thesis
    using assms ok' by (auto simp: carved_def intro: order_trans)
qed

lemma carved_step:
  assumes "ledger_step tol tot a a'" "carved tol tot a"
  shows "carved tol tot a'"
  using assms(1)
proof cases
  case (enrol k S h)
  then show ?thesis using carved_enrol assms(2) by simp
next
  case (drop_all S h k)
  then show ?thesis using carved_drop assms(2) by simp
next
  case (take_all k S h c)
  have ok: "holdings_ok tol (S, h)" and fin: "finite S"
    using assms(2) take_all(1) by (simp_all add: carved_def holdings_ok_def)
  have "holdings_ok tol a'" using assms holdings_ok_step by (simp add: carved_def)
  moreover have "(\<Sum>j\<in>S. max 0 (held cap_cpu (S, h(k \<mapsto> c)) j)) \<le>
    max 0 (cap_cpu tot) + tol * of_nat (card S)"
    by (rule cpu_take [OF ok]) (use take_all assms(2) in \<open>simp_all add: carved_def\<close>)
  moreover have "used (pool_in name) (S, h(k \<mapsto> c)) \<le> pool_in name tot" for name
  proof (cases "pool_in name c = 0")
    case True
    then show ?thesis
      using assms(2) take_all(1) used_take [where h = h, OF fin take_all(3,4), of "pool_in name" c]
      by (simp add: carved_def)
  next
    case False
    then show ?thesis
      using take_all(10) [of name] used_take [where h = h, OF fin take_all(3,4), of "pool_in name" c] by simp
  qed
  ultimately show ?thesis
    using take_all(2,8) used_take [where h = h, OF fin take_all(3,4), of cap_memory c]
    by (simp add: carved_def)
qed

lemma carved_steps:
  assumes "(ledger_step tol tot)\<^sup>*\<^sup>* a a'" "carved tol tot a"
  shows "carved tol tot a'"
  using assms by induction (auto intro: carved_step)

lemma carved_empty:
  assumes "0 \<le> cap_memory tot" "pools_ok (cap_pools tot)"
  shows "carved tol tot ({}, \<lambda>_. None)"
  using assms pool_get_nonneg
  by (simp add: carved_def holdings_ok_def used_def pool_in_def)

lemma carved_cpu:
  assumes "carved tol tot a"
  shows "used cap_cpu a \<le> max 0 (cap_cpu tot) + tol * of_nat (card (fst a))"
proof -
  have "used cap_cpu a \<le> (\<Sum>k\<in>fst a. max 0 (held cap_cpu a k))"
    unfolding used_def by (rule sum_mono) simp
  then show ?thesis using assms by (simp add: carved_def)
qed

end

interpretation exact: ledger eps
  using eps_pos by unfold_locales simp

text \<open>Dropping several members at once is a sequence of steps.\<close>

lemma ledger_drops:
  assumes "finite D"
  shows "(ledger_step tol tot)\<^sup>*\<^sup>* (S, h) (S, \<lambda>k. if k \<in> D then None else h k)"
  using assms
proof induction
  case empty
  then show ?case by simp
next
  case (insert d D)
  have "ledger_step tol tot (S, \<lambda>k. if k \<in> D then None else h k)
    (S, (\<lambda>k. if k \<in> D then None else h k)(d := None))"
    by (rule ledger_step.drop_all)
  also have "(\<lambda>k. if k \<in> D then None else h k)(d := None) =
    (\<lambda>k. if k \<in> Set.insert d D then None else h k)"
    by (auto simp: fun_eq_iff)
  finally show ?case using insert.IH by (rule rtranclp.rtrancl_into_rtrancl [rotated])
qed

end
