(* ===== verification/Br_Laws.thy ===== *)
theory Br_Laws
  imports Br_Memory Br_Ledger
begin

text \<open>
  The invariant the broker engines share, as a locale, and the way their entries end. \<open>broker_ok\<close>: an entry
  is filed under its own job id, a queued entry has no grant and a running one has, a grant has the
  lease id of its entry and an admissible size; a nested entry is listed among the
  children of the entry that holds its parent lease, that entry arrived before it, and it is
  running for as long as the nested entry is live.

  \<open>ended D b b'\<close>: some live entries of \<open>D\<close> have ended, each with all its children; nothing else
  of the entries has changed. \<open>end_entry\<close> always returns and does exactly that
  (\<open>end_entry_ends\<close>), so its fuel is enough.
\<close>

named_theorems broker_simps \<open>how the state changes act on the fields of a broker\<close>

section \<open>Entries by job id\<close>

lemma find_entry_modify [simp, broker_simps]:
  "find_entry (modify jid f b) k =
     (if k = jid then map_option f (find_entry b k) else find_entry b k)"
proof -
  have "map_of (map (\<lambda>(k, e). (k, if k = jid then f e else e)) d) k =
    (if k = jid then map_option f (map_of d k) else map_of d k)" for d
    by (induction d) auto
  then show ?thesis by (simp add: find_entry_def modify_def)
qed

lemma modify_frame [simp, broker_simps]:
  "map fst (bk_entries (modify jid f b)) = map fst (bk_entries b)"
  "bk_budget (modify jid f b) = bk_budget b" "bk_events (modify jid f b) = bk_events b"
  "bk_arrivals (modify jid f b) = bk_arrivals b" "bk_available (modify jid f b) = bk_available b"
  "bk_brake (modify jid f b) = bk_brake b" "bk_reports (modify jid f b) = bk_reports b"
  "length (bk_entries (modify jid f b)) = length (bk_entries b)"
  by (auto simp: modify_def)

lemma emit_frame [simp, broker_simps]:
  "bk_entries (emit clk kind jid d b) = bk_entries b"
  "bk_budget (emit clk kind jid d b) = bk_budget b"
  "bk_arrivals (emit clk kind jid d b) = bk_arrivals b"
  "bk_available (emit clk kind jid d b) = bk_available b"
  "bk_brake (emit clk kind jid d b) = bk_brake b" "bk_reports (emit clk kind jid d b) = bk_reports b"
  by (simp_all add: emit_def)

lemma find_entry_cong: "bk_entries b = bk_entries b' \<Longrightarrow> find_entry b = find_entry b'"
  by (simp add: find_entry_def)

lemma find_entry_emit [simp, broker_simps]: "find_entry (emit clk kind jid d b) = find_entry b"
  by (rule find_entry_cong) simp

lemma find_entry_set:
  "distinct (map fst (bk_entries b)) \<Longrightarrow> find_entry b k = Some e \<longleftrightarrow> (k, e) \<in> set (bk_entries b)"
  by (simp add: find_entry_def)

definition live_in :: "broker \<Rightarrow> string \<Rightarrow> bool" where
  "live_in b k \<longleftrightarrow> (case find_entry b k of None \<Rightarrow> False | Some e \<Rightarrow> is_live (en_state e))"

section \<open>Entries end\<close>

definition same_frame :: "broker \<Rightarrow> broker \<Rightarrow> bool" where
  "same_frame b b' \<longleftrightarrow> map fst (bk_entries b') = map fst (bk_entries b) \<and>
     bk_budget b' = bk_budget b \<and> bk_arrivals b' = bk_arrivals b \<and>
     bk_available b' = bk_available b \<and> bk_brake b' = bk_brake b \<and> bk_reports b' = bk_reports b"

definition entry_ended :: "string set \<Rightarrow> broker \<Rightarrow> string \<Rightarrow> br_entry \<Rightarrow> entry_state \<Rightarrow> bool" where
  "entry_ended D b' k e st \<longleftrightarrow> st = en_state e \<or>
     (k \<in> D \<and> is_live (en_state e) \<and> \<not> is_live st \<and> (\<forall>c\<in>set (en_children e). \<not> live_in b' c))"

definition ended :: "string set \<Rightarrow> broker \<Rightarrow> broker \<Rightarrow> bool" where
  "ended D b b' \<longleftrightarrow> same_frame b b' \<and> (\<forall>k e. find_entry b k = Some e \<longrightarrow>
     (\<exists>st. find_entry b' k = Some (e\<lparr>en_state := st\<rparr>) \<and> entry_ended D b' k e st))"

lemma same_frame_trans: "same_frame b b1 \<Longrightarrow> same_frame b1 b2 \<Longrightarrow> same_frame b b2"
  by (simp add: same_frame_def)

lemma ended_refl [simp]: "ended D b b"
proof -
  have "\<exists>st. find_entry b k = Some (e\<lparr>en_state := st\<rparr>) \<and> entry_ended D b k e st"
    if "find_entry b k = Some e" for k e
    using that by (intro exI [of _ "en_state e"]) (simp add: entry_ended_def)
  then show ?thesis by (simp add: ended_def same_frame_def)
qed

lemma endedE:
  assumes "ended D b b'" "find_entry b k = Some e"
  obtains st where "find_entry b' k = Some (e\<lparr>en_state := st\<rparr>)" "entry_ended D b' k e st"
  using assms unfolding ended_def by blast

lemma same_frame_find: "same_frame b b' \<Longrightarrow> find_entry b' k = None \<longleftrightarrow> find_entry b k = None"
  unfolding same_frame_def find_entry_def map_of_eq_None_iff set_map [symmetric] by simp

lemma ended_back:
  assumes "ended D b b'" "find_entry b' k = Some e'"
  obtains e st where "find_entry b k = Some e" "e' = e\<lparr>en_state := st\<rparr>" "entry_ended D b' k e st"
proof -
  obtain e where e: "find_entry b k = Some e"
    using same_frame_find [of b b' k] assms by (cases "find_entry b k") (auto simp: ended_def)
  with assms(1) obtain st where "find_entry b' k = Some (e\<lparr>en_state := st\<rparr>)" "entry_ended D b' k e st"
    by (rule endedE)
  with assms(2) e show thesis by (intro that [of e st]) simp_all
qed

lemma ended_live: "ended D b b' \<Longrightarrow> live_in b' k \<Longrightarrow> live_in b k"
  by (auto simp: live_in_def entry_ended_def split: option.splits elim!: ended_back)

lemma ended_trans:
  assumes "ended D b b1" "ended D b1 b2"
  shows "ended D b b2"
proof -
  have "\<exists>st. find_entry b2 k = Some (e\<lparr>en_state := st\<rparr>) \<and> entry_ended D b2 k e st"
    if "find_entry b k = Some e" for k e
  proof -
    obtain st1 where st1: "find_entry b1 k = Some (e\<lparr>en_state := st1\<rparr>)" "entry_ended D b1 k e st1"
      using assms(1) \<open>find_entry b k = Some e\<close> by (rule endedE)
    obtain st2 where st2: "find_entry b2 k = Some (e\<lparr>en_state := st1\<rparr>\<lparr>en_state := st2\<rparr>)"
      "entry_ended D b2 k (e\<lparr>en_state := st1\<rparr>) st2"
      using assms(2) st1(1) by (rule endedE)
    show ?thesis
      using st1(2) st2 ended_live [OF assms(2)] by (auto simp: entry_ended_def)
  qed
  moreover have "same_frame b b2"
    using assms same_frame_trans by (auto simp: ended_def)
  ultimately show ?thesis by (simp add: ended_def)
qed

lemma ended_mono: "ended D b b' \<Longrightarrow> D \<subseteq> D' \<Longrightarrow> ended D' b b'"
  unfolding ended_def entry_ended_def by blast

lemma ended_emit: "ended D b b' \<Longrightarrow> ended D b (emit clk kind jid d b')"
  by (simp add: ended_def same_frame_def entry_ended_def live_in_def)

section \<open>What lies below an entry\<close>

inductive below :: "broker \<Rightarrow> string \<Rightarrow> string \<Rightarrow> bool" for b p where
  self: "below b p p"
| child: "below b p k \<Longrightarrow> find_entry b k = Some e \<Longrightarrow> c \<in> set (en_children e) \<Longrightarrow> below b p c"

lemma below_trans: "below b k j \<Longrightarrow> below b p k \<Longrightarrow> below b p j"
  by (induction rule: below.induct) (auto intro: below.child)

lemma below_child:
  assumes "find_entry b p = Some e" "c \<in> set (en_children e)" "below b c j"
  shows "below b p j"
  using below_trans [OF assms(3) below.child [OF below.self assms(1,2)]] .

lemma below_mono:
  assumes "below b p j"
    and "\<And>k e. find_entry b k = Some e \<Longrightarrow>
      \<exists>e'. find_entry b' k = Some e' \<and> en_children e' = en_children e"
  shows "below b' p j"
  using assms(1)
proof induction
  case self
  show ?case by (rule below.self)
next
  case (child k e c)
  obtain e' where "find_entry b' k = Some e'" "en_children e' = en_children e"
    using assms(2) [OF child.hyps(2)] by blast
  with child show ?case by (intro below.child [of b' p k e' c]) simp_all
qed

lemma below_ended:
  assumes "ended D b b'"
  shows "below b' p j \<longleftrightarrow> below b p j"
proof
  assume "below b' p j"
  then show "below b p j"
    by (rule below_mono) (erule ended_back [OF assms], simp)
next
  assume "below b p j"
  then show "below b' p j"
    by (rule below_mono) (erule endedE [OF assms], simp)
qed

section \<open>The invariant\<close>

text \<open>
  What the engines share: the name an engine puts into its handles, the prefix of its lease ids and
  how large a grant may be for a job. A grant is never negative by more than the tolerance.
\<close>

locale lease_book = ledger tol for tol +
  fixes backend :: string and prefix :: string
    and sized :: "job_spec \<Rightarrow> capacity \<Rightarrow> bool"
  assumes sized_bounds: "reservation_ok (js_reservation job) \<Longrightarrow> sized job c \<Longrightarrow>
    - tol \<le> cap_cpu c \<and> 0 \<le> cap_memory c \<and> pools_ok (cap_pools c)"
begin

definition lease_of :: "br_entry \<Rightarrow> string" where
  "lease_of e = prefix @ nat_str (en_arrival e)"

definition grant_ok :: "br_entry \<Rightarrow> grant \<Rightarrow> bool" where
  "grant_ok e g \<longleftrightarrow> gr_lease_id g = lease_of e \<and> gr_job_id g = js_job_id (en_spec e) \<and>
     gr_parent_lease g = js_parent_lease (en_spec e) \<and> sized (en_spec e) (gr_amounts g)"

definition br_entry_ok :: "broker \<Rightarrow> string \<Rightarrow> br_entry \<Rightarrow> bool" where
  "br_entry_ok b k e \<longleftrightarrow> js_job_id (en_spec e) = k \<and> en_handle e = new_handle backend (en_arrival e) (en_spec e) \<and>
     0 < en_arrival e \<and> en_arrival e \<le> bk_arrivals b \<and> reservation_ok (js_reservation (en_spec e)) \<and>
     (en_state e = Queued \<longrightarrow> en_grant e = None) \<and> (en_state e = Running \<longrightarrow> en_grant e \<noteq> None) \<and>
     (en_grant e = None \<longrightarrow> en_children e = []) \<and> distinct (en_children e) \<and>
     (\<forall>g. en_grant e = Some g \<longrightarrow> grant_ok e g)"

definition child_ok :: "broker \<Rightarrow> br_entry \<Rightarrow> string \<Rightarrow> bool" where
  "child_ok b e c \<longleftrightarrow> (\<exists>ec. find_entry b c = Some ec \<and>
     js_parent_lease (en_spec ec) = Some (lease_of e) \<and> en_arrival e < en_arrival ec)"

definition parent_ok :: "broker \<Rightarrow> string \<Rightarrow> br_entry \<Rightarrow> string \<Rightarrow> bool" where
  "parent_ok b k e l \<longleftrightarrow> (\<exists>p ep. find_entry b p = Some ep \<and> en_grant ep \<noteq> None \<and> lease_of ep = l \<and>
     k \<in> set (en_children ep) \<and> (is_live (en_state e) \<longrightarrow> en_state ep = Running))"

definition broker_ok :: "broker \<Rightarrow> bool" where
  "broker_ok b \<longleftrightarrow> distinct (map fst (bk_entries b)) \<and> bk_arrivals b = length (bk_entries b) \<and>
     (\<forall>k e. find_entry b k = Some e \<longrightarrow> br_entry_ok b k e) \<and>
     (\<forall>k e j f. find_entry b k = Some e \<longrightarrow> find_entry b j = Some f \<longrightarrow>
        en_arrival e = en_arrival f \<longrightarrow> k = j) \<and>
     (\<forall>k e c. find_entry b k = Some e \<longrightarrow> c \<in> set (en_children e) \<longrightarrow> child_ok b e c) \<and>
     (\<forall>k e l. find_entry b k = Some e \<longrightarrow> js_parent_lease (en_spec e) = Some l \<longrightarrow> parent_ok b k e l)"

lemma broker_okD:
  assumes "broker_ok b"
  shows "distinct (map fst (bk_entries b))" "bk_arrivals b = length (bk_entries b)"
    and "find_entry b k = Some e \<Longrightarrow> br_entry_ok b k e"
    and "find_entry b k = Some e \<Longrightarrow> find_entry b j = Some f \<Longrightarrow> en_arrival e = en_arrival f \<Longrightarrow> k = j"
    and "find_entry b k = Some e \<Longrightarrow> c \<in> set (en_children e) \<Longrightarrow> child_ok b e c"
    and "find_entry b k = Some e \<Longrightarrow> js_parent_lease (en_spec e) = Some l \<Longrightarrow> parent_ok b k e l"
  using assms unfolding broker_ok_def by blast+

lemma broker_okI:
  assumes "distinct (map fst (bk_entries b))" "bk_arrivals b = length (bk_entries b)"
    and "\<And>k e. find_entry b k = Some e \<Longrightarrow> br_entry_ok b k e"
    and "\<And>k e j f. find_entry b k = Some e \<Longrightarrow> find_entry b j = Some f \<Longrightarrow>
      en_arrival e = en_arrival f \<Longrightarrow> k = j"
    and "\<And>k e c. find_entry b k = Some e \<Longrightarrow> c \<in> set (en_children e) \<Longrightarrow> child_ok b e c"
    and "\<And>k e l. find_entry b k = Some e \<Longrightarrow> js_parent_lease (en_spec e) = Some l \<Longrightarrow>
      parent_ok b k e l"
  shows "broker_ok b"
  unfolding broker_ok_def by (intro conjI allI impI) (rule assms; assumption)+

lemma lease_of_inject [simp]: "lease_of e = lease_of f \<longleftrightarrow> en_arrival e = en_arrival f"
  by (simp add: lease_of_def)

lemma lease_of_state [simp]: "lease_of (e\<lparr>en_state := st\<rparr>) = lease_of e"
  "lease_of (e\<lparr>en_grant := g\<rparr>) = lease_of e" "lease_of (e\<lparr>en_children := cs\<rparr>) = lease_of e"
  by (simp_all add: lease_of_def)

lemma grant_ok_state [simp]: "grant_ok (e\<lparr>en_state := st\<rparr>) g = grant_ok e g"
  "grant_ok (e\<lparr>en_grant := g'\<rparr>) g = grant_ok e g" "grant_ok (e\<lparr>en_children := cs\<rparr>) g = grant_ok e g"
  by (simp_all add: grant_ok_def)

lemma broker_ok_cong:
  assumes "bk_entries b' = bk_entries b" "bk_arrivals b' = bk_arrivals b" "broker_ok b"
  shows "broker_ok b'"
proof -
  have eqs: "br_entry_ok b' = br_entry_ok b" "child_ok b' = child_ok b" "parent_ok b' = parent_ok b"
    by (simp_all add: fun_eq_iff br_entry_ok_def child_ok_def parent_ok_def assms(2)
      find_entry_cong [OF assms(1)])
  show ?thesis
    using assms(3) unfolding broker_ok_def eqs assms(1,2) find_entry_cong [OF assms(1)] .
qed

lemma broker_ok_emit [simp]: "broker_ok b \<Longrightarrow> broker_ok (emit clk kind jid d b)"
  by (rule broker_ok_cong [of _ b]) simp_all

text \<open>Two entries never share a child, and the parent of a child is unique.\<close>

lemma same_parent:
  assumes "broker_ok b" "find_entry b p = Some ep" "find_entry b q = Some eq"
    and "c \<in> set (en_children ep)" "c \<in> set (en_children eq)"
  shows "p = q"
  using broker_okD(5) [OF assms(1,2,4)] broker_okD(5) [OF assms(1,3,5)]
    broker_okD(4) [OF assms(1,2,3)]
  by (auto simp: child_ok_def)

lemma live_child_parent_runs:
  assumes "broker_ok b" "find_entry b p = Some ep" "c \<in> set (en_children ep)" "live_in b c"
  shows "en_state ep = Running"
proof -
  obtain ec where ec: "find_entry b c = Some ec" "js_parent_lease (en_spec ec) = Some (lease_of ep)"
    using broker_okD(5) [OF assms(1-3)] by (auto simp: child_ok_def)
  obtain q eq where q: "find_entry b q = Some eq" "lease_of eq = lease_of ep"
    "is_live (en_state ec) \<longrightarrow> en_state eq = Running"
    using broker_okD(6) [OF assms(1) ec] by (auto simp: parent_ok_def)
  have "q = p" using broker_okD(4) [OF assms(1) q(1) assms(2)] q(2) by simp
  then show ?thesis using q assms(2,4) ec(1) by (simp add: live_in_def)
qed

lemma entry_ok_ended:
  assumes "br_entry_ok b k e" "entry_ended D b' k e st" "bk_arrivals b' = bk_arrivals b"
  shows "br_entry_ok b' k (e\<lparr>en_state := st\<rparr>)"
  using assms by (auto simp: br_entry_ok_def entry_ended_def is_live_def)

lemma ended_ok:
  assumes "broker_ok b" "ended D b b'"
  shows "broker_ok b'"
proof (rule broker_okI)
  have frame: "map fst (bk_entries b') = map fst (bk_entries b)" "bk_arrivals b' = bk_arrivals b"
    using assms(2) by (simp_all add: ended_def same_frame_def)
  then show "distinct (map fst (bk_entries b'))" using broker_okD(1) [OF assms(1)] by simp
  have "length (bk_entries b') = length (bk_entries b)"
    using frame(1) by (metis length_map)
  then show "bk_arrivals b' = length (bk_entries b')"
    using frame(2) broker_okD(2) [OF assms(1)] by simp
  show "br_entry_ok b' k e'" if k: "find_entry b' k = Some e'" for k e'
    using assms(2) k
  proof (rule ended_back)
    fix e st assume e: "find_entry b k = Some e" "e' = e\<lparr>en_state := st\<rparr>" "entry_ended D b' k e st"
    then show "br_entry_ok b' k e'"
      using entry_ok_ended [OF broker_okD(3) [OF assms(1) e(1)] e(3) frame(2)] by simp
  qed
  show "k = j"
    if "find_entry b' k = Some e" "find_entry b' j = Some f" "en_arrival e = en_arrival f" for k e j f
    using that broker_okD(4) [OF assms(1)] by (auto elim!: ended_back [OF assms(2)])
  show "child_ok b' e' c"
    if k: "find_entry b' k = Some e'" "c \<in> set (en_children e')" for k e' c
    using assms(2) k(1)
  proof (rule ended_back)
    fix e st assume e: "find_entry b k = Some e" "e' = e\<lparr>en_state := st\<rparr>"
    then obtain ec where "find_entry b c = Some ec" "js_parent_lease (en_spec ec) = Some (lease_of e)"
      "en_arrival e < en_arrival ec"
      using broker_okD(5) [OF assms(1) e(1), of c] k(2) by (auto simp: child_ok_def)
    then show "child_ok b' e' c"
      using e(2) by (auto simp: child_ok_def elim!: endedE [OF assms(2)])
  qed
  show "parent_ok b' k e' l"
    if k: "find_entry b' k = Some e'" "js_parent_lease (en_spec e') = Some l" for k e' l
    using assms(2) k(1)
  proof (rule ended_back)
    fix e st assume e: "find_entry b k = Some e" "e' = e\<lparr>en_state := st\<rparr>" "entry_ended D b' k e st"
    obtain p ep where p: "find_entry b p = Some ep" "en_grant ep \<noteq> None" "lease_of ep = l"
      "k \<in> set (en_children ep)" "is_live (en_state e) \<longrightarrow> en_state ep = Running"
      using broker_okD(6) [OF assms(1) e(1)] k(2) e(2) by (auto simp: parent_ok_def)
    obtain sp where sp: "find_entry b' p = Some (ep\<lparr>en_state := sp\<rparr>)" "entry_ended D b' p ep sp"
      using assms(2) p(1) by (rule endedE)
    have "sp = Running" if live: "is_live st"
    proof -
      have "live_in b' k" using k(1) e(2) live by (simp add: live_in_def)
      then have "sp = en_state ep" using sp(2) p(4) by (auto simp: entry_ended_def)
      moreover have "is_live (en_state e)" using e(3) live by (auto simp: entry_ended_def)
      ultimately show ?thesis using p(5) by simp
    qed
    then show "parent_ok b' k e' l"
      using sp(1) p e(2) unfolding parent_ok_def by (intro exI [of _ p] exI [of _ "ep\<lparr>en_state := sp\<rparr>"]) simp
  qed
qed

lemma below_arrival:
  assumes "broker_ok b" "below b p j" "find_entry b p = Some ep"
  shows "\<exists>ej. find_entry b j = Some ej \<and> en_arrival ep \<le> en_arrival ej"
  using assms(2)
proof induction
  case self
  then show ?case using assms(3) by simp
next
  case (child k e c)
  then show ?case
    using broker_okD(5) [OF assms(1) child.hyps(2,3)] by (auto simp: child_ok_def)
qed

lemma not_below_child:
  assumes "broker_ok b" "find_entry b p = Some ep" "c \<in> set (en_children ep)"
  shows "\<not> below b c p"
proof
  assume "below b c p"
  obtain ec where "find_entry b c = Some ec" "en_arrival ep < en_arrival ec"
    using broker_okD(5) [OF assms] by (auto simp: child_ok_def)
  then show False
    using below_arrival [OF assms(1) \<open>below b c p\<close>] assms(2) by fastforce
qed

text \<open>Once an entry is no longer live, nothing below it is.\<close>

lemma dead_below:
  assumes "broker_ok b" "\<not> live_in b p" "below b p j"
  shows "\<not> live_in b j"
  using assms(3)
proof induction
  case self
  show ?case by (rule assms(2))
next
  case (child k e c)
  then show ?case
    using live_child_parent_runs [OF assms(1) child.hyps(2,3)] by (auto simp: live_in_def is_live_def)
qed

text \<open>Ending an entry.\<close>

definition ends :: "unit br_outcome \<Rightarrow> string set \<Rightarrow> broker \<Rightarrow> (broker \<Rightarrow> bool) \<Rightarrow> bool" where
  "ends r D b P \<longleftrightarrow> (\<exists>b'. r = (Inr (), b') \<and> ended D b b' \<and> P b')"

lemma endsI: "r = (Inr (), b') \<Longrightarrow> ended D b b' \<Longrightarrow> P b' \<Longrightarrow> ends r D b P"
  unfolding ends_def by blast

lemma endsE:
  assumes "ends r D b P"
  obtains b' where "r = (Inr (), b')" "ended D b b'" "P b'"
  using assms unfolding ends_def by blast

lemma end_self:
  assumes "find_entry b k = Some e" "is_live (en_state e)" "\<not> is_live st" "k \<in> D"
    and "\<forall>c\<in>set (en_children e). \<not> live_in b c"
  shows "ended D b (modify k (\<lambda>x. x\<lparr>en_state := st\<rparr>) b)"
proof -
  let ?b = "modify k (\<lambda>x. x\<lparr>en_state := st\<rparr>) b"
  have dead: "\<not> live_in b c \<Longrightarrow> \<not> live_in ?b c" for c
    using assms(3) by (auto simp: live_in_def split: option.splits)
  have "\<exists>s. find_entry ?b j = Some (f\<lparr>en_state := s\<rparr>) \<and> entry_ended D ?b j f s"
    if "find_entry b j = Some f" for j f
  proof (cases "j = k")
    case True
    then show ?thesis
      using that assms dead by (intro exI [of _ st]) (auto simp: entry_ended_def)
  next
    case False
    then show ?thesis
      using that by (intro exI [of _ "en_state f"]) (simp add: entry_ended_def)
  qed
  then show ?thesis by (simp add: ended_def same_frame_def)
qed

definition all_end :: "unit br_outcome \<Rightarrow> string list \<Rightarrow> broker \<Rightarrow> bool" where
  "all_end r cs b \<longleftrightarrow> ends r {j. \<exists>c\<in>set cs. below b c j} b (\<lambda>b'. \<forall>c\<in>set cs. \<not> live_in b' c)"

definition one_ends :: "unit br_outcome \<Rightarrow> string \<Rightarrow> entry_state \<Rightarrow> broker \<Rightarrow> bool" where
  "one_ends r k st b \<longleftrightarrow> ends r {j. below b k j} b
     (\<lambda>b'. find_entry b' k = map_option (\<lambda>e. e\<lparr>en_state := st\<rparr>) (find_entry b k))"

lemma end_job_Suc:
  assumes "broker_ok b" "find_entry b jid = Some e" "is_live (en_state e)" "\<not> is_live st"
    and "all_end (end_children clk n st (en_children e) b) (en_children e) b"
  shows "one_ends (end_job clk (Suc n) jid st kind d b) jid st b"
proof -
  let ?D = "{j. \<exists>c\<in>set (en_children e). below b c j}"
  obtain b1 where b1: "end_children clk n st (en_children e) b = (Inr (), b1)" "ended ?D b b1"
    "\<forall>c\<in>set (en_children e). \<not> live_in b1 c"
    using assms(5) unfolding all_end_def by (rule endsE)
  have self1: "find_entry b1 jid = Some e"
    using b1(2) assms(2)
  proof (rule endedE)
    fix s assume "find_entry b1 jid = Some (e\<lparr>en_state := s\<rparr>)" "entry_ended ?D b1 jid e s"
    then show "find_entry b1 jid = Some e"
      using not_below_child [OF assms(1,2)] by (auto simp: entry_ended_def)
  qed
  let ?b2 = "modify jid (\<lambda>x. x\<lparr>en_state := st\<rparr>) b1"
  have "ended {j. below b jid j} b b1"
    using b1(2) by (rule ended_mono) (auto intro: below_child [OF assms(2)])
  moreover have "ended {j. below b jid j} b1 ?b2"
    using self1 assms(3,4) b1(3) by (intro end_self) (auto intro: below.self)
  ultimately have "ended {j. below b jid j} b (emit clk kind (Some jid) d ?b2)"
    by (intro ended_emit) (rule ended_trans)
  then show ?thesis
    unfolding one_ends_def by (rule endsI [rotated]) (use assms(2) b1(1) self1 in simp_all)
qed

lemma end_children_Cons:
  assumes "end_children clk n st (c # cs) b = end_children clk n st cs b1"
    and "ended {j. below b c j} b b1" "\<not> live_in b1 c"
    and "all_end (end_children clk n st cs b1) cs b1"
  shows "all_end (end_children clk n st (c # cs) b) (c # cs) b"
proof -
  let ?D = "{j. \<exists>c\<in>set (c # cs). below b c j}"
  obtain b2 where b2: "end_children clk n st cs b1 = (Inr (), b2)"
    "ended {j. \<exists>c\<in>set cs. below b1 c j} b1 b2" "\<forall>c\<in>set cs. \<not> live_in b2 c"
    using assms(4) unfolding all_end_def by (rule endsE)
  have "ended ?D b b1"
    using assms(2) by (rule ended_mono) auto
  moreover have "ended ?D b1 b2"
    using b2(2) by (rule ended_mono) (auto simp: below_ended [OF assms(2)])
  ultimately have "ended ?D b b2" by (rule ended_trans)
  then show ?thesis
    unfolding all_end_def
    by (rule endsI [rotated]) (use assms(1,3) b2(1,3) ended_live [OF b2(2)] in auto)
qed

text \<open>\<open>n\<close> is enough fuel for an entry when fewer than \<open>n\<close> entries can have arrived after it.\<close>

definition fuel_for :: "broker \<Rightarrow> string \<Rightarrow> nat \<Rightarrow> bool" where
  "fuel_for b k n \<longleftrightarrow> (\<exists>e. find_entry b k = Some e \<and> bk_arrivals b - en_arrival e < n)"

lemma fuel_for_child:
  assumes "broker_ok b" "find_entry b k = Some e" "fuel_for b k (Suc n)" "c \<in> set (en_children e)"
  shows "fuel_for b c n"
proof -
  obtain ec where ec: "find_entry b c = Some ec" "en_arrival e < en_arrival ec"
    using broker_okD(5) [OF assms(1,2,4)] by (auto simp: child_ok_def)
  then have "en_arrival ec \<le> bk_arrivals b"
    using broker_okD(3) [OF assms(1)] by (simp add: br_entry_ok_def)
  then show ?thesis using ec assms(2,3) by (auto simp: fuel_for_def)
qed

lemma fuel_for_ended:
  assumes "ended D b b'" "fuel_for b k n"
  shows "fuel_for b' k n"
proof -
  obtain e where e: "find_entry b k = Some e" "bk_arrivals b - en_arrival e < n"
    using assms(2) by (auto simp: fuel_for_def)
  moreover have "bk_arrivals b' = bk_arrivals b"
    using assms(1) by (simp add: ended_def same_frame_def)
  ultimately show ?thesis
    unfolding fuel_for_def by (auto intro: endedE [OF assms(1) e(1)])
qed

lemma fuel_for_all:
  assumes "broker_ok b" "find_entry b k = Some e"
  shows "fuel_for b k (length (bk_entries b))"
  using broker_okD(2) [OF assms(1)] broker_okD(3) [OF assms] assms(2)
  by (auto simp: fuel_for_def br_entry_ok_def)

lemma end_job_ends:
  "broker_ok b \<Longrightarrow> live_in b jid \<Longrightarrow> \<not> is_live st \<Longrightarrow> fuel_for b jid n \<Longrightarrow>
    one_ends (end_job clk n jid st kind d b) jid st b"
  "broker_ok b \<Longrightarrow> (\<And>c. c \<in> set cs \<Longrightarrow> fuel_for b c n) \<Longrightarrow>
    all_end (end_children clk n st cs b) cs b"
proof (induction clk n jid st kind d b and clk n st cs b rule: end_job_end_children.induct)
  case (1 clk jid st kind detail b)
  then show ?case by (simp add: fuel_for_def)
next
  case (2 clk n jid st kind detail b)
  then obtain e where e: "find_entry b jid = Some e" "is_live (en_state e)"
    by (auto simp: live_in_def split: option.splits)
  show ?case
    using "2.IH" [OF e(1) "2.prems"(1) fuel_for_child [OF "2.prems"(1) e(1) "2.prems"(4)]]
    by (intro end_job_Suc [OF "2.prems"(1) e "2.prems"(3)])
next
  case (3 clk n st b)
  then show ?case by (auto simp: all_end_def intro!: endsI)
next
  case (4 clk n st c cs b)
  obtain ec where ec: "find_entry b c = Some ec"
    using "4.prems"(2) [of c] by (auto simp: fuel_for_def)
  show ?case
  proof (cases "is_live (en_state ec)")
    case True
    have "one_ends (end_job clk n c (child_state st) (child_kind st)
        [(''reason'', DStr (child_reason st))] b) c (child_state st) b"
      by (rule "4.IH"(1) [OF ec True "4.prems"(1)])
        (use ec True "4.prems"(2) in \<open>auto simp: live_in_def is_live_def\<close>)
    then obtain b1 where b1: "end_job clk n c (child_state st) (child_kind st)
        [(''reason'', DStr (child_reason st))] b = (Inr (), b1)" "ended {j. below b c j} b b1"
      "find_entry b1 c = Some (ec\<lparr>en_state := child_state st\<rparr>)"
      unfolding one_ends_def using ec by (auto elim: endsE)
    have "all_end (end_children clk n st cs b1) cs b1"
      by (rule "4.IH"(2) [OF ec True b1(1) [symmetric] refl ended_ok [OF "4.prems"(1) b1(2)]
          fuel_for_ended [OF b1(2) "4.prems"(2)]]) simp
    then show ?thesis
      by (rule end_children_Cons [OF _ b1(2), rotated 2])
        (use ec True b1(1,3) in \<open>simp_all add: live_in_def is_live_def\<close>)
  next
    case False
    have "all_end (end_children clk n st cs b) cs b"
      by (rule "4.IH"(3) [OF ec False "4.prems"(1) "4.prems"(2)]) simp
    then show ?thesis
      by (rule end_children_Cons [OF _ ended_refl, rotated 2])
        (use ec False in \<open>simp_all add: live_in_def\<close>)
  qed
qed

lemma end_entry_ends:
  assumes "broker_ok b" "find_entry b jid = Some e" "is_live (en_state e)" "\<not> is_live st"
  obtains b' where "end_entry clk jid st kind d b = (Inr (), b')" "ended {j. below b jid j} b b'"
    "find_entry b' jid = Some (e\<lparr>en_state := st\<rparr>)"
proof -
  have "one_ends (end_entry clk jid st kind d b) jid st b"
    unfolding end_entry_def
    by (rule end_job_ends(1) [OF assms(1) _ assms(4) fuel_for_all [OF assms(1,2)]])
      (simp add: live_in_def assms(2,3))
  then show thesis
    unfolding one_ends_def by (rule endsE) (auto simp: assms(2) intro: that)
qed

end

end
