(* ===== verification/Br_Refine.thy ===== *)
theory Br_Refine
  imports Br_Laws
begin

text \<open>
  The broker as a family of accounts: the host budget, drawn on by the top-level jobs, and the grant
  of every lease, drawn on by the jobs nested in it. \<open>book b a\<close> is what the members of account
  \<open>a\<close> hold in \<open>b\<close>. \<open>refines tol b b'\<close>: between \<open>b\<close> and \<open>b'\<close> every account went through steps of
  the abstract ledger only. Here: the amounts the code computes with \<^verbatim>\<open>_in_use\<close> and
  \<^verbatim>\<open>_children_in_use\<close> are what the account uses, and an admission is a ledger step.
\<close>

definition holding :: "broker \<Rightarrow> string \<Rightarrow> capacity option" where
  "holding b k = (case find_entry b k of None \<Rightarrow> None | Some e \<Rightarrow>
     if en_state e = Running then map_option gr_amounts (en_grant e) else None)"

definition account_members :: "broker \<Rightarrow> string option \<Rightarrow> string set" where
  "account_members b a = (case a of
     None \<Rightarrow> fst ` set (filter (\<lambda>(k, e). js_parent_lease (en_spec e) = None) (bk_entries b))
   | Some p \<Rightarrow> (case find_entry b p of None \<Rightarrow> {} | Some e \<Rightarrow> set (en_children e)))"

definition book :: "broker \<Rightarrow> string option \<Rightarrow> account" where
  "book b a = (account_members b a, \<lambda>k. if k \<in> account_members b a then holding b k else None)"

definition total_of :: "broker \<Rightarrow> string option \<Rightarrow> capacity option" where
  "total_of b a = (case a of None \<Rightarrow> Some (bk_budget b)
     | Some p \<Rightarrow> Option.bind (find_entry b p) (\<lambda>e. map_option gr_amounts (en_grant e)))"

text \<open>An account goes through ledger steps, from its book before or, when it is new, from nothing.\<close>

definition book_before :: "broker \<Rightarrow> string option \<Rightarrow> account" where
  "book_before b a = (if total_of b a = None then ({}, \<lambda>_. None) else book b a)"

definition refines :: "rat \<Rightarrow> broker \<Rightarrow> broker \<Rightarrow> bool" where
  "refines tol b b' \<longleftrightarrow> (\<forall>a tot. total_of b a = Some tot \<longrightarrow> total_of b' a = Some tot) \<and>
     (\<forall>a tot. total_of b' a = Some tot \<longrightarrow> (ledger_step tol tot)\<^sup>*\<^sup>* (book_before b a) (book b' a))"

lemma refinesD:
  assumes "refines tol b b'"
  shows "total_of b a = Some tot \<Longrightarrow> total_of b' a = Some tot"
    and "total_of b' a = Some tot \<Longrightarrow> (ledger_step tol tot)\<^sup>*\<^sup>* (book_before b a) (book b' a)"
  using assms unfolding refines_def by blast+

lemma refines_refl [simp]: "refines tol b b"
  by (simp add: refines_def book_before_def)

lemma refines_trans:
  assumes "refines tol b b1" "refines tol b1 b2"
  shows "refines tol b b2"
proof -
  have "(ledger_step tol tot)\<^sup>*\<^sup>* (book_before b a) (book b2 a)" if tot: "total_of b2 a = Some tot" for a tot
  proof (cases "total_of b1 a")
    case None
    then have "total_of b a = None" using assms(1) by (cases "total_of b a") (auto simp: refines_def)
    then show ?thesis
      using refinesD(2) [OF assms(2) tot] None by (simp add: book_before_def)
  next
    case (Some t)
    then have "t = tot" using assms(2) tot by (auto simp: refines_def)
    then have "(ledger_step tol tot)\<^sup>*\<^sup>* (book_before b a) (book b1 a)"
      "(ledger_step tol tot)\<^sup>*\<^sup>* (book b1 a) (book b2 a)"
      using refinesD(2) [OF assms(1) Some] refinesD(2) [OF assms(2) tot] Some
      by (simp_all add: book_before_def)
    then show ?thesis by (rule rtranclp_trans)
  qed
  then show ?thesis using assms by (simp add: refines_def)
qed

text \<open>A change that opens no account.\<close>

lemma refinesI:
  assumes "\<And>a tot. total_of b a = Some tot \<Longrightarrow>
      total_of b' a = Some tot \<and> (ledger_step tol tot)\<^sup>*\<^sup>* (book b a) (book b' a)"
    and "\<And>a. total_of b a = None \<Longrightarrow> total_of b' a = None \<or> book b' a = ({}, \<lambda>_. None)"
  shows "refines tol b b'"
proof -
  have "(ledger_step tol tot)\<^sup>*\<^sup>* (book_before b a) (book b' a)" if tot: "total_of b' a = Some tot" for a tot
    using assms(1) [of a] assms(2) [of a] tot
    by (cases "total_of b a") (auto simp: book_before_def)
  then show ?thesis using assms(1) by (simp add: refines_def)
qed

lemma members_host: "distinct (map fst (bk_entries b)) \<Longrightarrow>
  k \<in> account_members b None \<longleftrightarrow> (\<exists>e. find_entry b k = Some e \<and> js_parent_lease (en_spec e) = None)"
  by (force simp: account_members_def find_entry_set)

lemma members_nested: "find_entry b p = Some e \<Longrightarrow> account_members b (Some p) = set (en_children e)"
  by (simp add: account_members_def)

lemma finite_members [simp]: "finite (account_members b a)"
  by (auto simp: account_members_def split: option.splits)

lemma book_cong:
  assumes "bk_entries b' = bk_entries b" "bk_budget b' = bk_budget b"
  shows "book b' = book b" "total_of b' = total_of b"
  unfolding fun_eq_iff book_def account_members_def holding_def total_of_def assms
    find_entry_cong [OF assms(1)] by (rule allI refl)+

lemma refines_cong:
  assumes "bk_entries b' = bk_entries b" "bk_budget b' = bk_budget b"
  shows "refines tol b b'" "refines tol b' b"
  by (simp_all add: refines_def book_before_def book_cong [OF assms])

section \<open>The dimensions of a capacity\<close>

locale dimension =
  fixes f :: "capacity \<Rightarrow> 'a::linordered_idom"
  assumes zero: "f ZERO = 0"
    and nonneg: "capacity_ok c \<Longrightarrow> 0 \<le> f c"
    and add: "distinct (map fst (cap_pools c)) \<Longrightarrow> f (cap_add u c) = f u + f c"
    and sub: "distinct (map fst (cap_pools c)) \<Longrightarrow> f (cap_sub u c) = f u - f c"
begin

text \<open>What a fold of grants adds up to.\<close>

lemma fold_grants:
  assumes "\<And>e g. e \<in> set es \<Longrightarrow> en_grant e = Some g \<Longrightarrow> distinct (map fst (cap_pools (gr_amounts g)))"
  shows "f (foldl add_grant u es) =
    f u + (\<Sum>e\<leftarrow>es. case en_grant e of None \<Rightarrow> 0 | Some g \<Rightarrow> f (gr_amounts g))"
  using assms
proof (induction es arbitrary: u)
  case Nil
  then show ?case by simp
next
  case (Cons e es)
  have "f (add_grant u e) = f u + (case en_grant e of None \<Rightarrow> 0 | Some g \<Rightarrow> f (gr_amounts g))"
    using Cons.prems [of e] by (simp add: add_grant_def add split: option.splits)
  moreover have "f (foldl add_grant (add_grant u e) es) = f (add_grant u e) +
    (\<Sum>e\<leftarrow>es. case en_grant e of None \<Rightarrow> 0 | Some g \<Rightarrow> f (gr_amounts g))"
    by (rule Cons.IH) (rule Cons.prems, simp_all)
  ultimately show ?case by (simp add: add.assoc)
qed

end

interpretation cpu: dimension cap_cpu
  by unfold_locales (simp_all add: ZERO_def cap_add_def cap_sub_def capacity_ok_def)

interpretation memory: dimension cap_memory
  by unfold_locales (simp_all add: ZERO_def cap_add_def cap_sub_def capacity_ok_def)

interpretation pool: dimension "pool_in name" for name
  by unfold_locales
    (simp_all add: pool_in_def ZERO_def cap_add_def cap_sub_def pool_get_pools_add pool_get_pools_sub
      capacity_ok_def pool_get_nonneg)

definition tidy :: "broker \<Rightarrow> bool" where
  "tidy b \<longleftrightarrow> distinct (map fst (bk_entries b)) \<and> (\<forall>k e g. find_entry b k = Some e \<longrightarrow>
     en_grant e = Some g \<longrightarrow> distinct (map fst (cap_pools (gr_amounts g))))"

lemma foldl_add_grant_distinct:
  "distinct (map fst (cap_pools u)) \<Longrightarrow> distinct (map fst (cap_pools (foldl add_grant u es)))"
  by (induction es arbitrary: u) (auto simp: add_grant_def cap_add_def pools_add_distinct split: option.splits)

definition draws :: "capacity \<Rightarrow> broker \<Rightarrow> string option \<Rightarrow> bool" where
  "draws u b a \<longleftrightarrow> distinct (map fst (cap_pools u)) \<and> cap_cpu u = used cap_cpu (book b a) \<and>
     cap_memory u = used cap_memory (book b a) \<and> (\<forall>name. pool_in name u = used (pool_in name) (book b a))"

text \<open>\<^verbatim>\<open>_in_use\<close> is what the host account uses.\<close>

lemma sum_entries:
  assumes "distinct (map fst d)"
  shows "(\<Sum>e\<leftarrow>map snd (filter P d). (g e :: 'a::ab_group_add)) =
    (\<Sum>k\<in>fst ` set (filter P d). g (the (map_of d k)))"
proof -
  have dist: "distinct (map fst (filter P d))" using assms by (rule distinct_map_filter)
  have "(\<Sum>e\<leftarrow>map snd (filter P d). g e) = (\<Sum>x\<leftarrow>filter P d. g (snd x))"
    by (simp add: o_def)
  also have "\<dots> = (\<Sum>x\<in>set (filter P d). g (snd x))"
    using dist by (intro sum_list_distinct_conv_sum_set) (rule distinct_map [THEN iffD1, THEN conjunct1])
  also have "\<dots> = (\<Sum>x\<in>set (filter P d). g (the (map_of d (fst x))))"
    using assms by (intro sum.cong) auto
  also have "\<dots> = (\<Sum>k\<in>fst ` set (filter P d). g (the (map_of d k)))"
    using dist by (subst sum.reindex) (simp_all add: distinct_map)
  finally show ?thesis .
qed

lemma used_book: "used f (book b a) = (\<Sum>k\<in>account_members b a. case holding b k of None \<Rightarrow> 0 | Some c \<Rightarrow> f c)"
  unfolding used_def book_def fst_conv by (rule sum.cong) (simp_all add: held_def)

definition held_by :: "(capacity \<Rightarrow> 'a::comm_monoid_add) \<Rightarrow> br_entry \<Rightarrow> 'a" where
  "held_by f e = (if en_state e = Running then case en_grant e of None \<Rightarrow> 0 | Some g \<Rightarrow> f (gr_amounts g)
     else 0)"

lemma held_by_holding:
  "find_entry b k = Some e \<Longrightarrow> held_by f e = (case holding b k of None \<Rightarrow> 0 | Some c \<Rightarrow> f c)"
  by (simp add: held_by_def holding_def split: option.splits)

lemma grants_distinct:
  assumes "tidy b" "e \<in> set (br_entries b)" "en_grant e = Some g"
  shows "distinct (map fst (cap_pools (gr_amounts g)))"
proof -
  have "distinct (map fst (bk_entries b))" using assms(1) by (simp add: tidy_def)
  then obtain k where "find_entry b k = Some e"
    using assms(2) by (auto simp: br_entries_def find_entry_set)
  then show ?thesis using assms(1,3) unfolding tidy_def by blast
qed

lemma host_sum:
  "(\<Sum>e\<leftarrow>filter host_running (map snd d). case en_grant e of None \<Rightarrow> 0 | Some g \<Rightarrow> f (gr_amounts g)) =
    (\<Sum>e\<leftarrow>map snd (filter (\<lambda>(k, e). js_parent_lease (en_spec e) = None) d).
      (held_by f e :: 'a::comm_monoid_add))"
  by (induction d) (auto simp: host_running_def held_by_def split: option.splits)

context dimension
begin

lemma in_use_used:
  assumes "tidy b"
  shows "f (in_use b) = used f (book b None)"
proof -
  let ?host = "\<lambda>(k, e). js_parent_lease (en_spec e) = None"
  have d: "distinct (map fst (bk_entries b))" using assms by (simp add: tidy_def)
  have "f (in_use b) = (\<Sum>e\<leftarrow>filter host_running (br_entries b).
      case en_grant e of None \<Rightarrow> 0 | Some g \<Rightarrow> f (gr_amounts g))"
    unfolding in_use_def
    by (subst fold_grants) (auto simp: zero intro: grants_distinct [OF assms])
  also have "\<dots> = (\<Sum>e\<leftarrow>map snd (filter ?host (bk_entries b)). held_by f e)"
    unfolding br_entries_def
    by (rule host_sum)
  also have "\<dots> = (\<Sum>k\<in>account_members b None. held_by f (the (find_entry b k)))"
    unfolding account_members_def find_entry_def option.case by (rule sum_entries [OF d])
  also have "\<dots> = used f (book b None)"
    unfolding used_book
    by (rule sum.cong) (auto simp: members_host [OF d] held_by_holding)
  finally show ?thesis .
qed

lemma children_from_sum:
  assumes "tidy b" "\<And>c. c \<in> set cs \<Longrightarrow> find_entry b c \<noteq> None"
  shows "\<exists>v. children_in_use_from b u cs = Inr v \<and>
    f v = f u + (\<Sum>c\<leftarrow>cs. held_by f (the (find_entry b c)))"
  using assms(2)
proof (induction cs arbitrary: u)
  case Nil
  then show ?case by simp
next
  case (Cons c cs)
  obtain e where e: "find_entry b c = Some e" using Cons.prems [of c] by auto
  let ?u = "if en_state e = Running then add_grant u e else u"
  have u: "f ?u = f u + held_by f e"
    using assms(1) e unfolding tidy_def
    by (auto simp: held_by_def add_grant_def add split: option.splits)
  obtain v where "children_in_use_from b ?u cs = Inr v"
    "f v = f ?u + (\<Sum>c\<leftarrow>cs. held_by f (the (find_entry b c)))"
    using Cons.IH [of ?u] Cons.prems by auto
  then show ?case using e u by (simp add: add.assoc)
qed

lemma children_used:
  assumes "tidy b" "find_entry b p = Some ep" "distinct (en_children ep)"
    and found: "\<And>c. c \<in> set (en_children ep) \<Longrightarrow> find_entry b c \<noteq> None"
    and "children_in_use b ep = Inr u"
  shows "f u = used f (book b (Some p))"
proof -
  have "f u = (\<Sum>c\<leftarrow>en_children ep. held_by f (the (find_entry b c)))"
    using children_from_sum [OF assms(1) found, of "en_children ep" ZERO] assms(5)
    by (auto simp: children_in_use_def zero)
  also have "\<dots> = (\<Sum>c\<in>set (en_children ep). held_by f (the (find_entry b c)))"
    using assms(3) by (rule sum_list_distinct_conv_sum_set)
  also have "\<dots> = used f (book b (Some p))"
    unfolding used_book members_nested [OF assms(2)]
  proof (rule sum.cong)
    fix c assume "c \<in> set (en_children ep)"
    then obtain e where "find_entry b c = Some e" using found by auto
    then show "held_by f (the (find_entry b c)) = (case holding b c of None \<Rightarrow> 0 | Some c \<Rightarrow> f c)"
      by (simp add: held_by_holding)
  qed simp
  finally show ?thesis .
qed

end

text \<open>So both computed amounts are what their account draws, and the second never fails.\<close>

lemma children_from_distinct:
  "distinct (map fst (cap_pools u)) \<Longrightarrow> children_in_use_from b u cs = Inr v \<Longrightarrow>
    distinct (map fst (cap_pools v))"
  by (induction b u cs rule: children_in_use_from.induct)
    (auto simp: add_grant_def cap_add_def pools_add_distinct split: option.splits if_splits)

context lease_book
begin

text \<open>A job draws on one account only.\<close>

lemma one_account:
  assumes "broker_ok b" "k \<in> account_members b a" "k \<in> account_members b a'"
  shows "a = a'"
proof -
  note d = broker_okD(1) [OF assms(1)]
  have nested: "\<exists>ec l. find_entry b k = Some ec \<and> js_parent_lease (en_spec ec) = Some l"
    if p: "k \<in> account_members b (Some p)" for p
  proof -
    obtain ep where "find_entry b p = Some ep" "k \<in> set (en_children ep)"
      using p by (auto simp: account_members_def split: option.splits)
    then show ?thesis
      using broker_okD(5) [OF assms(1)] unfolding child_ok_def by blast
  qed
  have same: "p = q" if "k \<in> account_members b (Some p)" "k \<in> account_members b (Some q)" for p q
    using that same_parent [OF assms(1)] by (auto simp: account_members_def split: option.splits)
  have apart: "k \<notin> account_members b (Some p)" if "k \<in> account_members b None" for p
    using that nested [of p] members_host [OF d, of k] by auto
  show ?thesis
    using assms(2,3) same apart by (cases a; cases a') auto
qed

lemma grant_bounds:
  assumes "broker_ok b" "find_entry b k = Some e" "en_grant e = Some g"
  shows "- tol \<le> cap_cpu (gr_amounts g)" "0 \<le> cap_memory (gr_amounts g)"
    and "pools_ok (cap_pools (gr_amounts g))"
  using broker_okD(3) [OF assms(1,2)] assms(3) sized_bounds [of "en_spec e" "gr_amounts g"]
  by (auto simp: br_entry_ok_def grant_ok_def)

lemma broker_ok_tidy: "broker_ok b \<Longrightarrow> tidy b"
  unfolding tidy_def using broker_okD(1) grant_bounds(3) by (auto simp: pools_ok_def)

lemma in_use_draws:
  assumes "broker_ok b"
  shows "draws (in_use b) b None"
  unfolding draws_def
  using foldl_add_grant_distinct [of ZERO "filter host_running (br_entries b)"]
    cpu.in_use_used [OF broker_ok_tidy [OF assms]] memory.in_use_used [OF broker_ok_tidy [OF assms]]
    pool.in_use_used [OF broker_ok_tidy [OF assms]]
  by (simp add: in_use_def ZERO_def)

lemma children_in_use_draws:
  assumes "broker_ok b" "find_entry b p = Some ep"
  obtains u where "children_in_use b ep = Inr u" "draws u b (Some p)"
proof -
  note tidy = broker_ok_tidy [OF assms(1)]
  have found: "find_entry b c \<noteq> None" if "c \<in> set (en_children ep)" for c
    using broker_okD(5) [OF assms that] by (auto simp: child_ok_def)
  have dist: "distinct (en_children ep)"
    using broker_okD(3) [OF assms] by (simp add: br_entry_ok_def)
  obtain u where u: "children_in_use b ep = Inr u"
    using cpu.children_from_sum [OF tidy found, of "en_children ep" ZERO]
    by (auto simp: children_in_use_def)
  moreover have "draws u b (Some p)"
    unfolding draws_def
    using children_from_distinct [of ZERO b "en_children ep" u] u
      cpu.children_used [OF tidy assms(2) dist found u]
      memory.children_used [OF tidy assms(2) dist found u]
      pool.children_used [OF tidy assms(2) dist found u]
    by (simp add: children_in_use_def ZERO_def)
  ultimately show thesis by (rule that)
qed

end

end
