(* ===== verification/Br_Steps.thy ===== *)
theory Br_Steps
  imports Br_Refine
begin

text \<open>
  The three ways the entries of an engine change, for any engine that keeps \<open>broker_ok\<close>: a job is
  queued (\<open>enrolled\<close>), a lease starts (\<open>started\<close>), leases end (\<open>ended\<close>). Each keeps the invariant and is a
  step of the ledger of every account.
\<close>

definition account_of :: "broker \<Rightarrow> br_entry \<Rightarrow> string option" where
  "account_of b e = (if js_parent_lease (en_spec e) = None then None
     else case lease_parent b (en_spec e) of Inl _ \<Rightarrow> None | Inr ep \<Rightarrow> Some (js_job_id (en_spec ep)))"


section \<open>A lease starts\<close>

text \<open>\<open>started k g b b'\<close>: the entry \<open>k\<close> of \<open>b\<close> runs in \<open>b'\<close> with the grant \<open>g\<close>; nothing else differs.\<close>

definition started :: "string \<Rightarrow> grant \<Rightarrow> broker \<Rightarrow> broker \<Rightarrow> bool" where
  "started k g b b' \<longleftrightarrow> same_frame b b' \<and> (\<forall>j. find_entry b' j = (if j = k
     then map_option (\<lambda>e. e\<lparr>en_grant := Some g, en_state := Running\<rparr>) (find_entry b k) else find_entry b j))"

lemma startedD:
  assumes "started k g b b'" "find_entry b k = Some e"
  shows "find_entry b' j = (if j = k then Some (e\<lparr>en_grant := Some g, en_state := Running\<rparr>) else find_entry b j)"
    and "same_frame b b'"
  using assms unfolding started_def by simp_all

definition takes :: "rat \<Rightarrow> capacity \<Rightarrow> account \<Rightarrow> capacity \<Rightarrow> bool" where
  "takes tol tot acc c \<longleftrightarrow> used cap_cpu acc + cap_cpu c \<le> cap_cpu tot + tol \<and>
     used cap_memory acc + cap_memory c \<le> cap_memory tot \<and>
     (\<forall>name. pool_in name c = 0 \<or> used (pool_in name) acc + pool_in name c \<le> pool_in name tot)"

context lease_book
begin

lemma started_ok:
  assumes "broker_ok b" "find_entry b k = Some e" "en_state e = Queued" "grant_ok e g"
    and st: "started k g b b'"
  shows "broker_ok b'"
proof (rule broker_okI)
  have ok: "br_entry_ok b k e" using broker_okD(3) [OF assms(1,2)] .
  have nochild: "en_children e = []" using ok assms(3) by (simp add: br_entry_ok_def)
  note find' = startedD(1) [OF st assms(2)]
  have frame: "map fst (bk_entries b') = map fst (bk_entries b)" "bk_arrivals b' = bk_arrivals b"
    using startedD(2) [OF st assms(2)] by (simp_all add: same_frame_def)
  then have "length (bk_entries b') = length (bk_entries b)" by (metis length_map)
  then show "distinct (map fst (bk_entries b'))" "bk_arrivals b' = length (bk_entries b')"
    using frame broker_okD(1,2) [OF assms(1)] by simp_all
  show "br_entry_ok b' j f" if f: "find_entry b' j = Some f" for j f
  proof (cases "j = k")
    case True
    then show ?thesis using f find' ok assms(4) frame(2) by (auto simp: br_entry_ok_def)
  next
    case False
    then show ?thesis
      using f find' broker_okD(3) [OF assms(1), of j f] frame(2) by (simp add: br_entry_ok_def)
  qed
  show "j = i" if "find_entry b' j = Some f" "find_entry b' i = Some f'" "en_arrival f = en_arrival f'"
    for j f i f'
    using that broker_okD(4) [OF assms(1)] assms(2) unfolding find' by (auto split: if_splits)
  show "child_ok b' f c" if f: "find_entry b' j = Some f" "c \<in> set (en_children f)" for j f c
  proof -
    have "find_entry b j = Some f"
      using f nochild unfolding find' by (auto split: if_splits)
    then have "child_ok b f c" using broker_okD(5) [OF assms(1)] f(2) by blast
    then show ?thesis using assms(2) unfolding child_ok_def find' by auto
  qed
  show "parent_ok b' j f l" if f: "find_entry b' j = Some f" "js_parent_lease (en_spec f) = Some l"
    for j f l
  proof -
    obtain f0 where f0: "find_entry b j = Some f0" "en_spec f0 = en_spec f"
      "is_live (en_state f) \<longrightarrow> is_live (en_state f0)"
      using f(1) assms(2,3) unfolding find' by (auto simp: is_live_def split: if_splits)
    obtain q eq where q: "find_entry b q = Some eq" "en_grant eq \<noteq> None" "lease_of eq = l"
      "j \<in> set (en_children eq)" "is_live (en_state f0) \<longrightarrow> en_state eq = Running"
      using broker_okD(6) [OF assms(1) f0(1)] f(2) f0(2) by (auto simp: parent_ok_def)
    have "q \<noteq> k" using q(1,4) assms(2) nochild by auto
    then show ?thesis using q f0(3) unfolding parent_ok_def find' by auto
  qed
qed

lemma started_members:
  assumes "broker_ok b" "find_entry b k = Some e" and st: "started k g b b'"
  shows "account_members b' = account_members b"
proof
  fix a
  note find' = startedD(1) [OF st assms(2)]
  have "distinct (map fst (bk_entries b'))"
    using broker_okD(1) [OF assms(1)] startedD(2) [OF st assms(2)] by (simp add: same_frame_def)
  then have "j \<in> account_members b' None \<longleftrightarrow> j \<in> account_members b None" for j
    using assms(2) by (simp add: members_host broker_okD(1) [OF assms(1)] find')
  then show "account_members b' a = account_members b a"
    using assms(2) by (cases a) (auto simp: account_members_def find' split: option.splits)
qed

text \<open>A start is one step of the job's account and no step of any other.\<close>

lemma started_book:
  assumes "broker_ok b" "find_entry b k = Some e" "k \<in> account_members b a0"
    and st: "started k g b b'"
  shows "book b' a = (if a = a0 then (account_members b a, (snd (book b a))(k \<mapsto> gr_amounts g))
    else book b a)"
proof -
  have "holding b' j = (if j = k then Some (gr_amounts g) else holding b j)" for j
    using startedD(1) [OF st assms(2), of j] by (simp add: holding_def)
  moreover have "k \<in> account_members b a \<longleftrightarrow> a = a0"
    using one_account [OF assms(1) _ assms(3)] assms(3) by blast
  ultimately show ?thesis
    unfolding book_def started_members [OF assms(1,2) st] snd_conv
    by (cases "a = a0") (simp_all add: fun_eq_iff)
qed

lemma started_total:
  assumes "broker_ok b" "find_entry b k = Some e" "en_state e = Queued" and st: "started k g b b'"
  shows "total_of b a = Some tot \<Longrightarrow> total_of b' a = Some tot"
    and "total_of b a = None \<Longrightarrow> total_of b' a = None \<or> book b' a = ({}, \<lambda>_. None)"
proof -
  note find' = startedD(1) [OF st assms(2)]
  have e: "en_grant e = None" "en_children e = []"
    using broker_okD(3) [OF assms(1,2)] assms(3) by (simp_all add: br_entry_ok_def)
  have budget: "bk_budget b' = bk_budget b"
    using startedD(2) [OF st assms(2)] by (simp add: same_frame_def)
  show "total_of b' a = Some tot" if "total_of b a = Some tot"
    using that assms(2) e(1) find' budget
    by (cases a) (auto simp: total_of_def bind_eq_Some_conv)
  show "total_of b' a = None \<or> book b' a = ({}, \<lambda>_. None)" if a: "total_of b a = None"
  proof (cases "a = Some k")
    case True
    then have "account_members b a = {}" using assms(2) e(2) by (simp add: account_members_def)
    then show ?thesis by (simp add: book_def started_members [OF assms(1,2) st])
  next
    case False
    then show ?thesis using a find' by (cases a) (auto simp: total_of_def)
  qed
qed

lemma started_refines:
  assumes "broker_ok b" "find_entry b k = Some e" "en_state e = Queued" "grant_ok e g"
    and "total_of b a = Some tot" "k \<in> account_members b a" "takes tol tot (book b a) (gr_amounts g)"
    and st: "started k g b b'"
  shows "refines tol b b'"
proof (rule refinesI)
  have res: "reservation_ok (js_reservation (en_spec e))"
    using broker_okD(3) [OF assms(1,2)] by (simp add: br_entry_ok_def)
  have g: "- tol \<le> cap_cpu (gr_amounts g) \<and> 0 \<le> cap_memory (gr_amounts g) \<and>
      pools_ok (cap_pools (gr_amounts g))"
    using sized_bounds [OF res] assms(4) by (simp add: grant_ok_def)
  have step: "ledger_step tol tot (book b a) (account_members b a, (snd (book b a))(k \<mapsto> gr_amounts g))"
    unfolding book_def snd_conv
    by (rule ledger_step.take_all)
      (use assms(2,3,6,7) g pool_get_nonneg in
        \<open>auto simp: holding_def takes_def pool_in_def book_def\<close>)
  fix a' t assume "total_of b a' = Some t"
  then show "total_of b' a' = Some t \<and> (ledger_step tol t)\<^sup>*\<^sup>* (book b a') (book b' a')"
    using started_total(1) [OF assms(1-3) st] step assms(5) started_book [OF assms(1,2,6) st] by auto
qed (rule started_total(2) [OF assms(1-3) st])

lemma parent_of_nested:
  assumes "broker_ok b" "find_entry b k = Some e" "js_parent_lease (en_spec e) = Some l"
  obtains p ep g where "lease_parent b (en_spec e) = Inr ep" "find_entry b p = Some ep"
    "en_grant ep = Some g" "gr_lease_id g = l" "k \<in> account_members b (Some p)"
    "js_job_id (en_spec ep) = p" "is_live (en_state e) \<longrightarrow> en_state ep = Running"
proof -
  note d = broker_okD(1) [OF assms(1)]
  obtain p ep where p: "find_entry b p = Some ep" "en_grant ep \<noteq> None" "lease_of ep = l"
    "k \<in> set (en_children ep)" "is_live (en_state e) \<longrightarrow> en_state ep = Running"
    using broker_okD(6) [OF assms] by (auto simp: parent_ok_def)
  then obtain g where g: "en_grant ep = Some g" by auto
  have okp: "br_entry_ok b p ep" using broker_okD(3) [OF assms(1) p(1)] .
  then have lease: "gr_lease_id g = l" using g p(3) by (simp add: br_entry_ok_def grant_ok_def)
  have unique: "f = ep" if f: "f \<in> set (br_entries b)" "holds_lease (Some l) f" for f
  proof -
    obtain j where j: "find_entry b j = Some f"
      using f(1) by (auto simp: br_entries_def find_entry_set [OF d])
    then have "lease_of f = l"
      using broker_okD(3) [OF assms(1) j] f(2)
      by (auto simp: br_entry_ok_def grant_ok_def holds_lease_def split: option.splits)
    then have "j = p" using broker_okD(4) [OF assms(1) j p(1)] p(3) by (metis lease_of_inject)
    then show ?thesis using j p(1) by simp
  qed
  have "ep \<in> set (br_entries b)" "holds_lease (Some l) ep"
    using p(1) g lease by (force simp: br_entries_def find_entry_set [OF d] holds_lease_def)+
  then obtain f where "find (holds_lease (Some l)) (br_entries b) = Some f"
    by (cases "find (holds_lease (Some l)) (br_entries b)") (auto simp: find_None_iff)
  moreover from this have "f = ep" by (intro unique) (auto simp: find_Some_iff)
  ultimately have "lease_parent b (en_spec e) = Inr ep" by (simp add: lease_parent_def assms(3))
  then show thesis
    using okp p g lease by (intro that [of ep p g]) (auto simp: members_nested br_entry_ok_def)
qed

lemma account_of_job:
  assumes "broker_ok b" "find_entry b k = Some e"
  obtains tot where "k \<in> account_members b (account_of b e)" "total_of b (account_of b e) = Some tot"
proof (cases "js_parent_lease (en_spec e)")
  case None
  then show ?thesis
    using members_host [OF broker_okD(1) [OF assms(1)]] assms(2)
    by (intro that [of "bk_budget b"]) (simp_all add: account_of_def total_of_def)
next
  case (Some l)
  show ?thesis
    by (rule parent_of_nested [OF assms Some], rule that)
      (simp_all add: account_of_def total_of_def Some)
qed

lemma ended_members:
  assumes "broker_ok b" "ended D b b'"
  shows "account_members b' = account_members b"
proof
  fix a
  have d': "distinct (map fst (bk_entries b'))"
    using broker_okD(1) [OF ended_ok [OF assms]] .
  have "j \<in> account_members b' None \<longleftrightarrow> j \<in> account_members b None" for j
    unfolding members_host [OF d'] members_host [OF broker_okD(1) [OF assms(1)]]
    by (auto elim: endedE [OF assms(2)] ended_back [OF assms(2)])
  moreover have "account_members b' (Some p) = account_members b (Some p)" for p
    using same_frame_find [of b b' p] assms(2)
    by (cases "find_entry b p") (auto simp: account_members_def ended_def elim!: endedE [OF assms(2)])
  ultimately show "account_members b' a = account_members b a" by (cases a) auto
qed

lemma ended_holding:
  assumes "ended D b b'"
  shows "holding b' k = holding b k \<or> holding b' k = None"
proof (cases "find_entry b k")
  case None
  then show ?thesis using same_frame_find [of b b' k] assms by (simp add: holding_def ended_def)
next
  case (Some e)
  then show ?thesis
    by (rule endedE [OF assms]) (auto simp: holding_def Some entry_ended_def is_live_def)
qed

lemma ended_total:
  assumes "ended D b b'" "total_of b a = Some tot"
  shows "total_of b' a = Some tot"
proof (cases a)
  case None
  then show ?thesis using assms by (simp add: total_of_def ended_def same_frame_def)
next
  case (Some p)
  then obtain e where e: "find_entry b p = Some e" "map_option gr_amounts (en_grant e) = Some tot"
    using assms(2) by (cases "find_entry b p") (auto simp: total_of_def)
  show ?thesis
    by (rule endedE [OF assms(1) e(1)]) (use Some e(2) in \<open>simp add: total_of_def\<close>)
qed

lemma ended_total_None:
  assumes "ended D b b'" "total_of b a = None"
  shows "total_of b' a = None"
proof (cases a)
  case None
  then show ?thesis using assms(2) by (simp add: total_of_def)
next
  case (Some p)
  show ?thesis
  proof (cases "find_entry b' p")
    case None
    then show ?thesis using Some by (simp add: total_of_def)
  next
    case e': (Some e')
    show ?thesis
      by (rule ended_back [OF assms(1) e']) (use Some assms(2) e' in \<open>auto simp: total_of_def\<close>)
  qed
qed

lemma ended_refines:
  assumes "broker_ok b" "ended D b b'"
  shows "refines tol b b'"
proof -
  have "(ledger_step tol tot)\<^sup>*\<^sup>* (book b a) (book b' a)" for a tot
  proof -
    let ?D = "{k \<in> account_members b a. holding b' k = None}"
    have "(ledger_step tol tot)\<^sup>*\<^sup>* (account_members b a, snd (book b a))
      (account_members b a, \<lambda>k. if k \<in> ?D then None else snd (book b a) k)"
      by (rule ledger_drops) simp
    moreover have "(\<lambda>k. if k \<in> ?D then None else snd (book b a) k) = snd (book b' a)"
    proof
      fix k
      show "(if k \<in> ?D then None else snd (book b a) k) = snd (book b' a) k"
        using ended_holding [OF assms(2), of k] by (auto simp: book_def ended_members [OF assms])
    qed
    moreover have "(account_members b a, snd (book b a)) = book b a" "(account_members b a, snd (book b' a)) = book b' a"
      by (simp_all add: book_def ended_members [OF assms])
    ultimately show ?thesis by simp
  qed
  then show ?thesis
    using ended_total [OF assms(2)] ended_total_None [OF assms(2)] by (intro refinesI) simp_all
qed

end

section \<open>A new job\<close>

text \<open>\<open>enrolled name job a b b1\<close>: \<open>b1\<close> is \<open>b\<close> with \<open>job\<close> queued as a member of account \<open>a\<close>.\<close>

definition with_child :: "string option \<Rightarrow> string \<Rightarrow> string \<Rightarrow> br_entry \<Rightarrow> br_entry" where
  "with_child a k j e = (if Some j = a then e\<lparr>en_children := en_children e @ [k]\<rparr> else e)"

lemma with_child_simps [simp]:
  "en_spec (with_child a k j e) = en_spec e" "en_arrival (with_child a k j e) = en_arrival e"
  "en_state (with_child a k j e) = en_state e" "en_grant (with_child a k j e) = en_grant e"
  "en_handle (with_child a k j e) = en_handle e"
  "en_children (with_child a k j e) = en_children e @ (if Some j = a then [k] else [])"
  by (simp_all add: with_child_def)

definition enrolled :: "string \<Rightarrow> job_spec \<Rightarrow> string option \<Rightarrow> broker \<Rightarrow> broker \<Rightarrow> bool" where
  "enrolled name job a b b1 \<longleftrightarrow> (let k = js_job_id job in
     map fst (bk_entries b1) = map fst (bk_entries b) @ [k] \<and> bk_budget b1 = bk_budget b \<and>
     bk_arrivals b1 = bk_arrivals b + 1 \<and> bk_available b1 = bk_available b \<and> bk_brake b1 = bk_brake b \<and>
     (\<forall>j. find_entry b1 j = (if j = k then Some (queued_entry name (bk_arrivals b + 1) job)
        else map_option (with_child a k j) (find_entry b j))))"

lemma new_entry_simps [simp]:
  "en_spec (queued_entry name n job) = job" "en_arrival (queued_entry name n job) = n"
  "en_state (queued_entry name n job) = Queued" "en_grant (queued_entry name n job) = None"
  "en_children (queued_entry name n job) = []" "en_handle (queued_entry name n job) = new_handle name n job"
  by (simp_all add: queued_entry_def)

lemma enrolledD:
  assumes "enrolled name job a b b1"
  shows "find_entry b1 j = (if j = js_job_id job then Some (queued_entry name (bk_arrivals b + 1) job)
      else map_option (with_child a (js_job_id job) j) (find_entry b j))"
    and "bk_arrivals b1 = bk_arrivals b + 1" "bk_budget b1 = bk_budget b"
    and "bk_available b1 = bk_available b" "bk_brake b1 = bk_brake b"
    and "map fst (bk_entries b1) = map fst (bk_entries b) @ [js_job_id job]"
  using assms unfolding enrolled_def Let_def by blast+

text \<open>An entry of \<open>b1\<close> is the new one or one of \<open>b\<close>, and one of \<open>b\<close> is still there.\<close>

lemma enrolled_back:
  assumes "enrolled name job a b b1" "find_entry b1 j = Some f"
  obtains (new) "j = js_job_id job" "f = queued_entry name (bk_arrivals b + 1) job"
    | (old) e where "find_entry b j = Some e" "f = with_child a (js_job_id job) j e"
  using assms(2) unfolding enrolledD(1) [OF assms(1)] by (auto split: if_splits)

lemma enrolled_find:
  assumes "enrolled name job a b b1" "find_entry b (js_job_id job) = None" "find_entry b j = Some e"
  shows "find_entry b1 j = Some (with_child a (js_job_id job) j e)"
  using assms(2,3) unfolding enrolledD(1) [OF assms(1)] by auto

lemma update_absent: "map_of d k = None \<Longrightarrow> AList.update k v d = d @ [(k, v)]"
  by (induction d) auto

lemma enqueue_entries:
  assumes "find_entry b (js_job_id job) = None"
  shows "bk_entries (enqueue name job b) = bk_entries b @ [(js_job_id job, queued_entry name (bk_arrivals b + 1) job)]"
  using assms by (simp add: enqueue_def Let_def find_entry_def update_absent)

lemma find_entry_enqueue:
  assumes "find_entry b (js_job_id job) = None"
  shows "find_entry (enqueue name job b) j =
    (if j = js_job_id job then Some (queued_entry name (bk_arrivals b + 1) job) else find_entry b j)"
  using assms by (auto simp: find_entry_def enqueue_entries map_add_def split: option.splits)

lemma enqueue_frame [simp]:
  "bk_budget (enqueue name job b) = bk_budget b" "bk_arrivals (enqueue name job b) = bk_arrivals b + 1"
  "bk_available (enqueue name job b) = bk_available b" "bk_brake (enqueue name job b) = bk_brake b"
  "bk_reports (enqueue name job b) = bk_reports b"
  by (simp_all add: enqueue_def Let_def)

lemma find_append: "find P (xs @ ys) = (case find P xs of None \<Rightarrow> find P ys | Some x \<Rightarrow> Some x)"
  by (induction xs) auto

lemma parent_of_enqueue:
  assumes "find_entry b (js_job_id job) = None" "lease_parent b job = Inr ep"
  shows "lease_parent (enqueue name job b) job = Inr ep"
  using assms
  by (auto simp: lease_parent_def br_entries_def enqueue_entries find_append split: option.splits)

context lease_book
begin

definition account_open :: "job_spec \<Rightarrow> string option \<Rightarrow> broker \<Rightarrow> bool" where
  "account_open job a b \<longleftrightarrow> (case a of None \<Rightarrow> js_parent_lease job = None
     | Some p \<Rightarrow> (\<exists>ep. find_entry b p = Some ep \<and> en_state ep = Running \<and> en_grant ep \<noteq> None \<and>
         js_parent_lease job = Some (lease_of ep)))"

lemma with_child_book [simp]:
  "lease_of (with_child a k j e) = lease_of e" "grant_ok (with_child a k j e) g = grant_ok e g"
  by (simp_all add: with_child_def)

lemma enrolled_child:
  assumes "broker_ok b" "enrolled backend job a b b1" "find_entry b (js_job_id job) = None"
    and "account_open job a b" "find_entry b1 j = Some f" "c \<in> set (en_children f)"
  shows "child_ok b1 f c"
  using assms(2,5)
proof (cases rule: enrolled_back)
  case new
  then show ?thesis using assms(6) by simp
next
  case (old e)
  consider "c \<in> set (en_children e)" | "Some j = a" "c = js_job_id job"
    using assms(6) old(2) by (auto split: if_splits)
  then show ?thesis
  proof cases
    case 1
    then obtain ec where ec: "find_entry b c = Some ec"
      "js_parent_lease (en_spec ec) = Some (lease_of e)" "en_arrival e < en_arrival ec"
      using broker_okD(5) [OF assms(1) old(1)] by (auto simp: child_ok_def)
    show ?thesis
      using enrolled_find [OF assms(2,3) ec(1)] ec(2,3) old(2) by (simp add: child_ok_def)
  next
    case 2
    then have "js_parent_lease job = Some (lease_of e)"
      using assms(4) old(1) by (auto simp: account_open_def)
    moreover have "en_arrival e \<le> bk_arrivals b"
      using broker_okD(3) [OF assms(1) old(1)] by (simp add: br_entry_ok_def)
    ultimately show ?thesis
      using 2(2) enrolledD(1) [OF assms(2), of c] old(2) by (simp add: child_ok_def)
  qed
qed

lemma enrolled_parent:
  assumes "broker_ok b" "enrolled backend job a b b1" "find_entry b (js_job_id job) = None"
    and "account_open job a b" "find_entry b1 j = Some f" "js_parent_lease (en_spec f) = Some l"
  shows "parent_ok b1 j f l"
  using assms(2,5)
proof (cases rule: enrolled_back)
  case new
  then obtain p ep where p: "a = Some p" "find_entry b p = Some ep" "en_state ep = Running"
    "en_grant ep \<noteq> None" "l = lease_of ep"
    using assms(4,6) by (auto simp: account_open_def split: option.splits)
  show ?thesis
    unfolding parent_ok_def using enrolled_find [OF assms(2,3) p(2)] p new(1)
    by (intro exI [of _ p] exI [of _ "with_child a (js_job_id job) p ep"]) simp
next
  case (old e)
  then obtain q eq where q: "find_entry b q = Some eq" "en_grant eq \<noteq> None" "lease_of eq = l"
    "j \<in> set (en_children eq)" "is_live (en_state e) \<longrightarrow> en_state eq = Running"
    using broker_okD(6) [OF assms(1) old(1)] assms(6) by (auto simp: parent_ok_def)
  show ?thesis
    unfolding parent_ok_def using enrolled_find [OF assms(2,3) q(1)] q(2-) old(2)
    by (intro exI [of _ q] exI [of _ "with_child a (js_job_id job) q eq"]) simp
qed

lemma enrolled_entry:
  assumes "broker_ok b" "enrolled backend job a b b1" "find_entry b (js_job_id job) = None"
    and "reservation_ok (js_reservation job)" "account_open job a b" "find_entry b1 j = Some f"
  shows "br_entry_ok b1 j f"
  using assms(2,6)
proof (cases rule: enrolled_back)
  case new
  then show ?thesis using assms(4) enrolledD(2) [OF assms(2)] by (simp add: br_entry_ok_def)
next
  case (old e)
  have "js_job_id job \<notin> set (en_children e)"
    using broker_okD(5) [OF assms(1) old(1), of "js_job_id job"] assms(3) by (auto simp: child_ok_def)
  moreover have "en_grant e \<noteq> None" if "Some j = a"
    using assms(5) that old(1) by (auto simp: account_open_def)
  ultimately show ?thesis
    using broker_okD(3) [OF assms(1) old(1)] old(2) enrolledD(2) [OF assms(2)]
    by (auto simp: br_entry_ok_def)
qed

lemma enrolled_ok:
  assumes "broker_ok b" "enrolled backend job a b b1" "find_entry b (js_job_id job) = None"
    and "reservation_ok (js_reservation job)" "account_open job a b"
  shows "broker_ok b1"
proof (rule broker_okI)
  have "js_job_id job \<notin> set (map fst (bk_entries b))"
    using assms(3) by (simp add: find_entry_def map_of_eq_None_iff)
  then show "distinct (map fst (bk_entries b1))"
    using broker_okD(1) [OF assms(1)] enrolledD(6) [OF assms(2)] by simp
  have "length (bk_entries b1) = length (map fst (bk_entries b) @ [js_job_id job])"
    unfolding enrolledD(6) [OF assms(2), symmetric] by simp
  then show "bk_arrivals b1 = length (bk_entries b1)"
    using enrolledD(2) [OF assms(2)] broker_okD(2) [OF assms(1)] by simp
  have earlier: "en_arrival e \<le> bk_arrivals b" if "find_entry b j = Some e" for j e
    using broker_okD(3) [OF assms(1) that] by (simp add: br_entry_ok_def)
  show "i = j" if f: "find_entry b1 i = Some f" "find_entry b1 j = Some g" "en_arrival f = en_arrival g"
    for i f j g
    using assms(2) f(1)
  proof (cases rule: enrolled_back)
    case new
    from assms(2) f(2) show ?thesis
      by (cases rule: enrolled_back) (use new f(3) earlier in fastforce)+
  next
    case (old e)
    note e = old
    from assms(2) f(2) show ?thesis
    proof (cases rule: enrolled_back)
      case new
      then show ?thesis using e f(3) earlier by fastforce
    next
      case (old g0)
      then show ?thesis using broker_okD(4) [OF assms(1) e(1) old(1)] e(2) f(3) by simp
    qed
  qed
qed (rule enrolled_entry [OF assms] enrolled_child [OF assms(1-3,5)] enrolled_parent [OF assms(1-3,5)],
    assumption+)+

lemma enrolled_members:
  assumes "broker_ok b" "enrolled backend job a b b1" "find_entry b (js_job_id job) = None"
    and "reservation_ok (js_reservation job)" "account_open job a b" "x \<noteq> Some (js_job_id job)"
  shows "account_members b1 x = (if x = a then insert (js_job_id job) (account_members b x) else account_members b x)"
proof (cases x)
  case None
  have host: "js_parent_lease job = None \<longleftrightarrow> a = None"
    using assms(5) by (auto simp: account_open_def split: option.splits)
  have "j \<in> account_members b1 None \<longleftrightarrow> j \<in> (if None = a then insert (js_job_id job) (account_members b None) else account_members b None)"
    for j
    unfolding members_host [OF broker_okD(1) [OF enrolled_ok [OF assms(1-5)]]]
      enrolledD(1) [OF assms(2)]
    using host assms(3) members_host [OF broker_okD(1) [OF assms(1)], of j]
    by (cases "j = js_job_id job"; cases "find_entry b j") auto
  then show ?thesis using None by blast
next
  case (Some p)
  show ?thesis
  proof (cases "find_entry b p")
    case None
    then have "a \<noteq> Some p" using assms(5) by (auto simp: account_open_def)
    then show ?thesis
      using Some None assms(6) by (simp add: account_members_def enrolledD(1) [OF assms(2)])
  next
    case (Some e)
    then show ?thesis
      using \<open>x = Some p\<close> enrolled_find [OF assms(2,3) Some] by (auto simp: account_members_def)
  qed
qed

lemma enrolled_refines:
  assumes "broker_ok b" "enrolled backend job a b b1" "find_entry b (js_job_id job) = None"
    and "reservation_ok (js_reservation job)" "account_open job a b"
  shows "refines tol b b1"
proof -
  let ?k = "js_job_id job"
  have hold: "holding b1 j = holding b j" for j
    using assms(3) unfolding holding_def enrolledD(1) [OF assms(2)]
    by (cases "find_entry b j") auto
  have "total_of b1 x = Some tot \<and> (ledger_step tol tot)\<^sup>*\<^sup>* (book b x) (book b1 x)"
    if tot: "total_of b x = Some tot" for x tot
  proof -
    have x: "x \<noteq> Some ?k" using tot assms(3) by (auto simp: total_of_def)
    have "total_of b1 x = Some tot"
      using tot x enrolledD(1,3) [OF assms(2)]
      by (cases x) (auto simp: total_of_def bind_eq_Some_conv)
    moreover have "?k \<notin> account_members b x"
    proof (cases x)
      case None
      then show ?thesis using assms(3) by (simp add: members_host broker_okD(1) [OF assms(1)])
    next
      case (Some p)
      then show ?thesis
        using broker_okD(5) [OF assms(1), of p _ ?k] assms(3)
        by (auto simp: account_members_def child_ok_def split: option.splits)
    qed
    moreover have "holding b ?k = None" using assms(3) by (simp add: holding_def)
    ultimately have "book b1 x = (if x = a then (insert ?k (account_members b x), snd (book b x)) else book b x)"
      using enrolled_members [OF assms x] by (auto simp: book_def hold fun_eq_iff)
    moreover have "ledger_step tol tot (book b x) (insert ?k (account_members b x), snd (book b x))"
      using ledger_step.enrol [of ?k "account_members b x" "snd (book b x)" tol tot] \<open>?k \<notin> account_members b x\<close>
      by (simp add: book_def)
    ultimately show ?thesis using \<open>total_of b1 x = Some tot\<close> by auto
  qed
  moreover have "total_of b1 x = None" if "total_of b x = None" for x
  proof (cases x)
    case None
    then show ?thesis using that by (simp add: total_of_def)
  next
    case (Some p)
    then show ?thesis
      using that by (cases "find_entry b p") (simp_all add: total_of_def enrolledD(1) [OF assms(2)])
  qed
  ultimately show ?thesis by (intro refinesI) simp_all
qed

lemma parent_ofD:
  assumes "broker_ok b" "lease_parent b job = Inr ep" "js_parent_lease job = Some l"
  shows "find_entry b (js_job_id (en_spec ep)) = Some ep" "en_grant ep \<noteq> None" "lease_of ep = l"
proof -
  have ep: "ep \<in> set (br_entries b)" "holds_lease (Some l) ep"
    using assms(2,3) by (auto simp: lease_parent_def find_Some_iff split: option.splits)
  then obtain k where k: "find_entry b k = Some ep"
    by (auto simp: br_entries_def find_entry_set [OF broker_okD(1) [OF assms(1)]])
  show "find_entry b (js_job_id (en_spec ep)) = Some ep" "en_grant ep \<noteq> None" "lease_of ep = l"
    using broker_okD(3) [OF assms(1) k] k ep(2)
    by (auto simp: br_entry_ok_def grant_ok_def holds_lease_def split: option.splits)
qed

lemma adopt_enrols:
  assumes "broker_ok b" "find_entry b (js_job_id job) = None"
    and "js_parent_lease job \<noteq> None \<Longrightarrow>
      \<exists>ep. lease_parent b job = Inr ep \<and> en_state ep = Running \<and> en_grant ep \<noteq> None"
  obtains a b1 where "adopt_child job (enqueue backend job b) = (Inr (), b1)" "enrolled backend job a b b1"
    "account_open job a b"
proof (cases "js_parent_lease job")
  case None
  have "with_child None k j = (\<lambda>e. e)" for k j by (simp add: with_child_def fun_eq_iff)
  then show ?thesis
    using None enqueue_entries [OF assms(2)] find_entry_enqueue [OF assms(2)]
    by (intro that [of "enqueue backend job b" None])
      (auto simp: adopt_child_def enrolled_def account_open_def option.map_ident)
next
  case (Some l)
  then obtain ep where ep: "lease_parent b job = Inr ep" "en_state ep = Running" "en_grant ep \<noteq> None"
    using assms(3) by blast
  let ?p = "js_job_id (en_spec ep)"
  let ?f = "\<lambda>x. x\<lparr>en_children := en_children x @ [js_job_id job]\<rparr>"
  note p = parent_ofD [OF assms(1) ep(1) Some]
  have run: "adopt_child job (enqueue backend job b) = (Inr (), modify ?p ?f (enqueue backend job b))"
    using Some parent_of_enqueue [OF assms(2) ep(1)] by (simp add: adopt_child_def)
  have "map_option (with_child (Some ?p) (js_job_id job) j) r =
      (if j = ?p then map_option ?f r else r)" for j r
    by (cases r) (auto simp: with_child_def)
  moreover have "?p \<noteq> js_job_id job" using p(1) assms(2) by auto
  ultimately have "enrolled backend job (Some ?p) b (modify ?p ?f (enqueue backend job b))"
    using enqueue_entries [OF assms(2)] by (simp add: enrolled_def find_entry_enqueue [OF assms(2)])
  then show ?thesis
    using run p ep(2) Some by (intro that [of _ "Some ?p"]) (auto simp: account_open_def)
qed

lemma submit_enrols:
  assumes "broker_ok b" "find_entry b (js_job_id job) = None" "check_submit b job = Inr ()"
  obtains a b1 where "adopt_child job (enqueue backend job b) = (Inr (), b1)" "enrolled backend job a b b1"
    "account_open job a b"
proof (rule adopt_enrols [OF assms(1,2)])
  assume "js_parent_lease job \<noteq> None"
  then show "\<exists>ep. lease_parent b job = Inr ep \<and> en_state ep = Running \<and> en_grant ep \<noteq> None"
    using assms(3)
    by (cases "lease_parent b job") (auto simp: check_submit_def check_nested_def split: option.splits if_splits)
qed (rule that)

end

section \<open>Entries swept away\<close>

text \<open>
  Reclaiming, in the order of the entries, every entry that meets a condition when its turn comes: what
  \<^verbatim>\<open>reap\<close> of the in-memory engine and \<^verbatim>\<open>_reap_dead\<close> of the local one have in common.
\<close>

fun sweep :: "br_clock \<Rightarrow> (br_entry \<Rightarrow> bool) \<Rightarrow> string list \<Rightarrow> broker \<Rightarrow> unit br_outcome" where
  "sweep clk P [] b = (Inr (), b)"
| "sweep clk P (jid # js) b = (case find_entry b jid of
     None \<Rightarrow> (Inl (MissingKey jid), b)
   | Some e \<Rightarrow>
       (if P e
        then (case reclaim_entry clk jid ORPHAN_RECLAIMED ''owner dead'' b of
          (Inl err, b1) \<Rightarrow> (Inl err, b1)
        | (Inr _, b1) \<Rightarrow> sweep clk P js b1)
        else sweep clk P js b))"

definition meets :: "(br_entry \<Rightarrow> bool) \<Rightarrow> broker \<Rightarrow> string \<Rightarrow> bool" where
  "meets P b k \<longleftrightarrow> (case find_entry b k of None \<Rightarrow> False | Some e \<Rightarrow> P e)"

text \<open>A condition on what a live job is, not on how far it got.\<close>

definition on_live :: "(br_entry \<Rightarrow> bool) \<Rightarrow> bool" where
  "on_live P \<longleftrightarrow> (\<forall>e. P e \<longrightarrow> is_live (en_state e)) \<and>
     (\<forall>e st. P (e\<lparr>en_state := st\<rparr>) \<longrightarrow> is_live (en_state e) \<longrightarrow> P e)"

lemma meets_ended: "on_live P \<Longrightarrow> ended D b b1 \<Longrightarrow> meets P b1 k \<Longrightarrow> meets P b k"
  unfolding meets_def
  by (auto simp: on_live_def entry_ended_def split: option.splits elim!: ended_back)

context lease_book
begin

lemma sweep_ends:
  assumes "broker_ok b" "set js \<subseteq> set (map fst (bk_entries b))" and P: "on_live P"
  shows "\<exists>b'. sweep clk P js b = (Inr (), b') \<and>
    ended {j. \<exists>k. meets P b k \<and> below b k j} b b' \<and> (\<forall>k\<in>set js. \<not> meets P b' k)"
  using assms(1,2)
proof (induction js arbitrary: b)
  case Nil
  then show ?case by simp
next
  case (Cons k js)
  let ?D = "\<lambda>b. {j. \<exists>k. meets P b k \<and> below b k j}"
  have "k \<in> fst ` set (bk_entries b)" using Cons.prems(2) by simp
  then obtain e where e: "find_entry b k = Some e"
    unfolding in_keys_iff by (auto simp: find_entry_def)
  show ?case
  proof (cases "P e")
    case False
    then have "\<not> meets P b k" using e by (simp add: meets_def)
    then have keeps: "ended (?D b) b b' \<Longrightarrow> \<not> meets P b' k" for b'
      using meets_ended [OF P] by blast
    obtain b' where "sweep clk P js b = (Inr (), b')" "ended (?D b) b b'"
      "\<forall>k\<in>set js. \<not> meets P b' k"
      using Cons.IH [OF Cons.prems(1)] Cons.prems(2) by auto
    then show ?thesis using False e keeps by simp
  next
    case True
    then have live: "is_live (en_state e)" using P by (simp add: on_live_def)
    have dead: "\<not> is_live Lost" by (simp add: is_live_def)
    then obtain b1 where b1: "end_entry clk k Lost ORPHAN_RECLAIMED
        [(''reason'', DStr ''owner dead'')] b = (Inr (), b1)" "ended {j. below b k j} b b1"
      "find_entry b1 k = Some (e\<lparr>en_state := Lost\<rparr>)"
      using end_entry_ends [OF Cons.prems(1) e live] by metis
    have sub: "set js \<subseteq> set (map fst (bk_entries b1))"
      using b1(2) Cons.prems(2) by (simp add: ended_def same_frame_def del: set_map)
    obtain b2 where b2: "sweep clk P js b1 = (Inr (), b2)" "ended (?D b1) b1 b2"
      "\<forall>k\<in>set js. \<not> meets P b2 k"
      using Cons.IH [OF ended_ok [OF Cons.prems(1) b1(2)] sub] by blast
    have "ended (?D b) b b1"
      using b1(2) by (rule ended_mono) (use e True in \<open>auto simp: meets_def intro!: exI [of _ k]\<close>)
    moreover have "ended (?D b) b1 b2"
      using b2(2) by (rule ended_mono)
        (auto simp: below_ended [OF b1(2)] intro: meets_ended [OF P b1(2)])
    ultimately have "ended (?D b) b b2" by (rule ended_trans)
    moreover have "\<not> meets P b1 k"
      using b1(3) P dead by (auto simp: meets_def on_live_def dest!: spec [of _ "e\<lparr>en_state := Lost\<rparr>"])
    then have "\<not> meets P b2 k" using meets_ended [OF P b2(2)] by blast
    ultimately show ?thesis
      using e True b1(1) b2(1,3) by (simp add: reclaim_entry_def)
  qed
qed

lemma sweep_all:
  assumes "broker_ok b" "on_live P"
  obtains b' where "sweep clk P (map fst (bk_entries b)) b = (Inr (), b')"
    "ended {j. \<exists>k. meets P b k \<and> below b k j} b b'" "\<And>k. \<not> meets P b' k"
proof -
  obtain b1 where b1: "sweep clk P (map fst (bk_entries b)) b = (Inr (), b1)"
    "ended {j. \<exists>k. meets P b k \<and> below b k j} b b1"
    "\<forall>k\<in>set (map fst (bk_entries b)). \<not> meets P b1 k"
    using sweep_ends [OF assms(1) subset_refl assms(2)] by blast
  have "\<not> meets P b1 k" for k
  proof (cases "find_entry b1 k")
    case None
    then show ?thesis by (simp add: meets_def)
  next
    case (Some e)
    then have "k \<in> set (map fst (bk_entries b1))"
      unfolding find_entry_def by (auto dest: map_of_SomeD')
    then show ?thesis using b1(2,3) by (simp add: ended_def same_frame_def del: set_map)
  qed
  then show thesis using b1(1,2) by (intro that [of b1])
qed

end

end
