(* ===== verification/Br_Admit.thy ===== *)
theory Br_Admit
  imports Br_Steps
begin

text \<open>
  Admission. \<open>try_admit_spec\<close> reduces \<^verbatim>\<open>_try_admit\<close>, for a queued job of any account, to one rule:
  when the account is open to the job and the whole minimum reservation fits what is left, admit it
  with its share of the CPU; otherwise change nothing. It never raises. An admission keeps the
  invariant and is a step of the job's account, so \<^verbatim>\<open>_pump\<close> is a sequence of such steps; and
  after it no queued job that its account is open to fits what is left (\<open>pump_from_saturates\<close>).
\<close>

definition mem_sized :: "job_spec \<Rightarrow> capacity \<Rightarrow> bool" where
  "mem_sized job c \<longleftrightarrow> (let r = js_reservation job in
     res_cpu_min r - eps \<le> cap_cpu c \<and> cap_cpu c \<le> res_cpu_max r \<and>
     cap_memory c = res_memory r \<and> cap_pools c = res_pools r)"

interpretation mem: lease_book eps broker_name "''lease-''" mem_sized
  by unfold_locales (auto simp: mem_sized_def Let_def reservation_ok_def)

definition room_fits :: "capacity \<Rightarrow> account \<Rightarrow> capacity \<Rightarrow> bool" where
  "room_fits tot acc c \<longleftrightarrow> cap_cpu c \<le> cap_cpu tot - used cap_cpu acc + eps \<and>
     cap_memory c \<le> cap_memory tot - used cap_memory acc \<and>
     list_all (\<lambda>(name, amount). amount \<le> pool_in name tot - used (pool_in name) acc) (cap_pools c)"

definition open_to :: "broker \<Rightarrow> br_entry \<Rightarrow> bool" where
  "open_to b e \<longleftrightarrow> js_parent_lease (en_spec e) \<noteq> None \<or> bk_brake b = GREEN \<or>
     (bk_brake b = AMBER \<and> js_priority (en_spec e) = CRITICAL_PATH)"

definition cpu_share :: "broker \<Rightarrow> br_entry \<Rightarrow> capacity \<Rightarrow> account \<Rightarrow> rat" where
  "cpu_share b e tot acc = (let r = js_reservation (en_spec e) in
     if js_parent_lease (en_spec e) \<noteq> None \<or> bk_brake b = GREEN
     then min (res_cpu_max r) (cap_cpu tot - used cap_cpu acc) else res_cpu_min r)"

lemma fits_draws:
  assumes "draws u b a"
  shows "fits (cap_sub tot u) c \<longleftrightarrow> room_fits tot (book b a) c"
proof -
  have d: "distinct (map fst (cap_pools u))" using assms by (simp add: draws_def)
  have "pool_get (cap_pools (cap_sub tot u)) name = pool_in name tot - used (pool_in name) (book b a)"
    for name
    using pool.sub [OF d, of name tot] assms by (simp add: pool_in_def draws_def)
  then show ?thesis
    using cpu.sub [OF d, of tot] memory.sub [OF d, of tot] assms
    by (auto simp: fits_def room_fits_def draws_def)
qed

lemma cpu_draws: "draws u b a \<Longrightarrow> cap_cpu (cap_sub tot u) = cap_cpu tot - used cap_cpu (book b a)"
  by (simp add: cap_sub_def draws_def)

section \<open>One admission\<close>

lemma try_admit_spec:
  assumes "mem.broker_ok b" "find_entry b k = Some e" "total_of b (account_of b e) = Some tot"
  shows "try_admit clk e b = (Inr (),
    let acc = book b (account_of b e) in
    if open_to b e \<and> room_fits tot acc (minimum (js_reservation (en_spec e)))
    then admit clk e (cpu_share b e tot acc) (js_parent_lease (en_spec e)) b else b)"
proof (cases "js_parent_lease (en_spec e)")
  case None
  note u = mem.in_use_draws [OF assms(1)]
  have a: "account_of b e = None" "tot = bk_budget b"
    using assms(3) None by (simp_all add: account_of_def total_of_def)
  show ?thesis
    using None
    by (cases "bk_brake b")
      (simp_all add: try_admit_def admit_host_def a fits_draws [OF u] cpu_draws [OF u] open_to_def
        cpu_share_def Let_def minimum_def)
next
  case (Some l)
  obtain p ep g where p: "lease_parent b (en_spec e) = Inr ep" "find_entry b p = Some ep"
    "en_grant ep = Some g" "gr_lease_id g = l" "js_job_id (en_spec ep) = p"
    using mem.parent_of_nested [OF assms(1,2) Some] by metis
  obtain u where u: "children_in_use b ep = Inr u" "draws u b (Some p)"
    using mem.children_in_use_draws [OF assms(1) p(2)] .
  have a: "account_of b e = Some p" "tot = gr_amounts g"
    using assms(3) Some p by (simp_all add: account_of_def total_of_def)
  show ?thesis
    using Some p u(1)
    by (simp add: try_admit_def admit_nested_def a fits_draws [OF u(2)] cpu_draws [OF u(2)]
      open_to_def cpu_share_def Let_def minimum_def)
qed

lemma cpu_share_bounds:
  assumes "reservation_ok (js_reservation (en_spec e))"
    and "room_fits tot acc (minimum (js_reservation (en_spec e)))"
  shows "res_cpu_min (js_reservation (en_spec e)) - eps \<le> cpu_share b e tot acc"
    and "cpu_share b e tot acc \<le> res_cpu_max (js_reservation (en_spec e))"
    and "used cap_cpu acc + cpu_share b e tot acc \<le> cap_cpu tot + eps"
  using assms eps_pos
  by (auto simp: cpu_share_def room_fits_def reservation_ok_def minimum_def Let_def min_def)

definition admitted_entry :: "br_clock \<Rightarrow> broker \<Rightarrow> br_entry \<Rightarrow> rat \<Rightarrow> br_entry" where
  "admitted_entry clk b e cpu =
     e\<lparr>en_grant := Some (granted clk b e cpu (js_parent_lease (en_spec e))), en_state := Running\<rparr>"

lemma find_entry_admit:
  assumes "find_entry b (js_job_id (en_spec e)) = Some e"
  shows "find_entry (admit clk e cpu (js_parent_lease (en_spec e)) b) j =
    (if j = js_job_id (en_spec e) then Some (admitted_entry clk b e cpu) else find_entry b j)"
  using assms
  by (simp add: admit_def Let_def admitted_entry_def find_entry_cong [of "b\<lparr>bk_ticks := t\<rparr>" b for t])

lemma admit_frame [simp]:
  "map fst (bk_entries (admit clk e cpu pl b)) = map fst (bk_entries b)"
  "bk_budget (admit clk e cpu pl b) = bk_budget b" "bk_arrivals (admit clk e cpu pl b) = bk_arrivals b"
  "bk_available (admit clk e cpu pl b) = bk_available b" "bk_brake (admit clk e cpu pl b) = bk_brake b"
  "bk_reports (admit clk e cpu pl b) = bk_reports b"
  "length (bk_entries (admit clk e cpu pl b)) = length (bk_entries b)"
  by (simp_all add: admit_def Let_def)

lemma admitted_entry_simps [simp]:
  "en_spec (admitted_entry clk b e cpu) = en_spec e"
  "en_arrival (admitted_entry clk b e cpu) = en_arrival e"
  "en_children (admitted_entry clk b e cpu) = en_children e"
  "en_handle (admitted_entry clk b e cpu) = en_handle e"
  "en_state (admitted_entry clk b e cpu) = Running"
  "en_grant (admitted_entry clk b e cpu) = Some (granted clk b e cpu (js_parent_lease (en_spec e)))"
  by (simp_all add: admitted_entry_def)

lemma admit_started:
  assumes "find_entry b k = Some e" "js_job_id (en_spec e) = k"
  shows "started k (granted clk b e cpu pl) b (admit clk e cpu pl b)"
  using assms
  by (simp add: started_def same_frame_def admit_def Let_def
    find_entry_cong [of "b\<lparr>bk_ticks := t\<rparr>" b for t])

lemma granted_ok:
  assumes "res_cpu_min (js_reservation (en_spec e)) - eps \<le> cpu"
    and "cpu \<le> res_cpu_max (js_reservation (en_spec e))"
  shows "mem.grant_ok e (granted clk b e cpu (js_parent_lease (en_spec e)))"
  using assms by (simp add: mem.grant_ok_def mem_sized_def granted_def mem.lease_of_def)

lemma job_id_of: "mem.broker_ok b \<Longrightarrow> find_entry b k = Some e \<Longrightarrow> js_job_id (en_spec e) = k"
  using mem.broker_okD(3) [of b k e] by (simp add: mem.br_entry_ok_def)

lemma admit_started_ok:
  assumes "mem.broker_ok b" "find_entry b k = Some e"
  shows "started k (granted clk b e cpu (js_parent_lease (en_spec e))) b
    (admit clk e cpu (js_parent_lease (en_spec e)) b)"
  using admit_started [OF assms(2) job_id_of [OF assms]] .

lemmas admit_ok = mem.started_ok [OF _ _ _ granted_ok admit_started_ok]
lemmas admit_members = mem.started_members [OF _ _ admit_started_ok]
lemmas admit_book = mem.started_book [OF _ _ _ admit_started_ok]
lemmas admit_total = mem.started_total(1) [OF _ _ _ admit_started_ok]

lemma room_takes:
  assumes "room_fits tot acc (minimum (js_reservation (en_spec e)))"
    and "used cap_cpu acc + cpu \<le> cap_cpu tot + eps"
  shows "takes eps tot acc (gr_amounts (granted clk b e cpu pl))"
proof -
  have "pool_get (res_pools (js_reservation (en_spec e))) name = 0 \<or>
      used (pool_in name) acc + pool_get (res_pools (js_reservation (en_spec e))) name \<le> pool_in name tot"
    for name
    using assms(1) unfolding room_fits_def minimum_def
    by (cases "map_of (res_pools (js_reservation (en_spec e))) name")
      (auto simp: pool_get_def list_all_iff dest!: map_of_SomeD)
  then show ?thesis
    using assms by (simp add: takes_def granted_def room_fits_def minimum_def pool_in_def)
qed

section \<open>The pump\<close>

text \<open>The queue of a pump: jobs that are queued now, each once.\<close>

definition queue_ok :: "broker \<Rightarrow> br_entry list \<Rightarrow> bool" where
  "queue_ok b es \<longleftrightarrow> distinct (map (\<lambda>e. js_job_id (en_spec e)) es) \<and>
     list_all (\<lambda>e. find_entry b (js_job_id (en_spec e)) = Some e \<and> en_state e = Queued) es"

text \<open>One pass over a queued job: what the rest of the pump may rely on.\<close>

definition passed :: "broker \<Rightarrow> br_entry \<Rightarrow> broker \<Rightarrow> bool" where
  "passed b e b' \<longleftrightarrow> same_frame b b' \<and> mem.broker_ok b' \<and> refines eps b b' \<and> account_members b' = account_members b \<and>
     (\<forall>j. live_in b' j = live_in b j) \<and> (\<forall>j. j \<noteq> js_job_id (en_spec e) \<longrightarrow> find_entry b' j = find_entry b j)"

lemma try_admit_passes:
  assumes "mem.broker_ok b" "find_entry b k = Some e" "en_state e = Queued"
  obtains b' where "try_admit clk e b = (Inr (), b')" "passed b e b'"
proof -
  have e: "mem.br_entry_ok b k e" using mem.broker_okD(3) [OF assms(1,2)] .
  then have k: "js_job_id (en_spec e) = k" and r: "reservation_ok (js_reservation (en_spec e))"
    by (simp_all add: mem.br_entry_ok_def)
  obtain tot where tot: "k \<in> account_members b (account_of b e)" "total_of b (account_of b e) = Some tot"
    using mem.account_of_job [OF assms(1,2)] .
  let ?acc = "book b (account_of b e)"
  let ?b = "admit clk e (cpu_share b e tot ?acc) (js_parent_lease (en_spec e)) b"
  note run = try_admit_spec [OF assms(1,2) tot(2), of clk, unfolded Let_def]
  show thesis
  proof (cases "open_to b e \<and> room_fits tot ?acc (minimum (js_reservation (en_spec e)))")
    case True
    note share = cpu_share_bounds [OF r True [THEN conjunct2], of b]
    have "live_in ?b j = live_in b j" for j
      using find_entry_admit [of b e clk _ j] assms(2,3) k by (simp add: live_in_def is_live_def)
    then have "passed b e ?b"
      unfolding passed_def same_frame_def
      using admit_ok [OF assms share(1,2) assms(1,2)] assms(2) find_entry_admit [of b e] k
        admit_members [OF assms(1,2) assms(1,2)]
        mem.started_refines [OF assms granted_ok [OF share(1,2)] tot(2,1)
          room_takes [OF True [THEN conjunct2] share(3)] admit_started_ok [OF assms(1,2)]] by simp
    then show ?thesis using run True by (intro that [of ?b]) simp_all
  next
    case False
    then show ?thesis
      using run assms(1) by (intro that [of b]) (auto simp: passed_def same_frame_def)
  qed
qed

lemma passed_queue:
  assumes "queue_ok b (e # es)" "passed b e b'"
  shows "queue_ok b' es"
proof -
  have "js_job_id (en_spec x) \<noteq> js_job_id (en_spec e)" if x: "x \<in> set es" for x
  proof
    assume "js_job_id (en_spec x) = js_job_id (en_spec e)"
    then have "js_job_id (en_spec e) \<in> set (map (\<lambda>e. js_job_id (en_spec e)) es)"
      using x by (auto intro: rev_image_eqI)
    then show False using assms(1) by (simp add: queue_ok_def)
  qed
  then show ?thesis
    using assms by (simp add: queue_ok_def passed_def list_all_iff)
qed

lemma pump_from_passes:
  assumes "mem.broker_ok b" "queue_ok b es"
  obtains b' where "pump_from clk es b = (Inr (), b')" "same_frame b b'" "mem.broker_ok b'" "refines eps b b'"
    "\<And>j. live_in b' j = live_in b j"
proof -
  have "\<exists>b'. pump_from clk es b = (Inr (), b') \<and> same_frame b b' \<and> mem.broker_ok b' \<and> refines eps b b' \<and>
      (\<forall>j. live_in b' j = live_in b j)"
    using assms
  proof (induction es arbitrary: b)
    case Nil
    then show ?case by (simp add: same_frame_def)
  next
    case (Cons e es)
    have "find_entry b (js_job_id (en_spec e)) = Some e" "en_state e = Queued"
      using Cons.prems(2) by (simp_all add: queue_ok_def)
    with Cons.prems(1) obtain b1 where b1: "try_admit clk e b = (Inr (), b1)" "passed b e b1"
      by (rule try_admit_passes)
    obtain b2 where b2: "pump_from clk es b1 = (Inr (), b2)" "same_frame b1 b2" "mem.broker_ok b2"
      "refines eps b1 b2" "\<forall>j. live_in b2 j = live_in b1 j"
      using Cons.IH [of b1] b1(2) passed_queue [OF Cons.prems(2) b1(2)] by (auto simp: passed_def)
    then show ?case
      using b1 by (auto simp: passed_def intro: same_frame_trans refines_trans)
  qed
  then show thesis using that by blast
qed

lemma queue_of_pump:
  assumes "mem.broker_ok b"
  shows "queue_ok b (pump_queue b)"
proof -
  have d: "distinct (map fst (bk_entries b))" using mem.broker_okD(1) [OF assms] .
  have id: "js_job_id (en_spec e) = k" if "(k, e) \<in> set (bk_entries b)" for k e
    using mem.broker_okD(3) [OF assms] that find_entry_set [OF d] by (auto simp: mem.br_entry_ok_def)
  have "map (\<lambda>e. js_job_id (en_spec e)) (br_entries b) = map fst (bk_entries b)"
    unfolding br_entries_def map_map by (rule map_cong) (auto dest: id)
  then have "distinct (map (\<lambda>e. js_job_id (en_spec e)) (br_entries b))" using d by simp
  then have "distinct (map (\<lambda>e. js_job_id (en_spec e)) (pump_queue b))"
    unfolding pump_queue_def by (auto simp: distinct_map intro: inj_on_subset)
  moreover have "find_entry b (js_job_id (en_spec e)) = Some e" if "e \<in> set (br_entries b)" for e
    using that id by (auto simp: br_entries_def find_entry_set [OF d])
  ultimately show ?thesis
    by (simp add: queue_ok_def pump_queue_def list_all_iff)
qed

lemma pump_passes:
  assumes "mem.broker_ok b"
  obtains b' where "pump clk b = (Inr (), b')" "same_frame b b'" "mem.broker_ok b'" "refines eps b b'"
    "\<And>j. live_in b' j = live_in b j"
  using pump_from_passes [OF assms queue_of_pump [OF assms], of clk] unfolding pump_def by metis

text \<open>The pump never touches what a job asked for or the handle it was given.\<close>

definition kept :: "broker \<Rightarrow> broker \<Rightarrow> bool" where
  "kept b b' \<longleftrightarrow> (\<forall>k e. find_entry b k = Some e \<longrightarrow>
     (\<exists>e'. find_entry b' k = Some e' \<and> en_spec e' = en_spec e \<and> en_handle e' = en_handle e))"

lemma try_admit_kept:
  assumes "mem.broker_ok b" "find_entry b (js_job_id (en_spec e)) = Some e"
    and "try_admit clk e b = (Inr (), b')"
  shows "kept b b'"
proof -
  obtain tot where tot: "total_of b (account_of b e) = Some tot"
    using mem.account_of_job [OF assms(1,2)] by metis
  have "kept b (admit clk e cpu (js_parent_lease (en_spec e)) b)" for cpu
    using assms(2) by (simp add: kept_def find_entry_admit)
  then show ?thesis
    using try_admit_spec [OF assms(1,2) tot, of clk] assms(3)
    by (auto simp: Let_def kept_def split: if_splits)
qed

lemma pump_from_kept:
  assumes "mem.broker_ok b" "queue_ok b es" "pump_from clk es b = (Inr (), b')"
  shows "kept b b'"
  using assms
proof (induction es arbitrary: b)
  case Nil
  then show ?case by (simp add: kept_def)
next
  case (Cons e es)
  have e: "find_entry b (js_job_id (en_spec e)) = Some e" "en_state e = Queued"
    using Cons.prems(2) by (simp_all add: queue_ok_def)
  obtain b1 where b1: "try_admit clk e b = (Inr (), b1)" "passed b e b1"
    using try_admit_passes [OF Cons.prems(1) e] .
  have "kept b1 b'"
    using Cons.IH [OF _ passed_queue [OF Cons.prems(2) b1(2)]] b1 Cons.prems(3) by (simp add: passed_def)
  then show ?case
    using try_admit_kept [OF Cons.prems(1) e(1) b1(1)] unfolding kept_def by metis
qed

section \<open>After the pump nothing that waits would fit\<close>

text \<open>
  The account \<open>a\<close> hands out CPU up to what is left (\<open>flexible\<close>) and owes none (\<open>in_credit\<close>). While
  both hold, admissions only ever use up room: a job that did not fit keeps not fitting.
\<close>

definition flexible :: "broker \<Rightarrow> string option \<Rightarrow> bool" where
  "flexible b a \<longleftrightarrow> a \<noteq> None \<or> bk_brake b = GREEN"

definition in_credit :: "broker \<Rightarrow> string option \<Rightarrow> bool" where
  "in_credit b a \<longleftrightarrow> (case total_of b a of None \<Rightarrow> False
     | Some tot \<Rightarrow> used cap_cpu (book b a) \<le> cap_cpu tot)"

definition fuller :: "account \<Rightarrow> account \<Rightarrow> bool" where
  "fuller acc acc' \<longleftrightarrow> used cap_cpu acc \<le> used cap_cpu acc' \<and> used cap_memory acc \<le> used cap_memory acc' \<and>
     (\<forall>name. used (pool_in name) acc \<le> used (pool_in name) acc')"

lemma fuller_refl [simp]: "fuller acc acc"
  by (simp add: fuller_def)

lemma fuller_trans: "fuller acc acc1 \<Longrightarrow> fuller acc1 acc2 \<Longrightarrow> fuller acc acc2"
  unfolding fuller_def by (meson order_trans)

lemma fuller_room:
  assumes "fuller acc acc'" "room_fits tot acc' c"
  shows "room_fits tot acc c"
proof -
  have "amount \<le> pool_in name tot - used (pool_in name) acc" if "(name, amount) \<in> set (cap_pools c)"
    for name amount
    using assms that unfolding fuller_def room_fits_def list_all_iff
    by (auto intro: order_trans [OF _ diff_left_mono])
  then show ?thesis
    using assms unfolding fuller_def room_fits_def list_all_iff
    by (auto intro: order_trans)
qed

lemma try_admit_account:
  assumes "mem.broker_ok b" "find_entry b k = Some e" "k \<in> account_members b a" "total_of b a = Some tot"
  shows "try_admit clk e b = (Inr (),
      if open_to b e \<and> room_fits tot (book b a) (minimum (js_reservation (en_spec e)))
      then admit clk e (cpu_share b e tot (book b a)) (js_parent_lease (en_spec e)) b else b)"
    and "js_parent_lease (en_spec e) = None \<longleftrightarrow> a = None"
proof -
  have t: "k \<in> account_members b (account_of b e)"
    using mem.account_of_job [OF assms(1,2)] .
  have a: "account_of b e = a" using mem.one_account [OF assms(1) t assms(3)] .
  then show "try_admit clk e b = (Inr (),
      if open_to b e \<and> room_fits tot (book b a) (minimum (js_reservation (en_spec e)))
      then admit clk e (cpu_share b e tot (book b a)) (js_parent_lease (en_spec e)) b else b)"
    using try_admit_spec [OF assms(1,2), of tot clk] assms(4) by (simp add: Let_def)
  show "js_parent_lease (en_spec e) = None \<longleftrightarrow> a = None"
  proof (cases "js_parent_lease (en_spec e)")
    case None
    then show ?thesis using a by (simp add: account_of_def)
  next
    case (Some l)
    obtain ep where "lease_parent b (en_spec e) = Inr ep"
      using mem.parent_of_nested [OF assms(1,2) Some] .
    then show ?thesis using a Some by (auto simp: account_of_def)
  qed
qed

lemma take_fuller:
  assumes "mem.broker_ok b" "find_entry b k = Some e" "en_state e = Queued" "k \<in> account_members b a" "0 \<le> cpu"
  shows "fuller (book b a) (book (admit clk e cpu (js_parent_lease (en_spec e)) b) a)"
    and "used cap_cpu (book (admit clk e cpu (js_parent_lease (en_spec e)) b) a) =
      used cap_cpu (book b a) + cpu"
proof -
  let ?c = "gr_amounts (granted clk b e cpu (js_parent_lease (en_spec e)))"
  let ?h = "\<lambda>k. if k \<in> account_members b a then holding b k else None"
  have r: "reservation_ok (js_reservation (en_spec e))"
    using mem.broker_okD(3) [OF assms(1,2)] by (simp add: mem.br_entry_ok_def)
  have none: "?h k = None" using assms(2,3) by (simp add: holding_def)
  have after: "book (admit clk e cpu (js_parent_lease (en_spec e)) b) a = (account_members b a, ?h(k \<mapsto> ?c))"
    using admit_book [OF assms(1,2,4,1,2)] by (simp add: book_def)
  have before: "book b a = (account_members b a, ?h)" by (simp add: book_def)
  note taken = used_take [where h = ?h and c = ?c, OF finite_members assms(4) none]
  show "used cap_cpu (book (admit clk e cpu (js_parent_lease (en_spec e)) b) a) =
      used cap_cpu (book b a) + cpu"
    using taken [of cap_cpu] unfolding after before by (simp add: granted_def)
  show "fuller (book b a) (book (admit clk e cpu (js_parent_lease (en_spec e)) b) a)"
    unfolding after before fuller_def
    using taken [of cap_cpu] taken [of cap_memory] taken [of "pool_in name" for name] assms(5) r
      pool_get_nonneg [of "res_pools (js_reservation (en_spec e))"]
    by (simp add: granted_def reservation_ok_def pool_in_def)
qed

lemma try_admit_grows:
  assumes "mem.broker_ok b" "find_entry b k = Some e" "en_state e = Queued"
    and "flexible b a" "in_credit b a" "try_admit clk e b = (Inr (), b')"
  shows "in_credit b' a" "fuller (book b a) (book b' a)"
proof -
  obtain tot where tot: "total_of b a = Some tot" "used cap_cpu (book b a) \<le> cap_cpu tot"
    using assms(5) by (auto simp: in_credit_def split: option.splits)
  obtain a0 t where a0: "k \<in> account_members b a0" "total_of b a0 = Some t"
    using mem.account_of_job [OF assms(1,2)] .
  let ?adm = "\<lambda>cpu. admit clk e cpu (js_parent_lease (en_spec e)) b"
  have r: "reservation_ok (js_reservation (en_spec e))"
    using mem.broker_okD(3) [OF assms(1,2)] by (simp add: mem.br_entry_ok_def)
  have total': "total_of (?adm cpu) a = Some tot" for cpu
    by (rule admit_total [OF assms(1-3) assms(1,2) tot(1)])
  have "b' = b \<or> b' = ?adm (cpu_share b e t (book b a0))"
    using try_admit_account(1) [OF assms(1,2) a0, of clk] assms(6) by (simp split: if_splits)
  then consider "b' = b" | "a \<noteq> a0" "\<exists>cpu. b' = ?adm cpu"
    | "a = a0" "b' = ?adm (cpu_share b e tot (book b a))"
    using tot(1) a0(2) by (cases "a = a0") auto
  then have "in_credit b' a \<and> fuller (book b a) (book b' a)"
  proof cases
    case 1
    then show ?thesis using assms(5) by simp
  next
    case 2
    then show ?thesis
      using admit_book [OF assms(1,2) a0(1) assms(1,2)] tot total' by (auto simp: in_credit_def)
  next
    case 3
    have "flexible b a \<longleftrightarrow> js_parent_lease (en_spec e) \<noteq> None \<or> bk_brake b = GREEN"
      using try_admit_account(2) [OF assms(1,2) a0] 3(1) by (auto simp: flexible_def)
    then have "0 \<le> cpu_share b e tot (book b a)"
      and "used cap_cpu (book b a) + cpu_share b e tot (book b a) \<le> cap_cpu tot"
      using assms(4) r tot(2) by (auto simp: cpu_share_def Let_def reservation_ok_def)
    then show ?thesis
      using take_fuller [OF assms(1-3), of a] a0(1) 3 total' by (simp add: in_credit_def)
  qed
  then show "in_credit b' a" "fuller (book b a) (book b' a)" by simp_all
qed

lemma pump_from_grows:
  assumes "mem.broker_ok b" "queue_ok b es" "flexible b a" "in_credit b a"
    and "pump_from clk es b = (Inr (), b')"
  shows "fuller (book b a) (book b' a)"
  using assms
proof (induction es arbitrary: b)
  case Nil
  then show ?case by simp
next
  case (Cons e es)
  have e: "find_entry b (js_job_id (en_spec e)) = Some e" "en_state e = Queued"
    using Cons.prems(2) by (simp_all add: queue_ok_def)
  obtain b1 where b1: "try_admit clk e b = (Inr (), b1)" "passed b e b1"
    using try_admit_passes [OF Cons.prems(1) e] .
  note grows = try_admit_grows [OF Cons.prems(1) e Cons.prems(3,4) b1(1)]
  have "flexible b1 a"
    using Cons.prems(3) b1(2) by (simp add: flexible_def passed_def same_frame_def)
  then have "fuller (book b1 a) (book b' a)"
    using Cons.IH [OF _ passed_queue [OF Cons.prems(2) b1(2)] _ grows(1)] b1 Cons.prems(5)
    by (simp add: passed_def)
  then show ?case using grows(2) fuller_trans by blast
qed

lemma pump_from_keeps:
  assumes "mem.broker_ok b" "queue_ok b es" "pump_from clk es b = (Inr (), b')"
    and "k \<notin> (\<lambda>e. js_job_id (en_spec e)) ` set es"
  shows "find_entry b' k = find_entry b k"
  using assms
proof (induction es arbitrary: b)
  case Nil
  then show ?case by simp
next
  case (Cons e es)
  have e: "find_entry b (js_job_id (en_spec e)) = Some e" "en_state e = Queued"
    using Cons.prems(2) by (simp_all add: queue_ok_def)
  obtain b1 where b1: "try_admit clk e b = (Inr (), b1)" "passed b e b1"
    using try_admit_passes [OF Cons.prems(1) e] .
  have "find_entry b' k = find_entry b1 k"
    using Cons.IH [OF _ passed_queue [OF Cons.prems(2) b1(2)]] b1 Cons.prems(3,4)
    by (simp add: passed_def)
  then show ?case using b1(2) Cons.prems(4) by (simp add: passed_def)
qed

lemma try_admit_queued:
  assumes "mem.broker_ok b" "find_entry b k = Some e" "try_admit clk e b = (Inr (), b')"
    and "find_entry b' k = Some e'" "en_state e' = Queued"
  shows "b' = b"
proof -
  obtain tot where tot: "total_of b (account_of b e) = Some tot"
    using mem.account_of_job [OF assms(1,2)] by metis
  have "js_job_id (en_spec e) = k"
    using mem.broker_okD(3) [OF assms(1,2)] by (simp add: mem.br_entry_ok_def)
  then show ?thesis
    using try_admit_spec [OF assms(1,2) tot, of clk] assms(2-5) find_entry_admit [of b e clk _ k]
    by (auto simp: Let_def split: if_splits)
qed

lemma pump_from_queued_same:
  assumes "mem.broker_ok b" "queue_ok b es" "pump_from clk es b = (Inr (), b')" "e \<in> set es"
    and "find_entry b' (js_job_id (en_spec e)) = Some e'" "en_state e' = Queued"
  shows "e' = e"
  using assms
proof (induction es arbitrary: b)
  case Nil
  then show ?case by simp
next
  case (Cons x xs)
  have x: "find_entry b (js_job_id (en_spec x)) = Some x" "en_state x = Queued"
    using Cons.prems(2) by (simp_all add: queue_ok_def)
  obtain b1 where b1: "try_admit clk x b = (Inr (), b1)" "passed b x b1"
    using try_admit_passes [OF Cons.prems(1) x] .
  have ok1: "mem.broker_ok b1" and q1: "queue_ok b1 xs" and run: "pump_from clk xs b1 = (Inr (), b')"
    using b1 passed_queue [OF Cons.prems(2) b1(2)] Cons.prems(3) by (auto simp: passed_def)
  show ?case
  proof (cases "e \<in> set xs")
    case True
    then show ?thesis using Cons.IH [OF ok1 q1 run] Cons.prems(5,6) by simp
  next
    case False
    then have "e = x" using Cons.prems(4) by simp
    have "js_job_id (en_spec x) \<notin> (\<lambda>e. js_job_id (en_spec e)) ` set xs"
      using Cons.prems(2) by (simp add: queue_ok_def)
    then have e1: "find_entry b1 (js_job_id (en_spec x)) = Some e'"
      using pump_from_keeps [OF ok1 q1 run] Cons.prems(5) \<open>e = x\<close> by simp
    then have "b1 = b" using try_admit_queued [OF Cons.prems(1) x(1) b1(1)] Cons.prems(6) by simp
    then show ?thesis using e1 x(1) \<open>e = x\<close> by simp
  qed
qed

lemma pump_from_saturates:
  assumes "mem.broker_ok b" "queue_ok b es" "flexible b a" "in_credit b a" "total_of b a = Some tot"
    and "pump_from clk es b = (Inr (), b')" "e \<in> set es" "js_job_id (en_spec e) \<in> account_members b a"
    and "find_entry b' (js_job_id (en_spec e)) = Some e'" "en_state e' = Queued"
  shows "\<not> room_fits tot (book b' a) (minimum (js_reservation (en_spec e)))"
  using assms
proof (induction es arbitrary: b)
  case Nil
  then show ?case by simp
next
  case (Cons x xs)
  have x: "find_entry b (js_job_id (en_spec x)) = Some x" "en_state x = Queued"
    using Cons.prems(2) by (simp_all add: queue_ok_def)
  obtain b1 where b1: "try_admit clk x b = (Inr (), b1)" "passed b x b1"
    using try_admit_passes [OF Cons.prems(1) x] .
  have ok1: "mem.broker_ok b1" and q1: "queue_ok b1 xs" and run: "pump_from clk xs b1 = (Inr (), b')"
    and flex1: "flexible b1 a" and credit1: "in_credit b1 a" and tot1: "total_of b1 a = Some tot"
    and mem1: "account_members b1 = account_members b"
    using b1 passed_queue [OF Cons.prems(2) b1(2)] Cons.prems(3,5,6)
      try_admit_grows(1) [OF Cons.prems(1) x Cons.prems(3,4) b1(1)]
    by (auto simp: passed_def same_frame_def flexible_def refines_def)
  show ?case
  proof (cases "e \<in> set xs")
    case True
    then show ?thesis
      using Cons.IH [OF ok1 q1 flex1 credit1 tot1 run True] Cons.prems(8-10) mem1 by simp
  next
    case False
    then have "e = x" using Cons.prems(7) by simp
    have "js_job_id (en_spec x) \<notin> (\<lambda>e. js_job_id (en_spec e)) ` set xs"
      using Cons.prems(2) by (simp add: queue_ok_def)
    then have "find_entry b1 (js_job_id (en_spec x)) = Some e'"
      using pump_from_keeps [OF ok1 q1 run] Cons.prems(9) \<open>e = x\<close> by simp
    moreover have "open_to b x"
      using try_admit_account(2) [OF Cons.prems(1) x(1)] Cons.prems(3,5,8) \<open>e = x\<close>
      by (auto simp: open_to_def flexible_def)
    ultimately have "b1 = b" "\<not> room_fits tot (book b a) (minimum (js_reservation (en_spec x)))"
      using try_admit_account(1) [OF Cons.prems(1) x(1) _ Cons.prems(5), of clk] b1(1) \<open>e = x\<close>
        Cons.prems(8,10) find_entry_admit [of b x clk, OF x(1)]
      by (auto split: if_splits)
    then show ?thesis
      using fuller_room [OF pump_from_grows [OF ok1 q1 flex1 credit1 run]] \<open>e = x\<close> by blast
  qed
qed

end
