(* ===== verification/Br_Port.thy ===== *)
theory Br_Port
  imports Br_Steps
begin

text \<open>
  The capacity contract of the broker port (\<^verbatim>\<open>_ports.py\<close>, \<^verbatim>\<open>contract.py\<close>) as a locale: an engine with a
  state around the shared ledger of entries, whose calls keep its invariant and go, for every account,
  through steps of the abstract ledger. Any run of calls from an engine without entries then keeps
  every account within its total: the host within the budget (\<open>run_within_budget\<close>) and the nested
  jobs of every lease within its grant (\<open>run_nested_within_grant\<close>).
\<close>

locale broker_port = lease_book tol backend prefix sized for tol backend prefix sized +
  fixes core :: "'s \<Rightarrow> broker" and good :: "'s \<Rightarrow> bool" and step :: "'s \<Rightarrow> 's \<Rightarrow> bool"
  assumes good_ok: "good s \<Longrightarrow> broker_ok (core s)"
    and step_good: "good s \<Longrightarrow> step s s' \<Longrightarrow> good s' \<and> refines tol (core s) (core s') \<and>
      bk_budget (core s') = bk_budget (core s)"
begin

lemma run_good:
  assumes "step\<^sup>*\<^sup>* s s'" "good s"
  shows "good s' \<and> refines tol (core s) (core s') \<and> bk_budget (core s') = bk_budget (core s)"
  using assms
proof induction
  case base
  then show ?case by simp
next
  case (step s1 s2)
  then show ?case using step_good [of s1 s2] by (auto intro: refines_trans)
qed

lemma run_carved:
  assumes "step\<^sup>*\<^sup>* s s'" "good s" "bk_entries (core s) = []" "capacity_ok (bk_budget (core s))"
    and "total_of (core s') a = Some tot"
  shows "carved tol tot (book (core s') a)"
proof -
  note run = run_good [OF assms(1,2)]
  have empty: "book_before (core s) a = ({}, \<lambda>_. None)"
    using assms(3)
    by (cases a) (auto simp: book_before_def book_def account_members_def find_entry_def)
  have "0 \<le> cap_memory tot \<and> pools_ok (cap_pools tot)"
  proof (cases a)
    case None
    then show ?thesis using assms(4,5) run by (simp add: total_of_def capacity_ok_def)
  next
    case (Some p)
    then obtain e g where "find_entry (core s') p = Some e" "en_grant e = Some g" "tot = gr_amounts g"
      using assms(5) by (auto simp: total_of_def bind_eq_Some_conv)
    then show ?thesis using grant_bounds [OF good_ok] run by blast
  qed
  then have "carved tol tot (book_before (core s) a)"
    unfolding empty by (intro carved_empty) simp_all
  then show ?thesis
    using carved_steps refinesD(2) run assms(5) by blast
qed

lemma run_within_budget:
  assumes "step\<^sup>*\<^sup>* s s'" "good s" "bk_entries (core s) = []" "bk_budget (core s) = budget"
    and "capacity_ok budget"
  shows "cap_memory (in_use (core s')) \<le> cap_memory budget"
    and "pool_get (cap_pools (in_use (core s'))) name \<le> pool_get (cap_pools budget) name"
    and "cap_cpu (in_use (core s')) \<le> cap_cpu budget + tol * of_nat (bk_arrivals (core s'))"
proof -
  note run = run_good [OF assms(1,2)]
  have ok: "broker_ok (core s')" using run good_ok by blast
  note draws = in_use_draws [OF ok, unfolded draws_def]
  have c: "carved tol budget (book (core s') None)"
    by (rule run_carved [OF assms(1-3)]) (use assms(4,5) run in \<open>simp_all add: total_of_def\<close>)
  have "card (account_members (core s') None) \<le> card (set (map fst (bk_entries (core s'))))"
    by (rule card_mono) (auto simp: account_members_def)
  also have "\<dots> \<le> bk_arrivals (core s')"
    using card_length [of "map fst (bk_entries (core s'))"] broker_okD(2) [OF ok] by simp
  finally have "tol * of_nat (card (account_members (core s') None)) \<le>
      tol * of_nat (bk_arrivals (core s'))"
    using tol_nonneg by (intro mult_left_mono) simp_all
  then show "cap_cpu (in_use (core s')) \<le> cap_cpu budget + tol * of_nat (bk_arrivals (core s'))"
    using carved_cpu [OF c] draws assms(5) by (simp add: book_def capacity_ok_def)
  show "cap_memory (in_use (core s')) \<le> cap_memory budget"
    and "pool_get (cap_pools (in_use (core s'))) name \<le> pool_get (cap_pools budget) name"
    using c draws unfolding carved_def by (simp, metis pool_in_def)
qed

lemma run_nested_within_grant:
  assumes "step\<^sup>*\<^sup>* s s'" "good s" "bk_entries (core s) = []" "capacity_ok (bk_budget (core s))"
    and "find_entry (core s') p = Some ep" "en_grant ep = Some g"
  shows "\<exists>u. children_in_use (core s') ep = Inr u \<and> cap_memory u \<le> cap_memory (gr_amounts g) \<and>
    (\<forall>name. pool_get (cap_pools u) name \<le> pool_get (cap_pools (gr_amounts g)) name) \<and>
    cap_cpu u \<le> max 0 (cap_cpu (gr_amounts g)) + tol * of_nat (length (en_children ep))"
proof -
  have ok: "broker_ok (core s')" using run_good [OF assms(1,2)] good_ok by blast
  obtain u where u: "children_in_use (core s') ep = Inr u" "draws u (core s') (Some p)"
    using children_in_use_draws [OF ok assms(5)] .
  have c: "carved tol (gr_amounts g) (book (core s') (Some p))"
    by (rule run_carved [OF assms(1-4)]) (use assms(5,6) in \<open>simp add: total_of_def\<close>)
  have "card (account_members (core s') (Some p)) = length (en_children ep)"
    using broker_okD(3) [OF ok assms(5)]
    by (simp add: members_nested [OF assms(5)] distinct_card br_entry_ok_def)
  then have "cap_cpu u \<le> max 0 (cap_cpu (gr_amounts g)) + tol * of_nat (length (en_children ep))"
    using carved_cpu [OF c] u(2) by (simp add: draws_def book_def)
  then show ?thesis
    using u c unfolding draws_def carved_def pool_in_def by (intro exI [of _ u]) simp
qed

end

end
