(* ===== verification/Br_System.thy ===== *)
theory Br_System
  imports Br_Admit Br_Port
begin

text \<open>
  The in-memory broker as a system: \<open>broker_step\<close> is one call of any operation of the port or of
  the test controls, with any clock, liveness probe and arguments; \<open>broker_reachable\<close> is what calls
  can reach from a fresh broker. Every call keeps \<open>mem.broker_ok\<close> and is, for every account, a sequence
  of ledger steps; the operations never end in an internal error (a missing entry or a recursion
  without end).
\<close>

section \<open>Every operation keeps the invariant\<close>

definition sound_step :: "broker \<Rightarrow> broker \<Rightarrow> bool" where
  "sound_step b b' \<longleftrightarrow> mem.broker_ok b' \<and> refines eps b b' \<and> bk_budget b' = bk_budget b \<and>
     bk_available b' = bk_available b"

lemma sound_refl [simp]: "mem.broker_ok b \<Longrightarrow> sound_step b b"
  by (simp add: sound_step_def)

lemma sound_trans: "sound_step b b1 \<Longrightarrow> sound_step b1 b2 \<Longrightarrow> sound_step b b2"
  by (auto simp: sound_step_def intro: refines_trans)

lemma sound_cong:
  assumes "mem.broker_ok b" "bk_entries b' = bk_entries b" "bk_budget b' = bk_budget b"
    and "bk_arrivals b' = bk_arrivals b" "bk_available b' = bk_available b"
  shows "sound_step b b'"
  using assms mem.broker_ok_cong [of b' b] refines_cong(1) [of b' b] by (simp add: sound_step_def)

lemma sound_ended: "mem.broker_ok b \<Longrightarrow> ended D b b' \<Longrightarrow> sound_step b b'"
  using mem.ended_ok mem.ended_refines by (auto simp: sound_step_def ended_def same_frame_def)

lemma sound_pump:
  assumes "sound_step b b1"
  obtains b2 where "pump clk b1 = (Inr (), b2)" "sound_step b b2" "\<And>j. live_in b2 j = live_in b1 j"
    "same_frame b1 b2"
proof -
  have "mem.broker_ok b1" using assms by (simp add: sound_step_def)
  then obtain b2 where b2: "pump clk b1 = (Inr (), b2)" "same_frame b1 b2" "mem.broker_ok b2"
    "refines eps b1 b2" "\<And>j. live_in b2 j = live_in b1 j"
    using pump_passes [of b1 clk] by metis
  moreover have "sound_step b1 b2" using b2 by (simp add: sound_step_def same_frame_def)
  ultimately show thesis using that assms sound_trans by blast
qed

lemma submit_run:
  assumes "mem.broker_ok b" "reservation_ok (js_reservation job)"
  obtains (refused) err where "submit clk job b = (Inl err, b)"
      "require_up b = Inl err \<or> check_submit b job = Inl err"
    | (known) e where "find_entry b (js_job_id job) = Some e" "submit clk job b = (Inr (en_handle e), b)"
    | (queued) b' where "find_entry b (js_job_id job) = None"
      "submit clk job b = (Inr (new_handle broker_name (bk_arrivals b + 1) job), b')" "sound_step b b'"
      "live_in b' (js_job_id job)"
      "\<exists>e. find_entry b' (js_job_id job) = Some e \<and> en_spec e = job \<and>
        en_handle e = new_handle broker_name (bk_arrivals b + 1) job"
proof (cases "require_up b")
  case (Inl err)
  then show ?thesis by (intro refused [of err]) (simp_all add: submit_def)
next
  case up: (Inr u)
  show ?thesis
  proof (cases "find_entry b (js_job_id job)")
    case (Some e)
    then show ?thesis using up by (intro known [of e]) (simp_all add: submit_def)
  next
    case None
    show ?thesis
    proof (cases "check_submit b job")
      case (Inl err)
      then show ?thesis using up None by (intro refused [of err]) (simp_all add: submit_def)
    next
      case (Inr v)
      then have chk: "check_submit b job = Inr ()" by simp
      obtain a b1 where b1: "adopt_child job (enqueue broker_name job b) = (Inr (), b1)" "enrolled broker_name job a b b1"
        "mem.account_open job a b"
        using mem.submit_enrols [OF assms(1) None chk] .
      let ?b1 = "emit clk SUBMITTED (Some (js_job_id job)) [(''group'', DStr (js_group job))] b1"
      note ok1 = mem.enrolled_ok [OF assms(1) b1(2) None assms(2) b1(3)]
      have "sound_step b b1"
        using ok1 mem.enrolled_refines [OF assms(1) b1(2) None assms(2) b1(3)] enrolledD(3,4) [OF b1(2)]
        by (simp add: sound_step_def)
      moreover have "sound_step b1 ?b1" by (rule sound_cong [OF ok1]) simp_all
      ultimately have "sound_step b ?b1" by (rule sound_trans)
      then obtain b2 where b2: "pump clk ?b1 = (Inr (), b2)" "sound_step b b2"
        "\<And>j. live_in b2 j = live_in ?b1 j"
        using sound_pump [of b ?b1 clk] by metis
      have "live_in b2 (js_job_id job)"
        using b2(3) enrolledD(1) [OF b1(2), of "js_job_id job"]
        by (simp add: live_in_def is_live_def)
      moreover have "submit clk job b = (Inr (new_handle broker_name (bk_arrivals b + 1) job), b2)"
        using up None chk b1(1) b2(1) by (simp add: submit_def pump_then_def)
      moreover have "kept ?b1 b2"
        using b2(1) unfolding pump_def
        by (rule pump_from_kept [rotated 2]) (use ok1 queue_of_pump [of ?b1] in simp_all)
      then have "\<exists>e. find_entry b2 (js_job_id job) = Some e \<and> en_spec e = job \<and>
          en_handle e = new_handle broker_name (bk_arrivals b + 1) job"
        using enrolledD(1) [OF b1(2), of "js_job_id job"] unfolding kept_def by fastforce
      ultimately show ?thesis using queued None b2(2) by blast
    qed
  qed
qed

lemma end_then_pump:
  assumes "mem.broker_ok b" "find_entry b jid = Some e" "is_live (en_state e)" "\<not> is_live st"
  obtains b1 b2 where "end_entry clk jid st kind d b = (Inr (), b1)" "ended {j. below b jid j} b b1"
    "find_entry b1 jid = Some (e\<lparr>en_state := st\<rparr>)" "pump clk b1 = (Inr (), b2)" "sound_step b b2"
    "\<And>j. live_in b2 j = live_in b1 j"
proof -
  obtain b1 where b1: "end_entry clk jid st kind d b = (Inr (), b1)" "ended {j. below b jid j} b b1"
    "find_entry b1 jid = Some (e\<lparr>en_state := st\<rparr>)"
    using mem.end_entry_ends [OF assms] .
  moreover obtain b2 where "pump clk b1 = (Inr (), b2)" "sound_step b b2"
    "\<And>j. live_in b2 j = live_in b1 j"
    using sound_pump [OF sound_ended [OF assms(1) b1(2)]] by metis
  ultimately show thesis by (rule that)
qed

lemma report_run:
  assumes "mem.broker_ok b"
  obtains (refused) err where "report clk h oc us b = (Inl err, b)"
      "(\<exists>m. err = BrokerUnavailable m) \<or> (\<exists>m. err = LeaseLost m)"
    | (again) e where "find_entry b (jh_job_id h) = Some e" "en_state e = Finished"
      "report clk h oc us b = (Inr (), b)"
    | (ended) e b0 b1 b' where "find_entry b (jh_job_id h) = Some e" "en_state e = Running"
      "bk_entries b0 = bk_entries b" "ended {j. below b0 (jh_job_id h) j} b0 b1"
      "find_entry b1 (jh_job_id h) = Some (e\<lparr>en_state := Finished\<rparr>)"
      "report clk h oc us b = (Inr (), b')" "sound_step b b'" "\<And>j. live_in b' j = live_in b1 j"
      "pump clk b1 = (Inr (), b')" "mem.broker_ok b1"
proof (cases "require_up b")
  case (Inl err)
  then show ?thesis
    by (intro refused [of err]) (auto simp: report_def require_up_def split: if_splits)
next
  case up: (Inr u)
  show ?thesis
  proof (cases "find_entry b (jh_job_id h)")
    case None
    then show ?thesis using up by (intro refused) (auto simp: report_def entry_of_def)
  next
    case (Some e)
    let ?b0 = "b\<lparr>bk_reports := bk_reports b @ [\<lparr>rr_job_id = jh_job_id h, rr_outcome = oc, rr_usage = us\<rparr>]\<rparr>"
    consider "en_state e = Finished" | "en_state e \<noteq> Finished" "en_state e \<noteq> Running"
      | (run) "en_state e = Running" by blast
    then show ?thesis
    proof cases
      case run
      have s0: "sound_step b ?b0" by (rule sound_cong [OF assms]) simp_all
      have e0: "find_entry ?b0 (jh_job_id h) = Some e" using Some find_entry_cong [of ?b0 b] by simp
      have "mem.broker_ok ?b0" "is_live (en_state e)" "\<not> is_live Finished"
        using s0 run by (simp_all add: sound_step_def is_live_def)
      then obtain b1 b2 where b2: "end_entry clk (jh_job_id h) Finished FINISHED
          [(''exit_code'', DInt (oc_exit_code oc))] ?b0 = (Inr (), b1)"
        "ended {j. below ?b0 (jh_job_id h) j} ?b0 b1"
        "find_entry b1 (jh_job_id h) = Some (e\<lparr>en_state := Finished\<rparr>)"
        "pump clk b1 = (Inr (), b2)" "sound_step ?b0 b2" "\<And>j. live_in b2 j = live_in b1 j"
        using end_then_pump [of ?b0 "jh_job_id h" e Finished] e0 by metis
      show ?thesis
        by (rule ended [of e ?b0 b1 b2])
          (use Some run up b2 sound_trans [OF s0 b2(5)] mem.ended_ok [OF \<open>mem.broker_ok ?b0\<close> b2(2)] in
            \<open>simp_all add: report_def entry_of_def\<close>)
    qed (use Some up again refused in \<open>auto simp: report_def entry_of_def\<close>)
  qed
qed

lemma cancel_run:
  assumes "mem.broker_ok b"
  obtains (refused) m where "cancel clk h reason b = (Inl (BrokerUnavailable m), b)"
      "\<not> bk_available b"
    | (nothing) "cancel clk h reason b = (Inr (), b)" "\<not> live_in b (jh_job_id h)"
    | (ended) e b1 b' where "find_entry b (jh_job_id h) = Some e" "is_live (en_state e)"
      "ended {j. below b (jh_job_id h) j} b b1"
      "find_entry b1 (jh_job_id h) = Some (e\<lparr>en_state := Cancelled\<rparr>)"
      "cancel clk h reason b = (Inr (), b')" "sound_step b b'" "\<And>j. live_in b' j = live_in b1 j"
      "pump clk b1 = (Inr (), b')" "mem.broker_ok b1"
proof (cases "bk_available b")
  case False
  then show ?thesis by (intro refused) (auto simp: cancel_def require_up_def)
next
  case True
  then have up: "require_up b = Inr ()" by (simp add: require_up_def)
  show ?thesis
  proof (cases "live_in b (jh_job_id h)")
    case False
    then have "cancel clk h reason b = (Inr (), b)"
      using up by (auto simp: cancel_def live_in_def split: option.splits)
    then show ?thesis using False by (rule nothing)
  next
    case True
    then obtain e where e: "find_entry b (jh_job_id h) = Some e" "is_live (en_state e)"
      by (auto simp: live_in_def split: option.splits)
    have "\<not> is_live Cancelled" by (simp add: is_live_def)
    then obtain b1 b2 where b2: "end_entry clk (jh_job_id h) Cancelled CANCELLED
        [(''reason'', DStr reason)] b = (Inr (), b1)" "ended {j. below b (jh_job_id h) j} b b1"
      "find_entry b1 (jh_job_id h) = Some (e\<lparr>en_state := Cancelled\<rparr>)"
      "pump clk b1 = (Inr (), b2)" "sound_step b b2" "\<And>j. live_in b2 j = live_in b1 j"
      using end_then_pump [OF assms e] by metis
    show ?thesis
      by (rule ended [of e b1 b2])
        (use e up b2 mem.ended_ok [OF assms b2(2)] in \<open>simp_all add: cancel_def\<close>)
  qed
qed

definition orphaned :: "(br_owner \<Rightarrow> bool) \<Rightarrow> broker \<Rightarrow> string \<Rightarrow> bool" where
  "orphaned alive = meets (is_orphan alive)"

lemma orphaned_iff: "orphaned alive b k \<longleftrightarrow> (\<exists>e. find_entry b k = Some e \<and> is_orphan alive e)"
  by (simp add: orphaned_def meets_def split: option.splits)

lemma reap_from_sweep: "reap_from clk alive js b = sweep clk (is_orphan alive) js b"
  by (induction js arbitrary: b) (auto split: option.splits sum.splits prod.splits)

lemma is_orphan_live: "on_live (is_orphan alive)"
  by (auto simp: on_live_def is_orphan_def)

lemma reap_run:
  assumes "mem.broker_ok b"
  obtains b1 b' where "reap clk alive b = (Inr (), b')" "sound_step b b'"
    "ended {j. \<exists>k. orphaned alive b k \<and> below b k j} b b1" "\<And>k. \<not> orphaned alive b1 k"
    "\<And>j. live_in b' j = live_in b1 j"
proof -
  obtain b1 where s: "sweep clk (is_orphan alive) (map fst (bk_entries b)) b = (Inr (), b1)"
    "ended {j. \<exists>k. meets (is_orphan alive) b k \<and> below b k j} b b1" "\<forall>k. \<not> meets (is_orphan alive) b1 k"
    by (rule mem.sweep_all [OF assms is_orphan_live [of alive], of clk]) simp
  have b1: "reap_from clk alive (map fst (bk_entries b)) b = (Inr (), b1)"
    "ended {j. \<exists>k. orphaned alive b k \<and> below b k j} b b1" "\<And>k. \<not> orphaned alive b1 k"
    using s by (simp_all add: reap_from_sweep orphaned_def)
  obtain b2 where b2: "pump clk b1 = (Inr (), b2)" "sound_step b b2" "\<And>j. live_in b2 j = live_in b1 j"
    using sound_pump [OF sound_ended [OF assms b1(2)], of clk] by metis
  show thesis
    by (rule that [OF _ b2(2) b1(2,3) b2(3)]) (simp add: reap_def b1(1) b2(1))
qed

lemma set_brake_run:
  assumes "mem.broker_ok b"
  obtains b' where "set_brake clk level reason b = (Inr (), b')" "sound_step b b'"
    "\<And>j. live_in b' j = live_in b j"
proof -
  let ?b = "emit clk BRAKED None [(''level'', DInt (int (brake_int level))), (''reason'', DStr reason)]
    (b\<lparr>bk_brake := level\<rparr>)"
  have "sound_step b ?b" by (rule sound_cong [OF assms]) simp_all
  then obtain b2 where "pump clk ?b = (Inr (), b2)" "sound_step b b2" "\<And>j. live_in b2 j = live_in ?b j"
    using sound_pump [of b ?b clk] by metis
  moreover have "find_entry ?b = find_entry b" by (rule find_entry_cong) simp
  ultimately show thesis by (intro that [of b2]) (simp_all add: set_brake_def live_in_def)
qed

section \<open>Reachable brokers\<close>

inductive broker_step :: "broker \<Rightarrow> broker \<Rightarrow> bool" where
  submit: "reservation_ok (js_reservation job) \<Longrightarrow> submit clk job b = (r, b') \<Longrightarrow> broker_step b b'"
| report: "report clk h oc us b = (r2, b') \<Longrightarrow> broker_step b b'"
| cancel: "cancel clk h reason b = (r2, b') \<Longrightarrow> broker_step b b'"
| brake: "set_brake clk level reason b = (r2, b') \<Longrightarrow> broker_step b b'"
| reap: "reap clk alive b = (r2, b') \<Longrightarrow> broker_step b b'"
| availability: "broker_step b (set_available up b)"

inductive broker_reachable :: "capacity \<Rightarrow> broker \<Rightarrow> bool" for budget where
  fresh: "broker_reachable budget (init_broker budget)"
| call: "broker_reachable budget b \<Longrightarrow> broker_step b b' \<Longrightarrow> broker_reachable budget b'"

lemma init_ok: "mem.broker_ok (init_broker budget)"
  by (simp add: mem.broker_ok_def init_broker_def find_entry_def)

lemma step_sound:
  assumes "broker_step b b'" "mem.broker_ok b"
  shows "mem.broker_ok b' \<and> refines eps b b' \<and> bk_budget b' = bk_budget b"
  using assms(1)
proof cases
  case (submit job clk r)
  from assms(2) submit(1) show ?thesis
    by (cases rule: submit_run [of b job clk]) (use submit(2) assms(2) in \<open>auto simp: sound_step_def\<close>)
next
  case (report clk h oc us r)
  from assms(2) show ?thesis
    by (cases rule: report_run [of b clk h oc us]) (use report assms(2) in \<open>auto simp: sound_step_def\<close>)
next
  case (cancel clk h reason r)
  from assms(2) show ?thesis
    by (cases rule: cancel_run [of b clk h reason]) (use cancel assms(2) in \<open>auto simp: sound_step_def\<close>)
next
  case (brake clk level reason r)
  obtain b2 where "set_brake clk level reason b = (Inr (), b2)" "sound_step b b2"
    using set_brake_run [OF assms(2)] by metis
  then show ?thesis using brake by (simp add: sound_step_def)
next
  case (reap clk alive r)
  obtain b2 where "reap clk alive b = (Inr (), b2)" "sound_step b b2"
    using reap_run [OF assms(2)] by metis
  then show ?thesis using reap by (simp add: sound_step_def)
next
  case (availability up)
  then show ?thesis
    using assms(2) mem.broker_ok_cong [of b' b] refines_cong(1) [of b' b] by (simp add: set_available_def)
qed

lemma reachable_ok:
  assumes "broker_reachable budget b"
  shows "mem.broker_ok b" "bk_budget b = budget"
  using assms
proof (induction rule: broker_reachable.induct)
  case fresh
  {
    case 1
    show ?case by (rule init_ok)
  next
    case 2
    show ?case by (simp add: init_broker_def)
  }
next
  case (call b b')
  {
    case 1
    show ?case using step_sound [OF call.hyps(2)] call.IH by simp
  next
    case 2
    show ?case using step_sound [OF call.hyps(2)] call.IH by simp
  }
qed

interpretation mem_port: broker_port eps broker_name "''lease-''" mem_sized "\<lambda>b. b" mem.broker_ok broker_step
  by unfold_locales (use step_sound in auto)

lemma reachable_run: "broker_reachable budget b \<Longrightarrow> broker_step\<^sup>*\<^sup>* (init_broker budget) b"
  by (induction rule: broker_reachable.induct) auto

end
