(* ===== verification/Br_Samples.thy ===== *)
theory Br_Samples
  imports Br_System
begin

text \<open>
  Concrete brokers for the witnesses: one running lease \<open>p\<close> with a running and a waiting nested job
  and a second top-level job that waits for memory (\<open>sample_broker\<close>), the same under the RED brake
  (\<open>braked_broker\<close>), and a host whose CPU was admitted up to the tolerance (\<open>indebted_broker\<close>).
\<close>

definition sample_clock :: br_clock where
  "sample_clock n = of_nat n"

definition sample_job :: "string \<Rightarrow> string option \<Rightarrow> priority_class \<Rightarrow> rat \<Rightarrow> rat \<Rightarrow> int \<Rightarrow> job_spec" where
  "sample_job jid lease prio lo hi mem = \<lparr>js_job_id = jid, js_command = [''pytest''],
     js_reservation = \<lparr>res_cpu_min = lo, res_cpu_max = hi, res_memory = mem,
       res_pools = [(''dolt-servers'', 1)], res_disk = 0\<rparr>,
     js_priority = prio, js_expected_duration = 60, js_group = ''gate'',
     js_owner = \<lparr>ow_pid = 7, ow_start_token = None, ow_host = None\<rparr>,
     js_parent_lease = lease, js_key = None, js_cwd = None, js_env = []\<rparr>"

definition sample_budget :: capacity where
  "sample_budget = \<lparr>cap_cpu = 8, cap_memory = 8, cap_pools = [(''dolt-servers'', 4)]\<rparr>"

definition after_submit :: "job_spec \<Rightarrow> broker \<Rightarrow> broker" where
  "after_submit job b = snd (submit sample_clock job b)"

definition after_brake :: "brake_level \<Rightarrow> broker \<Rightarrow> broker" where
  "after_brake level b = snd (set_brake sample_clock level ''test'' b)"

definition sample_broker :: broker where
  "sample_broker =
     after_submit (sample_job ''q'' None CHECK_SUBMIT 2 4 6)
       (after_submit (sample_job ''d'' (Some ''lease-1'') CHECK_SUBMIT 1 2 4)
         (after_submit (sample_job ''c'' (Some ''lease-1'') CHECK_SUBMIT 1 2 1)
           (after_submit (sample_job ''p'' None CHECK_SUBMIT 2 4 4) (init_broker sample_budget))))"

definition braked_broker :: broker where
  "braked_broker = after_brake RED sample_broker"

definition indebted_broker :: broker where
  "indebted_broker =
     after_submit (sample_job ''z'' None CHECK_SUBMIT 0 1 1)
       (after_brake GREEN
         (after_submit (sample_job ''a'' None CRITICAL_PATH (8 + 1 / 2000000000) 9 1)
           (after_brake AMBER (init_broker sample_budget))))"

lemma reach_submit:
  "broker_reachable B b \<Longrightarrow> reservation_ok (js_reservation job) \<Longrightarrow>
    broker_reachable B (after_submit job b)"
  unfolding after_submit_def
  by (rule broker_reachable.call, assumption, rule broker_step.submit, assumption,
    rule surjective_pairing)

lemma reach_brake: "broker_reachable B b \<Longrightarrow> broker_reachable B (after_brake level b)"
  unfolding after_brake_def
  by (rule broker_reachable.call, assumption, rule broker_step.brake, rule surjective_pairing)

lemma sample_reservations:
  "0 \<le> lo \<Longrightarrow> lo \<le> hi \<Longrightarrow> 0 \<le> mem \<Longrightarrow> reservation_ok (js_reservation (sample_job jid l prio lo hi mem))"
  by (simp add: sample_job_def reservation_ok_def pools_ok_def)

lemma sample_reachable: "broker_reachable sample_budget sample_broker"
  unfolding sample_broker_def
  by (intro reach_submit broker_reachable.fresh sample_reservations) simp_all

lemma braked_reachable: "broker_reachable sample_budget braked_broker"
  unfolding braked_broker_def by (rule reach_brake [OF sample_reachable])

lemma indebted_reachable: "broker_reachable sample_budget indebted_broker"
  unfolding indebted_broker_def
  by (intro reach_submit reach_brake broker_reachable.fresh sample_reservations) simp_all

lemma sample_budget_ok: "capacity_ok sample_budget"
  by (simp add: sample_budget_def capacity_ok_def pools_ok_def)

lemma sample_states:
  "map (\<lambda>(k, e). (k, en_state e)) (bk_entries sample_broker) =
    [(''p'', Running), (''c'', Running), (''d'', Queued), (''q'', Queued)]"
  by code_simp

lemma indebted_grant:
  "map_option (\<lambda>e. map_option (\<lambda>g. cap_cpu (gr_amounts g)) (en_grant e)) (find_entry indebted_broker ''z'') =
    Some (Some (- 1 / 2000000000))"
  by code_simp

text \<open>The entries the witnesses speak about, and one more pump of the sample.\<close>

definition sample_entry :: "string \<Rightarrow> br_entry" where
  "sample_entry k = the (find_entry sample_broker k)"

definition pumped_broker :: broker where
  "pumped_broker = snd (pump sample_clock sample_broker)"

definition sample_handle :: job_handle where
  "sample_handle = \<lparr>jh_job_id = ''p'', jh_backend = ''memory'', jh_token = ''1''\<rparr>"

definition sample_outcome :: job_outcome where
  "sample_outcome = \<lparr>oc_exit_code = 0, oc_signal = None\<rparr>"

definition sample_usage :: job_usage where
  "sample_usage = \<lparr>us_wall = 60, us_cpu = None, us_peak_memory = None\<rparr>"

lemma pairI: "fst r = x \<Longrightarrow> r = (x, snd r)"
  by (cases r) simp

lemma the_SomeI: "x \<noteq> None \<Longrightarrow> x = Some (the x)"
  by (cases x) simp_all

lemma sample_found:
  "find_entry sample_broker ''p'' = Some (sample_entry ''p'')"
  "find_entry sample_broker ''c'' = Some (sample_entry ''c'')"
  "find_entry sample_broker ''d'' = Some (sample_entry ''d'')"
  "find_entry sample_broker ''q'' = Some (sample_entry ''q'')"
  unfolding sample_entry_def by (rule the_SomeI, code_simp)+

lemma pumped_run: "pump sample_clock sample_broker = (Inr (), pumped_broker)"
  unfolding pumped_broker_def by (rule pairI) code_simp

lemma pumped_found:
  "find_entry pumped_broker ''d'' = Some (the (find_entry pumped_broker ''d''))"
  "find_entry pumped_broker ''q'' = Some (the (find_entry pumped_broker ''q''))"
  "find_entry pumped_broker ''p'' = Some (the (find_entry pumped_broker ''p''))"
  by (rule the_SomeI, code_simp)+

end
