(* ===== verification/Br_Properties.thy ===== *)
theory Br_Properties
  imports Br_Samples
begin

text \<open>
  The contract of the in-memory validation broker: capacity is never overdrawn, nested leases draw
  on their parent's grant and end with it, nothing that fits is left waiting, the brake holds, and
  the operations are total and idempotent.
\<close>

section \<open>Shared facts\<close>

lemma pump_keeps_entry:
  assumes "mem.broker_ok b" "pump clk b = (Inr (), b')" "find_entry b k = Some e" "en_state e \<noteq> Queued"
  shows "find_entry b' k = Some e"
proof -
  have "k \<notin> (\<lambda>e. js_job_id (en_spec e)) ` set (pump_queue b)"
    using queue_of_pump [OF assms(1)] assms(3,4) by (auto simp: queue_ok_def list_all_iff)
  then show ?thesis
    using pump_from_keeps [OF assms(1) queue_of_pump [OF assms(1)]] assms(2,3) by (simp add: pump_def)
qed

lemma queued_in_queue:
  assumes "mem.broker_ok b" "find_entry b k = Some e" "en_state e = Queued"
  shows "e \<in> set (pump_queue b)"
  using assms find_entry_set [OF mem.broker_okD(1) [OF assms(1)]]
  by (force simp: pump_queue_def br_entries_def)

text \<open>The pump changes no job's reservation, and what is queued after it was queued before it.\<close>

lemma queued_before_pump:
  assumes "mem.broker_ok b" "pump clk b = (Inr (), b')" "find_entry b' k = Some e" "en_state e = Queued"
  shows "find_entry b k = Some e"
proof -
  obtain b2 where b2: "pump clk b = (Inr (), b2)" "\<And>j. live_in b2 j = live_in b j"
    using pump_passes [OF assms(1), of clk] by metis
  have "live_in b' k" using assms(3,4) by (simp add: live_in_def is_live_def)
  then have "live_in b k" using b2 assms(2) by simp
  then obtain e0 where e0: "find_entry b k = Some e0" by (auto simp: live_in_def split: option.splits)
  have "en_state e0 = Queued"
  proof (rule ccontr)
    assume "en_state e0 \<noteq> Queued"
    then show False using pump_keeps_entry [OF assms(1,2) e0] assms(3,4) by simp
  qed
  moreover have "js_job_id (en_spec e0) = k"
    using mem.broker_okD(3) [OF assms(1) e0] by (simp add: mem.br_entry_ok_def)
  ultimately have "e = e0"
    using pump_from_queued_same [OF assms(1) queue_of_pump [OF assms(1)]]
      assms(2-4) queued_in_queue [OF assms(1) e0] by (simp add: pump_def)
  then show ?thesis using e0 by simp
qed

lemma pump_frame:
  assumes "mem.broker_ok b" "pump clk b = (Inr (), b')"
  shows "mem.broker_ok b'" "bk_budget b' = bk_budget b" "bk_brake b' = bk_brake b"
    and "total_of b a = Some tot \<Longrightarrow> total_of b' a = Some tot"
proof -
  obtain b2 where "pump clk b = (Inr (), b2)" "same_frame b b2" "mem.broker_ok b2" "refines eps b b2"
    using pump_passes [OF assms(1), of clk] by metis
  then show "mem.broker_ok b'" "bk_budget b' = bk_budget b" "bk_brake b' = bk_brake b"
    and "total_of b a = Some tot \<Longrightarrow> total_of b' a = Some tot"
    using assms(2) refinesD(1) by (auto simp: same_frame_def)
qed

text \<open>What the pump leaves queued does not fit its account.\<close>

lemma pump_leaves:
  assumes "mem.broker_ok b" "pump clk b = (Inr (), b')" "flexible b a" "in_credit b a"
    and "total_of b a = Some tot" "k \<in> account_members b a"
    and "find_entry b' k = Some e" "en_state e = Queued"
  shows "\<not> room_fits tot (book b' a) (minimum (js_reservation (en_spec e)))"
proof -
  have e: "find_entry b k = Some e" using queued_before_pump [OF assms(1,2,7,8)] .
  have k: "js_job_id (en_spec e) = k" using mem.broker_okD(3) [OF assms(1) e] by (simp add: mem.br_entry_ok_def)
  show ?thesis
    by (rule pump_from_saturates [OF assms(1) queue_of_pump [OF assms(1)] assms(3-5)
      assms(2) [unfolded pump_def] queued_in_queue [OF assms(1) e assms(8)]])
      (use assms(6-8) k in simp_all)
qed

section \<open>Capacity\<close>

text \<open>
  C12: the host is never overdrawn. Whatever calls are made, in whatever order, the memory and every
  named pool that \<^verbatim>\<open>in_use\<close> reports stay within the budget; the CPU does up to the tolerance \<open>eps\<close>
  of \<^verbatim>\<open>Capacity.fits\<close> for each job ever submitted.
\<close>
theorem broker_within_budget:
  assumes "broker_reachable budget b" "capacity_ok budget"
  shows "cap_memory (in_use b) \<le> cap_memory budget \<and>
    (\<forall>name. pool_get (cap_pools (in_use b)) name \<le> pool_get (cap_pools budget) name) \<and>
    cap_cpu (in_use b) \<le> cap_cpu budget + eps * of_nat (bk_arrivals b)"
proof -
  have init: "mem.broker_ok (init_broker budget)" "bk_entries (init_broker budget) = []"
    "bk_budget (init_broker budget) = budget"
    by (rule init_ok) (simp_all add: init_broker_def)
  show ?thesis
    using mem_port.run_within_budget [OF reachable_run [OF assms(1)] init assms(2)] by simp
qed

theorem broker_within_budget_witness:
  "cap_memory (in_use sample_broker) \<le> cap_memory sample_budget \<and>
    cap_cpu (in_use sample_broker) \<le> cap_cpu sample_budget + eps * of_nat (bk_arrivals sample_broker)"
  using broker_within_budget [OF sample_reachable sample_budget_ok] by simp



text \<open>
  C13: the broker implements the abstract account. Every call, seen from the host budget or from any
  lease, is a sequence of the ledger's three steps: a member enrols, a member takes a capacity that
  fits what is left, a member drops what it holds.
\<close>
theorem broker_refines_ledger:
  assumes "broker_reachable budget b" "broker_step b b'" "total_of b' a = Some tot"
  shows "(ledger_step eps tot)\<^sup>*\<^sup>* (book_before b a) (book b' a)"
  using step_sound [OF assms(2) reachable_ok(1) [OF assms(1)]] refinesD(2) assms(3) by blast

theorem broker_refines_ledger_witness:
  "(ledger_step eps sample_budget)\<^sup>*\<^sup>* (book_before sample_broker None) (book braked_broker None)"
proof (rule broker_refines_ledger [OF sample_reachable])
  show "broker_step sample_broker braked_broker"
    unfolding braked_broker_def after_brake_def by (rule broker_step.brake, rule surjective_pairing)
  show "total_of braked_broker None = Some sample_budget" by code_simp
qed

text \<open>
  C31: every grant sits inside its own reservation. A grant carries the lease id of its entry, the job
  and the parent lease of its job, exactly the memory and pools the job reserved, and a CPU amount
  between the reserved minimum, less the tolerance \<open>eps\<close>, and the reserved maximum.
\<close>
theorem grant_within_reservation:
  assumes "broker_reachable budget b" "find_entry b k = Some e" "en_grant e = Some g"
  shows "gr_lease_id g = ''lease-'' @ nat_str (en_arrival e) \<and> gr_job_id g = k \<and>
    gr_parent_lease g = js_parent_lease (en_spec e) \<and>
    cap_memory (gr_amounts g) = res_memory (js_reservation (en_spec e)) \<and>
    cap_pools (gr_amounts g) = res_pools (js_reservation (en_spec e)) \<and>
    res_cpu_min (js_reservation (en_spec e)) - eps \<le> cap_cpu (gr_amounts g) \<and>
    cap_cpu (gr_amounts g) \<le> res_cpu_max (js_reservation (en_spec e))"
  using mem.broker_okD(3) [OF reachable_ok(1) [OF assms(1)] assms(2)] assms(3)
  by (simp add: mem.br_entry_ok_def mem.grant_ok_def mem.lease_of_def mem_sized_def Let_def)

theorem grant_within_reservation_witness:
  "cap_memory (gr_amounts (the (en_grant (sample_entry ''c'')))) = 1"
proof -
  have "en_grant (sample_entry ''c'') = Some (the (en_grant (sample_entry ''c'')))"
    by (rule the_SomeI) code_simp
  moreover have "res_memory (js_reservation (en_spec (sample_entry ''c''))) = 1" by code_simp
  ultimately show ?thesis
    using grant_within_reservation [OF sample_reachable sample_found(2)] by metis
qed

section \<open>Nested leases live and die with their parent\<close>

text \<open>
  C15: a nested job that is queued or running has a parent that is running: the entry that holds its
  parent lease lists it among its children, arrived before it, and is running.
\<close>
theorem nested_parent_runs:
  assumes "broker_reachable budget b" "find_entry b k = Some e" "is_live (en_state e)"
    and "js_parent_lease (en_spec e) = Some l"
  shows "\<exists>p ep g. lease_parent b (en_spec e) = Inr ep \<and> find_entry b p = Some ep \<and>
    en_state ep = Running \<and> en_grant ep = Some g \<and> gr_lease_id g = l \<and>
    k \<in> set (en_children ep) \<and> en_arrival ep < en_arrival e"
proof -
  note ok = reachable_ok(1) [OF assms(1)]
  obtain p ep g where p: "lease_parent b (en_spec e) = Inr ep" "find_entry b p = Some ep"
    "en_grant ep = Some g" "gr_lease_id g = l" "k \<in> account_members b (Some p)"
    "is_live (en_state e) \<longrightarrow> en_state ep = Running"
    using mem.parent_of_nested [OF ok assms(2,4)] by metis
  have "k \<in> set (en_children ep)" using p(2,5) by (simp add: members_nested)
  then show ?thesis
    using p assms(2,3) mem.broker_okD(5) [OF ok p(2), of k] by (auto simp: mem.child_ok_def)
qed

theorem nested_parent_runs_witness:
  "\<exists>p ep. find_entry sample_broker p = Some ep \<and> en_state ep = Running \<and> ''d'' \<in> set (en_children ep)"
proof -
  have "is_live (en_state (sample_entry ''d''))" by code_simp
  moreover have "js_parent_lease (en_spec (sample_entry ''d'')) = Some ''lease-1''" by code_simp
  ultimately show ?thesis
    using nested_parent_runs [OF sample_reachable sample_found(3)] by blast
qed

lemma ended_live_iff:
  assumes "mem.broker_ok b" "ended D b b1" "\<And>j. j \<in> D \<Longrightarrow> \<not> live_in b1 j"
  shows "live_in b1 j \<longleftrightarrow> live_in b j \<and> j \<notin> D"
proof (cases "find_entry b j")
  case None
  then show ?thesis
    using ended_live [OF assms(2), of j] by (auto simp: live_in_def)
next
  case (Some e)
  then show ?thesis
    by (rule endedE [OF assms(2)])
      (use Some assms(3) [of j] in \<open>auto simp: live_in_def entry_ended_def\<close>)
qed

text \<open>
  C16: cancelling a lease ends exactly its tree. After \<^verbatim>\<open>cancel\<close> of a live job, the live jobs are
  those that were live and are not below it: every job nested in it at any depth has ended, and no
  other job has, although the capacity it returns may have started some.
\<close>
theorem cancel_ends_tree:
  assumes "broker_reachable budget b" "cancel clk h reason b = (Inr (), b')"
    and "live_in b (jh_job_id h)"
  shows "live_in b' j \<longleftrightarrow> live_in b j \<and> \<not> below b (jh_job_id h) j"
proof -
  note ok = reachable_ok(1) [OF assms(1)]
  from ok show ?thesis
  proof (cases rule: cancel_run [of b clk h reason])
    case (ended e b1 b2)
    have "\<not> live_in b1 (jh_job_id h)" using ended(4) by (simp add: live_in_def is_live_def)
    then have "\<not> live_in b1 i" if "below b (jh_job_id h) i" for i
      using mem.dead_below [OF ended(9)] that below_ended [OF ended(3)] by blast
    then show ?thesis
      using ended_live_iff [OF ok ended(3)] ended(5,7) assms(2) by simp
  qed (use assms in simp_all)
qed

theorem cancel_ends_tree_witness:
  "\<not> live_in (snd (cancel sample_clock sample_handle ''stop'' sample_broker)) ''d'' \<and>
    live_in (snd (cancel sample_clock sample_handle ''stop'' sample_broker)) ''q''"
proof -
  let ?r = "cancel sample_clock sample_handle ''stop'' sample_broker"
  have run: "?r = (Inr (), snd ?r)" by (rule pairI) code_simp
  have "live_in sample_broker (jh_job_id sample_handle)" by code_simp
  note tree = cancel_ends_tree [OF sample_reachable run this]
  have p: "jh_job_id sample_handle = ''p''" by (simp add: sample_handle_def)
  have "''d'' \<in> set (en_children (sample_entry ''p''))" by code_simp
  then have "below sample_broker ''p'' ''d''"
    by (rule below.child [OF below.self sample_found(1)])
  moreover have "live_in (snd ?r) ''q''" by code_simp
  ultimately show ?thesis using tree [of "''d''"] p by simp
qed

text \<open>
  \<^verbatim>\<open>reap\<close> reclaims exactly what the dead left. After it, the live jobs are those that were live
  and are not below a live top-level job whose owner is dead.
\<close>
theorem reap_reclaims_orphans:
  assumes "broker_reachable budget b" "reap clk alive b = (Inr (), b')"
  shows "live_in b' j \<longleftrightarrow> live_in b j \<and> \<not> (\<exists>k. orphaned alive b k \<and> below b k j)"
proof -
  note ok = reachable_ok(1) [OF assms(1)]
  obtain b1 b2 where run: "reap clk alive b = (Inr (), b2)"
    "ended {j. \<exists>k. orphaned alive b k \<and> below b k j} b b1" "\<And>k. \<not> orphaned alive b1 k"
    "\<And>j. live_in b2 j = live_in b1 j"
    using reap_run [OF ok, of clk alive] by metis
  have "\<not> live_in b1 k" if k: "orphaned alive b k" for k
  proof -
    obtain e where e: "find_entry b k = Some e" "is_orphan alive e"
      using k by (auto simp: orphaned_iff split: option.splits)
    show ?thesis
      by (rule endedE [OF run(2) e(1)])
        (use e(2) run(3) [of k] in \<open>auto simp: orphaned_iff is_orphan_def live_in_def\<close>)
  qed
  then have "\<not> live_in b1 i" if "orphaned alive b k" "below b k i" for i k
    using mem.dead_below [OF mem.ended_ok [OF ok run(2)]] that below_ended [OF run(2)] by blast
  then show ?thesis
    using ended_live_iff [OF ok run(2), of j] run(1,4) assms(2) by auto
qed

theorem reap_reclaims_orphans_witness:
  "\<not> live_in (snd (reap sample_clock (\<lambda>_. False) sample_broker)) ''c''"
proof -
  let ?r = "reap sample_clock (\<lambda>_. False) sample_broker"
  have run: "?r = (Inr (), snd ?r)" by (rule pairI) code_simp
  have "''c'' \<in> set (en_children (sample_entry ''p''))" by code_simp
  then have "below sample_broker ''p'' ''c''"
    by (rule below.child [OF below.self sample_found(1)])
  moreover have "orphaned (\<lambda>_. False) sample_broker ''p''" by code_simp
  ultimately show ?thesis using reap_reclaims_orphans [OF sample_reachable run] by blast
qed

section \<open>Admission\<close>

text \<open>
  C29: nothing that fits is left waiting. When \<^verbatim>\<open>_pump\<close> has run under the GREEN brake on a host
  that owes no CPU, no top-level job that is still queued would fit what is free.
\<close>
theorem pump_leaves_nothing_that_fits:
  assumes "broker_reachable budget b" "pump clk b = (Inr (), b')" "bk_brake b = GREEN"
    and "cap_cpu (in_use b) \<le> cap_cpu budget"
    and "find_entry b' k = Some e" "en_state e = Queued" "js_parent_lease (en_spec e) = None"
  shows "\<not> fits (cap_sub budget (in_use b')) (minimum (js_reservation (en_spec e)))"
proof -
  note ok = reachable_ok [OF assms(1)]
  note frame = pump_frame [OF ok(1) assms(2)]
  have "k \<in> account_members b None"
    using members_host [OF mem.broker_okD(1) [OF ok(1)]] queued_before_pump [OF ok(1) assms(2,5,6)] assms(7)
    by blast
  then have "\<not> room_fits budget (book b' None) (minimum (js_reservation (en_spec e)))"
    using assms(3,4) cpu.in_use_used [OF mem.broker_ok_tidy [OF ok(1)]] ok(2)
    by (intro pump_leaves [OF ok(1) assms(2) _ _ _ _ assms(5,6)])
      (simp_all add: flexible_def in_credit_def total_of_def)
  then show ?thesis using fits_draws [OF mem.in_use_draws [OF frame(1)]] by simp
qed

theorem pump_leaves_nothing_that_fits_witness:
  "\<not> fits (cap_sub sample_budget (in_use pumped_broker))
    (minimum (js_reservation (en_spec (the (find_entry pumped_broker ''q'')))))"
  by (rule pump_leaves_nothing_that_fits [OF sample_reachable pumped_run _ _ pumped_found(2)];
    code_simp)

text \<open>
  the brake never holds up a nested job, which waits for nothing but its parent's grant. Under
  any brake level, when \<^verbatim>\<open>_pump\<close> has run and the nested jobs of a lease hold no more CPU than its
  grant, none of its queued nested jobs would fit what the grant has left.
\<close>
theorem nested_never_braked:
  assumes "broker_reachable budget b" "pump clk b = (Inr (), b')"
    and "find_entry b p = Some ep" "en_grant ep = Some g" "children_in_use b ep = Inr u"
    and "cap_cpu u \<le> cap_cpu (gr_amounts g)" "k \<in> set (en_children ep)"
    and "find_entry b' k = Some e" "en_state e = Queued" "find_entry b' p = Some ep'"
  shows "\<exists>u'. children_in_use b' ep' = Inr u' \<and>
    \<not> fits (cap_sub (gr_amounts g) u') (minimum (js_reservation (en_spec e)))"
proof -
  note ok = reachable_ok(1) [OF assms(1)]
  note frame = pump_frame [OF ok assms(2)]
  obtain v where v: "children_in_use b ep = Inr v" "draws v b (Some p)"
    using mem.children_in_use_draws [OF ok assms(3)] .
  obtain u' where u': "children_in_use b' ep' = Inr u'" "draws u' b' (Some p)"
    using mem.children_in_use_draws [OF frame(1) assms(10)] .
  have "\<not> room_fits (gr_amounts g) (book b' (Some p)) (minimum (js_reservation (en_spec e)))"
    using assms(3-7) v
    by (intro pump_leaves [OF ok assms(2) _ _ _ _ assms(8,9)])
      (simp_all add: flexible_def in_credit_def total_of_def members_nested draws_def)
  then show ?thesis using u' fits_draws by auto
qed

theorem nested_never_braked_witness:
  "\<exists>u. children_in_use pumped_broker (the (find_entry pumped_broker ''p'')) = Inr u \<and>
    \<not> fits (cap_sub (gr_amounts (the (en_grant (sample_entry ''p'')))) u)
      (minimum (js_reservation (en_spec (the (find_entry pumped_broker ''d'')))))"
proof -
  have g: "en_grant (sample_entry ''p'') = Some (the (en_grant (sample_entry ''p'')))"
    by (rule the_SomeI) code_simp
  have "is_ok (children_in_use sample_broker (sample_entry ''p''))" by code_simp
  then have u: "children_in_use sample_broker (sample_entry ''p'') =
      Inr (projr (children_in_use sample_broker (sample_entry ''p'')))"
    by (auto simp: is_ok_iff)
  show ?thesis
    by (rule nested_never_braked [OF sample_reachable pumped_run sample_found(1) g u _ _
      pumped_found(1) _ pumped_found(3)]; code_simp)
qed

lemma pump_from_braked:
  assumes "mem.broker_ok b" "queue_ok b es" "pump_from clk es b = (Inr (), b')"
    and "brake_int RED \<le> brake_int (bk_brake b)"
    and "find_entry b k = Some e" "js_parent_lease (en_spec e) = None"
  shows "find_entry b' k = Some e"
  using assms
proof (induction es arbitrary: b)
  case Nil
  then show ?case by simp
next
  case (Cons x xs)
  have x: "find_entry b (js_job_id (en_spec x)) = Some x" "en_state x = Queued"
    using Cons.prems(2) by (simp_all add: queue_ok_def)
  obtain b1 where b1: "try_admit clk x b = (Inr (), b1)" "passed b x b1"
    using try_admit_passes [OF Cons.prems(1) x] .
  have "find_entry b1 k = Some e"
  proof (cases "js_job_id (en_spec x) = k")
    case True
    then have "x = e" using x(1) Cons.prems(5) by simp
    then have "b1 = b"
      using b1(1) Cons.prems(4,6) by (simp add: try_admit_def admit_host_def)
    then show ?thesis using Cons.prems(5) by simp
  next
    case False
    then show ?thesis using b1(2) Cons.prems(5) by (simp add: passed_def)
  qed
  moreover have "bk_brake b1 = bk_brake b" using b1(2) by (simp add: passed_def same_frame_def)
  ultimately show ?case
    using Cons.IH [OF _ passed_queue [OF Cons.prems(2) b1(2)]] b1 Cons.prems(3,4,6)
    by (simp add: passed_def)
qed

text \<open>
  the RED and KILL brakes admit no top-level job. Under them \<^verbatim>\<open>_pump\<close> leaves every entry of a
  top-level job exactly as it was.
\<close>
theorem brake_admits_no_host_job:
  assumes "broker_reachable budget b" "pump clk b = (Inr (), b')"
    and "brake_int RED \<le> brake_int (bk_brake b)"
    and "find_entry b k = Some e" "js_parent_lease (en_spec e) = None"
  shows "find_entry b' k = Some e"
proof -
  note ok = reachable_ok(1) [OF assms(1)]
  show ?thesis
    using pump_from_braked [OF ok queue_of_pump [OF ok] _ assms(3-5)] assms(2) by (simp add: pump_def)
qed

theorem brake_admits_no_host_job_witness:
  "find_entry (snd (pump sample_clock braked_broker)) ''q'' = Some (the (find_entry braked_broker ''q''))"
proof (rule brake_admits_no_host_job [OF braked_reachable])
  show "pump sample_clock braked_broker = (Inr (), snd (pump sample_clock braked_broker))"
    by (rule pairI) code_simp
  show "find_entry braked_broker ''q'' = Some (the (find_entry braked_broker ''q''))"
    by (rule the_SomeI) code_simp
qed code_simp+

section \<open>The operations are total and idempotent\<close>







text \<open>
  a retried submission changes nothing. Once \<^verbatim>\<open>submit\<close> has returned a handle, submitting the same
  job again returns that handle and leaves the broker as it was.
\<close>
theorem submit_again:
  assumes "broker_reachable budget b" "reservation_ok (js_reservation job)"
    and "submit clk job b = (Inr h, b1)"
  shows "submit clk2 job b1 = (Inr h, b1)"
proof -
  note ok = reachable_ok(1) [OF assms(1)]
  have up: "bk_available b"
    using assms(3) by (auto simp: submit_def require_up_def split: if_splits)
  have known: "submit clk2 job c = (Inr (en_handle e), c)"
    if "find_entry c (js_job_id job) = Some e" "bk_available c" for c e
    using that by (simp add: submit_def require_up_def)
  show ?thesis
    using ok assms(2)
    by (rule submit_run [of b job clk]) (use assms(3) up known in \<open>auto simp: sound_step_def\<close>)
qed

theorem submit_again_witness:
  "\<exists>h b. submit sample_clock (sample_job ''e'' None CHECK_SUBMIT 1 1 1) sample_broker = (Inr h, b) \<and>
    submit sample_clock (sample_job ''e'' None CHECK_SUBMIT 1 1 1) b = (Inr h, b)"
proof -
  let ?r = "submit sample_clock (sample_job ''e'' None CHECK_SUBMIT 1 1 1) sample_broker"
  have "is_ok (fst ?r)" by code_simp
  then obtain h b where run: "?r = (Inr h, b)" by (cases ?r) (auto simp: is_ok_iff)
  then have "submit sample_clock (sample_job ''e'' None CHECK_SUBMIT 1 1 1) b = (Inr h, b)"
    by (rule submit_again [OF sample_reachable sample_reservations, rotated 3]) simp_all
  with run show ?thesis by blast
qed

text \<open>
  a settled job stays settled. Once \<^verbatim>\<open>report\<close> has been taken, reporting or cancelling the same job
  again returns at once and leaves the broker as it was; the first report stays the recorded one.
\<close>
theorem report_again:
  assumes "broker_reachable budget b" "report clk h oc us b = (Inr (), b1)"
  shows "report clk2 h oc2 us2 b1 = (Inr (), b1) \<and> cancel clk2 h reason b1 = (Inr (), b1)"
proof -
  note ok = reachable_ok(1) [OF assms(1)]
  have up: "bk_available b"
    using assms(2) by (auto simp: report_def require_up_def split: if_splits)
  have settled: "report clk2 h oc2 us2 c = (Inr (), c) \<and> cancel clk2 h reason c = (Inr (), c)"
    if "find_entry c (jh_job_id h) = Some e" "en_state e = Finished" "bk_available c" for c e
    using that by (simp add: report_def cancel_def entry_of_def require_up_def is_live_def)
  show ?thesis
    using ok
  proof (cases rule: report_run [of b clk h oc us])
    case (again e)
    then show ?thesis using settled assms(2) up by simp
  next
    case (ended e b0 c b')
    have "b' = b1" "bk_available b1" using ended(6,7) assms(2) up by (auto simp: sound_step_def)
    moreover have "find_entry b1 (jh_job_id h) = Some (e\<lparr>en_state := Finished\<rparr>)"
      using pump_keeps_entry [OF ended(10,9,5)] \<open>b' = b1\<close> by simp
    ultimately show ?thesis using settled by simp
  qed (use assms(2) in simp)
qed

theorem report_again_witness:
  "cancel sample_clock sample_handle ''late''
      (snd (report sample_clock sample_handle sample_outcome sample_usage sample_broker)) =
    (Inr (), snd (report sample_clock sample_handle sample_outcome sample_usage sample_broker))"
proof -
  let ?r = "report sample_clock sample_handle sample_outcome sample_usage sample_broker"
  have "?r = (Inr (), snd ?r)" by (rule pairI) code_simp
  then show ?thesis using report_again [OF sample_reachable] by blast
qed

text \<open>
  C27: a grant can be negative. After an admission under the AMBER brake that used the tolerance of
  \<^verbatim>\<open>fits\<close>, the CPU left is below zero; a job that needs no CPU still fits it under GREEN and is granted
  that negative amount, which raises what is free when the job ends.
\<close>
theorem grant_can_be_negative:
  "broker_reachable sample_budget indebted_broker \<and>
    (\<exists>e g. find_entry indebted_broker ''z'' = Some e \<and> en_state e = Running \<and> en_grant e = Some g \<and>
      reservation_ok (js_reservation (en_spec e)) \<and> cap_cpu (gr_amounts g) < 0)"
proof -
  obtain e g where e: "find_entry indebted_broker ''z'' = Some e" "en_grant e = Some g"
    "cap_cpu (gr_amounts g) = - 1 / 2000000000"
    using indebted_grant by auto
  have "en_state (the (find_entry indebted_broker ''z'')) = Running" by code_simp
  moreover have "mem.br_entry_ok indebted_broker ''z'' e"
    using mem.broker_okD(3) [OF reachable_ok(1) [OF indebted_reachable] e(1)] .
  ultimately show ?thesis using e indebted_reachable by (auto simp: mem.br_entry_ok_def)
qed

end
