(* ===== verification/Br_Roots.thy ===== *)
theory Br_Roots
  imports Br_Types
begin

text \<open>
  Execution roots (\<^verbatim>\<open>beadhive_validation_broker/_roots.py\<close>): the bounded directories a job may run on.
  \<open>normpath\<close> is \<^verbatim>\<open>posixpath.normpath\<close> of the standard library. \<open>validate_roots\<close> refuses roots that are
  equal or nested; the lemma \<open>one_root_per_path\<close> says why: a path then lies in at most one of them,
  so the space of a run is never counted against two bounds.
\<close>

datatype root_kind = DISK | TMPFS

record execution_root =
  er_path :: string
  er_kind :: root_kind
  er_max_bytes :: int

definition root_pool_prefix :: string where
  "root_pool_prefix = ''root:''"

fun norm_parts :: "bool \<Rightarrow> string list \<Rightarrow> string list \<Rightarrow> string list" where
  "norm_parts rooted acc [] = acc"
| "norm_parts rooted acc (c # cs) =
     (if c = '''' \<or> c = ''.'' then norm_parts rooted acc cs
      else if c \<noteq> ''..'' \<or> (\<not> rooted \<and> acc = []) \<or> (acc \<noteq> [] \<and> last acc = ''..'')
      then norm_parts rooted (acc @ [c]) cs
      else if acc \<noteq> [] then norm_parts rooted (butlast acc) cs
      else norm_parts rooted acc cs)"

definition slashes :: "string \<Rightarrow> nat" where
  "slashes path = (if \<not> starts_with path ''/'' then 0
     else if starts_with path ''//'' \<and> \<not> starts_with path ''///'' then 2 else 1)"

definition normpath :: "string \<Rightarrow> string" where
  "normpath path = (let n = slashes path;
       p = replicate n CHR ''/'' @ join_with CHR ''/'' (norm_parts (n \<noteq> 0) [] (split_at CHR ''/'' path))
     in if p = '''' then ''.'' else p)"

definition mk_root :: "string \<Rightarrow> root_kind \<Rightarrow> int \<Rightarrow> broker_error + execution_root" where
  "mk_root path kind max_bytes =
     (if \<not> starts_with path ''/'' then Inl (BadValue ''an execution root path must be absolute'')
      else if max_bytes \<le> 0 then Inl (BadValue ''execution root needs max_bytes > 0'')
      else Inr \<lparr>er_path = normpath path, er_kind = kind, er_max_bytes = max_bytes\<rparr>)"

definition root_pool :: "execution_root \<Rightarrow> string" where
  "root_pool r = root_pool_prefix @ er_path r"

definition memory_backed :: "execution_root \<Rightarrow> bool" where
  "memory_backed r \<longleftrightarrow> er_kind r = TMPFS"

definition path_within :: "string \<Rightarrow> string \<Rightarrow> bool" where
  "path_within child parent \<longleftrightarrow> child = parent \<or>
     starts_with child (if parent = ''/'' then parent else parent @ ''/'')"

definition nested_pair :: "execution_root \<Rightarrow> execution_root \<Rightarrow> bool" where
  "nested_pair first second \<longleftrightarrow>
     path_within (er_path first) (er_path second) \<or> path_within (er_path second) (er_path first)"

fun roots_apart :: "execution_root list \<Rightarrow> bool" where
  "roots_apart [] = True"
| "roots_apart (first # rest) = (list_all (\<lambda>second. \<not> nested_pair first second) rest \<and> roots_apart rest)"

definition validate_roots :: "execution_root list \<Rightarrow> broker_error + execution_root list" where
  "validate_roots roots =
     (if roots_apart roots then Inr roots
      else Inl (BadValue ''execution roots must be distinct and not nested''))"

section \<open>A path lies in at most one root\<close>

lemma within_pieces:
  assumes "path_within p a"
  shows "p = a \<or> a = ''/'' \<or> (\<exists>r. p = a @ CHR ''/'' # r)"
  using assms by (auto simp: path_within_def starts_with_iff split: if_splits)

lemma within_shorter:
  assumes "path_within p a" "path_within p b" "length a \<le> length b"
  shows "path_within b a"
proof -
  consider "a = b" | "p = b" | "b = ''/''" | "a = ''/''" "\<exists>r. p = b @ CHR ''/'' # r"
    | r s where "p = a @ CHR ''/'' # r" "p = b @ CHR ''/'' # s"
    using within_pieces [OF assms(1)] within_pieces [OF assms(2)] assms(3) by fastforce
  then show ?thesis
  proof cases
    case 1
    then show ?thesis by (simp add: path_within_def)
  next
    case 2
    then show ?thesis using assms(1) by simp
  next
    case 3
    then have "length a \<le> 1" using assms(3) by simp
    then consider "a = ''''" | c where "a = [c]" by (cases a) auto
    then show ?thesis
    proof cases
      case 1
      then show ?thesis using 3 by (simp add: path_within_def starts_with_def)
    next
      case (2 c)
      have "starts_with p ''/''" using assms(2) 3 by (auto simp: path_within_def starts_with_def)
      then show ?thesis
        using assms(1) 2 3 by (auto simp: path_within_def starts_with_iff split: if_splits)
    qed
  next
    case 4
    then show ?thesis
      using assms(1,3) by (cases b) (auto simp: path_within_def starts_with_iff)
  next
    case (5 r s)
    then have eq: "a @ CHR ''/'' # r = b @ CHR ''/'' # s" by simp
    then obtain t where t: "b = a @ t" using assms(3) by (auto simp: append_eq_append_conv2)
    then have "CHR ''/'' # r = t @ CHR ''/'' # s" using eq by simp
    then have "t = [] \<or> (\<exists>t'. t = CHR ''/'' # t')" by (cases t) auto
    then show ?thesis
      using t by (auto simp: path_within_def starts_with_iff)
  qed
qed

lemma within_comparable:
  assumes "path_within p a" "path_within p b"
  shows "path_within a b \<or> path_within b a"
  using within_shorter [OF assms] within_shorter [OF assms(2,1)] by (cases "length a \<le> length b") auto

lemma roots_apart_nth:
  "roots_apart rs \<Longrightarrow> i < length rs \<Longrightarrow> j < length rs \<Longrightarrow> i \<noteq> j \<Longrightarrow> \<not> nested_pair (rs ! i) (rs ! j)"
proof (induction rs arbitrary: i j)
  case Nil
  then show ?case by simp
next
  case (Cons r rs)
  show ?case
  proof (cases i)
    case 0
    then show ?thesis using Cons.prems by (cases j) (auto simp: list_all_length)
  next
    case (Suc i')
    then show ?thesis
      using Cons.prems Cons.IH by (cases j) (auto simp: list_all_length nested_pair_def)
  qed
qed

lemma one_root_per_path:
  assumes "validate_roots roots = Inr rs" "i < length rs" "j < length rs"
    and "path_within p (er_path (rs ! i))" "path_within p (er_path (rs ! j))"
  shows "i = j"
proof (rule ccontr)
  assume "i \<noteq> j"
  then have "\<not> nested_pair (rs ! i) (rs ! j)"
    using assms(1-3) roots_apart_nth by (auto simp: validate_roots_def split: if_splits)
  then show False using within_comparable [OF assms(4,5)] by (simp add: nested_pair_def)
qed

lemma roots_apart_distinct: "roots_apart rs \<Longrightarrow> distinct (map er_path rs)"
  by (induction rs) (auto simp: list_all_iff nested_pair_def path_within_def)

end
