(* ===== verification/Br_Profile.thy ===== *)
theory Br_Profile
  imports Br_Roots
begin

text \<open>
  The resource profile of the local engine (\<^verbatim>\<open>_local.py\<close>, class \<^verbatim>\<open>_Profile\<close>): what is free now, when
  running work releases what it holds, and the reservations EASY backfill holds for blocked jobs.
  \<open>time_eps\<close> is \<^verbatim>\<open>_EPS\<close>, \<open>overrun\<close> is \<^verbatim>\<open>_OVERRUN_S\<close>.
\<close>

definition time_eps :: rat where
  "time_eps = 1 / 10 ^ 6"

definition overrun :: rat where
  "overrun = 1 / 10 ^ 3"

record profile =
  pf_free :: capacity
  pf_now :: rat
  pf_ends :: "(rat \<times> capacity) list"
  pf_reservations :: "(rat \<times> rat \<times> capacity) list"

definition new_profile :: "capacity \<Rightarrow> rat \<Rightarrow> (rat \<times> capacity) list \<Rightarrow> profile" where
  "new_profile free now running =
     \<lparr>pf_free = free, pf_now = now, pf_ends = running, pf_reservations = []\<rparr>"

definition cap_at :: "profile \<Rightarrow> rat \<Rightarrow> capacity" where
  "cap_at p t =
     foldl (\<lambda>cap (s, e, need). if s \<le> t + time_eps \<and> t + time_eps < e then cap_sub cap need else cap)
       (foldl (\<lambda>cap (e, amounts). if e \<le> t then cap_add cap amounts else cap) (pf_free p) (pf_ends p))
       (pf_reservations p)"

definition checkpoints :: "profile \<Rightarrow> rat \<Rightarrow> rat \<Rightarrow> rat list" where
  "checkpoints p start duration = start #
     filter (\<lambda>s. start + time_eps < s \<and> s < start + duration) (map fst (pf_reservations p))"

definition feasible :: "profile \<Rightarrow> capacity \<Rightarrow> rat \<Rightarrow> rat \<Rightarrow> bool" where
  "feasible p need start duration \<longleftrightarrow> list_all (\<lambda>t. fits (cap_at p t) need) (checkpoints p start duration)"

definition slack_cpu :: "profile \<Rightarrow> rat \<Rightarrow> rat" where
  "slack_cpu p duration = Min (set (map (\<lambda>t. cap_cpu (cap_at p t)) (checkpoints p (pf_now p) duration)))"

definition start_now :: "profile \<Rightarrow> capacity \<Rightarrow> rat \<Rightarrow> profile \<times> nat" where
  "start_now p need duration =
     (p\<lparr>pf_free := cap_sub (pf_free p) need, pf_ends := pf_ends p @ [(pf_now p + duration, need)]\<rparr>,
      length (pf_ends p))"

definition grow :: "profile \<Rightarrow> nat \<Rightarrow> rat \<Rightarrow> profile" where
  "grow p index cpu = (let extra = \<lparr>cap_cpu = cpu, cap_memory = 0, cap_pools = []\<rparr> in
     p\<lparr>pf_free := cap_sub (pf_free p) extra,
       pf_ends := (pf_ends p)[index :=
         (fst (pf_ends p ! index), cap_add (snd (pf_ends p ! index)) extra)]\<rparr>)"

definition release_times :: "profile \<Rightarrow> rat list" where
  "release_times p = sorted_list_of_set
     (set (filter (\<lambda>e. e > pf_now p) (map fst (pf_ends p))) \<union>
      set (map (\<lambda>(s, e, need). e) (pf_reservations p)))"

definition earliest :: "profile \<Rightarrow> capacity \<Rightarrow> rat \<Rightarrow> rat option" where
  "earliest p need duration = find (\<lambda>t. feasible p need t duration) (release_times p)"

definition reserve :: "profile \<Rightarrow> capacity \<Rightarrow> rat \<Rightarrow> profile \<times> rat option" where
  "reserve p need duration = (case earliest p need duration of
     None \<Rightarrow> (p, None)
   | Some t \<Rightarrow> (p\<lparr>pf_reservations := pf_reservations p @ [(t, t + duration, need)]\<rparr>, Some t))"

end
