(* ===== verification/Br_Local.thy ===== *)
theory Br_Local
  imports Br_Profile Br_Memory
begin

text \<open>
  The local engine (\<^verbatim>\<open>beadhive_validation_broker/_local.py\<close>, class \<^verbatim>\<open>LocalEngine\<close>): the production engine that
  runs in one \<^verbatim>\<open>bh\<close> process. Its entries, events, budget and brake are kept exactly as the in-memory
  engine keeps them (\<open>le_core\<close>; the code of \<^verbatim>\<open>_emit\<close>, \<^verbatim>\<open>_in_use\<close>, \<^verbatim>\<open>_lease_holder\<close> and \<^verbatim>\<open>_end\<close> is the same
  there); the rest of the record is the packer's groups and counters and the execution roots.

  The injected callables are one record of probes: the clock, the availability of the host, the
  liveness of owners and the free space of roots, each a function of the number of readings taken so
  far (\<open>le_reads\<close>; the clock counts with \<open>bk_ticks\<close>), so that every reading may differ. A probe that
  raises is \<open>Inl\<close>. Liveness is asked once per owner and pass, so one function serves a pass.

  The lock makes every method one step. \<^verbatim>\<open>wait_grant\<close> loops around a condition variable;
  \<open>wait_round\<close> is one round of its loop, which returns, raises, or goes to sleep.
\<close>

record packer_policy =
  pp_laggard_first :: bool
  pp_laggard_flex :: bool
  pp_easy :: bool
  pp_headroom_cpu :: rat
  pp_group_major :: bool
  pp_aging :: rat

definition mk_policy :: "bool \<Rightarrow> bool \<Rightarrow> bool \<Rightarrow> rat \<Rightarrow> bool \<Rightarrow> rat \<Rightarrow> broker_error + packer_policy" where
  "mk_policy laggard_first laggard_flex easy headroom group_major aging =
     (if headroom < 0 \<or> aging < 0
      then Inl (BadValue ''headroom_cpu and aging must be non-negative'')
      else Inr \<lparr>pp_laggard_first = laggard_first, pp_laggard_flex = laggard_flex, pp_easy = easy,
        pp_headroom_cpu = headroom, pp_group_major = group_major, pp_aging = aging\<rparr>)"

definition default_policy :: packer_policy where
  "default_policy = \<lparr>pp_laggard_first = True, pp_laggard_flex = True, pp_easy = True,
     pp_headroom_cpu = 8, pp_group_major = False, pp_aging = 4\<rparr>"

record br_group =
  bg_order :: nat
  bg_first_seen :: rat
  bg_admitted :: bool
  bg_root :: "execution_root option"

record probes =
  pr_clock :: br_clock
  pr_avail :: "(nat \<Rightarrow> string + capacity) option"
  pr_alive :: "nat \<Rightarrow> br_owner \<Rightarrow> bool"
  pr_disk :: "(nat \<Rightarrow> string \<Rightarrow> string + int) option"

record local_engine =
  le_core :: broker
  le_floor :: capacity
  le_policy :: packer_policy
  le_repoll :: rat
  le_roots :: "execution_root list"
  le_groups :: "(string \<times> br_group) list"
  le_next_order :: nat
  le_probe_error :: "string option"
  le_measured :: "capacity option"
  le_easy :: nat
  le_refused :: nat
  le_reads :: nat

type_synonym 'a le_outcome = "(broker_error + 'a) \<times> local_engine"

definition local_name :: string where
  "local_name = ''local''"

text \<open>Go on after a method that returned nothing, or pass its exception on.\<close>

definition and_do :: "('e + 'a) \<times> 's \<Rightarrow> ('a \<Rightarrow> 's \<Rightarrow> ('e + 'b) \<times> 's) \<Rightarrow> ('e + 'b) \<times> 's" where
  "and_do r k = (case r of (Inl err, s) \<Rightarrow> (Inl err, s) | (Inr x, s) \<Rightarrow> k x s)"

definition on_core :: "(broker \<Rightarrow> broker) \<Rightarrow> local_engine \<Rightarrow> local_engine" where
  "on_core f s = s\<lparr>le_core := f (le_core s)\<rparr>"

definition do_core :: "(broker \<Rightarrow> 'a br_outcome) \<Rightarrow> local_engine \<Rightarrow> 'a le_outcome" where
  "do_core f s = (case f (le_core s) of (r, b) \<Rightarrow> (r, s\<lparr>le_core := b\<rparr>))"

definition init_engine :: "capacity \<Rightarrow> capacity \<Rightarrow> packer_policy \<Rightarrow> rat \<Rightarrow> execution_root list \<Rightarrow> bool \<Rightarrow>
    broker_error + local_engine" where
  "init_engine budget margin policy repoll roots has_disk =
     (if repoll \<le> 0 then Inl (BadValue ''repoll_seconds must be positive'')
      else if list_ex (\<lambda>(name, amount). starts_with name root_pool_prefix) (cap_pools budget)
      then Inl (BadValue ''pool names starting with the root prefix are reserved'')
      else and_then (validate_roots roots) (\<lambda>rs.
        if rs \<noteq> [] \<and> \<not> has_disk then Inl (BadValue ''execution roots need a disk_space probe'')
        else Inr \<lparr>le_core = init_broker \<lparr>cap_cpu = cap_cpu budget, cap_memory = cap_memory budget,
              cap_pools = foldl (\<lambda>ps r. AList.update (root_pool r) (er_max_bytes r) ps)
                (cap_pools budget) rs\<rparr>,
            le_floor = margin, le_policy = policy, le_repoll = repoll, le_roots = rs, le_groups = [],
            le_next_order = 1, le_probe_error = None, le_measured = None, le_easy = 0, le_refused = 0,
            le_reads = 0\<rparr>))"

section \<open>Bookkeeping\<close>

definition le_find :: "local_engine \<Rightarrow> string \<Rightarrow> br_entry option" where
  "le_find s = find_entry (le_core s)"

definition le_require_up :: "local_engine \<Rightarrow> broker_error + unit" where
  "le_require_up s = (if bk_available (le_core s) then Inr ()
     else Inl (BrokerUnavailable ''the local broker engine is marked down''))"

definition le_entry :: "local_engine \<Rightarrow> job_handle \<Rightarrow> broker_error + br_entry" where
  "le_entry s h = (case le_find s (jh_job_id h) of
     None \<Rightarrow> Inl (LeaseLost (jh_job_id h @ '': unknown job''))
   | Some e \<Rightarrow> if en_handle e \<noteq> h then Inl (LeaseLost (jh_job_id h @ '': unknown job'')) else Inr e)"

definition top_running :: "local_engine \<Rightarrow> br_entry list" where
  "top_running s = filter host_running (br_entries (le_core s))"

section \<open>Execution roots\<close>

definition root_of :: "local_engine \<Rightarrow> br_entry \<Rightarrow> broker_error + execution_root option" where
  "root_of s e = (case en_grant e of
     None \<Rightarrow> Inr None
   | Some g \<Rightarrow> (case gr_root g of
       None \<Rightarrow> Inr None
     | Some path \<Rightarrow> (case find (\<lambda>r. er_path r = path) (le_roots s) of
         None \<Rightarrow> Inl (NoItem path)
       | Some r \<Rightarrow> Inr (Some r))))"

definition need_on :: "job_spec \<Rightarrow> execution_root option \<Rightarrow> capacity" where
  "need_on job rt = (let base = minimum (js_reservation job); disk = res_disk (js_reservation job) in
     case rt of
       None \<Rightarrow> base
     | Some r \<Rightarrow> \<lparr>cap_cpu = cap_cpu base,
         cap_memory = cap_memory base + (if memory_backed r then disk else 0),
         cap_pools = AList.update (root_pool r) disk (cap_pools base)\<rparr>)"

definition queued_of_group :: "local_engine \<Rightarrow> string \<Rightarrow> job_spec list" where
  "queued_of_group s grp = map en_spec (filter (\<lambda>e. js_group (en_spec e) = grp \<and>
     js_parent_lease (en_spec e) = None \<and> en_state e = Queued) (br_entries (le_core s)))"

definition gate_roots :: "local_engine \<Rightarrow> string \<Rightarrow> job_spec list \<Rightarrow> execution_root list" where
  "gate_roots s grp extra =
     (let options = (case map_of (le_groups s) grp of
            None \<Rightarrow> le_roots s
          | Some g \<Rightarrow> (case bg_root g of None \<Rightarrow> le_roots s | Some r \<Rightarrow> [r]));
          specs = queued_of_group s grp @ extra
      in filter (\<lambda>r. list_all (\<lambda>job. fits (bk_budget (le_core s)) (need_on job (Some r))) specs) options)"

definition root_options :: "local_engine \<Rightarrow> br_entry \<Rightarrow> execution_root option list" where
  "root_options s e =
     (if le_roots s = [] then [None] else map Some (gate_roots s (js_group (en_spec e)) []))"

definition le_check_nested :: "local_engine \<Rightarrow> job_spec \<Rightarrow> broker_error + unit" where
  "le_check_nested s job = and_then (lease_parent (le_core s) job) (\<lambda>parent.
     case en_grant parent of
       None \<Rightarrow> Inl (LeaseLost (lease_text job @ '' is not running''))
     | Some g \<Rightarrow>
         (if en_state parent \<noteq> Running
          then Inl (LeaseLost (lease_text job @ '' is not running''))
          else and_then (root_of s parent) (\<lambda>rt.
            if \<not> fits (gr_amounts g) (need_on job rt)
            then Inl (GrantRefused (js_job_id job @ '': reservation can never fit its parent's grant''))
            else Inr ())))"

definition check_budget :: "local_engine \<Rightarrow> job_spec \<Rightarrow> broker_error + unit" where
  "check_budget s job =
     (if le_roots s = []
      then if \<not> fits (bk_budget (le_core s)) (minimum (js_reservation job))
           then Inl (GrantRefused (js_job_id job @ '': reservation exceeds the host budget''))
           else Inr ()
      else if gate_roots s (js_group job) [job] = []
      then Inl (GrantRefused (js_job_id job @ '': reservation exceeds the budget of every root''))
      else Inr ())"

definition measure_roots :: "probes \<Rightarrow> local_engine \<Rightarrow> (string \<times> int) list \<times> local_engine" where
  "measure_roots pr s = (case pr_disk pr of
     None \<Rightarrow> ([], s)
   | Some disk \<Rightarrow>
       (foldl (\<lambda>free r. AList.update (er_path r)
            (case disk (le_reads s) (er_path r) of Inl _ \<Rightarrow> 0 | Inr n \<Rightarrow> max 0 n) free) [] (le_roots s),
        s\<lparr>le_reads := le_reads s + 1\<rparr>))"

section \<open>What is free\<close>

definition probe :: "probes \<Rightarrow> local_engine \<Rightarrow> capacity option le_outcome" where
  "probe pr s = (case pr_avail pr of
     None \<Rightarrow> (Inr None, s\<lparr>le_probe_error := None\<rparr>)
   | Some avail \<Rightarrow> (case avail (le_reads s) of
       Inl exc \<Rightarrow> (Inl (BrokerUnavailable (''availability probe failed: '' @ exc)),
         s\<lparr>le_probe_error := Some exc, le_reads := le_reads s + 1\<rparr>)
     | Inr measured \<Rightarrow> (Inr (Some measured),
         s\<lparr>le_probe_error := None, le_measured := Some measured, le_reads := le_reads s + 1\<rparr>)))"

definition clamp :: "capacity \<Rightarrow> capacity \<Rightarrow> capacity \<Rightarrow> capacity" where
  "clamp budget margin measured = (let room = cap_sub measured margin in
     \<lparr>cap_cpu = min (cap_cpu budget) (cap_cpu room),
      cap_memory = min (cap_memory budget) (cap_memory room),
      cap_pools = map (\<lambda>(name, amount). (name,
        if map_of (cap_pools measured) name \<noteq> None then min amount (pool_get (cap_pools room) name)
        else amount)) (cap_pools budget)\<rparr>)"

definition clamp_roots :: "(string \<times> int) list \<Rightarrow> execution_root list \<Rightarrow> capacity \<Rightarrow> capacity" where
  "clamp_roots free roots limit = limit\<lparr>cap_pools :=
     foldl (\<lambda>ps r. AList.update (root_pool r) (min (pool_get ps (root_pool r)) (pool_get free (er_path r))) ps)
       (cap_pools limit) roots\<rparr>"

definition host_free :: "probes \<Rightarrow> local_engine \<Rightarrow> capacity le_outcome" where
  "host_free pr s = and_do (probe pr s) (\<lambda>measured s1.
     let limit = (case measured of None \<Rightarrow> bk_budget (le_core s1)
            | Some m \<Rightarrow> clamp (bk_budget (le_core s1)) (le_floor s1) m)
     in if le_roots s1 = [] then (Inr (cap_sub limit (in_use (le_core s1))), s1)
        else (case measure_roots pr s1 of (free, s2) \<Rightarrow>
          (Inr (cap_sub (clamp_roots free (le_roots s2) limit) (in_use (le_core s2))), s2)))"

section \<open>Admission\<close>

definition le_granted :: "br_clock \<Rightarrow> broker \<Rightarrow> br_entry \<Rightarrow> rat \<Rightarrow> string option \<Rightarrow> execution_root option \<Rightarrow> grant" where
  "le_granted clk b e cpu parent_lease rt = (let need = need_on (en_spec e) rt in \<lparr>
     gr_lease_id = ''local-lease-'' @ nat_str (en_arrival e),
     gr_job_id = js_job_id (en_spec e),
     gr_amounts = \<lparr>cap_cpu = cpu, cap_memory = cap_memory need, cap_pools = cap_pools need\<rparr>,
     gr_parent_lease = parent_lease,
     gr_granted_at = clk (bk_ticks b),
     gr_root = map_option er_path rt\<rparr>)"

definition le_admit :: "br_clock \<Rightarrow> br_entry \<Rightarrow> rat \<Rightarrow> string option \<Rightarrow> execution_root option \<Rightarrow> broker \<Rightarrow>
    grant \<times> broker" where
  "le_admit clk e cpu parent_lease rt b =
     (let g = le_granted clk b e cpu parent_lease rt; jid = js_job_id (en_spec e)
      in (g, emit clk ADMITTED (Some jid)
           ([(''lease'', DStr (gr_lease_id g)), (''cpu'', DRat cpu)] @
            (case rt of None \<Rightarrow> [] | Some r \<Rightarrow> [(''root'', DStr (er_path r))]))
           (modify jid (\<lambda>x. x\<lparr>en_grant := Some g, en_state := Running\<rparr>)
             (b\<lparr>bk_ticks := bk_ticks b + 1\<rparr>))))"

definition group_live :: "local_engine \<Rightarrow> string \<Rightarrow> bool" where
  "group_live s grp \<longleftrightarrow> list_ex (\<lambda>e. js_group (en_spec e) = grp \<and> js_parent_lease (en_spec e) = None \<and>
     is_live (en_state e)) (br_entries (le_core s))"

text \<open>The owners that are dead at this pass lose their jobs.\<close>

fun reap_dead_from :: "br_clock \<Rightarrow> (br_owner \<Rightarrow> bool) \<Rightarrow> string list \<Rightarrow> broker \<Rightarrow> unit br_outcome" where
  "reap_dead_from clk alive [] b = (Inr (), b)"
| "reap_dead_from clk alive (jid # js) b = (case find_entry b jid of
     None \<Rightarrow> (Inl (MissingKey jid), b)
   | Some e \<Rightarrow>
       (if is_live (en_state e) \<and> \<not> alive (js_owner (en_spec e))
        then (case end_entry clk jid Lost ORPHAN_RECLAIMED [(''reason'', DStr ''owner dead'')] b of
          (Inl err, b1) \<Rightarrow> (Inl err, b1)
        | (Inr _, b1) \<Rightarrow> reap_dead_from clk alive js b1)
        else reap_dead_from clk alive js b))"

definition reap_dead :: "probes \<Rightarrow> local_engine \<Rightarrow> unit le_outcome" where
  "reap_dead pr s = do_core
     (\<lambda>b. reap_dead_from (pr_clock pr) (pr_alive pr (le_reads s)) (map fst (bk_entries b)) b)
     (s\<lparr>le_reads := le_reads s + 1\<rparr>)"

text \<open>Serve the queued nested jobs of one parent in arrival order, from what its grant has left.\<close>

fun serve_children :: "br_clock \<Rightarrow> execution_root option \<Rightarrow> string \<Rightarrow> capacity \<Rightarrow> br_entry list \<Rightarrow>
    broker \<Rightarrow> broker" where
  "serve_children clk rt lease free [] b = b"
| "serve_children clk rt lease free (child # cs) b =
     (if en_state child \<noteq> Queued \<or> \<not> fits free (need_on (en_spec child) rt)
      then serve_children clk rt lease free cs b
      else (case le_admit clk child
          (min (res_cpu_max (js_reservation (en_spec child))) (cap_cpu free)) (Some lease) rt b of
        (g, b1) \<Rightarrow> serve_children clk rt lease (cap_sub free (gr_amounts g)) cs b1))"

fun find_all :: "broker \<Rightarrow> string list \<Rightarrow> broker_error + br_entry list" where
  "find_all b [] = Inr []"
| "find_all b (c # cs) = (case find_entry b c of
     None \<Rightarrow> Inl (MissingKey c)
   | Some e \<Rightarrow> and_then (find_all b cs) (\<lambda>es. Inr (e # es)))"

definition free_of_children :: "capacity \<Rightarrow> br_entry list \<Rightarrow> capacity" where
  "free_of_children free children = foldl (\<lambda>acc e. case en_grant e of None \<Rightarrow> acc
     | Some g \<Rightarrow> if en_state e = Running then cap_sub acc (gr_amounts g) else acc) free children"

definition serve_parent :: "br_clock \<Rightarrow> local_engine \<Rightarrow> br_entry \<Rightarrow> broker \<Rightarrow> unit br_outcome" where
  "serve_parent clk s parent b = (case en_grant parent of
     None \<Rightarrow> (Inr (), b)
   | Some g \<Rightarrow>
       (if en_state parent \<noteq> Running \<or> en_children parent = [] then (Inr (), b)
        else attempt b (find_all b (en_children parent)) (\<lambda>children.
          attempt b (root_of s parent) (\<lambda>rt.
            (Inr (), serve_children clk rt (gr_lease_id g)
               (free_of_children (gr_amounts g) children) (sort_key en_arrival children) b)))))"

fun serve_from :: "br_clock \<Rightarrow> local_engine \<Rightarrow> string list \<Rightarrow> broker \<Rightarrow> unit br_outcome" where
  "serve_from clk s [] b = (Inr (), b)"
| "serve_from clk s (jid # js) b = (case find_entry b jid of
     None \<Rightarrow> (Inl (MissingKey jid), b)
   | Some parent \<Rightarrow> (case serve_parent clk s parent b of
       (Inl err, b1) \<Rightarrow> (Inl err, b1)
     | (Inr _, b1) \<Rightarrow> serve_from clk s js b1))"

definition serve_nested :: "probes \<Rightarrow> local_engine \<Rightarrow> unit le_outcome" where
  "serve_nested pr s = do_core (\<lambda>b. serve_from (pr_clock pr) s (map fst (bk_entries b)) b) s"

section \<open>The packer\<close>

definition group_key :: "packer_policy \<Rightarrow> br_group \<Rightarrow> br_entry list \<Rightarrow> rat \<Rightarrow> nat \<times> nat \<times> rat \<times> nat" where
  "group_key policy g keys now =
     (let priority = Min (set (map (\<lambda>e. priority_int (js_priority (en_spec e))) keys)) in
      if bg_admitted g then (priority, 0, bg_first_seen g, bg_order g)
      else if pp_group_major policy
      then (priority, 1, (\<Sum>e\<leftarrow>keys. js_expected_duration (en_spec e)) -
        pp_aging policy * (now - bg_first_seen g), bg_order g)
      else (priority, 1, bg_first_seen g, bg_order g))"

definition group_keys :: "packer_policy \<Rightarrow> br_entry list \<Rightarrow> br_entry list" where
  "group_keys policy keys =
     (if pp_laggard_first policy
      then sort_key (\<lambda>e. (- js_expected_duration (en_spec e), en_arrival e)) keys
      else sort_key en_arrival keys)"

definition by_group :: "br_entry list \<Rightarrow> (string \<times> br_entry list) list" where
  "by_group candidates = foldl (\<lambda>gs e. AList.update (js_group (en_spec e))
     ((case map_of gs (js_group (en_spec e)) of None \<Rightarrow> [] | Some es \<Rightarrow> es) @ [e]) gs) [] candidates"

text \<open>
  The state of \<^verbatim>\<open>_pick\<close>: the profile, the jobs chosen so far with their place in the profile and their
  root, whether the head of the waiting groups holds a reservation, the groups and the counters.
\<close>

record pick =
  pk_profile :: profile
  pk_chosen :: "(br_entry \<times> nat \<times> execution_root option) list"
  pk_head :: bool
  pk_engine :: local_engine

definition set_group :: "string \<Rightarrow> (br_group \<Rightarrow> br_group) \<Rightarrow> pick \<Rightarrow> pick" where
  "set_group grp f pk = pk\<lparr>pk_engine := (pk_engine pk)\<lparr>le_groups :=
     map (\<lambda>(k, g). (k, if k = grp then f g else g)) (le_groups (pk_engine pk))\<rparr>\<rparr>"

definition is_admitted :: "string \<Rightarrow> pick \<Rightarrow> bool" where
  "is_admitted grp pk \<longleftrightarrow> (case map_of (le_groups (pk_engine pk)) grp of
     None \<Rightarrow> False | Some g \<Rightarrow> bg_admitted g)"

definition best_start :: "profile \<Rightarrow> (execution_root option \<times> capacity) list \<Rightarrow> rat \<Rightarrow> (rat \<times> capacity) option" where
  "best_start p needs duration = foldl (\<lambda>best (rt, need). case earliest p need duration of
     None \<Rightarrow> best
   | Some t \<Rightarrow> (case best of
       None \<Rightarrow> Some (t, need)
     | Some (t0, need0) \<Rightarrow> if t < t0 then Some (t, need) else best)) None needs"

definition reserve_best ::
  "profile \<Rightarrow> (execution_root option \<times> capacity) list \<Rightarrow> rat \<Rightarrow> profile \<times> bool" where
  "reserve_best p needs duration = (case best_start p needs duration of
     None \<Rightarrow> (p, False)
   | Some (t, need) \<Rightarrow> (case reserve p need duration of (p1, r) \<Rightarrow> (p1, r \<noteq> None)))"

definition needs_of :: "pick \<Rightarrow> br_entry \<Rightarrow> (execution_root option \<times> capacity) list" where
  "needs_of pk e = map (\<lambda>rt. (rt, need_on (en_spec e) rt)) (root_options (pk_engine pk) e)"

definition pick_start :: "string \<Rightarrow> nat \<Rightarrow> br_entry \<Rightarrow> execution_root option \<times> capacity \<Rightarrow> pick \<Rightarrow> pick" where
  "pick_start grp position e placed pk =
     (case start_now (pk_profile pk) (snd placed) (js_expected_duration (en_spec e)) of (p1, index) \<Rightarrow>
      let pk1 = pk\<lparr>pk_profile := p1, pk_chosen := pk_chosen pk @ [(e, index, fst placed)]\<rparr>;
          pk2 = (case fst placed of None \<Rightarrow> pk1
            | Some r \<Rightarrow> set_group grp (\<lambda>g. g\<lparr>bg_root := Some r\<rparr>) pk1)
      in if position = 0 then set_group grp (\<lambda>g. g\<lparr>bg_admitted := True\<rparr>) pk2 else pk2)"

definition pick_blocked :: "string \<Rightarrow> br_entry \<Rightarrow> bool \<Rightarrow> pick \<Rightarrow> bool \<times> pick" where
  "pick_blocked grp e reserved pk =
     (let policy = le_policy (pk_engine pk);
          needs = needs_of pk e;
          pk1 = (if list_ex (\<lambda>(rt, need). fits (pf_free (pk_profile pk)) need) needs
            then pk\<lparr>pk_engine := (pk_engine pk)\<lparr>le_refused := le_refused (pk_engine pk) + 1\<rparr>\<rparr> else pk)
      in if reserved \<or> \<not> pp_easy policy then (reserved, pk1)
         else if is_admitted grp pk1 \<or> \<not> pk_head pk1
         then let pk2 = (if \<not> is_admitted grp pk1
                then (let pkh = pk1\<lparr>pk_head := True\<rparr> in
                  if \<not> pp_group_major policy then set_group grp (\<lambda>g. g\<lparr>bg_admitted := True\<rparr>) pkh else pkh)
                else pk1)
              in (case reserve_best (pk_profile pk2) needs (js_expected_duration (en_spec e)) of (p1, held) \<Rightarrow>
                (True, pk2\<lparr>pk_profile := p1, pk_engine := (if held
                   then (pk_engine pk2)\<lparr>le_easy := le_easy (pk_engine pk2) + 1\<rparr> else pk_engine pk2)\<rparr>))
         else (reserved, pk1))"

fun pick_keys :: "string \<Rightarrow> rat \<Rightarrow> nat \<Rightarrow> bool \<Rightarrow> br_entry list \<Rightarrow> pick \<Rightarrow> pick" where
  "pick_keys grp now position reserved [] pk = pk"
| "pick_keys grp now position reserved (e # es) pk =
     (case find (\<lambda>(rt, need). feasible (pk_profile pk) need now (js_expected_duration (en_spec e)))
        (needs_of pk e) of
       Some placed \<Rightarrow> pick_keys grp now (position + 1) reserved es (pick_start grp position e placed pk)
     | None \<Rightarrow> (case pick_blocked grp e reserved pk of (reserved1, pk1) \<Rightarrow>
         pick_keys grp now (position + 1) reserved1 es pk1))"

fun pick_groups :: "rat \<Rightarrow> (string \<times> br_entry list) list \<Rightarrow> pick \<Rightarrow> pick" where
  "pick_groups now [] pk = pk"
| "pick_groups now ((grp, keys) # gs) pk =
     pick_groups now gs (pick_keys grp now 0 False (group_keys (le_policy (pk_engine pk)) keys) pk)"

definition missing_group :: "local_engine \<Rightarrow> (string \<times> br_entry list) list \<Rightarrow> string option" where
  "missing_group s gs = find (\<lambda>grp. map_of (le_groups s) grp = None) (map fst gs)"

definition pick_jobs :: "br_entry list \<Rightarrow> profile \<Rightarrow> rat \<Rightarrow> local_engine \<Rightarrow> broker_error + pick" where
  "pick_jobs candidates p now s = (let gs = by_group candidates in
     case missing_group s gs of
       Some grp \<Rightarrow> Inl (MissingKey grp)
     | None \<Rightarrow> Inr (pick_groups now
         (sort_key (\<lambda>(grp, keys). group_key (le_policy s) (the (map_of (le_groups s) grp)) keys now) gs)
         \<lparr>pk_profile = p, pk_chosen = [], pk_head = False, pk_engine = s\<rparr>))"

section \<open>Flexible grants\<close>

definition is_laggard :: "broker \<Rightarrow> br_entry \<Rightarrow> bool" where
  "is_laggard b e =
     (case sort_key (\<lambda>x. (- js_expected_duration (en_spec x), en_arrival x))
        (filter (\<lambda>x. js_group (en_spec x) = js_group (en_spec e) \<and> js_parent_lease (en_spec x) = None \<and>
           is_live (en_state x)) (br_entries b)) of
       [] \<Rightarrow> False
     | longest # _ \<Rightarrow> js_job_id (en_spec longest) = js_job_id (en_spec e))"

definition flex_give :: "packer_policy \<Rightarrow> bool \<Rightarrow> br_entry \<Rightarrow> profile \<Rightarrow> rat option" where
  "flex_give policy laggard e p =
     (let r = js_reservation (en_spec e); want = res_cpu_max r - res_cpu_min r in
      if want \<le> time_eps then None
      else let keep = (if pp_laggard_flex policy \<and> laggard then 0 else pp_headroom_cpu policy);
               give = min want (slack_cpu p (js_expected_duration (en_spec e)) - keep);
               give1 = (if give < want then of_int \<lfloor>give + time_eps\<rfloor> else give)
           in if give1 \<le> time_eps then None else Some give1)"

fun flex_from :: "packer_policy \<Rightarrow> string list \<Rightarrow> (br_entry \<times> nat \<times> execution_root option) list \<Rightarrow>
    profile \<Rightarrow> (string \<times> rat) list \<Rightarrow> (string \<times> rat) list" where
  "flex_from policy laggards [] p extra = extra"
| "flex_from policy laggards ((e, index, rt) # cs) p extra =
     (let jid = js_job_id (en_spec e) in
      case flex_give policy (jid \<in> set laggards) e p of
        None \<Rightarrow> flex_from policy laggards cs p extra
      | Some give \<Rightarrow> flex_from policy laggards cs (grow p index give) (AList.update jid give extra))"

definition flex :: "local_engine \<Rightarrow> (br_entry \<times> nat \<times> execution_root option) list \<Rightarrow> profile \<Rightarrow>
    (string \<times> rat) list" where
  "flex s chosen p =
     (let laggards = map (\<lambda>(e, i, r). js_job_id (en_spec e)) (filter (\<lambda>(e, i, r). is_laggard (le_core s) e) chosen);
          ordered = (if pp_laggard_flex (le_policy s)
            then filter (\<lambda>(e, i, r). js_job_id (en_spec e) \<in> set laggards) chosen @
                 filter (\<lambda>(e, i, r). js_job_id (en_spec e) \<notin> set laggards) chosen
            else chosen)
      in flex_from (le_policy s) laggards ordered p [])"

section \<open>The admission pass\<close>

definition host_candidates :: "local_engine \<Rightarrow> br_entry list" where
  "host_candidates s = (let cs = filter (\<lambda>e. en_state e = Queued \<and> js_parent_lease (en_spec e) = None)
       (br_entries (le_core s))
     in if bk_brake (le_core s) = AMBER
        then filter (\<lambda>e. js_priority (en_spec e) = CRITICAL_PATH) cs else cs)"

definition running_ends :: "local_engine \<Rightarrow> rat \<Rightarrow> (rat \<times> capacity) list" where
  "running_ends s now = List.map_filter (\<lambda>e. map_option (\<lambda>g.
     (max (now + overrun) (gr_granted_at g + js_expected_duration (en_spec e)), gr_amounts g))
     (en_grant e)) (top_running s)"

fun admit_chosen :: "br_clock \<Rightarrow> (string \<times> rat) list \<Rightarrow> (br_entry \<times> nat \<times> execution_root option) list \<Rightarrow>
    broker \<Rightarrow> broker" where
  "admit_chosen clk extra [] b = b"
| "admit_chosen clk extra ((e, index, rt) # cs) b =
     admit_chosen clk extra cs (snd (le_admit clk e (res_cpu_min (js_reservation (en_spec e)) +
       (case map_of extra (js_job_id (en_spec e)) of None \<Rightarrow> 0 | Some x \<Rightarrow> x)) None rt b))"

definition admit_hosts :: "probes \<Rightarrow> local_engine \<Rightarrow> unit le_outcome" where
  "admit_hosts pr s =
     (if brake_int (bk_brake (le_core s)) \<ge> brake_int RED then (Inr (), s)
      else let candidates = host_candidates s in
        if candidates = [] then (Inr (), s)
        else (case host_free pr s of
          (Inl err, s1) \<Rightarrow> (Inr (), s1)
        | (Inr free, s1) \<Rightarrow>
            let now = pr_clock pr (bk_ticks (le_core s1));
                s2 = on_core (\<lambda>b. b\<lparr>bk_ticks := bk_ticks b + 1\<rparr>) s1
            in attempt s2 (pick_jobs candidates (new_profile free now (running_ends s2 now)) now s2) (\<lambda>pk.
              let s3 = pk_engine pk;
                  extra = (if bk_brake (le_core s3) = GREEN then flex s3 (pk_chosen pk) (pk_profile pk) else [])
              in (Inr (), on_core (admit_chosen (pr_clock pr) extra (pk_chosen pk)) s3))))"

definition drop_groups :: "local_engine \<Rightarrow> local_engine" where
  "drop_groups s = s\<lparr>le_groups := filter (\<lambda>(grp, g). group_live s grp) (le_groups s)\<rparr>"

definition le_pump :: "probes \<Rightarrow> local_engine \<Rightarrow> unit le_outcome" where
  "le_pump pr s = and_do (reap_dead pr s) (\<lambda>_ s1. and_do (serve_nested pr s1) (\<lambda>_ s2.
     and_do (admit_hosts pr s2) (\<lambda>_ s3. (Inr (), drop_groups s3))))"

section \<open>Controls and the port\<close>

definition le_set_available :: "bool \<Rightarrow> local_engine \<Rightarrow> local_engine" where
  "le_set_available up s = on_core (set_available up) s"

definition le_set_brake :: "probes \<Rightarrow> brake_level \<Rightarrow> string \<Rightarrow> local_engine \<Rightarrow> unit le_outcome" where
  "le_set_brake pr level reason s = le_pump pr (on_core (\<lambda>b. emit (pr_clock pr) BRAKED None
     [(''level'', DInt (int (brake_int level))), (''reason'', DStr reason)] (b\<lparr>bk_brake := level\<rparr>)) s)"

definition le_reap :: "probes \<Rightarrow> local_engine \<Rightarrow> unit le_outcome" where
  "le_reap pr s = le_pump pr s"

definition new_group :: "probes \<Rightarrow> string \<Rightarrow> local_engine \<Rightarrow> local_engine" where
  "new_group pr grp s =
     (if map_of (le_groups s) grp \<noteq> None then s
      else on_core (\<lambda>b. b\<lparr>bk_ticks := bk_ticks b + 1\<rparr>) (s\<lparr>
        le_groups := AList.update grp \<lparr>bg_order = le_next_order s,
          bg_first_seen = pr_clock pr (bk_ticks (le_core s)), bg_admitted = False, bg_root = None\<rparr> (le_groups s),
        le_next_order := le_next_order s + 1\<rparr>))"

definition admission_check :: "probes \<Rightarrow> job_spec \<Rightarrow> local_engine \<Rightarrow> unit le_outcome" where
  "admission_check pr job s =
     (if js_parent_lease job \<noteq> None then (le_check_nested s job, s)
      else attempt s (check_budget s job) (\<lambda>_. and_do (probe pr s) (\<lambda>_ s1. (Inr (), s1))))"

definition le_submit :: "probes \<Rightarrow> job_spec \<Rightarrow> local_engine \<Rightarrow> job_handle le_outcome" where
  "le_submit pr job s = attempt s (le_require_up s) (\<lambda>_.
     case le_find s (js_job_id job) of
       Some existing \<Rightarrow> (Inr (en_handle existing), s)
     | None \<Rightarrow> and_do (admission_check pr job s) (\<lambda>_ s1.
         and_do (do_core (\<lambda>b. adopt_child job (enqueue local_name job b)) s1) (\<lambda>_ s2.
           let s3 = (if js_parent_lease job = None then new_group pr (js_group job) s2 else s2);
               s4 = on_core (emit (pr_clock pr) SUBMITTED (Some (js_job_id job))
                 [(''group'', DStr (js_group job))]) s3
           in and_do (le_pump pr s4) (\<lambda>_ s5.
                (Inr (new_handle local_name (bk_arrivals (le_core s) + 1) job), s5)))))"

definition le_read_clock :: "probes \<Rightarrow> local_engine \<Rightarrow> rat \<times> local_engine" where
  "le_read_clock pr s =
     (pr_clock pr (bk_ticks (le_core s)), on_core (\<lambda>b. b\<lparr>bk_ticks := bk_ticks b + 1\<rparr>) s)"

definition wait_verdict :: "probes \<Rightarrow> job_handle \<Rightarrow> rat option \<Rightarrow> br_entry \<Rightarrow> local_engine \<Rightarrow>
    grant option le_outcome" where
  "wait_verdict pr h deadline e s =
     (if (en_state e = Running \<or> en_state e = Finished) \<and> en_grant e \<noteq> None then (Inr (en_grant e), s)
      else if en_state e \<noteq> Queued then (Inl (LeaseLost (lost_message h e)), s)
      else case le_probe_error s of
        Some exc \<Rightarrow>
          if js_parent_lease (en_spec e) = None
          then and_do (do_core (end_entry (pr_clock pr) (jh_job_id h) Cancelled CANCELLED
              [(''reason'', DStr ''broker unavailable'')]) s)
            (\<lambda>_ s1. (Inl (BrokerUnavailable (jh_job_id h @ '': availability probe failed: '' @ exc)), s1))
          else (case deadline of None \<Rightarrow> (Inr None, s)
            | Some d \<Rightarrow> (case le_read_clock pr s of (now, s1) \<Rightarrow>
                if d - now \<le> 0 then (Inl (GrantTimeout (jh_job_id h @ '': still queued'')), s1)
                else (Inr None, s1)))
      | None \<Rightarrow> (case deadline of None \<Rightarrow> (Inr None, s)
          | Some d \<Rightarrow> (case le_read_clock pr s of (now, s1) \<Rightarrow>
              if d - now \<le> 0 then (Inl (GrantTimeout (jh_job_id h @ '': still queued'')), s1)
              else (Inr None, s1))))"

definition wait_round :: "probes \<Rightarrow> job_handle \<Rightarrow> rat option \<Rightarrow> local_engine \<Rightarrow> grant option le_outcome" where
  "wait_round pr h deadline s = attempt s (le_require_up s) (\<lambda>_. attempt s (le_entry s h) (\<lambda>_.
     and_do (le_pump pr s) (\<lambda>_ s1. case le_find s1 (jh_job_id h) of
       None \<Rightarrow> (Inl (MissingKey (jh_job_id h)), s1)
     | Some e \<Rightarrow> wait_verdict pr h deadline e s1)))"

text \<open>
  The loop of \<^verbatim>\<open>wait_grant\<close> for at most \<open>n\<close> rounds, in which no other call intervenes; \<open>None\<close> when it still
  waits.
\<close>

fun wait_loop :: "nat \<Rightarrow> probes \<Rightarrow> job_handle \<Rightarrow> rat option \<Rightarrow> local_engine \<Rightarrow> grant le_outcome option" where
  "wait_loop 0 pr h deadline s = None"
| "wait_loop (Suc n) pr h deadline s = (case wait_round pr h deadline s of
     (Inl err, s1) \<Rightarrow> Some (Inl err, s1)
   | (Inr (Some g), s1) \<Rightarrow> Some (Inr g, s1)
   | (Inr None, s1) \<Rightarrow> wait_loop n pr h deadline s1)"

definition le_wait_grant :: "nat \<Rightarrow> probes \<Rightarrow> job_handle \<Rightarrow> rat option \<Rightarrow> local_engine \<Rightarrow>
    grant le_outcome option" where
  "le_wait_grant n pr h timeout s = (case timeout of
     None \<Rightarrow> wait_loop n pr h None s
   | Some t \<Rightarrow> (case le_read_clock pr s of (now, s1) \<Rightarrow> wait_loop n pr h (Some (now + t)) s1))"

definition le_report :: "probes \<Rightarrow> job_handle \<Rightarrow> job_outcome \<Rightarrow> local_engine \<Rightarrow> unit le_outcome" where
  "le_report pr h oc s = attempt s (le_require_up s) (\<lambda>_. attempt s (le_entry s h) (\<lambda>e.
     if en_state e = Finished then (Inr (), s)
     else if en_state e \<noteq> Running then (Inl (LeaseLost (lost_message h e)), s)
     else and_do (do_core (end_entry (pr_clock pr) (jh_job_id h) Finished FINISHED
         [(''exit_code'', DInt (oc_exit_code oc))]) s) (\<lambda>_ s1. le_pump pr s1)))"

definition le_cancel :: "probes \<Rightarrow> job_handle \<Rightarrow> string \<Rightarrow> local_engine \<Rightarrow> unit le_outcome" where
  "le_cancel pr h reason s = attempt s (le_require_up s) (\<lambda>_.
     case le_find s (jh_job_id h) of
       None \<Rightarrow> (Inr (), s)
     | Some e \<Rightarrow>
         (if \<not> is_live (en_state e) then (Inr (), s)
          else and_do (do_core (end_entry (pr_clock pr) (jh_job_id h) Cancelled CANCELLED
              [(''reason'', DStr reason)]) s) (\<lambda>_ s1. le_pump pr s1)))"

definition signals_of :: "(string \<times> int) list \<Rightarrow> local_engine \<Rightarrow> (string \<times> rat) list" where
  "signals_of free s = [(''easy_reservations'', of_nat (le_easy s)), (''backfill_refused'', of_nat (le_refused s))] @
     (case le_measured s of None \<Rightarrow> []
      | Some m \<Rightarrow> [(''measured_cpu'', cap_cpu m), (''measured_memory_bytes'', of_int (cap_memory m))]) @
     map (\<lambda>(path, n). (''root_free_bytes:'' @ path, of_int n)) free"

definition le_status :: "probes \<Rightarrow> local_engine \<Rightarrow> broker_status le_outcome" where
  "le_status pr s = attempt s (le_require_up s) (\<lambda>_. and_do (probe pr s) (\<lambda>_ s1.
     and_do (le_pump pr s1) (\<lambda>_ s2. case measure_roots pr s2 of (free, s3) \<Rightarrow>
       let b = le_core s3 in (Inr \<lparr>bs_backend = local_name, bs_budget = bk_budget b, bs_in_use = in_use b,
         bs_queued = count_list (map en_state (br_entries b)) Queued,
         bs_running = count_list (map en_state (br_entries b)) Running,
         bs_brake = bk_brake b, bs_signals = signals_of free s3\<rparr>, s3))))"

definition le_events :: "int \<Rightarrow> local_engine \<Rightarrow> broker_error + broker_event list" where
  "le_events since s = and_then (le_require_up s) (\<lambda>_.
     Inr (filter (\<lambda>e. int (be_seq e) > since) (bk_events (le_core s))))"

end
