(* ===== verification/Br_Packing.thy ===== *)
theory Br_Packing
  imports Br_Profile Br_Refine
begin

text \<open>
  What the resource profile guarantees. \<open>cap_at_sum\<close> gives the room at a time as what is free now, plus
  what ends by then, less the reservations active then. Starting a job that is feasible now
  therefore leaves enough room at every reservation it overlaps (\<open>start_now_honours\<close>), and, as
  nothing of the profile ends at or before now, the starts and the extra CPU of one admission pass never
  take more than was free (\<open>packs\<close>).
\<close>

definition profile_ok :: "profile \<Rightarrow> bool" where
  "profile_ok p \<longleftrightarrow>
     (\<forall>x\<in>set (pf_ends p). pf_now p < fst x \<and> distinct (map fst (cap_pools (snd x)))) \<and>
     (\<forall>x\<in>set (pf_reservations p). capacity_ok (snd (snd x)))"

lemma capacity_ok_distinct: "capacity_ok c \<Longrightarrow> distinct (map fst (cap_pools c))"
  by (simp add: capacity_ok_def pools_ok_def)

definition active :: "rat \<Rightarrow> rat \<times> rat \<times> capacity \<Rightarrow> bool" where
  "active t r \<longleftrightarrow> fst r \<le> t + time_eps \<and> t + time_eps < fst (snd r)"

context dimension
begin

lemma ended_sum:
  assumes "\<forall>x\<in>set es. distinct (map fst (cap_pools (snd x)))"
  shows "f (foldl (\<lambda>cap (e, amounts). if e \<le> t then cap_add cap amounts else cap) c es) =
    f c + (\<Sum>x\<leftarrow>es. if fst x \<le> t then f (snd x) else 0)"
  using assms by (induction es arbitrary: c) (auto simp: add)

lemma reserved_sum:
  assumes "\<forall>x\<in>set rs. capacity_ok (snd (snd x))"
  shows "f (foldl (\<lambda>cap (s, e, need). if s \<le> t + time_eps \<and> t + time_eps < e then cap_sub cap need else cap) c rs) =
    f c - (\<Sum>x\<leftarrow>rs. if active t x then f (snd (snd x)) else 0)"
  using assms
  by (induction rs arbitrary: c) (auto simp: sub capacity_ok_distinct active_def)

lemma cap_at_sum:
  assumes "profile_ok p"
  shows "f (cap_at p t) = f (pf_free p) + (\<Sum>x\<leftarrow>pf_ends p. if fst x \<le> t then f (snd x) else 0) -
    (\<Sum>x\<leftarrow>pf_reservations p. if active t x then f (snd (snd x)) else 0)"
  unfolding cap_at_def
  by (subst reserved_sum) (use assms in \<open>auto simp: profile_ok_def ended_sum\<close>)

lemma cap_at_now:
  assumes "profile_ok p"
  shows "f (cap_at p (pf_now p)) \<le> f (pf_free p)"
proof -
  have "(\<Sum>x\<leftarrow>pf_ends p. if fst x \<le> pf_now p then f (snd x) else 0) = (\<Sum>x\<leftarrow>pf_ends p. 0)"
    by (intro arg_cong [where f = sum_list] map_cong) (use assms in \<open>auto simp: profile_ok_def\<close>)
  moreover have "0 \<le> (\<Sum>x\<leftarrow>pf_reservations p. if active (pf_now p) x then f (snd (snd x)) else 0)"
    by (rule sum_list_nonneg) (use assms in \<open>auto simp: profile_ok_def nonneg\<close>)
  ultimately show ?thesis by (simp add: cap_at_sum [OF assms])
qed

lemma cap_at_start:
  assumes "profile_ok p" "capacity_ok need" "0 < d"
  shows "f (cap_at (fst (start_now p need d)) t) =
    f (cap_at p t) - (if t < pf_now p + d then f need else 0)"
proof -
  have "profile_ok (fst (start_now p need d))"
    using assms by (auto simp: profile_ok_def start_now_def capacity_ok_distinct)
  then show ?thesis
    using assms
    by (simp add: cap_at_sum start_now_def sub capacity_ok_distinct)
qed

lemma cap_at_reserve:
  assumes "profile_ok p" "capacity_ok need"
  shows "f (cap_at (p\<lparr>pf_reservations := pf_reservations p @ [(s, e, need)]\<rparr>) t) =
    f (cap_at p t) - (if active t (s, e, need) then f need else 0)"
proof -
  have "profile_ok (p\<lparr>pf_reservations := pf_reservations p @ [(s, e, need)]\<rparr>)"
    using assms by (simp add: profile_ok_def)
  then show ?thesis using assms by (simp add: cap_at_sum)
qed

end

lemma start_now_ok:
  assumes "profile_ok p" "capacity_ok need" "0 < d"
  shows "profile_ok (fst (start_now p need d))"
  using assms by (auto simp: profile_ok_def start_now_def capacity_ok_distinct)

lemma start_now_simps [simp]:
  "pf_free (fst (start_now p need d)) = cap_sub (pf_free p) need"
  "pf_now (fst (start_now p need d)) = pf_now p"
  "pf_reservations (fst (start_now p need d)) = pf_reservations p"
  "pf_ends (fst (start_now p need d)) = pf_ends p @ [(pf_now p + d, need)]"
  "snd (start_now p need d) = length (pf_ends p)"
  by (simp_all add: start_now_def)

lemma reserve_ok: "profile_ok p \<Longrightarrow> capacity_ok need \<Longrightarrow> profile_ok (fst (reserve p need d))"
  by (auto simp: reserve_def profile_ok_def split: option.splits)

lemma reserve_simps [simp]:
  "pf_free (fst (reserve p need d)) = pf_free p" "pf_now (fst (reserve p need d)) = pf_now p"
  "pf_ends (fst (reserve p need d)) = pf_ends p"
  by (simp_all add: reserve_def split: option.splits)

section \<open>Reservations are not delayed\<close>

text \<open>
  A time is honoured when everything reserved at it finds its room: what is left there is not
  negative (the CPU within the tolerance of \<open>fits\<close>).
\<close>

definition honoured :: "profile \<Rightarrow> rat \<Rightarrow> bool" where
  "honoured p t \<longleftrightarrow> - eps \<le> cap_cpu (cap_at p t) \<and> 0 \<le> cap_memory (cap_at p t) \<and>
     (\<forall>name. 0 \<le> pool_in name (cap_at p t))"

lemma fits_pool: "fits c need \<Longrightarrow> pools_ok (cap_pools need) \<Longrightarrow>
  pool_in name need = 0 \<or> pool_in name need \<le> pool_in name c"
  unfolding pool_in_def
  by (cases "map_of (cap_pools need) name")
    (auto simp: pool_get_def [of "cap_pools need"] dest: map_of_SomeD fitsD(3))

lemma taken_honoured:
  assumes "honoured p t" "fits (cap_at p t) need" "capacity_ok need"
    and "cap_cpu (cap_at p' t) = cap_cpu (cap_at p t) - cap_cpu need"
    and "cap_memory (cap_at p' t) = cap_memory (cap_at p t) - cap_memory need"
    and "\<And>name. pool_in name (cap_at p' t) = pool_in name (cap_at p t) - pool_in name need"
  shows "honoured p' t"
proof -
  have "pool_in name need \<le> pool_in name (cap_at p t)" for name
    using fits_pool [OF assms(2), of name] assms(1,3) by (auto simp: honoured_def capacity_ok_def)
  then show ?thesis
    using fitsD(1,2) [OF assms(2)] assms(4-6) by (simp add: honoured_def)
qed

lemma start_now_honours:
  assumes "profile_ok p" "capacity_ok need" "0 < d" "feasible p need (pf_now p) d"
    and "r \<in> set (pf_reservations p)" "pf_now p + time_eps < fst r" "honoured p (fst r)"
  shows "honoured (fst (start_now p need d)) (fst r)"
proof (cases "fst r < pf_now p + d")
  case True
  then have "fst r \<in> set (checkpoints p (pf_now p) d)"
    using assms(5,6) by (simp add: checkpoints_def)
  then have "fits (cap_at p (fst r)) need"
    using assms(4) by (auto simp: feasible_def list_all_iff)
  then show ?thesis
    by (rule taken_honoured [OF assms(7) _ assms(2)])
      (use True in \<open>simp_all add: cpu.cap_at_start [OF assms(1-3)] memory.cap_at_start [OF assms(1-3)]
        pool.cap_at_start [OF assms(1-3)]\<close>)
next
  case False
  then show ?thesis
    using assms(7)
    by (simp add: honoured_def cpu.cap_at_start [OF assms(1-3)] memory.cap_at_start [OF assms(1-3)]
      pool.cap_at_start [OF assms(1-3)])
qed

text \<open>
  A new reservation leaves the earlier ones their room as long as its start is not within the time
  tolerance of theirs without being the same.
\<close>

lemma reserve_honours:
  assumes "profile_ok p" "capacity_ok need" "reserve p need d = (p', Some t)"
    and "r \<in> set (pf_reservations p)" "fst r = t \<or> time_eps < \<bar>fst r - t\<bar>" "honoured p (fst r)"
  shows "honoured p' (fst r)"
proof -
  have t: "feasible p need t d" and p': "p' = p\<lparr>pf_reservations := pf_reservations p @ [(t, t + d, need)]\<rparr>"
    using assms(3) by (auto simp: reserve_def earliest_def find_Some_iff split: option.splits)
  show ?thesis
  proof (cases "active (fst r) (t, t + d, need)")
    case True
    then have "fst r = t \<or> (t + time_eps < fst r \<and> fst r < t + d)"
      using assms(5) by (auto simp: active_def time_eps_def abs_if split: if_splits)
    then have "fst r \<in> set (checkpoints p t d)"
      using assms(4) by (auto simp: checkpoints_def)
    then have "fits (cap_at p (fst r)) need"
      using t by (auto simp: feasible_def list_all_iff)
    then show ?thesis
      by (rule taken_honoured [OF assms(6) _ assms(2)])
        (use True in \<open>simp_all add: p' cpu.cap_at_reserve [OF assms(1,2)]
          memory.cap_at_reserve [OF assms(1,2)] pool.cap_at_reserve [OF assms(1,2)]\<close>)
  next
    case False
    then show ?thesis
      using assms(6)
      by (simp add: honoured_def p' cpu.cap_at_reserve [OF assms(1,2)]
        memory.cap_at_reserve [OF assms(1,2)] pool.cap_at_reserve [OF assms(1,2)])
  qed
qed

section \<open>One admission pass\<close>

text \<open>
  \<open>packs tol x free cs p\<close>: of what was \<open>free\<close> at the start of the pass, the jobs with the needs \<open>cs\<close> and \<open>x\<close>
  of extra CPU were taken, and what is left in \<open>p\<close> is not negative where something was taken (the
  CPU within \<open>tol\<close>).
\<close>

definition packs :: "rat \<Rightarrow> rat \<Rightarrow> capacity \<Rightarrow> capacity list \<Rightarrow> profile \<Rightarrow> bool" where
  "packs tol x free cs p \<longleftrightarrow> profile_ok p \<and>
     cap_cpu (pf_free p) = cap_cpu free - (\<Sum>c\<leftarrow>cs. cap_cpu c) - x \<and>
     cap_memory (pf_free p) = cap_memory free - (\<Sum>c\<leftarrow>cs. cap_memory c) \<and>
     (\<forall>name. pool_in name (pf_free p) = pool_in name free - (\<Sum>c\<leftarrow>cs. pool_in name c)) \<and>
     (cs \<noteq> [] \<longrightarrow> - tol \<le> cap_cpu (pf_free p) \<and> 0 \<le> cap_memory (pf_free p)) \<and>
     (\<forall>name. (\<forall>c\<in>set cs. pool_in name c = 0) \<or> 0 \<le> pool_in name (pf_free p))"

lemma packs_new:
  assumes "\<And>x. x \<in> set running \<Longrightarrow> now < fst x \<and> distinct (map fst (cap_pools (snd x)))"
  shows "packs tol 0 free [] (new_profile free now running)"
  using assms by (simp add: packs_def new_profile_def profile_ok_def)

lemma packs_start:
  assumes "packs eps 0 free cs p" "capacity_ok need" "0 < d" "feasible p need (pf_now p) d"
  shows "packs eps 0 free (cs @ [need]) (fst (start_now p need d))"
proof -
  have ok: "profile_ok p" using assms(1) by (simp add: packs_def)
  have now: "fits (cap_at p (pf_now p)) need"
    using assms(4) by (simp add: feasible_def checkpoints_def)
  have dist: "distinct (map fst (cap_pools need))" using assms(2) by (rule capacity_ok_distinct)
  have "pool_in name need = 0 \<or> pool_in name need \<le> pool_in name (pf_free p)" for name
    using fits_pool [OF now, of name] assms(2) pool.cap_at_now [OF ok, of name]
    by (auto simp: capacity_ok_def)
  moreover have "0 \<le> pool_in name need" for name using pool.nonneg [OF assms(2)] .
  ultimately have "(\<forall>c\<in>set (cs @ [need]). pool_in name c = 0) \<or> pool_in name need \<le> pool_in name (pf_free p)"
    for name using assms(1) unfolding packs_def by (metis Un_iff empty_set list.simps(15) set_append singletonD)
  then show ?thesis
    using assms(1) start_now_ok [OF ok assms(2,3)] fitsD(1,2) [OF now] cpu.cap_at_now [OF ok]
      memory.cap_at_now [OF ok]
    by (simp add: packs_def cpu.sub [OF dist] memory.sub [OF dist] pool.sub [OF dist])
qed

lemma packs_reserve:
  assumes "packs tol x free cs p" "capacity_ok need"
  shows "packs tol x free cs (fst (reserve p need d))"
  using assms unfolding packs_def reserve_simps by (blast intro: reserve_ok)

lemma extra_distinct: "distinct (map fst (cap_pools c)) \<Longrightarrow>
  distinct (map fst (cap_pools (cap_add c \<lparr>cap_cpu = x, cap_memory = 0, cap_pools = []\<rparr>)))"
  by (simp add: cap_add_def pools_add_distinct)

lemma grow_simps [simp]:
  "pf_now (grow p i x) = pf_now p" "pf_reservations (grow p i x) = pf_reservations p"
  "length (pf_ends (grow p i x)) = length (pf_ends p)"
  "cap_cpu (pf_free (grow p i x)) = cap_cpu (pf_free p) - x"
  "cap_memory (pf_free (grow p i x)) = cap_memory (pf_free p)"
  "pool_in name (pf_free (grow p i x)) = pool_in name (pf_free p)"
  by (simp_all add: grow_def Let_def cap_sub_def pool_in_def pools_sub_def)

lemma grow_ok:
  assumes "profile_ok p" "i < length (pf_ends p)"
  shows "profile_ok (grow p i x)"
proof -
  let ?good = "\<lambda>e. pf_now p < fst e \<and> distinct (map fst (cap_pools (snd e)))"
  let ?new = "(fst (pf_ends p ! i), cap_add (snd (pf_ends p ! i)) \<lparr>cap_cpu = x, cap_memory = 0, cap_pools = []\<rparr>)"
  have old: "?good e" if "e \<in> set (pf_ends p)" for e
    using that assms(1) unfolding profile_ok_def by blast
  have "?good (pf_ends p ! i)" using assms(2) by (intro old) simp
  then have new: "?good ?new" using extra_distinct by simp
  have "set (pf_ends (grow p i x)) \<subseteq> insert ?new (set (pf_ends p))"
    unfolding grow_def Let_def using set_update_subset_insert by simp
  then have "\<forall>e\<in>set (pf_ends (grow p i x)). ?good e" using old new by blast
  then show ?thesis
    using assms(1) unfolding profile_ok_def grow_simps by blast
qed

lemma slack_le_free:
  assumes "profile_ok p"
  shows "slack_cpu p d \<le> cap_cpu (pf_free p)"
proof -
  have "slack_cpu p d \<le> cap_cpu (cap_at p (pf_now p))"
    unfolding slack_cpu_def by (rule Min_le) (simp_all add: checkpoints_def)
  then show ?thesis using cpu.cap_at_now [OF assms] by simp
qed

lemma packs_grow:
  assumes "packs time_eps x free cs p" "i < length (pf_ends p)" "y \<le> slack_cpu p d + time_eps"
  shows "packs time_eps (x + y) free cs (grow p i y)"
  using assms slack_le_free [of p d] grow_ok [of p i y] by (auto simp: packs_def)

lemma packs_weaken: "packs eps x free cs p \<Longrightarrow> packs time_eps x free cs p"
  by (auto simp: packs_def eps_def time_eps_def)

end
