(* ===== verification/Br_Starts.thy ===== *)
theory Br_Starts
  imports Br_Steps
begin

text \<open>
  Passes that start several leases, for any engine: \<open>start_step Q\<close> is the start of one queued job with a
  grant that its account has left and that meets \<open>Q\<close>. Any number of them keeps the invariant, is a
  sequence of ledger steps, and leaves every entry as it was or running with a grant that meets \<open>Q\<close>.
\<close>

context lease_book
begin

definition start_step :: "(br_entry \<Rightarrow> grant \<Rightarrow> bool) \<Rightarrow> broker \<Rightarrow> broker \<Rightarrow> bool" where
  "start_step Q b b' \<longleftrightarrow> (\<exists>k e g a tot. find_entry b k = Some e \<and> en_state e = Queued \<and> grant_ok e g \<and>
     total_of b a = Some tot \<and> k \<in> account_members b a \<and> takes tol tot (book b a) (gr_amounts g) \<and>
     Q e g \<and> started k g b b')"

lemma start_stepI:
  assumes "find_entry b k = Some e" "en_state e = Queued" "grant_ok e g" "total_of b a = Some tot"
    and "k \<in> account_members b a" "takes tol tot (book b a) (gr_amounts g)" "Q e g" "started k g b b'"
  shows "start_step Q b b'"
  using assms unfolding start_step_def by blast

lemma start_step_sound:
  assumes "start_step Q b b'" "broker_ok b"
  shows "broker_ok b' \<and> refines tol b b' \<and> same_frame b b'"
proof -
  obtain k e g a tot where s: "find_entry b k = Some e" "en_state e = Queued" "grant_ok e g"
    "total_of b a = Some tot" "k \<in> account_members b a" "takes tol tot (book b a) (gr_amounts g)"
    "started k g b b'"
    using assms(1) unfolding start_step_def by blast
  then show ?thesis
    using started_ok [OF assms(2) s(1-3,7)] started_refines [OF assms(2) s] startedD(2) [OF s(7,1)] by blast
qed

lemma starts_sound:
  assumes "(start_step Q)\<^sup>*\<^sup>* b b'" "broker_ok b"
  shows "broker_ok b'" "refines tol b b'" "same_frame b b'"
proof -
  have "broker_ok b' \<and> refines tol b b' \<and> same_frame b b'"
    using assms
  proof induction
    case base
    then show ?case by (simp add: same_frame_def)
  next
    case (step b1 b2)
    then show ?case
      using start_step_sound [OF step.hyps(2)] by (auto intro: refines_trans same_frame_trans)
  qed
  then show "broker_ok b'" "refines tol b b'" "same_frame b b'" by blast+
qed

definition moved :: "(br_entry \<Rightarrow> grant \<Rightarrow> bool) \<Rightarrow> br_entry \<Rightarrow> br_entry \<Rightarrow> bool" where
  "moved Q e e' \<longleftrightarrow> e' = e \<or> (en_state e = Queued \<and> (\<exists>g. Q e g \<and> grant_ok e g \<and>
     e' = e\<lparr>en_grant := Some g, en_state := Running\<rparr>))"

lemma moved_simps:
  assumes "moved Q e e'"
  shows "en_spec e' = en_spec e" "en_handle e' = en_handle e" "en_children e' = en_children e"
    "en_arrival e' = en_arrival e" "is_live (en_state e') = is_live (en_state e)"
  using assms by (auto simp: moved_def is_live_def)

lemma starts_entry:
  assumes "(start_step Q)\<^sup>*\<^sup>* b b'" "find_entry b k = Some e"
  obtains e' where "find_entry b' k = Some e'" "moved Q e e'"
proof -
  have "\<exists>e'. find_entry b' k = Some e' \<and> moved Q e e'"
    using assms
  proof induction
    case base
    then show ?case by (simp add: moved_def)
  next
    case (step b1 b2)
    then obtain e1 where e1: "find_entry b1 k = Some e1" "moved Q e e1" by blast
    obtain j f g where s: "find_entry b1 j = Some f" "en_state f = Queued" "grant_ok f g" "Q f g"
      "started j g b1 b2"
      using step.hyps(2) unfolding start_step_def by blast
    show ?case
    proof (cases "k = j")
      case True
      then have "e1 = f" using e1(1) s(1) by simp
      then have "e = f" using e1(2) s(2) by (auto simp: moved_def)
      then show ?thesis
        using True s startedD(1) [OF s(5,1), of k] by (auto simp: moved_def)
    next
      case False
      then show ?thesis using e1 startedD(1) [OF s(5,1), of k] by auto
    qed
  qed
  then show thesis using that by blast
qed

lemma starts_back:
  assumes "(start_step Q)\<^sup>*\<^sup>* b b'" "broker_ok b" "find_entry b' k = Some e'"
  obtains e where "find_entry b k = Some e" "moved Q e e'"
proof -
  obtain e where e: "find_entry b k = Some e"
    using same_frame_find [OF starts_sound(3) [OF assms(1,2)], of k] assms(3)
    by (cases "find_entry b k") auto
  obtain e1 where "find_entry b' k = Some e1" "moved Q e e1"
    using starts_entry [OF assms(1) e] .
  then show thesis using assms(3) e by (intro that [of e]) simp_all
qed

lemma starts_live:
  assumes "(start_step Q)\<^sup>*\<^sup>* b b'" "broker_ok b"
  shows "live_in b' k = live_in b k"
proof (cases "find_entry b k")
  case None
  then show ?thesis
    using same_frame_find [OF starts_sound(3) [OF assms], of k] by (simp add: live_in_def)
next
  case (Some e)
  obtain e' where "find_entry b' k = Some e'" "moved Q e e'"
    using starts_entry [OF assms(1) Some] .
  then show ?thesis using Some moved_simps(5) by (simp add: live_in_def)
qed

lemma starts_mono:
  assumes "(start_step Q)\<^sup>*\<^sup>* b b'" "\<And>e g. Q e g \<Longrightarrow> Q' e g"
  shows "(start_step Q')\<^sup>*\<^sup>* b b'"
proof -
  have "start_step Q \<le> start_step Q'"
    using assms(2) unfolding start_step_def by blast
  then show ?thesis using assms(1) rtranclp_mono by blast
qed

lemma entry_ids:
  assumes "broker_ok b"
  shows "map (\<lambda>e. js_job_id (en_spec e)) (br_entries b) = map fst (bk_entries b)"
    and "e \<in> set (br_entries b) \<Longrightarrow> find_entry b (js_job_id (en_spec e)) = Some e"
proof -
  have id: "js_job_id (en_spec e) = k" if "(k, e) \<in> set (bk_entries b)" for k e
    using broker_okD(3) [OF assms] that find_entry_set [OF broker_okD(1) [OF assms]]
    by (auto simp: br_entry_ok_def)
  then show "map (\<lambda>e. js_job_id (en_spec e)) (br_entries b) = map fst (bk_entries b)"
    unfolding br_entries_def map_map by (intro map_cong) auto
  show "find_entry b (js_job_id (en_spec e)) = Some e" if "e \<in> set (br_entries b)"
    using that id by (auto simp: br_entries_def find_entry_set [OF broker_okD(1) [OF assms]])
qed

lemma started_used:
  fixes f :: "capacity \<Rightarrow> 'a::ab_group_add"
  assumes "broker_ok b" "find_entry b k = Some e" "en_state e = Queued" "k \<in> account_members b a"
    and "started k g b b'"
  shows "used f (book b' a) = used f (book b a) + f (gr_amounts g)"
proof -
  have "holding b k = None" using assms(2,3) by (simp add: holding_def)
  then have "snd (book b a) k = None" by (simp add: book_def)
  then have "used f (account_members b a, (snd (book b a))(k \<mapsto> gr_amounts g)) =
      used f (account_members b a, snd (book b a)) + f (gr_amounts g)"
    by (rule used_take [OF finite_members assms(4)])
  moreover have "(account_members b a, snd (book b a)) = book b a" by (simp add: book_def)
  ultimately show ?thesis using started_book [OF assms(1,2,4,5), of a] by simp
qed

end

end
