(* ===== verification/Br_Local_Serve.thy ===== *)
theory Br_Local_Serve
  imports Br_Local Br_Packing Br_Starts Br_Port
begin

text \<open>
  The local engine on its ledger of entries. Its grants are the whole minimum reservation on one
  root, the CPU at least \<^verbatim>\<open>cpu_min\<close> (within the tolerance of \<open>fits\<close>) and at most \<^verbatim>\<open>cpu_max\<close> (within
  \<^verbatim>\<open>_EPS\<close>, which \<^verbatim>\<open>_flex\<close> rounds by): the interpretation \<open>loc\<close>. Here: one admission, and the pass over
  the nested jobs (\<^verbatim>\<open>_serve_nested\<close>) as a sequence of starts within the grants of their parents.
\<close>

section \<open>The clock readings only grow\<close>

lemma emit_ticks [simp]: "bk_ticks (emit clk kind jid d b) = bk_ticks b + 1"
  by (simp add: emit_def)

lemma modify_ticks [simp]: "bk_ticks (modify jid f b) = bk_ticks b"
  by (simp add: modify_def)

lemma end_job_ticks:
  "bk_ticks b \<le> bk_ticks (snd (end_job clk n jid st kind d b))"
  "bk_ticks b \<le> bk_ticks (snd (end_children clk n st cs b))"
proof (induction clk n jid st kind d b and clk n st cs b rule: end_job_end_children.induct)
  case (2 clk n jid st kind detail b)
  then show ?case by (fastforce split: option.split prod.split sum.split)
next
  case (4 clk n st c cs b)
  then show ?case by (fastforce split: option.split prod.split sum.split)
qed simp_all

lemma reap_dead_ticks: "bk_ticks b \<le> bk_ticks (snd (reap_dead_from clk alive js b))"
proof (induction js arbitrary: b)
  case (Cons k js)
  have "bk_ticks b \<le> bk_ticks (snd (end_entry clk k Lost ORPHAN_RECLAIMED [(''reason'', DStr ''owner dead'')] b))"
    unfolding end_entry_def by (rule end_job_ticks(1))
  then show ?case
    using Cons.IH order_trans by (fastforce split: option.split prod.split sum.split)
qed simp

lemma le_admit_ticks [simp]: "bk_ticks (snd (le_admit clk e cpu pl rt b)) = bk_ticks b + 2"
  by (simp add: le_admit_def Let_def)

lemma serve_children_ticks: "bk_ticks b \<le> bk_ticks (serve_children clk rt lease free cs b)"
proof (induction cs arbitrary: b free)
  case (Cons c cs)
  show ?case
  proof (cases "en_state c \<noteq> Queued \<or> \<not> fits free (need_on (en_spec c) rt)")
    case False
    let ?r = "le_admit clk c (min (res_cpu_max (js_reservation (en_spec c))) (cap_cpu free)) (Some lease) rt b"
    have "bk_ticks b \<le> bk_ticks (snd ?r)" by simp
    moreover have "serve_children clk rt lease free (c # cs) b =
        serve_children clk rt lease (cap_sub free (gr_amounts (fst ?r))) cs (snd ?r)"
      using False by (simp add: case_prod_unfold)
    ultimately show ?thesis using Cons.IH [of "snd ?r"] order_trans by metis
  qed (simp add: Cons.IH)
qed simp

lemma serve_parent_ticks: "bk_ticks b \<le> bk_ticks (snd (serve_parent clk s parent b))"
  using serve_children_ticks by (auto simp: serve_parent_def attempt_def split: option.split sum.split)

lemma serve_from_ticks: "bk_ticks b \<le> bk_ticks (snd (serve_from clk s js b))"
proof (induction js arbitrary: b)
  case (Cons k js)
  show ?case
  proof (cases "find_entry b k")
    case (Some e)
    then show ?thesis
      using serve_parent_ticks [of b clk s e] Cons.IH order_trans by (fastforce split: prod.split sum.split)
  qed simp
qed simp

section \<open>What a job needs on a root\<close>

lemma pools_ok_update: "pools_ok ps \<Longrightarrow> 0 \<le> v \<Longrightarrow> pools_ok (AList.update k v ps)"
proof -
  assume a: "pools_ok ps" "0 \<le> v"
  have "list_all (\<lambda>(name, amount). 0 \<le> amount) ps \<Longrightarrow>
      list_all (\<lambda>(name, amount). 0 \<le> amount) (AList.update k v ps)"
    using a(2) by (induction ps) auto
  then show "pools_ok (AList.update k v ps)"
    using a(1) by (simp add: pools_ok_def AList.distinct_update)
qed

lemma need_on_ok:
  assumes "reservation_ok (js_reservation job)"
  shows "capacity_ok (need_on job rt)"
  using assms pools_ok_update
  by (auto simp: need_on_def Let_def minimum_def reservation_ok_def capacity_ok_def split: option.splits)

lemma need_on_cpu [simp]: "cap_cpu (need_on job rt) = res_cpu_min (js_reservation job)"
  by (simp add: need_on_def Let_def minimum_def split: option.splits)

definition loc_sized :: "job_spec \<Rightarrow> capacity \<Rightarrow> bool" where
  "loc_sized job c \<longleftrightarrow> res_cpu_min (js_reservation job) - eps \<le> cap_cpu c \<and>
     cap_cpu c \<le> res_cpu_max (js_reservation job) + time_eps \<and>
     (\<exists>rt. cap_memory c = cap_memory (need_on job rt) \<and> cap_pools c = cap_pools (need_on job rt))"

lemma eps_le_time_eps: "0 < eps" "eps \<le> time_eps"
  by (simp_all add: eps_def time_eps_def)

interpretation loc: lease_book time_eps local_name "''local-lease-''" loc_sized
proof
  fix job c
  assume job: "reservation_ok (js_reservation job)" and "loc_sized job c"
  then obtain rt where "cap_memory c = cap_memory (need_on job rt)" "cap_pools c = cap_pools (need_on job rt)"
    "res_cpu_min (js_reservation job) - eps \<le> cap_cpu c"
    by (auto simp: loc_sized_def)
  moreover have "0 \<le> res_cpu_min (js_reservation job)" using job by (simp add: reservation_ok_def)
  ultimately show "- time_eps \<le> cap_cpu c \<and> 0 \<le> cap_memory c \<and> pools_ok (cap_pools c)"
    using need_on_ok [OF job, of rt] eps_le_time_eps by (simp add: capacity_ok_def)
qed (use eps_le_time_eps in simp)

section \<open>One admission\<close>

lemma le_admit_started:
  assumes "find_entry b k = Some e" "js_job_id (en_spec e) = k"
  shows "started k (le_granted clk b e cpu pl rt) b (snd (le_admit clk e cpu pl rt b))"
  using assms
  by (simp add: started_def same_frame_def le_admit_def Let_def
    find_entry_cong [of "b\<lparr>bk_ticks := t\<rparr>" b for t])

lemma le_admit_fst [simp]: "fst (le_admit clk e cpu pl rt b) = le_granted clk b e cpu pl rt"
  by (simp add: le_admit_def Let_def)

lemma le_granted_simps [simp]:
  "cap_cpu (gr_amounts (le_granted clk b e cpu pl rt)) = cpu"
  "cap_memory (gr_amounts (le_granted clk b e cpu pl rt)) = cap_memory (need_on (en_spec e) rt)"
  "cap_pools (gr_amounts (le_granted clk b e cpu pl rt)) = cap_pools (need_on (en_spec e) rt)"
  "pool_in name (gr_amounts (le_granted clk b e cpu pl rt)) = pool_in name (need_on (en_spec e) rt)"
  "gr_root (le_granted clk b e cpu pl rt) = map_option er_path rt"
  "gr_parent_lease (le_granted clk b e cpu pl rt) = pl"
  "gr_lease_id (le_granted clk b e cpu pl rt) = ''local-lease-'' @ nat_str (en_arrival e)"
  "gr_job_id (le_granted clk b e cpu pl rt) = js_job_id (en_spec e)"
  by (simp_all add: le_granted_def Let_def pool_in_def)

lemma le_granted_ok:
  assumes "res_cpu_min (js_reservation (en_spec e)) - eps \<le> cpu"
    and "cpu \<le> res_cpu_max (js_reservation (en_spec e)) + time_eps" "pl = js_parent_lease (en_spec e)"
  shows "loc.grant_ok e (le_granted clk b e cpu pl rt)"
  using assms by (auto simp: loc.grant_ok_def loc_sized_def loc.lease_of_def)

lemma loc_entry:
  assumes "loc.broker_ok b" "find_entry b k = Some e"
  shows "js_job_id (en_spec e) = k" "reservation_ok (js_reservation (en_spec e))"
    "en_state e = Queued \<Longrightarrow> en_grant e = None" "en_state e = Running \<Longrightarrow> \<exists>g. en_grant e = Some g"
    "distinct (en_children e)" "en_grant e = Some g \<Longrightarrow> loc.grant_ok e g"
  using loc.broker_okD(3) [OF assms] by (auto simp: loc.br_entry_ok_def)

section \<open>The nested jobs of one parent\<close>

text \<open>\<open>room_left free b a tot\<close>: \<open>free\<close> is, in every dimension, what account \<open>a\<close> has left of \<open>tot\<close>.\<close>

definition room_left :: "capacity \<Rightarrow> broker \<Rightarrow> string option \<Rightarrow> capacity \<Rightarrow> bool" where
  "room_left free b a tot \<longleftrightarrow> cap_cpu free = cap_cpu tot - used cap_cpu (book b a) \<and>
     cap_memory free = cap_memory tot - used cap_memory (book b a) \<and>
     (\<forall>name. pool_in name free = pool_in name tot - used (pool_in name) (book b a))"

lemma room_left_takes:
  assumes "room_left free b a tot" "fits free need" "pools_ok (cap_pools need)"
    and "cap_cpu c \<le> cap_cpu free + time_eps" "cap_memory c = cap_memory need" "cap_pools c = cap_pools need"
  shows "takes time_eps tot (book b a) c"
proof -
  have "pool_in name c = 0 \<or> used (pool_in name) (book b a) + pool_in name c \<le> pool_in name tot" for name
    using fits_pool [OF assms(2,3), of name] assms(1,6) by (auto simp: room_left_def pool_in_def)
  then show ?thesis
    using assms(1,4,5) fitsD(2) [OF assms(2)] by (simp add: takes_def room_left_def)
qed

lemma room_left_started:
  assumes "loc.broker_ok b" "find_entry b k = Some e" "en_state e = Queued" "k \<in> account_members b a"
    and "started k g b b'" "room_left free b a tot" "distinct (map fst (cap_pools (gr_amounts g)))"
  shows "room_left (cap_sub free (gr_amounts g)) b' a tot"
  using assms(6)
  by (simp add: room_left_def loc.started_used [OF assms(1-5)] cpu.sub [OF assms(7)] memory.sub [OF assms(7)] pool.sub [OF assms(7)])

definition rooted :: "local_engine \<Rightarrow> grant \<Rightarrow> bool" where
  "rooted s g \<longleftrightarrow> (\<forall>path. gr_root g = Some path \<longrightarrow> path \<in> er_path ` set (le_roots s))"

definition nested_start :: "local_engine \<Rightarrow> br_entry \<Rightarrow> grant \<Rightarrow> bool" where
  "nested_start s e g \<longleftrightarrow> js_parent_lease (en_spec e) \<noteq> None \<and> rooted s g"

text \<open>The children still to be served: each filed in \<open>b\<close> as it is listed, each once, all of parent \<open>p\<close>.\<close>

definition listed :: "broker \<Rightarrow> string \<Rightarrow> br_entry list \<Rightarrow> bool" where
  "listed b p cs \<longleftrightarrow> distinct (map (\<lambda>c. js_job_id (en_spec c)) cs) \<and>
     (\<forall>c\<in>set cs. find_entry b (js_job_id (en_spec c)) = Some c \<and>
        js_job_id (en_spec c) \<in> account_members b (Some p))"

lemma listed_started:
  assumes "listed b p (c # cs)" "loc.broker_ok b" "started (js_job_id (en_spec c)) g b b'"
  shows "listed b' p cs"
proof -
  have c: "find_entry b (js_job_id (en_spec c)) = Some c" using assms(1) by (simp add: listed_def)
  have "js_job_id (en_spec x) \<noteq> js_job_id (en_spec c)" if "x \<in> set cs" for x
    using that assms(1) by (auto simp: listed_def image_iff)
  then show ?thesis
    using assms(1) startedD(1) [OF assms(3) c]
    by (auto simp: listed_def loc.started_members [OF assms(2) c assms(3)])
qed

lemma serve_children_starts:
  assumes "loc.broker_ok b" "find_entry b p = Some ep" "en_grant ep = Some g" "listed b p cs"
    and "room_left free b (Some p) (gr_amounts g)" "set_option rt \<subseteq> set (le_roots s)"
  shows "(loc.start_step (nested_start s))\<^sup>*\<^sup>* b (serve_children clk rt (gr_lease_id g) free cs b)"
  using assms(1-5)
proof (induction cs arbitrary: b free ep)
  case Nil
  then show ?case by simp
next
  case (Cons c cs)
  let ?k = "js_job_id (en_spec c)"
  let ?need = "need_on (en_spec c) rt"
  let ?cpu = "min (res_cpu_max (js_reservation (en_spec c))) (cap_cpu free)"
  have c: "find_entry b ?k = Some c" "?k \<in> account_members b (Some p)" and rest: "listed b p cs"
    using Cons.prems(4) by (simp_all add: listed_def)
  show ?case
  proof (cases "en_state c \<noteq> Queued \<or> \<not> fits free ?need")
    case True
    then show ?thesis using Cons.IH [OF Cons.prems(1-3) rest Cons.prems(5)] by simp
  next
    case False
    then have q: "en_state c = Queued" and fit: "fits free ?need" by simp_all
    let ?g = "le_granted clk b c ?cpu (Some (gr_lease_id g)) rt"
    let ?b = "snd (le_admit clk c ?cpu (Some (gr_lease_id g)) rt b)"
    have st: "started ?k ?g b ?b" by (rule le_admit_started [OF c(1)]) simp
    have res: "reservation_ok (js_reservation (en_spec c))" using loc_entry(2) [OF Cons.prems(1) c(1)] .
    have need: "capacity_ok ?need" by (rule need_on_ok [OF res])
    have "loc.child_ok b ep ?k"
      by (rule loc.broker_okD(5) [OF Cons.prems(1,2)])
        (use c(2) Cons.prems(2) in \<open>simp add: account_members_def\<close>)
    then have lease: "js_parent_lease (en_spec c) = Some (gr_lease_id g)"
      using c(1) loc_entry(6) [OF Cons.prems(1-3)] by (auto simp: loc.child_ok_def loc.grant_ok_def)
    have cpu: "res_cpu_min (js_reservation (en_spec c)) - eps \<le> ?cpu"
      using fitsD(1) [OF fit] res eps_pos by (simp add: reservation_ok_def)
    have step: "loc.start_step (nested_start s) b ?b"
    proof (rule loc.start_stepI [OF c(1) q _ _ c(2) _ _ st])
      show "loc.grant_ok c ?g"
        by (rule le_granted_ok [OF cpu]) (use lease eps_le_time_eps in simp_all)
      show "total_of b (Some p) = Some (gr_amounts g)"
        using Cons.prems(2,3) by (simp add: total_of_def)
      show "takes time_eps (gr_amounts g) (book b (Some p)) (gr_amounts ?g)"
        by (rule room_left_takes [OF Cons.prems(5) fit])
          (use need eps_le_time_eps in \<open>simp_all add: capacity_ok_def\<close>)
      show "nested_start s c ?g"
        using assms(6) lease by (auto simp: nested_start_def rooted_def)
    qed
    have "?k \<noteq> p" using Cons.prems(2,3) c(1) q loc_entry(3) [OF Cons.prems(1) c(1)] by auto
    then have ep: "find_entry ?b p = Some ep" using startedD(1) [OF st c(1), of p] Cons.prems(2) by simp
    have room: "room_left (cap_sub free (gr_amounts ?g)) ?b (Some p) (gr_amounts g)"
      by (rule room_left_started [OF Cons.prems(1) c(1) q c(2) st Cons.prems(5)])
        (use need in \<open>simp add: capacity_ok_distinct\<close>)
    have "(loc.start_step (nested_start s))\<^sup>*\<^sup>* ?b
        (serve_children clk rt (gr_lease_id g) (cap_sub free (gr_amounts ?g)) cs ?b)"
      by (rule Cons.IH [OF _ ep Cons.prems(3) listed_started [OF Cons.prems(4,1) st] room])
        (use loc.start_step_sound [OF step Cons.prems(1)] in blast)
    then show ?thesis
      using step False by (simp add: case_prod_unfold converse_rtranclp_into_rtranclp)
  qed
qed

section \<open>Every parent\<close>

context dimension
begin

lemma free_of_children_sum:
  assumes "\<forall>e\<in>set es. \<forall>g. en_grant e = Some g \<longrightarrow> distinct (map fst (cap_pools (gr_amounts g)))"
  shows "f (free_of_children free es) = f free - (\<Sum>e\<leftarrow>es. held_by f e)"
  using assms unfolding free_of_children_def
  by (induction es arbitrary: free) (auto simp: sub held_by_def split: option.splits)

end

lemma find_all_children:
  assumes "\<forall>c\<in>set cs. find_entry b c \<noteq> None"
  shows "find_all b cs = Inr (map (\<lambda>c. the (find_entry b c)) cs)"
  using assms by (induction cs) auto

lemma children_room:
  assumes "loc.broker_ok b" "find_entry b p = Some ep" "en_grant ep = Some g"
  shows "room_left (free_of_children (gr_amounts g) (map (\<lambda>c. the (find_entry b c)) (en_children ep)))
    b (Some p) (gr_amounts g)"
proof -
  let ?es = "map (\<lambda>c. the (find_entry b c)) (en_children ep)"
  obtain u where u: "children_in_use b ep = Inr u" "draws u b (Some p)"
    using loc.children_in_use_draws [OF assms(1,2)] .
  have found: "\<exists>e. find_entry b c = Some e" if "c \<in> set (en_children ep)" for c
    using loc.broker_okD(5) [OF assms(1,2) that] by (auto simp: loc.child_ok_def)
  have dist: "\<forall>e\<in>set ?es. \<forall>g. en_grant e = Some g \<longrightarrow> distinct (map fst (cap_pools (gr_amounts g)))"
    using found loc.broker_ok_tidy [OF assms(1)] unfolding tidy_def by fastforce
  have sum: "(\<Sum>e\<leftarrow>?es. held_by f e) = used f (book b (Some p))"
    for f :: "capacity \<Rightarrow> 'a::ab_group_add"
  proof -
    have "(\<Sum>e\<leftarrow>?es. held_by f e) = (\<Sum>c\<in>set (en_children ep). held_by f (the (find_entry b c)))"
      using loc_entry(5) [OF assms(1,2)] by (simp add: o_def sum_list_distinct_conv_sum_set)
    also have "\<dots> = used f (book b (Some p))"
      unfolding used_book members_nested [OF assms(2)]
      by (rule sum.cong) (use found held_by_holding in fastforce)+
    finally show ?thesis .
  qed
  show ?thesis
    unfolding room_left_def
    by (simp add: cpu.free_of_children_sum [OF dist] memory.free_of_children_sum [OF dist]
      pool.free_of_children_sum [OF dist] sum del: map_map)
qed

definition grants_rooted :: "local_engine \<Rightarrow> broker \<Rightarrow> bool" where
  "grants_rooted s b \<longleftrightarrow> (\<forall>k e g. find_entry b k = Some e \<longrightarrow> en_grant e = Some g \<longrightarrow> rooted s g)"

lemma root_of_found:
  assumes "grants_rooted s b" "find_entry b k = Some e"
  obtains rt where "root_of s e = Inr rt" "set_option rt \<subseteq> set (le_roots s)"
proof (cases "Option.bind (en_grant e) gr_root")
  case None
  then show ?thesis
    by (intro that [of None]) (auto simp: root_of_def split: option.splits)
next
  case (Some path)
  then obtain g where g: "en_grant e = Some g" "gr_root g = Some path" by (auto simp: bind_eq_Some_conv)
  then have "path \<in> er_path ` set (le_roots s)"
    using assms unfolding grants_rooted_def rooted_def by blast
  then obtain r where r: "find (\<lambda>r. er_path r = path) (le_roots s) = Some r"
    by (cases "find (\<lambda>r. er_path r = path) (le_roots s)") (auto simp: find_None_iff)
  then have "r \<in> set (le_roots s)" by (auto simp: find_Some_iff)
  then show ?thesis using g r by (intro that [of "Some r"]) (simp_all add: root_of_def)
qed

lemma serve_parent_starts:
  assumes "loc.broker_ok b" "find_entry b p = Some ep" "grants_rooted s b"
  obtains b' where "serve_parent clk s ep b = (Inr (), b')" "(loc.start_step (nested_start s))\<^sup>*\<^sup>* b b'"
proof (cases "en_state ep = Running \<and> en_children ep \<noteq> []")
  case False
  then show ?thesis
    by (intro that [of b]) (auto simp: serve_parent_def split: option.splits)
next
  case True
  then obtain g where g: "en_grant ep = Some g" using loc_entry(4) [OF assms(1,2)] by blast
  let ?es = "map (\<lambda>c. the (find_entry b c)) (en_children ep)"
  obtain rt where rt: "root_of s ep = Inr rt" "set_option rt \<subseteq> set (le_roots s)"
    using root_of_found [OF assms(3,2)] .
  have found: "\<exists>e. find_entry b c = Some e" if "c \<in> set (en_children ep)" for c
    using loc.broker_okD(5) [OF assms(1,2) that] by (auto simp: loc.child_ok_def)
  have all: "find_all b (en_children ep) = Inr ?es"
    by (rule find_all_children) (use found in fastforce)
  have ids: "js_job_id (en_spec (the (find_entry b c))) = c" if "c \<in> set (en_children ep)" for c
    using found [OF that] loc_entry(1) [OF assms(1)] by auto
  have "map (\<lambda>c. js_job_id (en_spec c)) ?es = en_children ep"
    unfolding map_map by (rule map_idI) (simp add: ids)
  then have "distinct (map (\<lambda>c. js_job_id (en_spec c)) ?es)"
    using loc_entry(5) [OF assms(1,2)] by simp
  then have "distinct (map (\<lambda>c. js_job_id (en_spec c)) (sort_key en_arrival ?es))"
    by (simp only: distinct_map distinct_sort set_sort)
  then have "listed b p (sort_key en_arrival ?es)"
    using found ids members_nested [OF assms(2)] by (fastforce simp: listed_def)
  then have "(loc.start_step (nested_start s))\<^sup>*\<^sup>* b (serve_children clk rt (gr_lease_id g)
      (free_of_children (gr_amounts g) ?es) (sort_key en_arrival ?es) b)"
    by (rule serve_children_starts [OF assms(1,2) g _ children_room [OF assms(1,2) g] rt(2)])
  then show ?thesis
    using True g all rt(1) by (intro that) (simp_all add: serve_parent_def)
qed

lemma starts_rooted:
  assumes "grants_rooted s b" "(loc.start_step Q)\<^sup>*\<^sup>* b b'" "loc.broker_ok b"
    and "\<And>e g. Q e g \<Longrightarrow> rooted s g"
  shows "grants_rooted s b'"
  unfolding grants_rooted_def
proof (intro allI impI)
  fix k e' g assume e': "find_entry b' k = Some e'" "en_grant e' = Some g"
  obtain e where "find_entry b k = Some e" "loc.moved Q e e'"
    using loc.starts_back [OF assms(2,3) e'(1)] .
  then show "rooted s g"
    using assms(1,4) e'(2) unfolding loc.moved_def grants_rooted_def by auto
qed

lemma serve_from_starts:
  assumes "loc.broker_ok b" "grants_rooted s b" "set js \<subseteq> set (map fst (bk_entries b))"
  shows "\<exists>b'. serve_from clk s js b = (Inr (), b') \<and> (loc.start_step (nested_start s))\<^sup>*\<^sup>* b b'"
  using assms
proof (induction js arbitrary: b)
  case Nil
  then show ?case by simp
next
  case (Cons k js)
  have "k \<in> fst ` set (bk_entries b)" using Cons.prems(3) by simp
  then obtain e where e: "find_entry b k = Some e"
    unfolding in_keys_iff by (auto simp: find_entry_def)
  obtain b1 where b1: "serve_parent clk s e b = (Inr (), b1)" "(loc.start_step (nested_start s))\<^sup>*\<^sup>* b b1"
    using serve_parent_starts [OF Cons.prems(1) e Cons.prems(2)] .
  note s1 = loc.starts_sound [OF b1(2) Cons.prems(1)]
  have r1: "grants_rooted s b1"
    by (rule starts_rooted [OF Cons.prems(2) b1(2) Cons.prems(1)]) (simp add: nested_start_def)
  have sub: "set js \<subseteq> set (map fst (bk_entries b1))"
    using s1(3) Cons.prems(3) by (simp add: same_frame_def del: set_map)
  obtain b2 where "serve_from clk s js b1 = (Inr (), b2)" "(loc.start_step (nested_start s))\<^sup>*\<^sup>* b1 b2"
    using Cons.IH [OF s1(1) r1] sub by blast
  then show ?case
    using e b1 by (auto intro: rtranclp_trans)
qed

lemma serve_nested_starts:
  assumes "loc.broker_ok (le_core s)" "grants_rooted s (le_core s)"
  obtains b' where "serve_nested pr s = (Inr (), s\<lparr>le_core := b'\<rparr>)"
    "(loc.start_step (nested_start s))\<^sup>*\<^sup>* (le_core s) b'"
  using serve_from_starts [OF assms subset_refl, of "pr_clock pr"]
  by (auto simp: serve_nested_def do_core_def)

end
