(* ===== verification/Br_Local_Pick.thy ===== *)
theory Br_Local_Pick
  imports Br_Local_Serve "HOL-Library.Multiset"
begin

text \<open>
  The packer (\<^verbatim>\<open>_host_free\<close>, \<^verbatim>\<open>_pick\<close>): what it takes to be free is never more than the budget less what
  is in use; the jobs it chooses are candidates, each once, on roots their groups are pinned to, and
  together take no more than was free.
\<close>

section \<open>What is free\<close>

definition within_left :: "capacity \<Rightarrow> broker \<Rightarrow> bool" where
  "within_left free b \<longleftrightarrow> cap_cpu free \<le> cap_cpu (bk_budget b) - used cap_cpu (book b None) \<and>
     cap_memory free \<le> cap_memory (bk_budget b) - used cap_memory (book b None) \<and>
     (\<forall>name. pool_in name free \<le> pool_in name (bk_budget b) - used (pool_in name) (book b None))"

definition aside :: "local_engine \<Rightarrow> local_engine \<Rightarrow> bool" where
  "aside s s' \<longleftrightarrow> le_core s' = le_core s \<and> le_groups s' = le_groups s \<and> le_roots s' = le_roots s \<and>
     le_policy s' = le_policy s \<and> le_next_order s' = le_next_order s"

lemma probe_cases:
  obtains (failed) exc s1 where "probe pr s = (Inl (BrokerUnavailable exc), s1)" "aside s s1"
    | (read) m s1 where "probe pr s = (Inr m, s1)" "aside s s1"
proof (cases "pr_avail pr")
  case None
  then show ?thesis
    by (intro read [of None "s\<lparr>le_probe_error := None\<rparr>"]) (simp_all add: probe_def aside_def)
next
  case (Some avail)
  then show ?thesis
  proof (cases "avail (le_reads s)")
    case (Inl exc)
    let ?s = "s\<lparr>le_probe_error := Some exc, le_reads := le_reads s + 1\<rparr>"
    have "probe pr s = (Inl (BrokerUnavailable (''availability probe failed: '' @ exc)), ?s)"
      using Some Inl by (simp add: probe_def)
    moreover have "aside s ?s" by (simp add: aside_def)
    ultimately show ?thesis by (rule failed)
  next
    case (Inr m)
    let ?s = "s\<lparr>le_probe_error := None, le_measured := Some m, le_reads := le_reads s + 1\<rparr>"
    have "probe pr s = (Inr (Some m), ?s)" using Some Inr by (simp add: probe_def)
    moreover have "aside s ?s" by (simp add: aside_def)
    ultimately show ?thesis by (rule read)
  qed
qed

lemma pool_get_lowered:
  "(\<And>k v. h k v \<le> v) \<Longrightarrow> pool_get (map (\<lambda>(k, v). (k, h k v)) ps) name \<le> pool_get ps name"
  by (induction ps) (auto simp: pool_get_Cons)

lemma clamp_le:
  "cap_cpu (clamp budget margin m) \<le> cap_cpu budget"
  "cap_memory (clamp budget margin m) \<le> cap_memory budget"
  "pool_in name (clamp budget margin m) \<le> pool_in name budget"
  using pool_get_lowered [of "\<lambda>k v. if map_of (cap_pools m) k \<noteq> None
    then min v (pool_get (cap_pools (cap_sub m margin)) k) else v" "cap_pools budget" name]
  by (auto simp: clamp_def Let_def pool_in_def)

lemma clamp_roots_le:
  "cap_cpu (clamp_roots free roots limit) = cap_cpu limit"
  "cap_memory (clamp_roots free roots limit) = cap_memory limit"
  "pool_in name (clamp_roots free roots limit) \<le> pool_in name limit"
proof -
  have "pool_get (foldl (\<lambda>ps r. AList.update (root_pool r)
      (min (pool_get ps (root_pool r)) (pool_get free (er_path r))) ps) ps roots) name \<le> pool_get ps name" for ps
  proof (induction roots arbitrary: ps)
    case Nil
    then show ?case by simp
  next
    case (Cons r roots)
    let ?ps = "AList.update (root_pool r) (min (pool_get ps (root_pool r)) (pool_get free (er_path r))) ps"
    have "pool_get ?ps name \<le> pool_get ps name" by simp
    with Cons.IH [of ?ps] show ?case unfolding foldl_Cons by linarith
  qed
  then show "pool_in name (clamp_roots free roots limit) \<le> pool_in name limit"
    by (simp add: clamp_roots_def pool_in_def)
qed (simp_all add: clamp_roots_def)

lemma limit_less_in_use:
  assumes "loc.broker_ok b" "cap_cpu limit \<le> cap_cpu (bk_budget b)"
    and "cap_memory limit \<le> cap_memory (bk_budget b)" "\<And>name. pool_in name limit \<le> pool_in name (bk_budget b)"
  shows "within_left (cap_sub limit (in_use b)) b"
proof -
  note u = loc.in_use_draws [OF assms(1), unfolded draws_def]
  have d: "distinct (map fst (cap_pools (in_use b)))" using u by simp
  show ?thesis
    using u assms(2-4) by (simp add: within_left_def cpu.sub [OF d] memory.sub [OF d] pool.sub [OF d])
qed

lemma host_free_cases:
  assumes "loc.broker_ok (le_core s)"
  obtains (failed) exc s1 where "host_free pr s = (Inl (BrokerUnavailable exc), s1)" "aside s s1"
    | (room) free s1 where "host_free pr s = (Inr free, s1)" "aside s s1" "within_left free (le_core s)"
proof (cases rule: probe_cases [of pr s])
  case (failed exc s1)
  then show ?thesis using that(1) by (simp add: host_free_def and_do_def)
next
  case (read m s1)
  let ?b = "le_core s"
  let ?limit = "case m of None \<Rightarrow> bk_budget ?b | Some m \<Rightarrow> clamp (bk_budget ?b) (le_floor s1) m"
  have core: "le_core s1 = ?b" using read(2) by (simp add: aside_def)
  have limit: "cap_cpu ?limit \<le> cap_cpu (bk_budget ?b)" "cap_memory ?limit \<le> cap_memory (bk_budget ?b)"
    "\<And>name. pool_in name ?limit \<le> pool_in name (bk_budget ?b)"
    using clamp_le by (auto split: option.splits)
  show ?thesis
  proof (cases "le_roots s1 = []")
    case True
    show ?thesis
      by (rule room [OF _ read(2) limit_less_in_use [OF assms limit]])
        (use True read(1) core in \<open>simp add: host_free_def and_do_def Let_def split: option.split\<close>)
  next
    case False
    obtain fr s2 where fr: "measure_roots pr s1 = (fr, s2)" "aside s1 s2"
      by (cases "pr_disk pr") (auto simp: measure_roots_def aside_def)
    have "within_left (cap_sub (clamp_roots fr (le_roots s2) ?limit) (in_use ?b)) ?b"
      using limit clamp_roots_le(3) [of _ fr "le_roots s2" ?limit] order_trans
      by (intro limit_less_in_use [OF assms]) (auto simp: clamp_roots_le(1,2), blast)
    moreover have "host_free pr s = (Inr (cap_sub (clamp_roots fr (le_roots s2) ?limit) (in_use ?b)), s2)"
      using False read(1) fr core by (simp add: host_free_def and_do_def Let_def aside_def split: option.split)
    moreover have "aside s s2" using read(2) fr(2) by (simp add: aside_def)
    ultimately show ?thesis by (intro room)
  qed
qed

section \<open>Groups and pins\<close>

definition pinned :: "local_engine \<Rightarrow> string \<Rightarrow> execution_root option" where
  "pinned s grp = Option.bind (map_of (le_groups s) grp) bg_root"

definition pins_ok :: "local_engine \<Rightarrow> bool" where
  "pins_ok s \<longleftrightarrow> (\<forall>grp r. pinned s grp = Some r \<longrightarrow> r \<in> set (le_roots s))"

text \<open>The packer changes only the groups and the counters, and a group keeps the root it is pinned to.\<close>

definition steady :: "local_engine \<Rightarrow> local_engine \<Rightarrow> bool" where
  "steady s s' \<longleftrightarrow> le_core s' = le_core s \<and> le_roots s' = le_roots s \<and> le_policy s' = le_policy s \<and>
     le_next_order s' = le_next_order s \<and> map fst (le_groups s') = map fst (le_groups s) \<and>
     (\<forall>grp r. pinned s grp = Some r \<longrightarrow> pinned s' grp = Some r) \<and> pins_ok s'"

lemma steady_known: "steady s s' \<Longrightarrow> map_of (le_groups s') grp = None \<longleftrightarrow> map_of (le_groups s) grp = None"
  unfolding steady_def map_of_eq_None_iff set_map [symmetric] by simp

lemma set_group_groups:
  "map_of (le_groups (pk_engine (set_group grp f pk))) k =
     (if k = grp then map_option f (map_of (le_groups (pk_engine pk)) k) else map_of (le_groups (pk_engine pk)) k)"
proof -
  have "map_of (map (\<lambda>(k, g). (k, if k = grp then f g else g)) gs) k =
    (if k = grp then map_option f (map_of gs k) else map_of gs k)" for gs
    by (induction gs) auto
  then show ?thesis by (simp add: set_group_def)
qed

lemma set_group_frame [simp]:
  "le_core (pk_engine (set_group grp f pk)) = le_core (pk_engine pk)"
  "le_roots (pk_engine (set_group grp f pk)) = le_roots (pk_engine pk)"
  "le_policy (pk_engine (set_group grp f pk)) = le_policy (pk_engine pk)"
  "le_next_order (pk_engine (set_group grp f pk)) = le_next_order (pk_engine pk)"
  "map fst (le_groups (pk_engine (set_group grp f pk))) = map fst (le_groups (pk_engine pk))"
  "pk_profile (set_group grp f pk) = pk_profile pk" "pk_chosen (set_group grp f pk) = pk_chosen pk"
  "pk_head (set_group grp f pk) = pk_head pk"
  by (auto simp: set_group_def)

lemma steady_admitted:
  assumes "steady s (pk_engine pk)"
  shows "steady s (pk_engine (set_group grp (\<lambda>g. g\<lparr>bg_admitted := True\<rparr>) pk))"
    "pinned (pk_engine (set_group grp (\<lambda>g. g\<lparr>bg_admitted := True\<rparr>) pk)) = pinned (pk_engine pk)"
proof -
  have same: "pinned (pk_engine (set_group grp (\<lambda>g. g\<lparr>bg_admitted := True\<rparr>) pk)) = pinned (pk_engine pk)"
    by (rule ext) (simp add: pinned_def set_group_groups Option.map_option_case split: option.splits)
  then show "pinned (pk_engine (set_group grp (\<lambda>g. g\<lparr>bg_admitted := True\<rparr>) pk)) = pinned (pk_engine pk)" .
  show "steady s (pk_engine (set_group grp (\<lambda>g. g\<lparr>bg_admitted := True\<rparr>) pk))"
    using assms by (auto simp: steady_def pins_ok_def same)
qed

lemma pinned_set_root:
  assumes "map_of (le_groups (pk_engine pk)) grp \<noteq> None"
  shows "pinned (pk_engine (set_group grp (\<lambda>g. g\<lparr>bg_root := Some r\<rparr>) pk)) k =
    (if k = grp then Some r else pinned (pk_engine pk) k)"
  using assms by (auto simp: pinned_def set_group_groups)

lemma root_options_pinned:
  assumes "pins_ok s" "Some r \<in> set (root_options s e)"
  shows "r \<in> set (le_roots s)"
    "pinned s (js_group (en_spec e)) = None \<or> pinned s (js_group (en_spec e)) = Some r"
proof -
  let ?grp = "js_group (en_spec e)"
  have "r \<in> set (case pinned s ?grp of None \<Rightarrow> le_roots s | Some r \<Rightarrow> [r])"
    using assms(2)
    by (auto simp: root_options_def gate_roots_def Let_def pinned_def split: if_splits option.splits)
  then show "r \<in> set (le_roots s)" "pinned s ?grp = None \<or> pinned s ?grp = Some r"
    using assms(1) by (auto simp: pins_ok_def split: option.splits)
qed

lemma root_options_none: "None \<in> set (root_options s e) \<Longrightarrow> le_roots s = []"
  by (auto simp: root_options_def split: if_splits)

section \<open>Choosing\<close>

definition chosen_need :: "br_entry \<times> nat \<times> execution_root option \<Rightarrow> capacity" where
  "chosen_need c = need_on (en_spec (fst c)) (snd (snd c))"

definition place_ok :: "local_engine \<Rightarrow> br_entry \<times> nat \<times> execution_root option \<Rightarrow> bool" where
  "place_ok s c \<longleftrightarrow> (case snd (snd c) of None \<Rightarrow> le_roots s = []
     | Some r \<Rightarrow> r \<in> set (le_roots s) \<and> pinned s (js_group (en_spec (fst c))) = Some r)"

definition picked :: "local_engine \<Rightarrow> capacity \<Rightarrow> rat \<Rightarrow> pick \<Rightarrow> bool" where
  "picked s free now pk \<longleftrightarrow> packs eps 0 free (map chosen_need (pk_chosen pk)) (pk_profile pk) \<and>
     pf_now (pk_profile pk) = now \<and> steady s (pk_engine pk) \<and>
     (\<forall>c\<in>set (pk_chosen pk). place_ok (pk_engine pk) c \<and> fst (snd c) < length (pf_ends (pk_profile pk)))"

text \<open>A candidate of a group: its reservation is well-formed, it is expected to take time, its group is known.\<close>

definition eligible :: "local_engine \<Rightarrow> string \<Rightarrow> br_entry \<Rightarrow> bool" where
  "eligible s grp e \<longleftrightarrow> js_group (en_spec e) = grp \<and> reservation_ok (js_reservation (en_spec e)) \<and>
     0 < js_expected_duration (en_spec e) \<and> map_of (le_groups s) grp \<noteq> None"

lemma place_ok_cong:
  "le_roots s' = le_roots s \<Longrightarrow> pinned s' = pinned s \<Longrightarrow> place_ok s' = place_ok s"
  by (rule ext) (simp add: place_ok_def split: option.split)

lemma picked_engine:
  assumes "picked s free now pk" "aside (pk_engine pk) (pk_engine pk')"
    and "pk_chosen pk' = pk_chosen pk" "pk_profile pk' = pk_profile pk"
  shows "picked s free now pk'"
proof -
  have "pinned (pk_engine pk') = pinned (pk_engine pk)"
    using assms(2) by (simp add: aside_def pinned_def fun_eq_iff)
  moreover from this have "place_ok (pk_engine pk') = place_ok (pk_engine pk)"
    using assms(2) by (intro place_ok_cong) (simp_all add: aside_def)
  ultimately show ?thesis
    using assms unfolding picked_def steady_def pins_ok_def aside_def by metis
qed

lemma picked_admitted:
  assumes "picked s free now pk"
  shows "picked s free now (set_group grp (\<lambda>g. g\<lparr>bg_admitted := True\<rparr>) pk)"
proof -
  have "steady s (pk_engine pk)" using assms by (simp add: picked_def)
  note st = steady_admitted [OF this, of grp]
  have "place_ok (pk_engine (set_group grp (\<lambda>g. g\<lparr>bg_admitted := True\<rparr>) pk)) = place_ok (pk_engine pk)"
    by (rule place_ok_cong) (simp_all add: st(2))
  then show ?thesis using assms st(1) by (simp add: picked_def)
qed

lemma picked_profile:
  assumes "picked s free now pk" "packs eps 0 free (map chosen_need (pk_chosen pk)) p"
    and "pf_now p = now" "pf_ends p = pf_ends (pk_profile pk)"
  shows "picked s free now (pk\<lparr>pk_profile := p\<rparr>)"
  using assms by (simp add: picked_def)

lemma pick_start_picked:
  assumes "picked s free now pk" "eligible s grp e" "(rt, need) \<in> set (needs_of pk e)"
    and "feasible (pk_profile pk) need now (js_expected_duration (en_spec e))"
  shows "picked s free now (pick_start grp position e (rt, need) pk)"
    "map fst (pk_chosen (pick_start grp position e (rt, need) pk)) = map fst (pk_chosen pk) @ [e]"
proof -
  let ?d = "js_expected_duration (en_spec e)"
  let ?p = "fst (start_now (pk_profile pk) need ?d)"
  let ?c = "(e, length (pf_ends (pk_profile pk)), rt)"
  let ?pk1 = "pk\<lparr>pk_profile := ?p, pk_chosen := pk_chosen pk @ [?c]\<rparr>"
  let ?pk2 = "case rt of None \<Rightarrow> ?pk1 | Some r \<Rightarrow> set_group grp (\<lambda>g. g\<lparr>bg_root := Some r\<rparr>) ?pk1"
  have need: "need = need_on (en_spec e) rt" and rt: "rt \<in> set (root_options (pk_engine pk) e)"
    using assms(3) by (auto simp: needs_of_def)
  have ok: "reservation_ok (js_reservation (en_spec e))" "0 < ?d" "js_group (en_spec e) = grp"
    using assms(2) by (simp_all add: eligible_def)
  have st: "steady s (pk_engine pk)" using assms(1) by (simp add: picked_def)
  have known: "map_of (le_groups (pk_engine ?pk1)) grp \<noteq> None"
    using steady_known [OF st, of grp] assms(2) by (simp add: eligible_def)
  have "packs eps 0 free (map chosen_need (pk_chosen pk) @ [need]) ?p"
    by (rule packs_start) (use assms(1,4) ok need need_on_ok in \<open>simp_all add: picked_def\<close>)
  then have packs: "packs eps 0 free (map chosen_need (pk_chosen ?pk1)) ?p"
    by (simp add: chosen_need_def need)
  have keep: "pinned (pk_engine pk) k = Some r' \<Longrightarrow> pinned (pk_engine ?pk2) k = Some r'" for k r'
    using root_options_pinned(2) [of "pk_engine pk" _ e] st rt ok(3) known
    by (cases rt) (auto simp: pinned_set_root steady_def)
  have new: "place_ok (pk_engine ?pk2) ?c"
    using root_options_pinned(1) [of "pk_engine pk" _ e] root_options_none [of "pk_engine pk" e] st rt ok(3) known
    by (cases rt) (auto simp: pinned_set_root steady_def place_ok_def)
  have pins: "pins_ok (pk_engine ?pk2)"
    using root_options_pinned(1) [of "pk_engine pk" _ e] st rt known
    by (cases rt) (auto simp: pinned_set_root steady_def pins_ok_def split: if_splits)
  have st2: "steady s (pk_engine ?pk2)"
    using st keep pins by (cases rt) (auto simp: steady_def)
  have old: "place_ok (pk_engine ?pk2) c" if "place_ok (pk_engine pk) c" for c
    using that keep st by (cases rt) (auto simp: place_ok_def split: option.splits)
  have p2: "pk_profile ?pk2 = ?p" "pk_chosen ?pk2 = pk_chosen pk @ [?c]"
    by (simp_all split: option.split)
  have picked2: "picked s free now ?pk2"
    using packs st2 old new assms(1) unfolding picked_def p2 by fastforce
  have run: "pick_start grp position e (rt, need) pk =
      (if position = 0 then set_group grp (\<lambda>g. g\<lparr>bg_admitted := True\<rparr>) ?pk2 else ?pk2)"
    by (simp add: pick_start_def case_prod_unfold Let_def cong: option.case_cong)
  show "picked s free now (pick_start grp position e (rt, need) pk)"
    using picked2 picked_admitted [OF picked2] unfolding run by simp
  show "map fst (pk_chosen (pick_start grp position e (rt, need) pk)) = map fst (pk_chosen pk) @ [e]"
    unfolding run by (simp add: p2)
qed

lemma best_start_in:
  "best_start p needs d = Some (t, need) \<Longrightarrow> need \<in> snd ` set needs"
proof -
  have "foldl (\<lambda>best (rt, need). case earliest p need d of None \<Rightarrow> best
      | Some t \<Rightarrow> (case best of None \<Rightarrow> Some (t, need)
        | Some (t0, need0) \<Rightarrow> if t < t0 then Some (t, need) else best)) best needs = Some (t, need) \<Longrightarrow>
    best = Some (t, need) \<or> need \<in> snd ` set needs" for best
  proof (induction needs arbitrary: best)
    case Nil
    then show ?case by simp
  next
    case (Cons n needs)
    show ?case
      using Cons.IH [OF Cons.prems [unfolded foldl_Cons]]
      by (auto split: option.splits prod.splits if_splits)
  qed
  then show "best_start p needs d = Some (t, need) \<Longrightarrow> need \<in> snd ` set needs"
    unfolding best_start_def by blast
qed

lemma reserve_best_packs:
  assumes "packs tol x free cs p" "\<forall>n\<in>set needs. capacity_ok (snd n)"
  shows "packs tol x free cs (fst (reserve_best p needs d))" "pf_now (fst (reserve_best p needs d)) = pf_now p"
    "pf_ends (fst (reserve_best p needs d)) = pf_ends p"
proof -
  obtain p' where p': "fst (reserve_best p needs d) = p'"
    "p' = p \<or> (\<exists>need. need \<in> snd ` set needs \<and> p' = fst (reserve p need d))"
    using best_start_in by (fastforce simp: reserve_best_def split: option.splits prod.splits)
  then show "packs tol x free cs (fst (reserve_best p needs d))" "pf_now (fst (reserve_best p needs d)) = pf_now p"
    "pf_ends (fst (reserve_best p needs d)) = pf_ends p"
    using assms packs_reserve by auto
qed

lemma pick_blocked_picked:
  assumes "picked s free now pk" "eligible s grp e"
  shows "picked s free now (snd (pick_blocked grp e reserved pk))"
    "pk_chosen (snd (pick_blocked grp e reserved pk)) = pk_chosen pk"
proof -
  let ?d = "js_expected_duration (en_spec e)"
  let ?needs = "needs_of pk e"
  have needs: "\<forall>n\<in>set ?needs. capacity_ok (snd n)"
    using assms(2) need_on_ok by (auto simp: needs_of_def eligible_def)
  define pk1 where "pk1 = (if list_ex (\<lambda>(rt, need). fits (pf_free (pk_profile pk)) need) ?needs
    then pk\<lparr>pk_engine := (pk_engine pk)\<lparr>le_refused := le_refused (pk_engine pk) + 1\<rparr>\<rparr> else pk)"
  define pk2 where "pk2 = (if \<not> is_admitted grp pk1
    then (let pkh = pk1\<lparr>pk_head := True\<rparr> in if \<not> pp_group_major (le_policy (pk_engine pk))
      then set_group grp (\<lambda>g. g\<lparr>bg_admitted := True\<rparr>) pkh else pkh) else pk1)"
  have k1: "picked s free now pk1" "pk_chosen pk1 = pk_chosen pk"
    using picked_engine [OF assms(1), of pk1] by (auto simp: pk1_def aside_def)
  have kh: "picked s free now (pk1\<lparr>pk_head := True\<rparr>)"
    by (rule picked_engine [OF k1(1)]) (simp_all add: aside_def)
  then have "picked s free now (set_group grp (\<lambda>g. g\<lparr>bg_admitted := True\<rparr>) (pk1\<lparr>pk_head := True\<rparr>))"
    by (rule picked_admitted)
  then have k2: "picked s free now pk2" "pk_chosen pk2 = pk_chosen pk"
    using k1 kh by (simp_all add: pk2_def Let_def)
  define pk3 where "pk3 = pk2\<lparr>pk_profile := fst (reserve_best (pk_profile pk2) ?needs ?d),
    pk_engine := (if snd (reserve_best (pk_profile pk2) ?needs ?d)
      then (pk_engine pk2)\<lparr>le_easy := le_easy (pk_engine pk2) + 1\<rparr> else pk_engine pk2)\<rparr>"
  have "picked s free now (pk2\<lparr>pk_profile := fst (reserve_best (pk_profile pk2) ?needs ?d)\<rparr>)"
    by (rule picked_profile [OF k2(1)])
      (use k2(1) reserve_best_packs [OF _ needs, of eps 0 free _ "pk_profile pk2" ?d] in \<open>auto simp: picked_def\<close>)
  then have k3: "picked s free now pk3" "pk_chosen pk3 = pk_chosen pk"
    using k2(2) by (auto simp: pk3_def aside_def elim: picked_engine)
  have "pick_blocked grp e reserved pk = (if reserved \<or> \<not> pp_easy (le_policy (pk_engine pk)) then (reserved, pk1)
      else if is_admitted grp pk1 \<or> \<not> pk_head pk1 then (True, pk3) else (reserved, pk1))"
    unfolding pick_blocked_def Let_def pk1_def [symmetric] pk2_def [symmetric, unfolded Let_def]
    by (simp add: pk3_def case_prod_unfold)
  then show "picked s free now (snd (pick_blocked grp e reserved pk))"
    "pk_chosen (snd (pick_blocked grp e reserved pk)) = pk_chosen pk"
    using k1 k3 by simp_all
qed

lemma pick_keys_picked:
  assumes "picked s free now pk" "\<forall>e\<in>set es. eligible s grp e"
  shows "picked s free now (pick_keys grp now position reserved es pk) \<and>
    mset (map fst (pk_chosen (pick_keys grp now position reserved es pk))) \<subseteq># mset (map fst (pk_chosen pk)) + mset es"
  using assms
proof (induction es arbitrary: position reserved pk)
  case Nil
  then show ?case by simp
next
  case (Cons e es)
  have e: "eligible s grp e" and es: "\<forall>e\<in>set es. eligible s grp e" using Cons.prems(2) by simp_all
  let ?placing = "find (\<lambda>(rt, need). feasible (pk_profile pk) need now (js_expected_duration (en_spec e))) (needs_of pk e)"
  show ?case
  proof (cases ?placing)
    case None
    note blocked = pick_blocked_picked [OF Cons.prems(1) e, of reserved]
    note rest = Cons.IH [OF blocked(1) es, of "position + 1" "fst (pick_blocked grp e reserved pk)"]
    have "X \<subseteq># mset (map fst (pk_chosen pk)) + mset (e # es)"
      if "X \<subseteq># mset (map fst (pk_chosen pk)) + mset es" for X
      using that by (rule subset_mset.order_trans) simp
    with rest [unfolded blocked(2)] show ?thesis
      using None by (simp add: case_prod_unfold del: mset_map mset.simps)
  next
    case (Some placed)
    obtain rt need where placed: "placed = (rt, need)" by force
    then have "(rt, need) \<in> set (needs_of pk e)"
      "feasible (pk_profile pk) need now (js_expected_duration (en_spec e))"
      using Some by (auto simp: find_Some_iff in_set_conv_nth)
    note start = pick_start_picked [OF Cons.prems(1) e this, of position]
    show ?thesis
      using Cons.IH [OF start(1) es, of "position + 1" reserved] Some placed start(2)
      by (simp add: ac_simps)
  qed
qed

lemma mset_group_keys [simp]: "mset (group_keys policy keys) = mset keys"
  by (simp add: group_keys_def)

lemma pick_groups_picked:
  assumes "picked s free now pk" "\<forall>g\<in>set gs. \<forall>e\<in>set (snd g). eligible s (fst g) e"
  shows "picked s free now (pick_groups now gs pk) \<and>
    mset (map fst (pk_chosen (pick_groups now gs pk))) \<subseteq>#
      mset (map fst (pk_chosen pk)) + mset (concat (map snd gs))"
  using assms
proof (induction gs arbitrary: pk)
  case Nil
  then show ?case by simp
next
  case (Cons g gs)
  obtain grp keys where g: "g = (grp, keys)" by force
  let ?pk = "pick_keys grp now 0 False (group_keys (le_policy (pk_engine pk)) keys) pk"
  have "set (group_keys (le_policy (pk_engine pk)) keys) = set keys"
    by (metis mset_group_keys set_mset_mset)
  then have keys: "picked s free now ?pk"
    "mset (map fst (pk_chosen ?pk)) \<subseteq># mset (map fst (pk_chosen pk)) + mset keys"
    using pick_keys_picked [OF Cons.prems(1), of "group_keys (le_policy (pk_engine pk)) keys" grp 0 False] Cons.prems(2) g
    by simp_all
  have "mset (map fst (pk_chosen ?pk)) + mset (concat (map snd gs)) \<subseteq>#
      mset (map fst (pk_chosen pk)) + mset (concat (map snd (g # gs)))"
    using keys(2) g by (simp add: ac_simps)
  then show ?case
    using Cons.IH [OF keys(1)] Cons.prems(2) g by (auto intro: subset_mset.order_trans)
qed

section \<open>The groups of the candidates\<close>

lemma by_group_step:
  "mset (concat (map snd (AList.update k ((case map_of gs k of None \<Rightarrow> [] | Some es \<Rightarrow> es) @ [e]) gs))) =
    mset (concat (map snd gs)) + {#e#}"
  by (induction gs) (auto simp: ac_simps)

lemma by_group_all:
  "mset (concat (map snd (by_group cs))) = mset cs"
  "\<forall>g\<in>set (by_group cs). \<forall>e\<in>set (snd g). js_group (en_spec e) = fst g"
proof -
  have "mset (concat (map snd (by_group cs))) = mset cs \<and>
      (\<forall>g\<in>set (by_group cs). \<forall>e\<in>set (snd g). js_group (en_spec e) = fst g)"
  proof (induction cs rule: rev_induct)
    case Nil
    then show ?case by (simp add: by_group_def)
  next
    case (snoc e cs)
    let ?k = "js_group (en_spec e)"
    have run: "by_group (cs @ [e]) = AList.update ?k
        ((case map_of (by_group cs) ?k of None \<Rightarrow> [] | Some es \<Rightarrow> es) @ [e]) (by_group cs)"
      by (simp add: by_group_def)
    have "\<forall>x\<in>set (case map_of (by_group cs) ?k of None \<Rightarrow> [] | Some es \<Rightarrow> es). js_group (en_spec x) = ?k"
    proof (cases "map_of (by_group cs) ?k")
      case (Some es)
      then have "(?k, es) \<in> set (by_group cs)" by (rule map_of_SomeD)
      then show ?thesis using Some snoc.IH by fastforce
    qed simp
    moreover have "set (AList.update k v gs) \<subseteq> insert (k, v) (set gs)" for k v and gs :: "(string \<times> br_entry list) list"
      by (induction gs) auto
    ultimately show ?case
      using snoc.IH by_group_step [of ?k "by_group cs" e] unfolding run by fastforce
  qed
  then show "mset (concat (map snd (by_group cs))) = mset cs"
    "\<forall>g\<in>set (by_group cs). \<forall>e\<in>set (snd g). js_group (en_spec e) = fst g" by blast+
qed

lemma pick_jobs_picked:
  assumes "\<forall>e\<in>set cs. eligible s (js_group (en_spec e)) e" "pins_ok s"
    and "packs eps 0 free [] p" "pf_now p = now"
  obtains pk where "pick_jobs cs p now s = Inr pk" "picked s free now pk"
    "mset (map fst (pk_chosen pk)) \<subseteq># mset cs"
proof -
  let ?gs = "by_group cs"
  let ?key = "\<lambda>(grp, keys). group_key (le_policy s) (the (map_of (le_groups s) grp)) keys now"
  let ?pk0 = "\<lparr>pk_profile = p, pk_chosen = [], pk_head = False, pk_engine = s\<rparr>"
  have all: "\<Union> (set ` snd ` set ?gs) = set cs"
    using arg_cong [OF by_group_all(1), of set_mset] by simp
  have elig: "\<forall>g\<in>set ?gs. \<forall>e\<in>set (snd g). eligible s (fst g) e"
    using by_group_all(2) all assms(1) by fastforce
  have nonempty: "\<forall>g\<in>set ?gs. snd g \<noteq> []"
  proof (induction cs rule: rev_induct)
    case Nil
    then show ?case by (simp add: by_group_def)
  next
    case (snoc e cs)
    have "set (AList.update k v gs) \<subseteq> insert (k, v) (set gs)" for k v and gs :: "(string \<times> br_entry list) list"
      by (induction gs) auto
    with snoc show ?case by (fastforce simp: by_group_def)
  qed
  have "missing_group s ?gs = None"
    unfolding missing_group_def find_None_iff
    using elig nonempty by (fastforce simp: eligible_def neq_Nil_conv)
  moreover have "picked s free now ?pk0"
    using assms(2-4) by (simp add: picked_def steady_def)
  then have "picked s free now (pick_groups now (sort_key ?key ?gs) ?pk0) \<and>
      mset (map fst (pk_chosen (pick_groups now (sort_key ?key ?gs) ?pk0))) \<subseteq>#
        mset (map fst (pk_chosen ?pk0)) + mset (concat (map snd (sort_key ?key ?gs)))"
    by (rule pick_groups_picked) (use elig in simp)
  moreover have "mset (concat (map snd (sort_key ?key ?gs))) = mset (concat (map snd ?gs))"
    unfolding mset_concat by (simp flip: sum_mset_sum_list)
  ultimately show thesis
    by (intro that [of "pick_groups now (sort_key ?key ?gs) ?pk0"]) (simp_all add: pick_jobs_def by_group_all(1))
qed

end
