(* ===== verification/Br_Local_Flex.thy ===== *)
theory Br_Local_Flex
  imports Br_Local_Pick
begin

text \<open>
  Flexible grants and the admission of what was chosen (\<^verbatim>\<open>_flex\<close>, the end of \<^verbatim>\<open>_admit_host\<close>): the extra
  CPU goes to chosen jobs, each at most what its reservation wants, and all of it was still free; so
  the admissions that follow are starts within the budget (\<open>admit_chosen_starts\<close>).
\<close>

type_synonym choice = "br_entry \<times> nat \<times> execution_root option"

definition choice_id :: "choice \<Rightarrow> string" where
  "choice_id c = js_job_id (en_spec (fst c))"

section \<open>The extra CPU\<close>

lemma flex_give_bounds:
  assumes "flex_give policy laggard e p = Some x" "0 \<le> pp_headroom_cpu policy"
  shows "0 < x" "x \<le> res_cpu_max (js_reservation (en_spec e)) - res_cpu_min (js_reservation (en_spec e)) + time_eps"
    and "x \<le> slack_cpu p (js_expected_duration (en_spec e)) + time_eps"
proof -
  define want where "want = res_cpu_max (js_reservation (en_spec e)) - res_cpu_min (js_reservation (en_spec e))"
  define keep where "keep = (if pp_laggard_flex policy \<and> laggard then 0 else pp_headroom_cpu policy)"
  define give where "give = min want (slack_cpu p (js_expected_duration (en_spec e)) - keep)"
  have x: "x = (if give < want then of_int \<lfloor>give + time_eps\<rfloor> else give)" "time_eps < x"
    using assms(1) unfolding flex_give_def Let_def want_def [symmetric] keep_def [symmetric] give_def [symmetric]
    by (auto split: if_splits)
  then have "x \<le> give + time_eps"
    using of_int_floor_le [of "give + time_eps"] eps_le_time_eps by (auto split: if_splits)
  moreover have "give \<le> want" "give \<le> slack_cpu p (js_expected_duration (en_spec e))"
    using assms(2) by (auto simp: give_def keep_def)
  ultimately show "0 < x" "x \<le> res_cpu_max (js_reservation (en_spec e)) - res_cpu_min (js_reservation (en_spec e)) + time_eps"
    "x \<le> slack_cpu p (js_expected_duration (en_spec e)) + time_eps"
    using x(2) eps_le_time_eps by (auto simp: want_def)
qed

text \<open>An extra entry: for a chosen job, positive, at most what the job wants.\<close>

definition extra_for :: "choice set \<Rightarrow> string \<times> rat \<Rightarrow> bool" where
  "extra_for C x \<longleftrightarrow> (\<exists>c\<in>C. fst x = choice_id c \<and> 0 < snd x \<and>
     snd x \<le> res_cpu_max (js_reservation (en_spec (fst c))) - res_cpu_min (js_reservation (en_spec (fst c))) + time_eps)"

lemma flex_from_packs:
  assumes "packs time_eps (sum_list (map snd extra)) free ns p" "0 \<le> pp_headroom_cpu policy"
    and "\<forall>c\<in>set cs. fst (snd c) < length (pf_ends p)" "distinct (map choice_id cs)" "distinct (map fst extra)"
    and "\<forall>c\<in>set cs. choice_id c \<notin> fst ` set extra" "\<forall>x\<in>set extra. extra_for C x" "set cs \<subseteq> C"
  shows "distinct (map fst (flex_from policy laggards cs p extra)) \<and>
    (\<forall>x\<in>set (flex_from policy laggards cs p extra). extra_for C x) \<and>
    (\<exists>p'. packs time_eps (sum_list (map snd (flex_from policy laggards cs p extra))) free ns p')"
  using assms
proof (induction cs arbitrary: p extra)
  case Nil
  then show ?case by auto
next
  case (Cons c cs)
  obtain e i rt where c: "c = (e, i, rt)" using prod_cases3 by blast
  let ?j = "js_job_id (en_spec e)"
  let ?give = "flex_give policy (?j \<in> set laggards) e p"
  show ?case
  proof (cases ?give)
    case None
    then show ?thesis using Cons c by simp
  next
    case (Some x)
    note bounds = flex_give_bounds [OF Some Cons.prems(2)]
    have fresh: "map_of extra ?j = None"
      using Cons.prems(6) c by (simp add: choice_id_def map_of_eq_None_iff)
    have upd: "AList.update ?j x extra = extra @ [(?j, x)]" by (rule update_absent [OF fresh])
    have "packs time_eps (sum_list (map snd extra) + x) free ns (grow p i x)"
      by (rule packs_grow [OF Cons.prems(1) _ bounds(3)]) (use Cons.prems(3) c in simp)
    moreover have "extra_for C (?j, x)"
      unfolding extra_for_def by (rule bexI [of _ c]) (use bounds c Cons.prems(8) in \<open>auto simp: choice_id_def\<close>)
    moreover have "\<forall>c\<in>set cs. choice_id c \<noteq> ?j"
      using Cons.prems(4) c by (auto simp: choice_id_def image_iff)
    ultimately have "distinct (map fst (flex_from policy laggards cs (grow p i x) (extra @ [(?j, x)]))) \<and>
      (\<forall>y\<in>set (flex_from policy laggards cs (grow p i x) (extra @ [(?j, x)])). extra_for C y) \<and>
      (\<exists>p'. packs time_eps (sum_list (map snd (flex_from policy laggards cs (grow p i x) (extra @ [(?j, x)])))) free ns p')"
      using Cons.prems c by (intro Cons.IH) (auto simp: choice_id_def)
    then show ?thesis using Some c upd by simp
  qed
qed

lemma flex_packs:
  assumes "packs eps 0 free ns p" "0 \<le> pp_headroom_cpu (le_policy s)" "distinct (map choice_id cs)"
    and "\<forall>c\<in>set cs. fst (snd c) < length (pf_ends p)"
  shows "distinct (map fst (flex s cs p))" "\<forall>x\<in>set (flex s cs p). extra_for (set cs) x"
    "\<exists>p'. packs time_eps (sum_list (map snd (flex s cs p))) free ns p'"
proof -
  define lag where "lag = map (\<lambda>(e, i, r). js_job_id (en_spec e)) (filter (\<lambda>(e, i, r). is_laggard (le_core s) e) cs)"
  define ordered where "ordered = (if pp_laggard_flex (le_policy s)
    then filter (\<lambda>(e, i, r). js_job_id (en_spec e) \<in> set lag) cs @
      filter (\<lambda>(e, i, r). js_job_id (en_spec e) \<notin> set lag) cs else cs)"
  have run: "flex s cs p = flex_from (le_policy s) lag ordered p []"
    by (simp add: flex_def Let_def lag_def ordered_def)
  have mset: "mset ordered = mset cs"
    unfolding ordered_def by (simp add: case_prod_unfold)
  then have "set ordered = set cs" by (metis set_mset_mset)
  moreover have "mset (map choice_id ordered) = mset (map choice_id cs)" using mset by simp
  then have "distinct (map choice_id ordered)"
    using assms(3) mset_eq_imp_distinct_iff by blast
  ultimately have "distinct (map fst (flex s cs p)) \<and> (\<forall>x\<in>set (flex s cs p). extra_for (set cs) x) \<and>
      (\<exists>p'. packs time_eps (sum_list (map snd (flex s cs p))) free ns p')"
    unfolding run by (intro flex_from_packs) (use assms(2,4) packs_weaken [OF assms(1)] in simp_all)
  then show "distinct (map fst (flex s cs p))" "\<forall>x\<in>set (flex s cs p). extra_for (set cs) x"
    "\<exists>p'. packs time_eps (sum_list (map snd (flex s cs p))) free ns p'" by blast+
qed

lemma sum_of_lookups:
  fixes ex :: "(string \<times> rat) list"
  assumes "distinct js" "distinct (map fst ex)" "fst ` set ex \<subseteq> set js"
  shows "(\<Sum>j\<leftarrow>js. case map_of ex j of None \<Rightarrow> 0 | Some x \<Rightarrow> x) = sum_list (map snd ex)"
proof -
  let ?f = "\<lambda>j. case map_of ex j of None \<Rightarrow> 0 | Some x \<Rightarrow> x"
  have "(\<Sum>j\<leftarrow>js. ?f j) = sum ?f (set js)"
    using assms(1) by (rule sum_list_distinct_conv_sum_set)
  also have "\<dots> = sum ?f (fst ` set ex)"
    by (rule sum.mono_neutral_right) (use assms(3) in \<open>auto simp: map_of_eq_None_iff [THEN iffD2] image_iff
      split: option.splits dest!: map_of_SomeD\<close>)
  also have "\<dots> = (\<Sum>x\<in>set ex. ?f (fst x))"
    using assms(2) by (subst sum.reindex) (simp_all add: distinct_map)
  also have "\<dots> = (\<Sum>x\<in>set ex. snd x)"
    by (rule sum.cong) (use assms(2) in auto)
  also have "\<dots> = sum_list (map snd ex)"
    using assms(2) by (simp add: sum_list_distinct_conv_sum_set distinct_map)
  finally show ?thesis .
qed

section \<open>Admitting what was chosen\<close>

definition lookup_extra :: "(string \<times> rat) list \<Rightarrow> choice \<Rightarrow> rat" where
  "lookup_extra extra c = (case map_of extra (choice_id c) of None \<Rightarrow> 0 | Some x \<Rightarrow> x)"

text \<open>What a chosen job is granted.\<close>

definition handed :: "(string \<times> rat) list \<Rightarrow> choice \<Rightarrow> capacity" where
  "handed extra c = (let need = chosen_need c in
     \<lparr>cap_cpu = cap_cpu need + lookup_extra extra c, cap_memory = cap_memory need, cap_pools = cap_pools need\<rparr>)"

lemma handed_simps [simp]:
  "cap_cpu (handed extra c) = cap_cpu (chosen_need c) + lookup_extra extra c"
  "cap_memory (handed extra c) = cap_memory (chosen_need c)" "cap_pools (handed extra c) = cap_pools (chosen_need c)"
  "pool_in name (handed extra c) = pool_in name (chosen_need c)"
  by (simp_all add: handed_def Let_def pool_in_def)

text \<open>\<open>all_fit b gs\<close>: the amounts \<open>gs\<close> together fit what the budget of \<open>b\<close> has left.\<close>

definition all_fit :: "broker \<Rightarrow> capacity list \<Rightarrow> bool" where
  "all_fit b gs \<longleftrightarrow> (\<forall>g\<in>set gs. 0 \<le> cap_cpu g \<and> 0 \<le> cap_memory g \<and> pools_ok (cap_pools g)) \<and>
     (gs \<noteq> [] \<longrightarrow> used cap_cpu (book b None) + (\<Sum>g\<leftarrow>gs. cap_cpu g) \<le> cap_cpu (bk_budget b) + time_eps \<and>
       used cap_memory (book b None) + (\<Sum>g\<leftarrow>gs. cap_memory g) \<le> cap_memory (bk_budget b)) \<and>
     (\<forall>name. (\<forall>g\<in>set gs. pool_in name g = 0) \<or>
        used (pool_in name) (book b None) + (\<Sum>g\<leftarrow>gs. pool_in name g) \<le> pool_in name (bk_budget b))"

lemma all_fit_first:
  assumes "all_fit b (g # gs)"
  shows "takes time_eps (bk_budget b) (book b None) g"
proof -
  have rest: "0 \<le> (\<Sum>g\<leftarrow>gs. cap_cpu g)" "0 \<le> (\<Sum>g\<leftarrow>gs. cap_memory g)" "0 \<le> (\<Sum>g\<leftarrow>gs. pool_in name g)"
    for name
    using assms by (auto simp: all_fit_def pool_in_def intro!: sum_list_nonneg pool_get_nonneg)
  have "pool_in name g = 0 \<or>
      used (pool_in name) (book b None) + pool_in name g \<le> pool_in name (bk_budget b)" for name
  proof (cases "pool_in name g = 0")
    case False
    then have "used (pool_in name) (book b None) + (\<Sum>g\<leftarrow>g # gs. pool_in name g) \<le> pool_in name (bk_budget b)"
      using assms unfolding all_fit_def by auto
    then show ?thesis using rest(3) [of name] by simp
  qed simp
  then show ?thesis
    using assms rest(1,2) by (simp add: all_fit_def takes_def)
qed

lemma all_fit_started:
  assumes "all_fit b (gr_amounts g # gs)" "loc.broker_ok b" "find_entry b k = Some e" "en_state e = Queued"
    and "k \<in> account_members b None" "started k g b b'"
  shows "all_fit b' gs"
proof -
  have "bk_budget b' = bk_budget b"
    using startedD(2) [OF assms(6,3)] by (simp add: same_frame_def)
  then show ?thesis
    using assms(1) by (simp add: all_fit_def loc.started_used [OF assms(2-6)] add.assoc)
      metis
qed

definition ready :: "broker \<Rightarrow> choice list \<Rightarrow> bool" where
  "ready b cs \<longleftrightarrow> distinct (map choice_id cs) \<and> (\<forall>c\<in>set cs. find_entry b (choice_id c) = Some (fst c) \<and>
     en_state (fst c) = Queued \<and> js_parent_lease (en_spec (fst c)) = None)"

definition host_start :: "local_engine \<Rightarrow> br_entry \<Rightarrow> grant \<Rightarrow> bool" where
  "host_start s e g \<longleftrightarrow> js_parent_lease (en_spec e) = None \<and> (gr_root g = None \<longrightarrow> le_roots s = []) \<and> (\<forall>path. gr_root g = Some path \<longrightarrow>
     (\<exists>r\<in>set (le_roots s). er_path r = path \<and> pinned s (js_group (en_spec e)) = Some r))"

lemma admit_chosen_starts:
  assumes "loc.broker_ok b" "ready b cs" "all_fit b (map (handed extra) cs)"
    and "\<forall>c\<in>set cs. place_ok s c \<and> lookup_extra extra c \<le>
      res_cpu_max (js_reservation (en_spec (fst c))) - res_cpu_min (js_reservation (en_spec (fst c))) + time_eps \<and>
      0 \<le> lookup_extra extra c"
  shows "(loc.start_step (host_start s))\<^sup>*\<^sup>* b (admit_chosen clk extra cs b)"
  using assms
proof (induction cs arbitrary: b)
  case Nil
  then show ?case by simp
next
  case (Cons c cs)
  obtain e i rt where c: "c = (e, i, rt)" using prod_cases3 by blast
  let ?k = "js_job_id (en_spec e)"
  let ?x = "lookup_extra extra c"
  let ?cpu = "res_cpu_min (js_reservation (en_spec e)) + ?x"
  let ?g = "le_granted clk b e ?cpu None rt"
  let ?b = "snd (le_admit clk e ?cpu None rt b)"
  have e: "find_entry b ?k = Some e" "en_state e = Queued" "js_parent_lease (en_spec e) = None"
    using Cons.prems(2) c by (simp_all add: ready_def choice_id_def)
  have mem: "?k \<in> account_members b None"
    using e(1,3) by (simp add: members_host [OF loc.broker_okD(1) [OF Cons.prems(1)]])
  have st: "started ?k ?g b ?b" by (rule le_admit_started [OF e(1)]) simp
  have amounts: "gr_amounts ?g = handed extra c"
    by (simp add: le_granted_def handed_def Let_def chosen_need_def c)
  have fit: "all_fit b (gr_amounts ?g # map (handed extra) cs)"
    using Cons.prems(3) amounts by simp
  have step: "loc.start_step (host_start s) b ?b"
  proof (rule loc.start_stepI [OF e(1,2) _ _ mem _ _ st])
    show "loc.grant_ok e ?g"
      by (rule le_granted_ok) (use Cons.prems(4) c e(3) eps_pos in simp_all)
    show "total_of b None = Some (bk_budget b)" by (simp add: total_of_def)
    show "takes time_eps (bk_budget b) (book b None) (gr_amounts ?g)" by (rule all_fit_first [OF fit])
    show "host_start s e ?g"
      using Cons.prems(4) c e(3) by (auto simp: host_start_def place_ok_def)
  qed
  have other: "choice_id d \<noteq> ?k" if "d \<in> set cs" for d
    using that Cons.prems(2) c by (auto simp: ready_def choice_id_def image_iff)
  have "ready ?b cs"
    using Cons.prems(2) other startedD(1) [OF st e(1)] by (auto simp: ready_def)
  then have "(loc.start_step (host_start s))\<^sup>*\<^sup>* ?b (admit_chosen clk extra cs ?b)"
    using loc.start_step_sound [OF step Cons.prems(1)] Cons.prems(4)
      all_fit_started [OF fit Cons.prems(1) e(1,2) mem st]
    by (intro Cons.IH) auto
  moreover have "admit_chosen clk extra (c # cs) b = admit_chosen clk extra cs ?b"
    by (simp add: c lookup_extra_def choice_id_def)
  ultimately show ?case using step by (simp add: converse_rtranclp_into_rtranclp)
qed

lemma admit_chosen_ticks: "bk_ticks b \<le> bk_ticks (admit_chosen clk extra cs b)"
proof (induction cs arbitrary: b)
  case (Cons c cs)
  obtain e i rt where c: "c = (e, i, rt)" using prod_cases3 by blast
  let ?b = "snd (le_admit clk e (res_cpu_min (js_reservation (en_spec e)) +
    (case map_of extra (js_job_id (en_spec e)) of None \<Rightarrow> 0 | Some x \<Rightarrow> x)) None rt b)"
  have "bk_ticks b \<le> bk_ticks ?b" by simp
  then show ?case using Cons.IH [of ?b] unfolding c admit_chosen.simps by (rule order_trans)
qed simp

text \<open>From what the packer took to what the admissions hand out.\<close>

lemma packed_fits:
  assumes "packs time_eps x free (map chosen_need cs) p" "within_left free b"
    and "\<forall>c\<in>set cs. capacity_ok (chosen_need c) \<and> 0 \<le> lookup_extra extra c"
    and "(\<Sum>c\<leftarrow>cs. lookup_extra extra c) = x"
  shows "all_fit b (map (handed extra) cs)"
proof -
  have cpu: "(\<Sum>g\<leftarrow>map (handed extra) cs. cap_cpu g) = (\<Sum>c\<leftarrow>map chosen_need cs. cap_cpu c) + x"
    by (simp add: o_def sum_list_addf assms(4))
  have mem: "(\<Sum>g\<leftarrow>map (handed extra) cs. cap_memory g) = (\<Sum>c\<leftarrow>map chosen_need cs. cap_memory c)"
    and pools: "(\<Sum>g\<leftarrow>map (handed extra) cs. pool_in name g) = (\<Sum>c\<leftarrow>map chosen_need cs. pool_in name c)" for name
    by (simp_all add: o_def)
  have "(\<forall>g\<in>set (map (handed extra) cs). pool_in name g = 0) \<or>
      used (pool_in name) (book b None) + (\<Sum>g\<leftarrow>map (handed extra) cs. pool_in name g) \<le> pool_in name (bk_budget b)"
    for name
  proof -
    have "(\<forall>c\<in>set (map chosen_need cs). pool_in name c = 0) \<or> 0 \<le> pool_in name (pf_free p)"
      "pool_in name (pf_free p) = pool_in name free - (\<Sum>c\<leftarrow>map chosen_need cs. pool_in name c)"
      "pool_in name free \<le> pool_in name (bk_budget b) - used (pool_in name) (book b None)"
      using assms(1,2) unfolding packs_def within_left_def by blast+
    then show ?thesis unfolding pools by auto
  qed
  moreover have "\<forall>g\<in>set (map (handed extra) cs). 0 \<le> cap_cpu g \<and> 0 \<le> cap_memory g \<and> pools_ok (cap_pools g)"
    using assms(3) by (auto simp: capacity_ok_def)
  ultimately show ?thesis
    using assms(1,2) unfolding all_fit_def cpu mem packs_def within_left_def by auto
qed

end
