(* ===== verification/Br_Local_Pump.thy ===== *)
theory Br_Local_Pump
  imports Br_Local_Flex
begin

text \<open>
  The invariant of the local engine (\<open>engine_ok\<close>) and one admission pass (\<^verbatim>\<open>_pump\<close>). The invariant says
  of every entry: the root of its grant is a configured one; a top-level job is expected to take time, its group
  is known while it is live, and while it runs on a root the group is pinned to that root. So a
  pass never looks up a group or a root that is not there, and whatever it starts is within what the
  accounts have left.
\<close>

section \<open>The invariant\<close>

definition host_job :: "br_entry \<Rightarrow> bool" where
  "host_job e \<longleftrightarrow> js_parent_lease (en_spec e) = None"

definition entry_fine :: "local_engine \<Rightarrow> br_entry \<Rightarrow> bool" where
  "entry_fine s e \<longleftrightarrow> (\<forall>g. en_grant e = Some g \<longrightarrow> rooted s g) \<and>
     (host_job e \<longrightarrow> 0 < js_expected_duration (en_spec e) \<and>
       (is_live (en_state e) \<longrightarrow> map_of (le_groups s) (js_group (en_spec e)) \<noteq> None) \<and>
       (\<forall>g. en_state e = Running \<longrightarrow> en_grant e = Some g \<longrightarrow> gr_root g = None \<longrightarrow> le_roots s = []) \<and>
       (\<forall>g path. en_state e = Running \<longrightarrow> en_grant e = Some g \<longrightarrow> gr_root g = Some path \<longrightarrow>
         (\<exists>r\<in>set (le_roots s). er_path r = path \<and> pinned s (js_group (en_spec e)) = Some r)))"

definition all_fine :: "local_engine \<Rightarrow> broker \<Rightarrow> bool" where
  "all_fine s b \<longleftrightarrow> (\<forall>k e. find_entry b k = Some e \<longrightarrow> entry_fine s e)"

definition engine_ok :: "local_engine \<Rightarrow> bool" where
  "engine_ok s \<longleftrightarrow> loc.broker_ok (le_core s) \<and> all_fine s (le_core s) \<and> pins_ok s \<and>
     0 \<le> pp_headroom_cpu (le_policy s)"

lemma all_fineD: "all_fine s b \<Longrightarrow> find_entry b k = Some e \<Longrightarrow> entry_fine s e"
  unfolding all_fine_def by blast

lemma all_fine_rooted: "all_fine s b \<Longrightarrow> grants_rooted s b"
  unfolding all_fine_def grants_rooted_def entry_fine_def by blast

lemma entry_fine_steady: "steady s s' \<Longrightarrow> entry_fine s e \<Longrightarrow> entry_fine s' e"
  using steady_known [of s s'] unfolding entry_fine_def steady_def rooted_def by auto

lemma all_fine_steady: "steady s s' \<Longrightarrow> all_fine s b \<Longrightarrow> all_fine s' b"
  using entry_fine_steady unfolding all_fine_def by blast

lemma entry_fine_cong:
  assumes "le_groups s' = le_groups s" "le_roots s' = le_roots s"
  shows "entry_fine s' = entry_fine s" "all_fine s' = all_fine s" "pins_ok s' = pins_ok s"
proof -
  have p: "pinned s' = pinned s" using assms(1) by (simp add: pinned_def fun_eq_iff)
  show "entry_fine s' = entry_fine s"
    by (rule ext) (simp add: entry_fine_def rooted_def assms p)
  then show "all_fine s' = all_fine s" by (intro ext) (simp add: all_fine_def)
  show "pins_ok s' = pins_ok s" by (simp add: pins_ok_def assms p)
qed

lemma entry_fine_ended:
  "entry_fine s e \<Longrightarrow> entry_ended D b' k e st \<Longrightarrow> entry_fine s (e\<lparr>en_state := st\<rparr>)"
  by (auto simp: entry_fine_def entry_ended_def host_job_def is_live_def)

lemma all_fine_ended:
  assumes "all_fine s b" "ended D b b'"
  shows "all_fine s b'"
  unfolding all_fine_def
proof (intro allI impI)
  fix k e' assume "find_entry b' k = Some e'"
  then obtain e st where "find_entry b k = Some e" "e' = e\<lparr>en_state := st\<rparr>" "entry_ended D b' k e st"
    using ended_back [OF assms(2)] by metis
  then show "entry_fine s e'"
    using all_fineD [OF assms(1)] entry_fine_ended by blast
qed

lemma all_fine_starts:
  assumes "all_fine s b" "(loc.start_step Q)\<^sup>*\<^sup>* b b'" "loc.broker_ok b"
    and "\<And>e g. Q e g \<Longrightarrow> nested_start s e g \<or> host_start s e g"
  shows "all_fine s b'"
  unfolding all_fine_def
proof (intro allI impI)
  fix k e' assume e': "find_entry b' k = Some e'"
  obtain e where e: "find_entry b k = Some e" "loc.moved Q e e'"
    using loc.starts_back [OF assms(2,3) e'] .
  have "entry_fine s e" using all_fineD [OF assms(1) e(1)] .
  then show "entry_fine s e'"
    using e(2) assms(4)
    by (auto simp: loc.moved_def entry_fine_def host_job_def nested_start_def host_start_def rooted_def
      is_live_def dest!: assms(4))
qed

section \<open>What a step may do\<close>

text \<open>
  \<open>moves s s'\<close>: \<open>s'\<close> is well-formed again, every account went through ledger steps, and the budget,
  the configuration and the submitted jobs are what they were.
\<close>

definition moves :: "local_engine \<Rightarrow> local_engine \<Rightarrow> bool" where
  "moves s s' \<longleftrightarrow> engine_ok s' \<and> refines time_eps (le_core s) (le_core s') \<and>
     bk_budget (le_core s') = bk_budget (le_core s) \<and> bk_available (le_core s') = bk_available (le_core s) \<and>
     le_roots s' = le_roots s \<and> le_policy s' = le_policy s \<and>
     (\<forall>k. find_entry (le_core s) k \<noteq> None \<longrightarrow> find_entry (le_core s') k \<noteq> None)"

lemma moves_refl: "engine_ok s \<Longrightarrow> moves s s"
  by (simp add: moves_def)

lemma moves_trans: "moves s s1 \<Longrightarrow> moves s1 s2 \<Longrightarrow> moves s s2"
  unfolding moves_def by (auto intro: refines_trans)

lemma moves_ok: "moves s s' \<Longrightarrow> engine_ok s'"
  by (simp add: moves_def)

text \<open>A change of the counters, of the clock readings or of the events.\<close>

lemma moves_cong:
  assumes "engine_ok s" "bk_entries (le_core s') = bk_entries (le_core s)"
    and "bk_budget (le_core s') = bk_budget (le_core s)" "bk_arrivals (le_core s') = bk_arrivals (le_core s)"
    and "bk_available (le_core s') = bk_available (le_core s)" "le_groups s' = le_groups s"
    and "le_roots s' = le_roots s" "le_policy s' = le_policy s"
  shows "moves s s'"
proof -
  have "loc.broker_ok (le_core s')"
    using assms(1) loc.broker_ok_cong [OF assms(2,4)] by (simp add: engine_ok_def)
  moreover have "find_entry (le_core s') = find_entry (le_core s)"
    by (rule find_entry_cong) (rule assms(2))
  ultimately show ?thesis
    using assms(1) refines_cong(1) [OF assms(2,3)] entry_fine_cong [OF assms(6,7)] assms(3,5,7,8)
    by (simp add: moves_def engine_ok_def all_fine_def)
qed

lemma moves_aside: "engine_ok s \<Longrightarrow> aside s s' \<Longrightarrow> moves s s'"
  by (rule moves_cong) (simp_all add: aside_def)

lemma moves_ended:
  assumes "engine_ok s" "ended D (le_core s) b'" "le_core s' = b'" "le_groups s' = le_groups s"
    and "le_roots s' = le_roots s" "le_policy s' = le_policy s"
  shows "moves s s'"
proof -
  have ok: "loc.broker_ok (le_core s)" using assms(1) by (simp add: engine_ok_def)
  show ?thesis
    using assms loc.ended_ok [OF ok assms(2)] loc.ended_refines [OF ok assms(2)]
      all_fine_ended [OF _ assms(2), of s] entry_fine_cong [OF assms(4,5)] same_frame_find [of "le_core s" b']
    by (auto simp: moves_def engine_ok_def ended_def same_frame_def)
qed

lemma moves_starts:
  assumes "engine_ok s" "(loc.start_step Q)\<^sup>*\<^sup>* (le_core s) (le_core s')" "steady s (s'\<lparr>le_core := le_core s\<rparr>)"
    and "\<And>e g. Q e g \<Longrightarrow> nested_start s' e g \<or> host_start s' e g"
  shows "moves s s'"
proof -
  have ok: "loc.broker_ok (le_core s)" using assms(1) by (simp add: engine_ok_def)
  note st = loc.starts_sound [OF assms(2) ok]
  let ?s = "s'\<lparr>le_core := le_core s\<rparr>"
  note eq = entry_fine_cong [of s' ?s, simplified]
  have "all_fine s' (le_core s)"
    using all_fine_steady [OF assms(3)] assms(1) by (simp add: engine_ok_def eq)
  then have "all_fine s' (le_core s')" using all_fine_starts [OF _ assms(2) ok assms(4)] by blast
  moreover have "pins_ok s'" using assms(3) eq(3) by (simp add: steady_def)
  ultimately show ?thesis
    using st assms(1,3) same_frame_find [OF st(3)]
    by (simp add: moves_def engine_ok_def steady_def same_frame_def)
qed

section \<open>Dead owners\<close>

definition ownerless :: "(br_owner \<Rightarrow> bool) \<Rightarrow> br_entry \<Rightarrow> bool" where
  "ownerless alive e \<longleftrightarrow> is_live (en_state e) \<and> \<not> alive (js_owner (en_spec e))"

lemma reap_dead_sweep: "reap_dead_from clk alive js b = sweep clk (ownerless alive) js b"
  by (induction js arbitrary: b) (auto simp: ownerless_def reclaim_entry_def split: option.splits sum.splits prod.splits)

lemma ownerless_live: "on_live (ownerless alive)"
  by (auto simp: on_live_def ownerless_def)

lemma reap_dead_run:
  assumes "engine_ok s"
  obtains s' where "reap_dead pr s = (Inr (), s')" "moves s s'"
    "ended {j. \<exists>k. meets (ownerless (pr_alive pr (le_reads s))) (le_core s) k \<and> below (le_core s) k j}
      (le_core s) (le_core s')"
    "\<And>k. \<not> meets (ownerless (pr_alive pr (le_reads s))) (le_core s') k"
    "bk_ticks (le_core s) \<le> bk_ticks (le_core s')"
proof -
  let ?alive = "pr_alive pr (le_reads s)"
  have ok: "loc.broker_ok (le_core s)" using assms by (simp add: engine_ok_def)
  obtain b' where b': "sweep (pr_clock pr) (ownerless ?alive) (map fst (bk_entries (le_core s))) (le_core s) = (Inr (), b')"
    "ended {j. \<exists>k. meets (ownerless ?alive) (le_core s) k \<and> below (le_core s) k j} (le_core s) b'"
    "\<forall>k. \<not> meets (ownerless ?alive) b' k"
    by (rule loc.sweep_all [OF ok ownerless_live [of ?alive], of "pr_clock pr"]) simp
  let ?s = "s\<lparr>le_reads := le_reads s + 1, le_core := b'\<rparr>"
  have "reap_dead pr s = (Inr (), ?s)"
    using b'(1) by (simp add: reap_dead_def do_core_def reap_dead_sweep del: set_map)
  moreover have "moves s ?s" by (rule moves_ended [OF assms b'(2)]) simp_all
  moreover have ticks: "bk_ticks (le_core s) \<le> bk_ticks b'"
    using reap_dead_ticks [of "le_core s" "pr_clock pr" ?alive "map fst (bk_entries (le_core s))"] b'(1)
    by (simp add: reap_dead_sweep del: set_map)
  ultimately show thesis
    using b'(2,3) by (intro that [of ?s]) (simp_all add: ticks)
qed

section \<open>The host queue\<close>

lemma distinct_mset_sub:
  assumes "distinct xs" "mset ys \<subseteq># mset xs"
  shows "distinct ys"
proof -
  have "count (mset ys) a \<le> 1" for a
    using assms mset_subset_eq_count [OF assms(2), of a]
    by (metis distinct_count_atmost_1 le_trans order_refl zero_le_one)
  then show ?thesis
    unfolding distinct_count_atmost_1 by (metis One_nat_def le_Suc_eq le_zero_eq count_mset_0_iff)
qed

lemma running_ends_later:
  assumes "loc.broker_ok (le_core s)" "x \<in> set (running_ends s now)"
  shows "now < fst x \<and> distinct (map fst (cap_pools (snd x)))"
proof -
  obtain e g where e: "e \<in> set (br_entries (le_core s))" "en_grant e = Some g"
    "x = (max (now + overrun) (gr_granted_at g + js_expected_duration (en_spec e)), gr_amounts g)"
    using assms(2) by (auto simp: running_ends_def top_running_def map_filter_def)
  have "pools_ok (cap_pools (gr_amounts g))"
    using loc.grant_bounds(3) [OF assms(1) loc.entry_ids(2) [OF assms(1) e(1)] e(2)] .
  moreover have "0 < overrun" by (simp add: overrun_def)
  ultimately show ?thesis using e(3) by (simp add: pools_ok_def)
qed

lemma candidates_eligible:
  assumes "engine_ok s" "e \<in> set (host_candidates s)"
  shows "eligible s (js_group (en_spec e)) e" "e \<in> set (br_entries (le_core s))" "en_state e = Queued"
    "js_parent_lease (en_spec e) = None"
proof -
  have ok: "loc.broker_ok (le_core s)" using assms(1) by (simp add: engine_ok_def)
  show e: "e \<in> set (br_entries (le_core s))" "en_state e = Queued" "js_parent_lease (en_spec e) = None"
    using assms(2) by (auto simp: host_candidates_def Let_def split: if_splits)
  note found = loc.entry_ids(2) [OF ok e(1)]
  have "entry_fine s e" using assms(1) found by (auto simp: engine_ok_def dest: all_fineD)
  then show "eligible s (js_group (en_spec e)) e"
    using e loc_entry(2) [OF ok found] by (simp add: eligible_def entry_fine_def host_job_def is_live_def)
qed

lemma candidates_distinct:
  assumes "engine_ok s"
  shows "distinct (map (\<lambda>e. js_job_id (en_spec e)) (host_candidates s))"
proof -
  have ok: "loc.broker_ok (le_core s)" using assms by (simp add: engine_ok_def)
  have "distinct (map (\<lambda>e. js_job_id (en_spec e)) (br_entries (le_core s)))"
    using loc.broker_okD(1) [OF ok] by (simp only: loc.entry_ids(1) [OF ok])
  then show ?thesis
    unfolding host_candidates_def Let_def by (auto simp: distinct_map intro: inj_on_subset)
qed

lemma chosen_ready:
  assumes "engine_ok s" "mset (map fst cs) \<subseteq># mset (host_candidates s)"
  shows "ready (le_core s) cs"
proof -
  have ok: "loc.broker_ok (le_core s)" using assms(1) by (simp add: engine_ok_def)
  have ids: "map choice_id cs = map (\<lambda>e. js_job_id (en_spec e)) (map fst cs)" by (simp add: choice_id_def)
  have "mset (map choice_id cs) \<subseteq># mset (map (\<lambda>e. js_job_id (en_spec e)) (host_candidates s))"
    unfolding ids mset_map [of _ "map fst cs"] mset_map [of _ "host_candidates s"]
    using assms(2) by (rule image_mset_subseteq_mono)
  then have "distinct (map choice_id cs)"
    using distinct_mset_sub [OF candidates_distinct [OF assms(1)]] by blast
  moreover have "fst c \<in> set (host_candidates s)" if "c \<in> set cs" for c
    using that mset_subset_eqD [OF assms(2), of "fst c"] by auto
  ultimately show ?thesis
    using candidates_eligible [OF assms(1)] loc.entry_ids(2) [OF ok] by (auto simp: ready_def choice_id_def)
qed

lemma extra_bounds:
  assumes "distinct (map choice_id cs)" "c \<in> set cs" "\<forall>x\<in>set extra. extra_for (set cs) x"
    and "reservation_ok (js_reservation (en_spec (fst c)))"
  shows "lookup_extra extra c \<le>
      res_cpu_max (js_reservation (en_spec (fst c))) - res_cpu_min (js_reservation (en_spec (fst c))) + time_eps \<and>
    0 \<le> lookup_extra extra c"
proof (cases "map_of extra (choice_id c)")
  case None
  then show ?thesis
    using assms(4) eps_le_time_eps by (simp add: lookup_extra_def reservation_ok_def)
next
  case (Some x)
  then have "extra_for (set cs) (choice_id c, x)" using assms(3) map_of_SomeD by fastforce
  then obtain d where d: "d \<in> set cs" "choice_id d = choice_id c" "0 < x"
    "x \<le> res_cpu_max (js_reservation (en_spec (fst d))) - res_cpu_min (js_reservation (en_spec (fst d))) + time_eps"
    by (auto simp: extra_for_def)
  then have "d = c" using assms(1,2) by (auto simp: distinct_map inj_on_def)
  then show ?thesis using d Some by (simp add: lookup_extra_def)
qed

lemma admitted_starts:
  assumes "engine_ok s" "picked s free now pk" "mset (map fst (pk_chosen pk)) \<subseteq># mset (host_candidates s)"
    and "within_left free (le_core s)"
    and "extra = (if bk_brake (le_core s) = GREEN then flex (pk_engine pk) (pk_chosen pk) (pk_profile pk) else [])"
  shows "(loc.start_step (host_start (pk_engine pk)))\<^sup>*\<^sup>* (le_core s) (admit_chosen clk extra (pk_chosen pk) (le_core s))"
proof -
  let ?cs = "pk_chosen pk"
  have ok: "loc.broker_ok (le_core s)" using assms(1) by (simp add: engine_ok_def)
  have ready: "ready (le_core s) ?cs" by (rule chosen_ready [OF assms(1,3)])
  then have dist: "distinct (map choice_id ?cs)" by (simp add: ready_def)
  have packs: "packs eps 0 free (map chosen_need ?cs) (pk_profile pk)"
    and places: "\<forall>c\<in>set ?cs. place_ok (pk_engine pk) c \<and> fst (snd c) < length (pf_ends (pk_profile pk))"
    and policy: "le_policy (pk_engine pk) = le_policy s"
    using assms(2) by (simp_all add: picked_def steady_def)
  have res: "reservation_ok (js_reservation (en_spec (fst c)))" if "c \<in> set ?cs" for c
    using ready that loc_entry(2) [OF ok] by (auto simp: ready_def)
  have headroom: "0 \<le> pp_headroom_cpu (le_policy (pk_engine pk))"
    using assms(1) policy by (simp add: engine_ok_def)
  have idx: "\<forall>c\<in>set ?cs. fst (snd c) < length (pf_ends (pk_profile pk))" using places by blast
  note fl = flex_packs [OF packs headroom dist idx]
  have extra: "distinct (map fst extra)" "\<forall>x\<in>set extra. extra_for (set ?cs) x"
    "\<exists>p'. packs time_eps (sum_list (map snd extra)) free (map chosen_need ?cs) p'"
    using fl packs_weaken [OF packs] by (auto simp: assms(5))
  have bounds: "lookup_extra extra c \<le>
      res_cpu_max (js_reservation (en_spec (fst c))) - res_cpu_min (js_reservation (en_spec (fst c))) + time_eps \<and>
    0 \<le> lookup_extra extra c" if "c \<in> set ?cs" for c
    by (rule extra_bounds [OF dist that extra(2) res [OF that]])
  have "fst ` set extra \<subseteq> set (map choice_id ?cs)" using extra(2) by (auto simp: extra_for_def)
  then have "(\<Sum>c\<leftarrow>?cs. lookup_extra extra c) = sum_list (map snd extra)"
    using sum_of_lookups [OF dist extra(1)] by (simp add: lookup_extra_def o_def)
  then have "all_fit (le_core s) (map (handed extra) ?cs)"
    using extra(3) packed_fits [OF _ assms(4), of _ ?cs _ extra] bounds res need_on_ok
    by (auto simp: chosen_need_def)
  then show ?thesis
    by (rule admit_chosen_starts [OF ok ready]) (use places bounds in blast)
qed

end
