(* ===== verification/Br_Local_System.thy ===== *)
theory Br_Local_System
  imports Br_Local_Pump
begin

text \<open>
  The local engine as a system: \<open>engine_step\<close> is one call of any operation of the port or of the controls
  (of \<^verbatim>\<open>wait_grant\<close>: one round), with any probes and arguments. Every call keeps \<open>engine_ok\<close>, is for every
  account a sequence of ledger steps, and returns or raises one of the four errors of the port.
\<close>

section \<open>Composition of calls\<close>

definition broker_answer :: "broker_error \<Rightarrow> bool" where
  "broker_answer err \<longleftrightarrow> (case err of BrokerUnavailable _ \<Rightarrow> True | GrantRefused _ \<Rightarrow> True | LeaseLost _ \<Rightarrow> True
     | GrantTimeout _ \<Rightarrow> True | _ \<Rightarrow> False)"

lemma broker_answer_simps [simp]:
  "broker_answer (BrokerUnavailable m)" "broker_answer (GrantRefused m)" "broker_answer (LeaseLost m)"
  "broker_answer (GrantTimeout m)" "\<not> broker_answer (BadValue m)" "\<not> broker_answer (MissingKey m)"
  "\<not> broker_answer RecursionLimit" "\<not> broker_answer (NoItem m)"
  by (simp_all add: broker_answer_def)

definition port_result :: "broker_error + 'a \<Rightarrow> bool" where
  "port_result r \<longleftrightarrow> (case r of Inl err \<Rightarrow> broker_answer err | Inr _ \<Rightarrow> True)"

lemma port_result_simps [simp]: "port_result (Inl err) = broker_answer err" "port_result (Inr x)"
  by (simp_all add: port_result_def)

definition sane :: "local_engine \<Rightarrow> 'a le_outcome \<Rightarrow> bool" where
  "sane s out \<longleftrightarrow> port_result (fst out) \<and> moves s (snd out)"

lemma sane_Pair [simp]: "sane s (r, s') \<longleftrightarrow> port_result r \<and> moves s s'"
  by (simp add: sane_def)

lemma sane_and_do:
  assumes "sane s m" "\<And>x s1. m = (Inr x, s1) \<Longrightarrow> moves s s1 \<Longrightarrow> sane s1 (k x s1)"
  shows "sane s (and_do m k)"
proof (cases m)
  case (Pair r s1)
  show ?thesis
  proof (cases r)
    case (Inl err)
    then show ?thesis using assms(1) Pair by (simp add: and_do_def)
  next
    case (Inr x)
    then have "moves s s1" "sane s1 (k x s1)" using assms Pair by simp_all
    then show ?thesis using Pair Inr moves_trans by (auto simp: and_do_def sane_def)
  qed
qed

lemma sane_attempt:
  assumes "engine_ok s" "\<And>err. r = Inl err \<Longrightarrow> broker_answer err" "\<And>x. r = Inr x \<Longrightarrow> sane s (k x)"
  shows "sane s (attempt s r k)"
  using assms by (cases r) (simp_all add: attempt_def moves_refl)

lemma require_up_error: "le_require_up s = Inl err \<Longrightarrow> broker_answer err"
  by (auto simp: le_require_up_def split: if_splits)

lemma le_entry_error: "le_entry s h = Inl err \<Longrightarrow> broker_answer err"
  by (auto simp: le_entry_def split: option.splits if_splits)

section \<open>The pump\<close>

lemma moves_tick: "engine_ok s \<Longrightarrow> moves s (on_core (\<lambda>b. b\<lparr>bk_ticks := bk_ticks b + 1\<rparr>) s)"
  by (rule moves_cong) (simp_all add: on_core_def)

lemma moves_emit: "engine_ok s \<Longrightarrow> moves s (on_core (emit clk kind jid d) s)"
  by (rule moves_cong) (simp_all add: on_core_def)

lemma admit_hosts_run:
  assumes "engine_ok s"
  obtains b1 s' where "admit_hosts pr s = (Inr (), s')" "moves s s'" "bk_entries b1 = bk_entries (le_core s)"
    "bk_ticks (le_core s) \<le> bk_ticks (le_core s')"
    "(loc.start_step (host_start s'))\<^sup>*\<^sup>* b1 (le_core s')" "loc.broker_ok b1"
    "brake_int (bk_brake (le_core s)) \<ge> brake_int RED \<longrightarrow> s' = s"
proof (cases "brake_int (bk_brake (le_core s)) \<ge> brake_int RED \<or> host_candidates s = []")
  case True
  then show ?thesis
    using assms by (intro that [of s "le_core s"]) (auto simp: admit_hosts_def Let_def moves_refl engine_ok_def)
next
  case False
  have ok: "loc.broker_ok (le_core s)" using assms by (simp add: engine_ok_def)
  from ok show ?thesis
  proof (cases rule: host_free_cases [of s pr])
    case (failed exc s1)
    then show ?thesis
      using False ok moves_aside [OF assms failed(2)]
      by (intro that [of s1 "le_core s1"]) (auto simp: admit_hosts_def Let_def aside_def)
  next
    case (room free s1)
    let ?now = "pr_clock pr (bk_ticks (le_core s1))"
    define s2 where "s2 = on_core (\<lambda>b. b\<lparr>bk_ticks := bk_ticks b + 1\<rparr>) s1"
    have s2: "on_core (\<lambda>b. b\<lparr>bk_ticks := Suc (bk_ticks b)\<rparr>) s1 = s2" by (simp add: s2_def)
    have m2: "moves s s2"
      using moves_trans [OF moves_aside [OF assms room(2)] moves_tick [OF moves_ok [OF moves_aside [OF assms room(2)]]]]
      unfolding s2_def by blast
    have e2: "bk_entries (le_core s2) = bk_entries (le_core s)" "bk_budget (le_core s2) = bk_budget (le_core s)"
      "bk_brake (le_core s2) = bk_brake (le_core s)"
      using room(2) by (simp_all add: s2_def on_core_def aside_def)
    have ok2: "engine_ok s2" "loc.broker_ok (le_core s2)" using moves_ok [OF m2] by (simp_all add: engine_ok_def)
    have cand: "host_candidates s = host_candidates s2"
      using e2 by (simp add: host_candidates_def br_entries_def)
    have within: "within_left free (le_core s2)"
      using room(3) book_cong(1) [OF e2(1,2)] e2(2) by (simp add: within_left_def)
    have "\<forall>e\<in>set (host_candidates s2). eligible s2 (js_group (en_spec e)) e"
      using candidates_eligible(1) [OF ok2(1)] by blast
    moreover have "pins_ok s2" using ok2(1) by (simp add: engine_ok_def)
    moreover have "packs eps 0 free [] (new_profile free ?now (running_ends s2 ?now))"
      using running_ends_later [OF ok2(2)] by (rule packs_new)
    moreover have "pf_now (new_profile free ?now (running_ends s2 ?now)) = ?now" by (simp add: new_profile_def)
    ultimately obtain pk where pk: "pick_jobs (host_candidates s2) (new_profile free ?now (running_ends s2 ?now)) ?now s2 = Inr pk"
      "picked s2 free ?now pk" "mset (map fst (pk_chosen pk)) \<subseteq># mset (host_candidates s2)"
      by (rule pick_jobs_picked)
    let ?s3 = "pk_engine pk"
    define extra where "extra = (if bk_brake (le_core s2) = GREEN then flex ?s3 (pk_chosen pk) (pk_profile pk) else [])"
    define s4 where "s4 = on_core (admit_chosen (pr_clock pr) extra (pk_chosen pk)) ?s3"
    have st: "steady s2 ?s3" using pk(2) by (simp add: picked_def)
    then have core: "le_core ?s3 = le_core s2" by (simp add: steady_def)
    have hs: "host_start s4 = host_start ?s3"
      by (simp add: s4_def on_core_def host_start_def pinned_def fun_eq_iff)
    have starts: "(loc.start_step (host_start s4))\<^sup>*\<^sup>* (le_core s2) (le_core s4)"
      using admitted_starts [OF ok2(1) pk(2,3) within extra_def] unfolding hs by (simp add: s4_def on_core_def core)
    have "steady s2 (s4\<lparr>le_core := le_core s2\<rparr>)"
      using st by (auto simp: steady_def s4_def on_core_def pinned_def pins_ok_def)
    then have "moves s2 s4" by (rule moves_starts [OF ok2(1) starts]) simp
    moreover have "admit_hosts pr s = (Inr (), s4)"
      using False room(1) pk(1)
      by (simp add: admit_hosts_def Let_def cand s2 attempt_def s4_def extra_def core)
    moreover have "bk_ticks (le_core s) \<le> bk_ticks (le_core s4)"
      using admit_chosen_ticks [of "le_core s2" "pr_clock pr" extra "pk_chosen pk"] room(2)
      by (simp add: s4_def s2_def on_core_def core [unfolded s2_def on_core_def] aside_def)
    ultimately show ?thesis
      using False e2(1) starts ok2(2) moves_trans [OF m2] by (intro that [of s4 "le_core s2"]) auto
  qed
qed

lemma map_of_filter_pair:
  "map_of (filter (\<lambda>(k, g). P k) gs) k = (if P k then map_of gs k else None)"
  by (induction gs) auto

lemma drop_groups_moves:
  assumes "engine_ok s"
  shows "moves s (drop_groups s)"
proof -
  let ?s = "drop_groups s"
  have core: "le_core ?s = le_core s" "le_roots ?s = le_roots s" "le_policy ?s = le_policy s"
    by (simp_all add: drop_groups_def)
  have groups: "map_of (le_groups ?s) grp = (if group_live s grp then map_of (le_groups s) grp else None)" for grp
    by (simp add: drop_groups_def map_of_filter_pair)
  then have pins: "pinned ?s grp = (if group_live s grp then pinned s grp else None)" for grp
    by (simp add: pinned_def)
  have ok: "loc.broker_ok (le_core s)" using assms by (simp add: engine_ok_def)
  have live: "group_live s (js_group (en_spec e))"
    if "find_entry (le_core s) k = Some e" "host_job e" "is_live (en_state e)" for k e
  proof -
    have "e \<in> set (br_entries (le_core s))"
      using that(1) find_entry_set [OF loc.broker_okD(1) [OF ok]] by (force simp: br_entries_def)
    then show ?thesis using that(2,3) by (auto simp: group_live_def list_ex_iff host_job_def)
  qed
  have "entry_fine ?s e" if e: "find_entry (le_core s) k = Some e" for k e
  proof -
    have "entry_fine s e" using assms e by (auto simp: engine_ok_def dest: all_fineD)
    then show ?thesis
      using live [OF e] groups pins core by (auto simp: entry_fine_def rooted_def is_live_def)
  qed
  then show ?thesis
    using assms core pins by (simp add: moves_def engine_ok_def all_fine_def pins_ok_def)
qed

text \<open>
  What a pass leaves: nobody live is owned by a dead process, and under the brake at RED no top-level
  job runs that did not run before.
\<close>

definition pumped :: "probes \<Rightarrow> local_engine \<Rightarrow> local_engine \<Rightarrow> bool" where
  "pumped pr s s' \<longleftrightarrow> moves s s' \<and> bk_ticks (le_core s) \<le> bk_ticks (le_core s') \<and>
     (\<forall>k e. find_entry (le_core s') k = Some e \<longrightarrow> is_live (en_state e) \<longrightarrow>
       pr_alive pr (le_reads s) (js_owner (en_spec e))) \<and>
     (brake_int (bk_brake (le_core s)) \<ge> brake_int RED \<longrightarrow> (\<forall>k e. find_entry (le_core s') k = Some e \<longrightarrow>
       host_job e \<longrightarrow> en_state e = Running \<longrightarrow>
       (\<exists>e0. find_entry (le_core s) k = Some e0 \<and> en_state e0 = Running)))"

lemma nothing_meets: "(\<forall>k. \<not> meets P b k) \<longleftrightarrow> (\<forall>k e. find_entry b k = Some e \<longrightarrow> \<not> P e)"
  by (simp add: meets_def split: option.split)

lemma starts_owners:
  assumes "(loc.start_step Q)\<^sup>*\<^sup>* b b'" "loc.broker_ok b"
    and "\<forall>k. \<not> meets (ownerless alive) b k"
  shows "\<forall>k. \<not> meets (ownerless alive) b' k"
  unfolding nothing_meets
proof (intro allI impI)
  fix k e' assume e': "find_entry b' k = Some e'"
  obtain e where e: "find_entry b k = Some e" "loc.moved Q e e'"
    using loc.starts_back [OF assms(1,2) e'] .
  then have "\<not> ownerless alive e" using assms(3) unfolding nothing_meets by blast
  then show "\<not> ownerless alive e'"
    using loc.moved_simps(1,5) [OF e(2)] by (simp add: ownerless_def)
qed

lemma meets_cong: "bk_entries b' = bk_entries b \<Longrightarrow> meets P b' = meets P b"
  by (simp add: meets_def find_entry_cong [of b' b] fun_eq_iff)

lemma le_pump_run:
  assumes "engine_ok s"
  obtains s' where "le_pump pr s = (Inr (), s')" "pumped pr s s'"
proof -
  let ?alive = "pr_alive pr (le_reads s)"
  obtain s1 where s1: "reap_dead pr s = (Inr (), s1)" "moves s s1"
    "ended {j. \<exists>k. meets (ownerless ?alive) (le_core s) k \<and> below (le_core s) k j} (le_core s) (le_core s1)"
    "\<forall>k. \<not> meets (ownerless ?alive) (le_core s1) k" "bk_ticks (le_core s) \<le> bk_ticks (le_core s1)"
    by (rule reap_dead_run [OF assms, of pr]) simp
  have ok1: "engine_ok s1" using moves_ok [OF s1(2)] .
  then have b1: "loc.broker_ok (le_core s1)" "grants_rooted s1 (le_core s1)"
    using all_fine_rooted by (auto simp: engine_ok_def)
  obtain b2 where b2: "serve_nested pr s1 = (Inr (), s1\<lparr>le_core := b2\<rparr>)"
    "(loc.start_step (nested_start s1))\<^sup>*\<^sup>* (le_core s1) b2"
    using serve_nested_starts [OF b1, of pr] .
  let ?s2 = "s1\<lparr>le_core := b2\<rparr>"
  have m2: "moves s1 ?s2"
    by (rule moves_starts [OF ok1, of "nested_start s1"])
      (use b2(2) ok1 in \<open>simp_all add: steady_def engine_ok_def nested_start_def rooted_def pinned_def pins_ok_def\<close>)
  have ok2: "engine_ok ?s2" "loc.broker_ok b2" using moves_ok [OF m2] by (simp_all add: engine_ok_def)
  obtain b3 s4 where s4: "admit_hosts pr ?s2 = (Inr (), s4)" "moves ?s2 s4"
    "bk_entries b3 = bk_entries (le_core ?s2)" "bk_ticks (le_core ?s2) \<le> bk_ticks (le_core s4)"
    "(loc.start_step (host_start s4))\<^sup>*\<^sup>* b3 (le_core s4)"
    "loc.broker_ok b3" "brake_int (bk_brake (le_core ?s2)) \<ge> brake_int RED \<longrightarrow> s4 = ?s2"
    by (rule admit_hosts_run [OF ok2(1), of pr]) (rule that)
  have m4: "moves s s4" using s1(2) m2 s4(2) moves_trans by blast
  have m5: "moves s (drop_groups s4)" using moves_trans [OF m4 drop_groups_moves [OF moves_ok [OF m4]]] .
  have core: "le_core (drop_groups s4) = le_core s4" by (simp add: drop_groups_def)
  have "\<forall>k. \<not> meets (ownerless ?alive) b3 k"
    using starts_owners [OF b2(2) b1(1) s1(4)] meets_cong [OF s4(3)] by simp
  then have owned: "\<forall>k. \<not> meets (ownerless ?alive) (le_core s4) k"
    by (rule starts_owners [OF s4(5,6)])
  have braked: "\<exists>e0. find_entry (le_core s) k = Some e0 \<and> en_state e0 = Running"
    if "brake_int (bk_brake (le_core s)) \<ge> brake_int RED" "find_entry (le_core s4) k = Some e"
      "host_job e" "en_state e = Running" for k e
  proof -
    have "bk_brake b2 = bk_brake (le_core s)"
      using loc.starts_sound(3) [OF b2(2) b1(1)] s1(3) by (simp add: ended_def same_frame_def)
    then have "find_entry b2 k = Some e" using s4(7) that(1,2) by simp
    then obtain e1 where e1: "find_entry (le_core s1) k = Some e1" "loc.moved (nested_start s1) e1 e"
      using loc.starts_back [OF b2(2) b1(1)] by metis
    then have "e1 = e" using that(3) by (auto simp: loc.moved_def nested_start_def host_job_def)
    then obtain e0 st where "find_entry (le_core s) k = Some e0" "e = e0\<lparr>en_state := st\<rparr>"
      "entry_ended {j. \<exists>k. meets (ownerless ?alive) (le_core s) k \<and> below (le_core s) k j} (le_core s1) k e0 st"
      using ended_back [OF s1(3)] e1(1) by metis
    then show ?thesis using that(4) by (auto simp: entry_ended_def is_live_def)
  qed
  have "bk_ticks (le_core s1) \<le> bk_ticks b2"
    using serve_from_ticks [of "le_core s1" "pr_clock pr" s1 "map fst (bk_entries (le_core s1))"] b2(1)
    by (auto simp: serve_nested_def do_core_def split: prod.splits dest: arg_cong [where f = le_core])
  then have ticks: "bk_ticks (le_core s) \<le> bk_ticks (le_core s4)" using s1(5) s4(4) by simp
  have "le_pump pr s = (Inr (), drop_groups s4)"
    using s1(1) b2(1) s4(1) by (simp add: le_pump_def and_do_def)
  then show thesis
    using m5 owned braked ticks unfolding nothing_meets
    by (intro that [of "drop_groups s4"]) (auto simp: ownerless_def core pumped_def)
qed

end
