(* ===== verification/Br_Local_Calls.thy ===== *)
theory Br_Local_Calls
  imports Br_Local_System
begin

text \<open>
  The calls of the local engine, one by one, and its runs. The interpretation \<open>loc_port\<close> gives it the
  capacity contract of the broker port that the in-memory engine has, with the tolerance \<^verbatim>\<open>_EPS\<close>.
\<close>

lemma pump_sane: "engine_ok s \<Longrightarrow> sane s (le_pump pr s)"
  by (rule le_pump_run [of s pr]) (simp_all add: pumped_def)

lemma end_moves:
  assumes "engine_ok s" "le_find s k = Some e" "is_live (en_state e)" "\<not> is_live st"
  obtains s' where "do_core (end_entry clk k st kind d) s = (Inr (), s')" "moves s s'"
proof -
  have ok: "loc.broker_ok (le_core s)" using assms(1) by (simp add: engine_ok_def)
  obtain b' where b': "end_entry clk k st kind d (le_core s) = (Inr (), b')" "ended {j. below (le_core s) k j} (le_core s) b'"
    using loc.end_entry_ends [OF ok assms(2) [unfolded le_find_def] assms(3,4)] by metis
  have "moves s (s\<lparr>le_core := b'\<rparr>)" by (rule moves_ended [OF assms(1) b'(2)]) simp_all
  then show thesis using b'(1) by (intro that) (simp add: do_core_def)
qed

lemma end_sane:
  assumes "engine_ok s" "le_find s k = Some e" "is_live (en_state e)" "\<not> is_live st"
  shows "sane s (do_core (end_entry clk k st kind d) s)"
  by (rule end_moves [OF assms, of clk kind d]) simp

lemma le_entryD: "le_entry s h = Inr e \<Longrightarrow> le_find s (jh_job_id h) = Some e"
  by (auto simp: le_entry_def split: option.splits if_splits)

lemma sane_up:
  "engine_ok s \<Longrightarrow> (\<And>u. sane s (k u)) \<Longrightarrow> sane s (attempt s (le_require_up s) k)"
  by (rule sane_attempt) (simp_all add: require_up_error)

lemma sane_found:
  "engine_ok s \<Longrightarrow> (\<And>e. le_entry s h = Inr e \<Longrightarrow> sane s (k e)) \<Longrightarrow> sane s (attempt s (le_entry s h) k)"
  by (rule sane_attempt) (simp_all add: le_entry_error)

section \<open>Submit\<close>

lemma le_check_nested_cases:
  assumes "engine_ok s" "le_check_nested s job = r"
  shows "port_result r" "r = Inr () \<Longrightarrow>
    \<exists>ep. lease_parent (le_core s) job = Inr ep \<and> en_state ep = Running \<and> en_grant ep \<noteq> None"
proof -
  have ok: "loc.broker_ok (le_core s)" "grants_rooted s (le_core s)"
    using assms(1) all_fine_rooted by (auto simp: engine_ok_def)
  show "port_result r"
  proof (cases "lease_parent (le_core s) job")
    case (Inl err)
    then show ?thesis
      using assms(2) by (auto simp: le_check_nested_def lease_parent_def split: option.splits)
  next
    case (Inr ep)
    then have "ep \<in> set (br_entries (le_core s))"
      by (auto simp: lease_parent_def find_Some_iff split: option.splits)
    then obtain rt where "root_of s ep = Inr rt"
      using root_of_found [OF ok(2) loc.entry_ids(2) [OF ok(1)]] by metis
    then show ?thesis
      using assms(2) Inr by (auto simp: le_check_nested_def split: option.splits)
  qed
  show "\<exists>ep. lease_parent (le_core s) job = Inr ep \<and> en_state ep = Running \<and> en_grant ep \<noteq> None"
    if "r = Inr ()"
    using that assms(2)
    by (cases "lease_parent (le_core s) job") (auto simp: le_check_nested_def split: option.splits if_splits)
qed

lemma admission_check_cases:
  assumes "engine_ok s" "admission_check pr job s = (r, s1)"
  shows "port_result r" "aside s s1" "r = Inr () \<Longrightarrow> js_parent_lease job \<noteq> None \<Longrightarrow>
    \<exists>ep. lease_parent (le_core s) job = Inr ep \<and> en_state ep = Running \<and> en_grant ep \<noteq> None"
proof -
  have budget: "check_budget s job = Inl err \<Longrightarrow> broker_answer err" for err
    by (auto simp: check_budget_def split: if_splits)
  have "port_result r \<and> aside s s1"
  proof (cases "js_parent_lease job")
    case (Some l)
    then show ?thesis
      using assms(2) le_check_nested_cases(1) [OF assms(1) refl, of job] by (auto simp: admission_check_def aside_def)
  next
    case None
    show ?thesis
    proof (cases "check_budget s job")
      case (Inl err)
      then have "r = Inl err \<and> s1 = s"
        using None assms(2) by (simp add: admission_check_def attempt_def)
      then show ?thesis using budget [OF Inl] by (simp add: aside_def)
    next
      case (Inr u)
      then have "and_do (probe pr s) (\<lambda>_ s1. (Inr (), s1)) = (r, s1)"
        using None assms(2) by (simp add: admission_check_def attempt_def)
      then show ?thesis
        by (cases rule: probe_cases [of pr s]) (auto simp: and_do_def)
    qed
  qed
  then show "port_result r" "aside s s1" by blast+
  show "r = Inr () \<Longrightarrow> js_parent_lease job \<noteq> None \<Longrightarrow>
    \<exists>ep. lease_parent (le_core s) job = Inr ep \<and> en_state ep = Running \<and> en_grant ep \<noteq> None"
    using assms(2) le_check_nested_cases(2) [OF assms(1), of job r] by (auto simp: admission_check_def)
qed

text \<open>The state after the job is queued and its group is known.\<close>

definition queued_state :: "probes \<Rightarrow> job_spec \<Rightarrow> broker \<Rightarrow> local_engine \<Rightarrow> local_engine" where
  "queued_state pr job b1 s = (if js_parent_lease job = None then new_group pr (js_group job) (s\<lparr>le_core := b1\<rparr>)
     else s\<lparr>le_core := b1\<rparr>)"

lemma queued_state_frame:
  "bk_entries (le_core (queued_state pr job b1 s)) = bk_entries b1"
  "bk_budget (le_core (queued_state pr job b1 s)) = bk_budget b1"
  "bk_arrivals (le_core (queued_state pr job b1 s)) = bk_arrivals b1"
  "bk_available (le_core (queued_state pr job b1 s)) = bk_available b1"
  "le_roots (queued_state pr job b1 s) = le_roots s" "le_policy (queued_state pr job b1 s) = le_policy s"
  by (simp_all add: queued_state_def new_group_def on_core_def)

lemma queued_state_groups:
  "map_of (le_groups s) grp \<noteq> None \<Longrightarrow> map_of (le_groups (queued_state pr job b1 s)) grp \<noteq> None"
  "js_parent_lease job = None \<Longrightarrow> map_of (le_groups (queued_state pr job b1 s)) (js_group job) \<noteq> None"
  "pinned (queued_state pr job b1 s) = pinned s"
  by (auto simp: queued_state_def new_group_def on_core_def pinned_def update_conv' fun_eq_iff split: option.split)

lemma entry_fine_kept:
  assumes "entry_fine s e" "le_roots s' = le_roots s" "pinned s' = pinned s"
    and "\<And>grp. map_of (le_groups s) grp \<noteq> None \<Longrightarrow> map_of (le_groups s') grp \<noteq> None"
  shows "entry_fine s' e"
  using assms unfolding entry_fine_def rooted_def by metis

lemma with_child_fine: "entry_fine s (with_child a k j e) = entry_fine s e"
  by (simp add: entry_fine_def host_job_def)

lemma queued_moves:
  assumes "engine_ok s" "find_entry (le_core s) (js_job_id job) = None" "reservation_ok (js_reservation job)"
    and "js_parent_lease job = None \<Longrightarrow> 0 < js_expected_duration job"
    and "enrolled local_name job a (le_core s) b1" "loc.account_open job a (le_core s)"
  shows "moves s (queued_state pr job b1 s)"
proof -
  let ?s = "queued_state pr job b1 s"
  have ok: "loc.broker_ok (le_core s)" using assms(1) by (simp add: engine_ok_def)
  have "loc.broker_ok b1" using loc.enrolled_ok [OF ok assms(5,2,3,6)] .
  then have ok': "loc.broker_ok (le_core ?s)"
    by (rule loc.broker_ok_cong [rotated 2]) (simp_all add: queued_state_frame)
  have find': "find_entry (le_core ?s) = find_entry b1" by (rule find_entry_cong) (simp add: queued_state_frame)
  have "entry_fine ?s f" if f: "find_entry b1 j = Some f" for j f
    using assms(5) f
  proof (cases rule: enrolled_back)
    case new
    then show ?thesis
      using assms(4) queued_state_groups(2) [of job pr b1 s] by (auto simp: entry_fine_def host_job_def)
  next
    case (old e)
    have "entry_fine s e" using assms(1) old(1) by (auto simp: engine_ok_def dest: all_fineD)
    then show ?thesis
      unfolding old(2) with_child_fine
      by (rule entry_fine_kept) (simp_all add: queued_state_frame queued_state_groups)
  qed
  moreover have "refines time_eps (le_core s) (le_core ?s)"
    using loc.enrolled_refines [OF ok assms(5,2,3,6)] refines_cong(1) [of "le_core ?s" b1]
    by (rule refines_trans) (simp_all add: queued_state_frame)
  ultimately show ?thesis
    using assms(1) ok' enrolledD(3,4) [OF assms(5)] enrolled_find [OF assms(5,2)]
    by (auto simp: moves_def engine_ok_def all_fine_def find' queued_state_frame pins_ok_def queued_state_groups)
qed

lemma le_submit_sane:
  assumes "engine_ok s" "reservation_ok (js_reservation job)"
    and "js_parent_lease job = None \<Longrightarrow> 0 < js_expected_duration job"
  shows "sane s (le_submit pr job s)"
  unfolding le_submit_def
proof (rule sane_up [OF assms(1)])
  fix u
  let ?run = "case le_find s (js_job_id job) of Some existing \<Rightarrow> (Inr (en_handle existing), s)
    | None \<Rightarrow> and_do (admission_check pr job s) (\<lambda>_ s1.
         and_do (do_core (\<lambda>b. adopt_child job (enqueue local_name job b)) s1) (\<lambda>_ s2.
           let s3 = (if js_parent_lease job = None then new_group pr (js_group job) s2 else s2);
               s4 = on_core (emit (pr_clock pr) SUBMITTED (Some (js_job_id job)) [(''group'', DStr (js_group job))]) s3
           in and_do (le_pump pr s4) (\<lambda>_ s5. (Inr (new_handle local_name (bk_arrivals (le_core s) + 1) job), s5))))"
  show "sane s ?run"
  proof (cases "le_find s (js_job_id job)")
    case (Some e)
    then show ?thesis using assms(1) by (simp add: moves_refl)
  next
    case None
    have "sane s (admission_check pr job s)"
      using admission_check_cases(1,2) [OF assms(1), of pr job] moves_aside [OF assms(1)]
      by (cases "admission_check pr job s") (simp add: sane_def)
    then show ?thesis
      unfolding None option.case
    proof (rule sane_and_do)
      fix x s1 assume chk: "admission_check pr job s = (Inr x, s1)" and m1: "moves s s1"
      note adm = admission_check_cases(2,3) [OF assms(1) chk]
      have core: "le_core s1 = le_core s" using adm(1) by (simp add: aside_def)
      have ok1: "engine_ok s1" "loc.broker_ok (le_core s1)" using moves_ok [OF m1] by (simp_all add: engine_ok_def)
      have none1: "find_entry (le_core s1) (js_job_id job) = None" using None core by (simp add: le_find_def)
      obtain a b1 where b1: "adopt_child job (enqueue local_name job (le_core s1)) = (Inr (), b1)"
        "enrolled local_name job a (le_core s1) b1" "loc.account_open job a (le_core s1)"
        by (rule loc.adopt_enrols [OF ok1(2) none1]) (use adm(2) core in simp)
      let ?s3 = "queued_state pr job b1 s1"
      let ?s4 = "on_core (emit (pr_clock pr) SUBMITTED (Some (js_job_id job)) [(''group'', DStr (js_group job))]) ?s3"
      have m3: "moves s1 ?s3" by (rule queued_moves [OF ok1(1) none1 assms(2,3) b1(2,3)])
      have m4: "moves s1 ?s4" using moves_trans [OF m3 moves_emit [OF moves_ok [OF m3]]] .
      have "sane ?s4 (and_do (le_pump pr ?s4) (\<lambda>_ s5. (Inr (new_handle local_name (bk_arrivals (le_core s) + 1) job), s5)))"
        by (rule sane_and_do [OF pump_sane [OF moves_ok [OF m4]]]) (simp add: moves_refl moves_ok)
      then have "sane s1 (and_do (le_pump pr ?s4) (\<lambda>_ s5. (Inr (new_handle local_name (bk_arrivals (le_core s) + 1) job), s5)))"
        using m4 moves_trans by (auto simp: sane_def)
      then show "sane s1 (and_do (do_core (\<lambda>b. adopt_child job (enqueue local_name job b)) s1) (\<lambda>_ s2.
           let s3 = (if js_parent_lease job = None then new_group pr (js_group job) s2 else s2);
               s4 = on_core (emit (pr_clock pr) SUBMITTED (Some (js_job_id job)) [(''group'', DStr (js_group job))]) s3
           in and_do (le_pump pr s4) (\<lambda>_ s5. (Inr (new_handle local_name (bk_arrivals (le_core s) + 1) job), s5))))"
        by (simp add: do_core_def b1(1) and_do_def [of "(Inr (), _)"] Let_def queued_state_def)
    qed
  qed
qed

section \<open>The other calls\<close>

lemma read_clock_moves: "engine_ok s \<Longrightarrow> moves s (snd (le_read_clock pr s))"
  unfolding le_read_clock_def snd_conv by (rule moves_tick)

lemma wait_verdict_sane:
  assumes "engine_ok s" "le_find s (jh_job_id h) = Some e"
  shows "sane s (wait_verdict pr h deadline e s)"
proof -
  have late: "sane s (case deadline of None \<Rightarrow> (Inr None, s)
      | Some d \<Rightarrow> (case le_read_clock pr s of (now, s1) \<Rightarrow>
          if d - now \<le> 0 then (Inl (GrantTimeout (jh_job_id h @ '': still queued'')), s1) else (Inr None, s1)))"
    using read_clock_moves [OF assms(1), of pr] moves_refl [OF assms(1)] by (auto split: option.splits prod.splits)
  have gone: "sane s (and_do (do_core (end_entry (pr_clock pr) (jh_job_id h) Cancelled CANCELLED
      [(''reason'', DStr ''broker unavailable'')]) s)
      (\<lambda>_ s1. (Inl (BrokerUnavailable (jh_job_id h @ '': availability probe failed: '' @ exc)), s1)))"
    if "en_state e = Queued" for exc
    by (rule sane_and_do [OF end_sane [OF assms]]) (use that in \<open>simp_all add: is_live_def moves_refl moves_ok\<close>)
  show ?thesis
    using late gone moves_refl [OF assms(1)] unfolding wait_verdict_def
    by (cases "le_probe_error s") auto
qed

lemma wait_round_sane:
  assumes "engine_ok s"
  shows "sane s (wait_round pr h deadline s)"
  unfolding wait_round_def
proof (rule sane_up [OF assms], rule sane_found [OF assms],
    rule sane_and_do [OF pump_sane [OF assms]])
  fix e x s1 assume e: "le_entry s h = Inr e" and m: "moves s s1"
  then obtain e1 where "le_find s1 (jh_job_id h) = Some e1"
    using le_entryD [OF e] by (force simp: moves_def le_find_def)
  then show "sane s1 (case le_find s1 (jh_job_id h) of None \<Rightarrow> (Inl (MissingKey (jh_job_id h)), s1)
     | Some e \<Rightarrow> wait_verdict pr h deadline e s1)"
    using wait_verdict_sane [OF moves_ok [OF m]] by simp
qed

lemma end_pump_sane:
  assumes "engine_ok s" "le_find s k = Some e" "is_live (en_state e)" "\<not> is_live st"
  shows "sane s (and_do (do_core (end_entry clk k st kind d) s) (\<lambda>_ s1. le_pump pr s1))"
  by (rule sane_and_do [OF end_sane [OF assms]]) (rule pump_sane, erule moves_ok)

lemma le_report_sane:
  assumes "engine_ok s"
  shows "sane s (le_report pr h oc s)"
  unfolding le_report_def
proof (rule sane_up [OF assms], rule sane_found [OF assms])
  fix e assume e: "le_entry s h = Inr e"
  show "sane s (if en_state e = Finished then (Inr (), s)
     else if en_state e \<noteq> Running then (Inl (LeaseLost (lost_message h e)), s)
     else and_do (do_core (end_entry (pr_clock pr) (jh_job_id h) Finished FINISHED
         [(''exit_code'', DInt (oc_exit_code oc))]) s) (\<lambda>_ s1. le_pump pr s1))"
    using end_pump_sane [OF assms le_entryD [OF e], of Finished] moves_refl [OF assms]
    by (simp add: is_live_def)
qed

lemma le_cancel_sane:
  assumes "engine_ok s"
  shows "sane s (le_cancel pr h reason s)"
  unfolding le_cancel_def
proof (rule sane_up [OF assms])
  show "sane s (case le_find s (jh_job_id h) of None \<Rightarrow> (Inr (), s)
     | Some e \<Rightarrow> (if \<not> is_live (en_state e) then (Inr (), s)
          else and_do (do_core (end_entry (pr_clock pr) (jh_job_id h) Cancelled CANCELLED
              [(''reason'', DStr reason)]) s) (\<lambda>_ s1. le_pump pr s1)))"
    using end_pump_sane [OF assms, of "jh_job_id h" _ Cancelled] moves_refl [OF assms]
    by (auto simp: is_live_def split: option.split)
qed

lemma le_status_sane:
  assumes "engine_ok s"
  shows "sane s (le_status pr s)"
  unfolding le_status_def
proof (rule sane_up [OF assms], rule sane_and_do)
  show "sane s (probe pr s)"
    by (cases rule: probe_cases [of pr s]) (auto intro: moves_aside [OF assms])
  fix x s1 assume m1: "moves s s1"
  show "sane s1 (and_do (le_pump pr s1) (\<lambda>_ s2. case measure_roots pr s2 of (free, s3) \<Rightarrow>
       let b = le_core s3 in (Inr \<lparr>bs_backend = local_name, bs_budget = bk_budget b, bs_in_use = in_use b,
         bs_queued = count_list (map en_state (br_entries b)) Queued,
         bs_running = count_list (map en_state (br_entries b)) Running,
         bs_brake = bk_brake b, bs_signals = signals_of free s3\<rparr>, s3)))"
  proof (rule sane_and_do [OF pump_sane [OF moves_ok [OF m1]]])
    fix y s2 assume "moves s1 s2"
    then have "engine_ok s2" by (rule moves_ok)
    moreover have "aside s2 (snd (measure_roots pr s2))"
      by (simp add: measure_roots_def aside_def split: option.split)
    ultimately have "moves s2 (snd (measure_roots pr s2))" by (rule moves_aside)
    then show "sane s2 (case measure_roots pr s2 of (free, s3) \<Rightarrow>
       let b = le_core s3 in (Inr \<lparr>bs_backend = local_name, bs_budget = bk_budget b, bs_in_use = in_use b,
         bs_queued = count_list (map en_state (br_entries b)) Queued,
         bs_running = count_list (map en_state (br_entries b)) Running,
         bs_brake = bk_brake b, bs_signals = signals_of free s3\<rparr>, s3))"
      by (simp add: case_prod_unfold Let_def)
  qed
qed

lemma le_set_brake_sane:
  assumes "engine_ok s"
  shows "sane s (le_set_brake pr level reason s)"
proof -
  let ?s = "on_core (\<lambda>b. emit (pr_clock pr) BRAKED None
     [(''level'', DInt (int (brake_int level))), (''reason'', DStr reason)] (b\<lparr>bk_brake := level\<rparr>)) s"
  have m: "moves s ?s" by (rule moves_cong [OF assms]) (simp_all add: on_core_def)
  then show ?thesis
    using pump_sane [OF moves_ok [OF m], of pr] moves_trans by (auto simp: le_set_brake_def sane_def)
qed

section \<open>Runs\<close>

inductive engine_step :: "local_engine \<Rightarrow> local_engine \<Rightarrow> bool" where
  submit: "reservation_ok (js_reservation job) \<Longrightarrow> (js_parent_lease job = None \<longrightarrow> 0 < js_expected_duration job) \<Longrightarrow>
    le_submit pr job s = (r, s') \<Longrightarrow> engine_step s s'"
| deadline: "le_read_clock pr s = (now, s') \<Longrightarrow> engine_step s s'"
| wait: "wait_round pr h until s = (r1, s') \<Longrightarrow> engine_step s s'"
| report: "le_report pr h oc s = (r2, s') \<Longrightarrow> engine_step s s'"
| cancel: "le_cancel pr h reason s = (r2, s') \<Longrightarrow> engine_step s s'"
| status: "le_status pr s = (r3, s') \<Longrightarrow> engine_step s s'"
| brake: "le_set_brake pr level reason s = (r2, s') \<Longrightarrow> engine_step s s'"
| reap: "le_reap pr s = (r2, s') \<Longrightarrow> engine_step s s'"
| availability: "engine_step s (le_set_available up s)"

inductive_cases engine_stepE: "engine_step s s'"

lemma sane_moves: "sane s out \<Longrightarrow> out = (r, s') \<Longrightarrow> moves s s'"
  by simp

lemma availability_ok:
  assumes "engine_ok s"
  shows "engine_ok (le_set_available up s)" "refines time_eps (le_core s) (le_core (le_set_available up s))"
    "bk_budget (le_core (le_set_available up s)) = bk_budget (le_core s)"
proof -
  let ?b = "le_core (le_set_available up s)"
  have eq: "bk_entries ?b = bk_entries (le_core s)" "bk_budget ?b = bk_budget (le_core s)"
    "bk_arrivals ?b = bk_arrivals (le_core s)" "le_groups (le_set_available up s) = le_groups s"
    "le_roots (le_set_available up s) = le_roots s" "le_policy (le_set_available up s) = le_policy s"
    by (simp_all add: le_set_available_def on_core_def set_available_def)
  have "find_entry ?b = find_entry (le_core s)" by (rule find_entry_cong) (rule eq(1))
  then show "engine_ok (le_set_available up s)"
    using assms loc.broker_ok_cong [OF eq(1,3)] entry_fine_cong [OF eq(4,5)] eq(6)
    by (simp add: engine_ok_def all_fine_def)
  show "refines time_eps (le_core s) ?b" by (rule refines_cong(1) [OF eq(1,2)])
  show "bk_budget ?b = bk_budget (le_core s)" by (rule eq(2))
qed

lemma engine_step_moves:
  assumes "engine_step s s'" "engine_ok s"
  shows "moves s s' \<or> (\<exists>up. s' = le_set_available up s)"
  using assms(1)
proof cases
    case submit
    then show ?thesis using sane_moves [OF le_submit_sane [OF assms(2)]] by metis
  next
    case deadline
    then show ?thesis using read_clock_moves [OF assms(2)] by (metis snd_conv)
  next
    case wait
    then show ?thesis using sane_moves [OF wait_round_sane [OF assms(2)]] by blast
  next
    case report
    then show ?thesis using sane_moves [OF le_report_sane [OF assms(2)]] by blast
  next
    case cancel
    then show ?thesis using sane_moves [OF le_cancel_sane [OF assms(2)]] by blast
  next
    case status
    then show ?thesis using sane_moves [OF le_status_sane [OF assms(2)]] by blast
  next
    case brake
    then show ?thesis using sane_moves [OF le_set_brake_sane [OF assms(2)]] by blast
  next
    case reap
    then show ?thesis using sane_moves [OF pump_sane [OF assms(2)]] unfolding le_reap_def by blast
  next
    case availability
    then show ?thesis by blast
qed

lemma engine_step_good:
  assumes "engine_step s s'" "engine_ok s"
  shows "engine_ok s' \<and> refines time_eps (le_core s) (le_core s') \<and> bk_budget (le_core s') = bk_budget (le_core s)"
  using engine_step_moves [OF assms] availability_ok [OF assms(2)] by (auto simp: moves_def)

lemma engine_step_roots: "engine_step s s' \<Longrightarrow> engine_ok s \<Longrightarrow> le_roots s' = le_roots s"
  using engine_step_moves by (fastforce simp: moves_def le_set_available_def on_core_def)

interpretation loc_port: broker_port time_eps local_name "''local-lease-''" loc_sized le_core engine_ok engine_step
  by unfold_locales (use engine_step_good in \<open>auto simp: engine_ok_def\<close>)

text \<open>A fresh engine.\<close>

lemma root_pools_ok:
  "pools_ok ps \<Longrightarrow> \<forall>r\<in>set rs. 0 \<le> er_max_bytes r \<Longrightarrow>
    pools_ok (foldl (\<lambda>ps r. AList.update (root_pool r) (er_max_bytes r) ps) ps rs)"
  by (induction rs arbitrary: ps) (simp_all add: pools_ok_update)

lemma root_pool_other:
  "\<forall>r\<in>set rs. root_pool r \<noteq> name \<Longrightarrow>
    pool_get (foldl (\<lambda>ps r. AList.update (root_pool r) (er_max_bytes r) ps) ps rs) name = pool_get ps name"
  by (induction rs arbitrary: ps) auto

lemma root_pool_bound:
  "distinct (map er_path rs) \<Longrightarrow> r \<in> set rs \<Longrightarrow>
    pool_get (foldl (\<lambda>ps r. AList.update (root_pool r) (er_max_bytes r) ps) ps rs) (root_pool r) = er_max_bytes r"
proof (induction rs arbitrary: ps)
  case Nil
  then show ?case by simp
next
  case (Cons x rs)
  show ?case
  proof (cases "r \<in> set rs")
    case True
    then show ?thesis using Cons by simp
  next
    case False
    then have "r = x" using Cons.prems(2) by simp
    moreover have "\<forall>y\<in>set rs. root_pool y \<noteq> root_pool x"
      using Cons.prems(1) by (auto simp: root_pool_def image_iff)
    ultimately show ?thesis by (simp add: root_pool_other)
  qed
qed

lemma init_engineD:
  assumes "init_engine budget margin policy repoll roots has_disk = Inr s"
  shows "bk_entries (le_core s) = []" "le_roots s = roots" "le_groups s = []" "le_policy s = policy"
    "distinct (map er_path roots)" "bk_budget (le_core s) = \<lparr>cap_cpu = cap_cpu budget, cap_memory = cap_memory budget,
      cap_pools = foldl (\<lambda>ps r. AList.update (root_pool r) (er_max_bytes r) ps) (cap_pools budget) roots\<rparr>"
    "bk_arrivals (le_core s) = 0"
  using assms roots_apart_distinct [of roots]
  by (auto simp: init_engine_def init_broker_def validate_roots_def split: if_splits)

lemma init_engine_ok:
  assumes "init_engine budget margin policy repoll roots has_disk = Inr s" "0 \<le> pp_headroom_cpu policy"
  shows "engine_ok s"
  using init_engineD [OF assms(1)] assms(2)
  by (simp add: engine_ok_def loc.broker_ok_def all_fine_def find_entry_def pins_ok_def pinned_def)

text \<open>What calls can reach from a fresh engine with a budget and execution roots.\<close>

inductive engine_reachable :: "capacity \<Rightarrow> execution_root list \<Rightarrow> local_engine \<Rightarrow> bool" for budget roots where
  fresh: "mk_policy lf lx easy headroom gm aging = Inr policy \<Longrightarrow>
    init_engine budget margin policy repoll roots has_disk = Inr s \<Longrightarrow> list_all (\<lambda>r. 0 < er_max_bytes r) roots \<Longrightarrow>
    engine_reachable budget roots s"
| call: "engine_reachable budget roots s \<Longrightarrow> engine_step s s' \<Longrightarrow> engine_reachable budget roots s'"

definition full_budget :: "capacity \<Rightarrow> execution_root list \<Rightarrow> capacity" where
  "full_budget budget roots = \<lparr>cap_cpu = cap_cpu budget, cap_memory = cap_memory budget,
     cap_pools = foldl (\<lambda>ps r. AList.update (root_pool r) (er_max_bytes r) ps) (cap_pools budget) roots\<rparr>"

lemma engine_reachable_run:
  assumes "engine_reachable budget roots s"
  obtains s0 where "engine_step\<^sup>*\<^sup>* s0 s" "engine_ok s0" "bk_entries (le_core s0) = []"
    "bk_budget (le_core s0) = full_budget budget roots" "le_roots s = roots" "distinct (map er_path roots)"
    "list_all (\<lambda>r. 0 < er_max_bytes r) roots" "engine_ok s"
proof -
  have "\<exists>s0. engine_step\<^sup>*\<^sup>* s0 s \<and> engine_ok s0 \<and> bk_entries (le_core s0) = [] \<and>
    bk_budget (le_core s0) = full_budget budget roots \<and> le_roots s = roots \<and> distinct (map er_path roots) \<and>
    list_all (\<lambda>r. 0 < er_max_bytes r) roots \<and> engine_ok s"
    using assms
  proof induction
    case (fresh lf lx easy headroom gm aging policy margin repoll has_disk s)
    then have "0 \<le> pp_headroom_cpu policy" by (auto simp: mk_policy_def split: if_splits)
    then have "engine_ok s" by (rule init_engine_ok [OF fresh(2)])
    then show ?case
      using init_engineD [OF fresh(2)] fresh(3) by (intro exI [of _ s]) (simp add: full_budget_def)
  next
    case (call s s')
    then show ?case
      using engine_step_good [OF call.hyps(2)] engine_step_roots [OF call.hyps(2)]
      by (metis rtranclp.rtrancl_into_rtrancl)
  qed
  then show thesis using that by blast
qed

lemma engine_reachable_ok: "engine_reachable budget roots s \<Longrightarrow> engine_ok s"
  by (erule engine_reachable_run)

lemma full_budget_ok:
  "capacity_ok budget \<Longrightarrow> list_all (\<lambda>r. 0 < er_max_bytes r) roots \<Longrightarrow> capacity_ok (full_budget budget roots)"
  using root_pools_ok [of "cap_pools budget" roots] by (simp add: capacity_ok_def full_budget_def list_all_iff less_imp_le)

end
