(* ===== verification/Br_Local_Wait.thy ===== *)
theory Br_Local_Wait
  imports Br_Local_Calls
begin

text \<open>
  \<^verbatim>\<open>wait_grant\<close> with a timeout ends: every round that goes back to sleep has read the clock once more
  before the deadline, so when the clock keeps moving only a bounded number of rounds can.
\<close>

lemma wait_verdict_sleeps:
  assumes "wait_verdict pr h (Some d) e s = (Inr None, s')"
  shows "pr_clock pr (bk_ticks (le_core s)) < d" "bk_ticks (le_core s') = bk_ticks (le_core s) + 1"
  using assms
  by (auto simp: wait_verdict_def and_do_def le_read_clock_def on_core_def split: if_splits option.splits prod.splits sum.splits)

lemma wait_round_sleeps:
  assumes "engine_ok s" "wait_round pr h (Some d) s = (Inr None, s')"
  obtains t where "bk_ticks (le_core s) \<le> t" "pr_clock pr t < d" "bk_ticks (le_core s') = t + 1" "engine_ok s'"
proof -
  obtain s1 where s1: "le_pump pr s = (Inr (), s1)" "pumped pr s s1" by (rule le_pump_run [OF assms(1)])
  obtain e where "wait_verdict pr h (Some d) e s1 = (Inr None, s')"
    using assms(2) s1(1) by (auto simp: wait_round_def attempt_def and_do_def split: sum.splits option.splits)
  note verdict = wait_verdict_sleeps [OF this]
  have "engine_ok s'"
    using wait_round_sane [OF assms(1), of pr h "Some d"] assms(2) moves_ok by simp
  then show thesis
    using verdict s1(2) by (intro that [of "bk_ticks (le_core s1)"]) (simp_all add: pumped_def)
qed

lemma wait_loop_reads:
  assumes "engine_ok s" "wait_loop (Suc n) pr h (Some d) s = None"
  shows "\<exists>t. bk_ticks (le_core s) + n \<le> t \<and> pr_clock pr t < d"
  using assms
proof (induction n arbitrary: s)
  case 0
  then obtain s1 where "wait_round pr h (Some d) s = (Inr None, s1)"
    by (auto split: prod.splits sum.splits option.splits)
  then obtain t where "bk_ticks (le_core s) \<le> t" "pr_clock pr t < d"
    using wait_round_sleeps [OF 0(1)] by metis
  then show ?case by auto
next
  case (Suc n)
  then obtain s1 where s1: "wait_round pr h (Some d) s = (Inr None, s1)" "wait_loop (Suc n) pr h (Some d) s1 = None"
    by (auto simp del: wait_loop.simps(2) simp: wait_loop.simps(2) [of "Suc n"] split: prod.splits sum.splits option.splits)
  obtain t where t: "bk_ticks (le_core s) \<le> t" "bk_ticks (le_core s1) = t + 1" "engine_ok s1"
    using wait_round_sleeps [OF Suc.prems(1) s1(1)] by metis
  obtain u where "bk_ticks (le_core s1) + n \<le> u" "pr_clock pr u < d"
    using Suc.IH [OF t(3) s1(2)] by blast
  then show ?case using t by (intro exI [of _ u]) simp
qed

lemma wait_loop_result:
  "engine_ok s \<Longrightarrow> wait_loop n pr h deadline s = Some out \<Longrightarrow> port_result (fst out)"
proof (induction n arbitrary: s)
  case 0
  then show ?case by simp
next
  case (Suc n)
  have "sane s (wait_round pr h deadline s)" by (rule wait_round_sane [OF Suc.prems(1)])
  then show ?case
    using Suc.prems(2) Suc.IH moves_ok by (auto split: prod.splits sum.splits option.splits)
qed

lemma le_wait_grant_ends:
  assumes "engine_ok s" "0 < \<delta>" "\<And>n. c + \<delta> * of_nat n \<le> pr_clock pr n"
  obtains n out where "le_wait_grant n pr h (Some timeout) s = Some out" "port_result (fst out)"
proof -
  obtain now s1 where s1: "le_read_clock pr s = (now, s1)" by force
  have ok: "engine_ok s1" using moves_ok [OF read_clock_moves [OF assms(1), of pr]] s1 by simp
  obtain n where n: "(now + timeout - c) / \<delta> < of_nat n" using reals_Archimedean2 by blast
  have "wait_loop (Suc n) pr h (Some (now + timeout)) s1 \<noteq> None"
  proof
    assume "wait_loop (Suc n) pr h (Some (now + timeout)) s1 = None"
    then obtain t where t: "n \<le> t" "pr_clock pr t < now + timeout"
      using wait_loop_reads [OF ok] add_leD2 by blast
    have "\<delta> * of_nat n \<le> \<delta> * of_nat t" using t(1) assms(2) by simp
    moreover have "now + timeout - c < \<delta> * of_nat n"
      using n assms(2) by (simp add: divide_less_eq mult.commute)
    ultimately show False using assms(3) [of t] t(2) by linarith
  qed
  then obtain out where "wait_loop (Suc n) pr h (Some (now + timeout)) s1 = Some out" by blast
  then show thesis
    using s1 wait_loop_result [OF ok] by (intro that [of "Suc n" out]) (simp_all add: le_wait_grant_def del: wait_loop.simps)
qed

end
