(* ===== verification/Br_Local_Samples.thy ===== *)
theory Br_Local_Samples
  imports Br_Local_Wait Br_Samples
begin

text \<open>
  Concrete local engines for the witnesses: one with an execution root, a running gate of two keys, a
  nested job and a waiting key (\<open>rooted_engine\<close>), and one without roots whose two queued jobs are
  expected to take no time (\<open>instant_engine\<close>).
\<close>

definition sample_probes :: probes where
  "sample_probes = \<lparr>pr_clock = sample_clock, pr_avail = None, pr_alive = (\<lambda>n ow. ow_pid ow \<noteq> 13),
     pr_disk = Some (\<lambda>n path. Inr 50)\<rparr>"

definition dead_probes :: probes where
  "dead_probes = sample_probes\<lparr>pr_alive := (\<lambda>n ow. False)\<rparr>"

definition sample_root :: execution_root where
  "sample_root = \<lparr>er_path = ''/r'', er_kind = DISK, er_max_bytes = 100\<rparr>"

definition local_job :: "string \<Rightarrow> string option \<Rightarrow> rat \<Rightarrow> rat \<Rightarrow> int \<Rightarrow> rat \<Rightarrow> job_spec" where
  "local_job jid lease lo hi mem duration = \<lparr>js_job_id = jid, js_command = [''pytest''],
     js_reservation = \<lparr>res_cpu_min = lo, res_cpu_max = hi, res_memory = mem, res_pools = [], res_disk = 10\<rparr>,
     js_priority = CHECK_SUBMIT, js_expected_duration = duration, js_group = ''gate'',
     js_owner = \<lparr>ow_pid = 7, ow_start_token = None, ow_host = None\<rparr>,
     js_parent_lease = lease, js_key = None, js_cwd = None, js_env = []\<rparr>"

definition le_after_submit :: "job_spec \<Rightarrow> local_engine \<Rightarrow> local_engine" where
  "le_after_submit job s = snd (le_submit sample_probes job s)"

definition le_after_brake :: "brake_level \<Rightarrow> local_engine \<Rightarrow> local_engine" where
  "le_after_brake level s = snd (le_set_brake sample_probes level ''test'' s)"

definition fresh_rooted :: local_engine where
  "fresh_rooted = projr (init_engine sample_budget ZERO default_policy 1 [sample_root] True)"

definition rooted_engine :: local_engine where
  "rooted_engine =
     le_after_submit (local_job ''q'' None 8 8 1 60)
       (le_after_submit (local_job ''c'' (Some ''local-lease-1'') 1 2 1 5)
         (le_after_submit (local_job ''b'' None 2 3 1 50)
           (le_after_submit (local_job ''a'' None 2 3 2 60) fresh_rooted)))"

definition fresh_plain :: local_engine where
  "fresh_plain = projr (init_engine sample_budget ZERO default_policy 1 [] False)"

definition instant_engine :: local_engine where
  "instant_engine = le_after_brake GREEN
     (le_after_submit (local_job ''b'' None 8 8 8 0)
       (le_after_submit (local_job ''a'' None 8 8 8 0) (le_after_brake RED fresh_plain)))"

lemma le_reach_submit:
  "engine_reachable B R s \<Longrightarrow> reservation_ok (js_reservation job) \<Longrightarrow> 0 < js_expected_duration job \<Longrightarrow>
    engine_reachable B R (le_after_submit job s)"
  unfolding le_after_submit_def
  by (rule engine_reachable.call, assumption, rule engine_step.submit, assumption, simp,
    rule surjective_pairing)

lemma le_reach_brake: "engine_reachable B R s \<Longrightarrow> engine_reachable B R (le_after_brake level s)"
  unfolding le_after_brake_def
  by (rule engine_reachable.call, assumption, rule engine_step.brake, rule surjective_pairing)

lemma local_job_ok:
  "0 \<le> lo \<Longrightarrow> lo \<le> hi \<Longrightarrow> 0 \<le> mem \<Longrightarrow> reservation_ok (js_reservation (local_job jid l lo hi mem d))"
  "js_expected_duration (local_job jid l lo hi mem d) = d"
  by (simp_all add: local_job_def reservation_ok_def pools_ok_def)

lemma projr_run: "is_ok r \<Longrightarrow> r = Inr (projr r)"
  by (cases r) simp_all

lemma fresh_rooted_run: "init_engine sample_budget ZERO default_policy 1 [sample_root] True = Inr fresh_rooted"
  unfolding fresh_rooted_def by (rule projr_run) code_simp

lemma fresh_plain_run: "init_engine sample_budget ZERO default_policy 1 [] False = Inr fresh_plain"
  unfolding fresh_plain_def by (rule projr_run) code_simp

lemma default_policy_run: "mk_policy True True True 8 False 4 = Inr default_policy"
  by (simp add: mk_policy_def default_policy_def)

lemma rooted_reachable: "engine_reachable sample_budget [sample_root] rooted_engine"
  unfolding rooted_engine_def
  by (intro le_reach_submit engine_reachable.fresh [OF default_policy_run fresh_rooted_run])
    (simp_all add: local_job_ok sample_root_def)

definition rooted_entry :: "string \<Rightarrow> br_entry" where
  "rooted_entry k = the (find_entry (le_core rooted_engine) k)"

definition rooted_grant :: "string \<Rightarrow> grant" where
  "rooted_grant k = the (en_grant (rooted_entry k))"

definition local_handle :: "string \<Rightarrow> string \<Rightarrow> job_handle" where
  "local_handle jid token = \<lparr>jh_job_id = jid, jh_backend = ''local'', jh_token = token\<rparr>"

lemma rooted_states:
  "map (\<lambda>(k, e). (k, en_state e, map_option gr_root (en_grant e))) (bk_entries (le_core rooted_engine)) =
    [(''a'', Running, Some (Some ''/r'')), (''b'', Running, Some (Some ''/r'')),
     (''c'', Running, Some (Some ''/r'')), (''q'', Queued, None)]"
  by code_simp

definition running_root :: "br_entry \<Rightarrow> bool" where
  "running_root e \<longleftrightarrow> en_state e = Running \<and> js_parent_lease (en_spec e) = None \<and> js_group (en_spec e) = ''gate'' \<and>
     \<not> Option.is_none (en_grant e)"

definition runs_root :: "local_engine \<Rightarrow> string \<Rightarrow> bool" where
  "runs_root s k \<longleftrightarrow> (case find_entry (le_core s) k of None \<Rightarrow> False | Some e \<Rightarrow> running_root e)"

lemma runs_rootD:
  assumes "runs_root s k"
  shows "find_entry (le_core s) k = Some (the (find_entry (le_core s) k))"
    "running_root (the (find_entry (le_core s) k))"
  using assms by (auto simp: runs_root_def split: option.splits)

lemma running_rootD:
  assumes "running_root e"
  shows "en_state e = Running" "js_parent_lease (en_spec e) = None" "js_group (en_spec e) = ''gate''"
    "en_grant e = Some (the (en_grant e))"
  using assms by (auto simp: running_root_def Option.is_none_def)

lemma rooted_run: "list_all (runs_root rooted_engine) [''a'', ''b'']"
  by code_simp

lemma rooted_roots: "runs_root rooted_engine ''a''" "runs_root rooted_engine ''b''"
  using rooted_run by simp_all

lemmas rooted_found = rooted_roots [THEN runs_rootD(1), folded rooted_entry_def]

lemmas rooted_running = rooted_roots [THEN runs_rootD(2), folded rooted_entry_def]

lemmas rooted_granted = rooted_running [THEN running_rootD(4), folded rooted_grant_def]

definition braked_engine :: local_engine where
  "braked_engine = le_after_brake RED rooted_engine"

lemma braked_level: "brake_int RED \<le> brake_int (bk_brake (le_core braked_engine))"
  by code_simp

definition pumped_engine :: local_engine where
  "pumped_engine = snd (le_pump sample_probes braked_engine)"

lemma pumped_root: "runs_root pumped_engine ''a''"
  by code_simp

end
