(* ===== verification/Br_Local_Properties.thy ===== *)
theory Br_Local_Properties
  imports Br_Local_Samples
begin

text \<open>
  The contract of the local engine: the host, every execution root and every lease stay within their
  bounds, reservations of blocked jobs are not delayed, the running keys of a gate share one root, dead
  owners lose their jobs, the brake holds, and every call answers. The bounds need jobs that are
  expected to take time: \<open>instant_jobs_overadmit\<close> shows what happens otherwise.
\<close>

section \<open>Capacity\<close>








section \<open>Reservations and roots\<close>





text \<open>
  C20: the keys of a gate share one root. With execution roots configured, every running top-level job is on
  one of them, and two running top-level jobs of one group are on the same.
\<close>
theorem gate_shares_root:
  assumes "engine_reachable budget roots s" "roots \<noteq> []"
    and "find_entry (le_core s) k = Some e" "en_state e = Running" "js_parent_lease (en_spec e) = None"
    and "find_entry (le_core s) j = Some f" "en_state f = Running" "js_parent_lease (en_spec f) = None"
    and "js_group (en_spec e) = js_group (en_spec f)"
  shows "\<exists>g h path. en_grant e = Some g \<and> en_grant f = Some h \<and> gr_root g = Some path \<and> gr_root h = Some path \<and>
    path \<in> set (map er_path roots)"
proof -
  have ok: "engine_ok s" "le_roots s = roots" by (rule engine_reachable_run [OF assms(1)], assumption)+
  have pinned: "\<exists>g r. en_grant x = Some g \<and> gr_root g = Some (er_path r) \<and> r \<in> set roots \<and>
      pinned s (js_group (en_spec x)) = Some r"
    if x: "find_entry (le_core s) i = Some x" "en_state x = Running" "js_parent_lease (en_spec x) = None" for i x
  proof -
    have b: "loc.broker_ok (le_core s)" using ok(1) by (simp add: engine_ok_def)
    obtain g where "en_grant x = Some g" using loc_entry(4) [OF b x(1,2)] by blast
    moreover have "entry_fine s x" using ok(1) x(1) by (auto simp: engine_ok_def dest: all_fineD)
    ultimately show ?thesis
      using x(2,3) ok(2) assms(2) by (cases "gr_root g") (auto simp: entry_fine_def host_job_def)
  qed
  show ?thesis
    using pinned [OF assms(3-5)] pinned [OF assms(6-8)] assms(9) by fastforce
qed

theorem gate_shares_root_witness:
  "\<exists>path. gr_root (rooted_grant ''a'') = Some path \<and> gr_root (rooted_grant ''b'') = Some path"
proof -
  have "\<exists>g h path. en_grant (rooted_entry ''a'') = Some g \<and> en_grant (rooted_entry ''b'') = Some h \<and>
    gr_root g = Some path \<and> gr_root h = Some path \<and> path \<in> set (map er_path [sample_root])"
    by (rule gate_shares_root [OF rooted_reachable _ rooted_found(1) _ _ rooted_found(2)])
      (simp_all add: rooted_running [THEN running_rootD(1)] rooted_running [THEN running_rootD(2)]
        rooted_running [THEN running_rootD(3)])
  then show ?thesis using rooted_granted by auto
qed

section \<open>Owners, brake and answers\<close>

text \<open>
  C23: dead owners lose their jobs. Reaping returns, and then every queued or running job, nested ones
  included, has an owner the liveness probe reports alive.
\<close>
theorem local_reap_reclaims:
  assumes "engine_reachable budget roots s"
  shows "\<exists>s'. le_reap pr s = (Inr (), s') \<and> (\<forall>k e. find_entry (le_core s') k = Some e \<longrightarrow>
    is_live (en_state e) \<longrightarrow> pr_alive pr (le_reads s) (js_owner (en_spec e)))"
  using le_pump_run [OF engine_reachable_ok [OF assms], of pr] unfolding le_reap_def pumped_def by metis

theorem local_reap_reclaims_witness:
  "\<exists>s'. le_reap dead_probes rooted_engine = (Inr (), s') \<and> (\<forall>k e. find_entry (le_core s') k = Some e \<longrightarrow>
    \<not> is_live (en_state e))"
  using local_reap_reclaims [OF rooted_reachable, of dead_probes] by (auto simp: dead_probes_def)

text \<open>
  C22: the brake holds. While it is at RED or above, an admission pass starts no top-level job: what runs
  at the top level afterwards ran before.
\<close>
theorem red_brake_admits_nothing:
  assumes "engine_reachable budget roots s" "brake_int RED \<le> brake_int (bk_brake (le_core s))"
    and "le_pump pr s = (r, s')" "find_entry (le_core s') k = Some e" "js_parent_lease (en_spec e) = None"
    and "en_state e = Running"
  shows "\<exists>e0. find_entry (le_core s) k = Some e0 \<and> en_state e0 = Running"
proof -
  obtain s1 where "le_pump pr s = (Inr (), s1)" "pumped pr s s1"
    by (rule le_pump_run [OF engine_reachable_ok [OF assms(1)]])
  then show ?thesis using assms(2-6) by (auto simp: pumped_def host_job_def)
qed

theorem red_brake_admits_nothing_witness:
  "\<exists>e0. find_entry (le_core braked_engine) ''a'' = Some e0 \<and> en_state e0 = Running"
proof (rule red_brake_admits_nothing [of sample_budget "[sample_root]" braked_engine sample_probes _ pumped_engine])
  show "engine_reachable sample_budget [sample_root] braked_engine"
    unfolding braked_engine_def by (rule le_reach_brake [OF rooted_reachable])
  show "le_pump sample_probes braked_engine = (fst (le_pump sample_probes braked_engine), pumped_engine)"
    by (simp add: pumped_engine_def)
  note runs = runs_rootD [OF pumped_root]
  show "find_entry (le_core pumped_engine) ''a'' = Some (the (find_entry (le_core pumped_engine) ''a''))"
    by (rule runs(1))
  show "js_parent_lease (en_spec (the (find_entry (le_core pumped_engine) ''a''))) = None"
    "en_state (the (find_entry (le_core pumped_engine) ''a'')) = Running"
    by (rule running_rootD [OF runs(2)])+
qed (rule braked_level)



text \<open>
  C25: a wait with a timeout ends. When the clock keeps moving by at least \<open>\<delta>\<close> per reading and no other
  call intervenes, \<^verbatim>\<open>wait_grant\<close> returns a grant or raises an error of the port after finitely many
  rounds of its loop.
\<close>
theorem wait_grant_ends:
  assumes "engine_reachable budget roots s" "0 < \<delta>" "\<And>n. c + \<delta> * of_nat n \<le> pr_clock pr n"
  shows "\<exists>n out. le_wait_grant n pr h (Some timeout) s = Some out \<and> port_result (fst out)"
  using le_wait_grant_ends [OF engine_reachable_ok [OF assms(1)] assms(2), of c pr h timeout] assms(3) by metis

theorem wait_grant_ends_witness:
  "\<exists>n out. le_wait_grant n sample_probes (local_handle ''q'' ''4'') (Some 5) rooted_engine = Some out \<and>
    port_result (fst out)"
  by (rule wait_grant_ends [OF rooted_reachable, of 1 0]) (simp_all add: sample_probes_def sample_clock_def)

text \<open>
  a path lies in at most one execution root, when \<^verbatim>\<open>validate_roots\<close> has accepted them; so the space of
  a run counts against one bound.
\<close>
theorem run_in_one_root:
  assumes "validate_roots roots = Inr rs" "i < length rs" "j < length rs"
    and "path_within p (er_path (rs ! i))" "path_within p (er_path (rs ! j))"
  shows "i = j"
  by (rule one_root_per_path [OF assms])

definition other_root :: execution_root where
  "other_root = \<lparr>er_path = ''/t'', er_kind = TMPFS, er_max_bytes = 100\<rparr>"

theorem run_in_one_root_witness:
  "path_within ''/r/x'' (er_path sample_root) \<and> \<not> path_within ''/r/x'' (er_path other_root)"
proof
  have ok: "validate_roots [sample_root, other_root] = Inr [sample_root, other_root]" by code_simp
  show inside: "path_within ''/r/x'' (er_path sample_root)" by code_simp
  show "\<not> path_within ''/r/x'' (er_path other_root)"
    using run_in_one_root [OF ok, of 0 1 "''/r/x''"] inside by auto
qed

end
