(* ===== verification/Spec2Isabelle.thy ===== *)
theory Spec2Isabelle
  imports Adopt_Properties Wt_Properties Bl_Fold_Properties Br_Properties Br_Local_Properties
begin

text \<open>
  beadhive (\<^verbatim>\<open>bh\<close>) coordinates work on hives, databases of issues ("beads"), across several machines.
  This library models the parts of it that decide something and can lose or corrupt work when they
  decide wrongly, and proves what makes them correct. The parts and how they interact:

  \<^enum> The \<^bold>\<open>HQ storage port\<close> (\<^verbatim>\<open>packages/beadhive-hq-storage\<close>) is where frames (machines) agree: versioned
    records with compare-and-set, append-once logs, liveness stamps, committed history, the writer
    fence of a hive and the legacy epoch ref. The in-memory stores of \<^verbatim>\<open>_fake.py\<close> are the reference
    for the port's contract.
  \<^enum> The \<^bold>\<open>writer adopt protocol\<close> (\<^verbatim>\<open>src/beadhive/writer_adopt.py\<close>) moves the write authority of a hive
    to a frame through those ports: place the new epoch at HQ, then bump and push the fence.
  \<^enum> The \<^bold>\<open>worktree safety\<close> code (\<^verbatim>\<open>packages/beadhive-worktrees\<close>, \<^verbatim>\<open>worktree*.py\<close>) decides which git
    worktrees may be removed, from the states of their beads and branches.
  \<^enum> The \<^bold>\<open>bead log\<close> (\<^verbatim>\<open>packages/beadlog\<close>) is the event log of a bead: canonical JSON, ids from content,
    a merge of logs that must not depend on order, and the fold to a state.
  \<^enum> The \<^bold>\<open>validation broker\<close> (\<^verbatim>\<open>packages/beadhive-validation-broker\<close>) hands out the CPU, memory and named
    pools of a host to validation jobs, which may nest.

  \<^bold>\<open>Theories and sources.\<close> \<open>BH_Prelude\<close> holds what all components share: results (a value or an
  exception), methods (a result and the object afterwards), dictionaries, decimal strings, string
  operations and the collections of simplification rules.

  \<^item> \<open>Hq_Types\<close>: \<^verbatim>\<open>_types.py\<close>, \<^verbatim>\<open>_errors.py\<close>; \<open>Commit_Graph\<close>: the parent walk and the sync counts;
    \<open>Hq_State\<close>, \<open>Hq_Records\<close>, \<open>Hq_Log\<close>, \<open>Hq_History\<close>: the state of \<^verbatim>\<open>InMemoryHqStorage\<close> and its methods;
    \<open>Hq_System\<close>: all calls as a step relation, the invariant \<open>storage_ok\<close> and the properties.
  \<^item> \<open>Cas_Contract\<close>: the locale \<open>cas_cell\<close>, the compare-and-set contract, interpreted on the records and
    on the epoch ref. Its client lemma: one expectation has at most one winner in any run.
  \<^item> \<open>Hive_Fence\<close>, \<open>Fence_Reclaim\<close>, \<open>Fence_System\<close>: \<^verbatim>\<open>InMemoryHiveFence\<close> for one node, the failover reclaim,
    and several nodes over one remote as a step relation; \<open>Epoch_Ref\<close>: \<^verbatim>\<open>InMemoryEpochRef\<close>;
    \<open>Fence_Properties\<close>: one writer per epoch, a stale writer cannot land.
  \<^item> \<open>Writer_Adopt\<close>: \<^verbatim>\<open>run_step2\<close>, \<^verbatim>\<open>place\<close> and \<^verbatim>\<open>coexistence_adopt\<close> over ports that are records of functions;
    \<open>Adopt_Laws\<close>: the locale \<open>fence_laws\<close> of what the protocol relies on and the proof that "landed" is
    true; \<open>Adopt_Memory\<close>: its interpretation on the in-memory stores, with other frames acting
    inside every call; \<open>Adopt_Properties\<close>.
  \<^item> \<open>Wt_Classify\<close>, \<open>Wt_Naming\<close>, \<open>Wt_Evidence\<close>, \<open>Wt_Prune\<close>: the classifier, names and integration base, the
    evidence it is given and the prune; \<open>Wt_Laws\<close>, \<open>Wt_Properties\<close>: only landed work is removed, and an
    unresolved bead stops the removal.
  \<^item> \<open>Bl_Json\<close>, \<open>Bl_Time\<close>, \<open>Bl_Model\<close>, \<open>Bl_Order\<close>, \<open>Bl_Ids\<close>, \<open>Bl_Merge\<close>, \<open>Bl_Fold\<close>, \<open>Bl_Diff\<close>: the modules of
    \<^verbatim>\<open>beadlog\<close> of the same names; \<open>Bl_Canonical\<close> and \<open>Bl_Mapping\<close>: canonical text identifies a value, and
    sorted dictionaries; \<open>Bl_Join\<close>, \<open>Bl_Copies\<close>, \<open>Bl_Union\<close>, \<open>Bl_Group\<close>: the locale \<open>join_class\<close>, the join of
    the copies of an event, the abstract merge and its regrouping; \<open>Bl_Fold_Laws\<close>: checkpoints and the
    last writer; \<open>Bl_Properties\<close>, \<open>Bl_Merge_Properties\<close>, \<open>Bl_Fold_Properties\<close>.
  \<^item> \<open>Br_Types\<close>, \<open>Br_Memory\<close>: \<^verbatim>\<open>_types.py\<close>, \<^verbatim>\<open>_errors.py\<close> and \<^verbatim>\<open>InMemoryBroker\<close>; \<open>Br_Roots\<close>: the execution
    roots of \<^verbatim>\<open>_roots.py\<close>; \<open>Br_Profile\<close>, \<open>Br_Local\<close>: the resource profile, the packer and every method of
    \<^verbatim>\<open>LocalEngine\<close> in \<^verbatim>\<open>_local.py\<close>, the production engine, on the same entries.
  \<^item> What the two engines share: \<open>Br_Ledger\<close>: the abstract account (enrol, take, drop) and its bound, the
    locale \<open>ledger\<close> over the tolerance; \<open>Br_Laws\<close>: the locale \<open>lease_book\<close> with the invariant \<open>broker_ok\<close> and
    the end of a lease tree; \<open>Br_Refine\<close>: the accounts of a broker and the locale \<open>dimension\<close>, interpreted
    on CPU, memory and every pool; \<open>Br_Steps\<close>, \<open>Br_Starts\<close>: the changes both make, as ledger steps; \<open>Br_Port\<close>:
    the locale \<open>broker_port\<close>, the capacity contract of any engine whose calls refine the ledger.
  \<^item> The in-memory engine: \<open>Br_Admit\<close> (interpretation \<open>mem\<close>), \<open>Br_System\<close> (interpretation \<open>mem_port\<close>),
    \<open>Br_Samples\<close>, \<open>Br_Properties\<close>.
  \<^item> The local engine: \<open>Br_Packing\<close>: the laws of the profile; \<open>Br_Local_Serve\<close> (interpretation \<open>loc\<close>): the
    nested jobs; \<open>Br_Local_Pick\<close>, \<open>Br_Local_Flex\<close>, \<open>Br_Local_Pump\<close>: an admission pass, from what is free to the
    grants; \<open>Br_Local_System\<close>, \<open>Br_Local_Calls\<close> (interpretation \<open>loc_port\<close>): every call; \<open>Br_Local_Wait\<close>: the
    end of a wait; \<open>Br_Local_Samples\<close>, \<open>Br_Local_Properties\<close>.

  \<^bold>\<open>How the code is represented.\<close> A class is a record, an enum a datatype; a method that mutates its
  object returns the object afterwards together with its result, so that an exception raised half way
  keeps the changes made before it. A dictionary is an association list in insertion order. Injected
  callables (clocks, probes, digests, ports) are parameters. Locks make a method one step and have no
  counterpart. Concurrency between frames is interleaving of such steps.

  \<^bold>\<open>Loops and fuel.\<close> The parent walk of the commit graph takes one unit of fuel per commit
  (\<open>chain_complete\<close>: a walk that ends needs no more). \<^verbatim>\<open>_end\<close> of the broker takes one unit per entry
  (\<open>end_entry_ends\<close>: on a reachable broker it never runs out). \<^verbatim>\<open>wait_grant\<close> of the local engine takes
  one unit per round, in which no other call intervenes; \<open>wait_grant_ends\<close> shows that some number of
  rounds is enough when there is a timeout and the clock moves. \<^verbatim>\<open>run_step2\<close> is bounded by its own attempt
  limit. The climb to the integration base recurses on the finite set of links not yet visited.

  \<^bold>\<open>Domain limits.\<close> Characters are code points below 256. Numbers of the bead log and of the broker
  that Python holds as \<^verbatim>\<open>float\<close> are exact rationals: the tolerances the code writes are modelled,
  rounding is not. Labels and field names are strings. The digests are parameters; a theorem that
  needs one to be injective says so.

  \<^bold>\<open>What the properties show.\<close> Safety of the write authority (one winner per slot, one writer per epoch,
  a stale writer is fenced, "landed" is true), atomicity and idempotence of the store, append-only
  remote history; order-independence of the merge, tombstones absorb, checkpoints resume, canonical
  text and event JSON are exact; removal only of landed work; and for the broker that capacity is
  never overdrawn by either engine, that every call refines the abstract ledger, that nested leases live and die with
  their parent, that nothing that fits is left waiting; and for the local engine also that a backfill
  delays no reservation, that a gate stays on one execution root, that dead owners lose their jobs and
  that every call answers. Where the code does not do what it says,
  a theorem states the behaviour: an empty annotations object makes the merge depend on order, an
  erased event hides an id collision, an unavailable commit escapes the protocol, a grant can be
  negative, and jobs that are expected to take no time are admitted beyond the budget (so the bound of
  the local engine asks for positive expected durations).

  \<^bold>\<open>Not modelled.\<close> The command line, rendering and configuration classes; everything whose substance is
  I/O (git, SQL, subprocesses, sockets, telemetry); the archive and the stores of the bead log; the
  removal effects of worktrees; the operating-system probes of the local engine (\<^verbatim>\<open>_host.py\<close>), which are
  parameters, and the sleep and wake-up of its condition variable; the failover between engines, the
  state stream and the lifecycle dispatcher.
\<close>

end
